(* ===== verification/CPrelude.thy ===== *)
theory CPrelude
  imports Main "HOL-Library.Monad_Syntax"
begin

text \<open>
  What every component of the development shares.

  \<^item> C integers. The kernel is built for 32-bit ARM, so \<^verbatim>\<open>int\<close>, \<^verbatim>\<open>unsigned\<close>, \<^verbatim>\<open>long\<close> and
    pointers have 32 bits and \<^verbatim>\<open>unsigned long long\<close> has 64. A C value is modelled by
    the \<^typ>\<open>int\<close> it denotes, and every conversion that can change it is written as a
    cast: \<open>u8\<close>, \<open>u32\<close>, \<open>u64\<close> (reduction modulo the width) and \<open>s32\<close> (two's complement).
  \<^item> \<^verbatim>\<open>errno\<close> values, for the functions whose error returns are \<^verbatim>\<open>-Exxx\<close>.
  \<^item> Loops with \<^verbatim>\<open>break\<close>/\<^verbatim>\<open>goto\<close>: \<open>foldl_until\<close>, a fold that stops at the first \<open>Inl\<close>.
  \<^item> Intrusive lists: \<^verbatim>\<open>struct list_head\<close> rings are HOL lists; the operations that the
    code performs on them in the middle are \<open>insert_at\<close>, \<open>upd_first\<close> and \<open>del_first\<close>.
\<close>

unbundle bit_operations_syntax

named_theorems cint "casts that are the identity in range, and their bounds"

section \<open>C integers\<close>

definition u8 :: "int \<Rightarrow> int" where
  "u8 x = x mod 256"

definition u32 :: "int \<Rightarrow> int" where
  "u32 x = x mod 4294967296"

definition u64 :: "int \<Rightarrow> int" where
  "u64 x = x mod 18446744073709551616"

definition s32 :: "int \<Rightarrow> int" where
  "s32 x = (x + 2147483648) mod 4294967296 - 2147483648"

lemma u8_id [cint]: "0 \<le> x \<Longrightarrow> x < 256 \<Longrightarrow> u8 x = x"
  by (simp add: u8_def)

lemma u32_id [cint]: "0 \<le> x \<Longrightarrow> x < 4294967296 \<Longrightarrow> u32 x = x"
  by (simp add: u32_def)

lemma u64_id [cint]: "0 \<le> x \<Longrightarrow> x < 18446744073709551616 \<Longrightarrow> u64 x = x"
  by (simp add: u64_def)

lemma s32_id [cint]: "-2147483648 \<le> x \<Longrightarrow> x < 2147483648 \<Longrightarrow> s32 x = x"
  by (simp add: s32_def)

lemma u8_ge0 [simp]: "0 \<le> u8 x"
  by (simp add: u8_def)

lemma u8_less [simp]: "u8 x < 256"
  by (simp add: u8_def)

lemma u32_ge0 [simp]: "0 \<le> u32 x"
  by (simp add: u32_def)

lemma u32_less [simp]: "u32 x < 4294967296"
  by (simp add: u32_def)

lemma u64_ge0 [simp]: "0 \<le> u64 x"
  by (simp add: u64_def)

lemma u64_less [simp]: "u64 x < 18446744073709551616"
  by (simp add: u64_def)

lemma u32_idem [simp]: "u32 (u32 x) = u32 x"
  by (simp add: u32_def)

lemma u32_0 [simp]: "u32 0 = 0"
  by (simp add: u32_def)

lemma u32_take_bit: "u32 x = take_bit 32 x"
  by (simp add: u32_def take_bit_eq_mod)

lemma u8_take_bit: "u8 x = take_bit 8 x"
  by (simp add: u8_def take_bit_eq_mod)

lemma bit_u32 [simp]: "bit (u32 x) k \<longleftrightarrow> k < 32 \<and> bit x k"
  by (simp add: u32_take_bit bit_take_bit_iff)

lemma and_push_bit_1: "(x :: int) AND push_bit k 1 = 0 \<longleftrightarrow> \<not> bit x k"
  by (simp add: push_bit_eq_mult and_exp_eq_0_iff_not_bit)

text \<open>
  \<^verbatim>\<open>do_div(n, base)\<close> divides a 64-bit value by a 32-bit one. The ARM routine
  \<^verbatim>\<open>__do_div64\<close> answers a zero divisor with a warning and a zero quotient
  (\<^verbatim>\<open>as wrong as it could be\<close> in \<^verbatim>\<open>arch/arm/lib/div64.S\<close>), which is also what HOL's
  division by zero gives.
\<close>

definition do_div :: "int \<Rightarrow> int \<Rightarrow> int" where
  "do_div n base = (if u32 base = 0 then 0 else n div u32 base)"

section \<open>Error numbers\<close>

datatype errno = EPERM | EINTR | ENOMEM | EAGAIN | EFAULT | EBUSY | ENODEV | EINVAL
  | ENOTTY | ETIME | EOVERFLOW

text \<open>The return value \<^verbatim>\<open>-Exxx\<close>, for functions whose other results are numbers, too.\<close>

primrec eret :: "errno \<Rightarrow> int" where
  "eret EPERM = -1" | "eret EINTR = -4" | "eret ENOMEM = -12" | "eret EAGAIN = -11" | "eret EFAULT = -14"
| "eret EBUSY = -16" | "eret ENODEV = -19" | "eret EINVAL = -22" | "eret ENOTTY = -25" | "eret ETIME = -62"
| "eret EOVERFLOW = -75"

section \<open>Loops with an early exit\<close>

text \<open>
  \<open>foldl_until f s xs\<close> runs the body \<open>f\<close> over \<open>xs\<close>; the body answers \<open>Inr s'\<close> to go
  on with state \<open>s'\<close> and \<open>Inl r\<close> to leave the loop with \<open>r\<close>.
\<close>

fun foldl_until :: "('s \<Rightarrow> 'x \<Rightarrow> 'r + 's) \<Rightarrow> 's \<Rightarrow> 'x list \<Rightarrow> 'r + 's" where
  "foldl_until f s [] = Inr s"
| "foldl_until f s (x # xs) =
     (case f s x of Inl r \<Rightarrow> Inl r | Inr s' \<Rightarrow> foldl_until f s' xs)"

lemma foldl_until_append:
  "foldl_until f s (xs @ ys) =
     (case foldl_until f s xs of Inl r \<Rightarrow> Inl r | Inr s' \<Rightarrow> foldl_until f s' ys)"
  by (induction xs arbitrary: s) (auto split: sum.splits)

text \<open>The Hoare rule of the loop: an invariant that every turn keeps, and a
  postcondition that every exit establishes.\<close>

lemma foldl_until_rule:
  assumes "I s"
    and "\<And>s x s'. x \<in> set xs \<Longrightarrow> I s \<Longrightarrow> f s x = Inr s' \<Longrightarrow> I s'"
    and "\<And>s x r. x \<in> set xs \<Longrightarrow> I s \<Longrightarrow> f s x = Inl r \<Longrightarrow> Q r"
  shows "case foldl_until f s xs of Inl r \<Rightarrow> Q r | Inr s' \<Rightarrow> I s'"
  using assms
proof (induction xs arbitrary: s)
  case Nil
  then show ?case by simp
next
  case (Cons x xs)
  show ?case
  proof (cases "f s x")
    case (Inl r)
    with Cons.prems(3) [OF _ Cons.prems(1), of x r] show ?thesis by simp
  next
    case (Inr s')
    with Cons.prems(2) [OF _ Cons.prems(1), of x s'] have "I s'" by simp
    then have "case foldl_until f s' xs of Inl r \<Rightarrow> Q r | Inr t \<Rightarrow> I t"
    proof (rule Cons.IH)
      fix t y t' assume "y \<in> set xs" "I t" "f t y = Inr t'"
      then show "I t'" by (intro Cons.prems(2) [of y t t']) auto
    next
      fix t y r assume "y \<in> set xs" "I t" "f t y = Inl r"
      then show "Q r" by (intro Cons.prems(3) [of y t r]) auto
    qed
    with Inr show ?thesis by simp
  qed
qed

section \<open>Intrusive lists\<close>

definition insert_at :: "nat \<Rightarrow> 'a \<Rightarrow> 'a list \<Rightarrow> 'a list" where
  "insert_at i x xs = take i xs @ x # drop i xs"

fun upd_first :: "('a \<Rightarrow> bool) \<Rightarrow> ('a \<Rightarrow> 'a) \<Rightarrow> 'a list \<Rightarrow> 'a list" where
  "upd_first P f [] = []"
| "upd_first P f (x # xs) = (if P x then f x # xs else x # upd_first P f xs)"

fun del_first :: "('a \<Rightarrow> bool) \<Rightarrow> 'a list \<Rightarrow> 'a list" where
  "del_first P [] = []"
| "del_first P (x # xs) = (if P x then xs else x # del_first P xs)"

lemma length_upd_first [simp]: "length (upd_first P f xs) = length xs"
  by (induction xs) auto

lemma set_del_first_subset: "set (del_first P xs) \<subseteq> set xs"
  by (induction xs) auto

lemma upd_first_split:
  "find P xs = Some x \<Longrightarrow>
     \<exists>us vs. xs = us @ x # vs \<and> (\<forall>u \<in> set us. \<not> P u) \<and> P x
       \<and> upd_first P f xs = us @ f x # vs \<and> del_first P xs = us @ vs"
proof (induction xs)
  case Nil
  then show ?case by simp
next
  case (Cons y ys)
  show ?case
  proof (cases "P y")
    case True
    with Cons.prems have "x = y" by simp
    with True show ?thesis by (intro exI [of _ "[]"] exI [of _ ys]) auto
  next
    case False
    with Cons.prems have "find P ys = Some x" by simp
    from Cons.IH [OF this] obtain us vs where
      "ys = us @ x # vs" "\<forall>u \<in> set us. \<not> P u" "P x"
      "upd_first P f ys = us @ f x # vs" "del_first P ys = us @ vs" by blast
    with False show ?thesis by (intro exI [of _ "y # us"] exI [of _ vs]) auto
  qed
qed

lemma find_None_iff_all: "find P xs = None \<longleftrightarrow> (\<forall>x \<in> set xs. \<not> P x)"
  by (induction xs) auto

lemma upd_first_none: "\<forall>x \<in> set xs. \<not> P x \<Longrightarrow> upd_first P f xs = xs"
  by (induction xs) auto

lemma del_first_none: "\<forall>x \<in> set xs. \<not> P x \<Longrightarrow> del_first P xs = xs"
  by (induction xs) auto

end
