(* ===== verification/WmtDev.thy ===== *)
theory WmtDev
  imports CPrelude
begin

text \<open>
  The device identifiers of \<^verbatim>\<open>arch/arm/mach-wmt/wmt_clk.h\<close> and the table of
  \<^verbatim>\<open>wmt_clk.c\<close> that assigns to each device its PLL and its divisor register.
\<close>

section \<open>Device and command identifiers\<close>

datatype (plugins only: code) dev_id =
    DEV_SDMMC0 | DEV_SDMMC1 | DEV_SDMMC2 | DEV_SDMMC3 | DEV_ETHMAC | DEV_ETHPHY | DEV_RTC
  | DEV_I2C0 | DEV_I2C1 | DEV_I2C2 | DEV_GPIO | DEV_I2C3 | DEV_KEYPAD | DEV_EBM | DEV_PCM
  | DEV_PWM | DEV_SCC | DEV_SYS | DEV_AMP | DEV_MALI | DEV_PERM | DEV_MBOX
  | DEV_DDRMC | DEV_ARF | DEV_ARFP | DEV_DMA | DEV_PDMA | DEV_VDMA | DEV_UHDC | DEV_AHBB
  | DEV_NAND | DEV_NOR | DEV_SPI0 | DEV_SPI1 | DEV_SF | DEV_UART0 | DEV_UART1 | DEV_UART2
  | DEV_UART3 | DEV_UART4 | DEV_UART5
  | DEV_NA0 | DEV_NA0REF | DEV_JDEC | DEV_MSVD | DEV_VP8DEC | DEV_SAE | DEV_HDCE | DEV_H264
  | DEV_CIR | DEV_NA12 | DEV_VPU | DEV_VPP | DEV_VID | DEV_VDU | DEV_SCL444U | DEV_HDMII2C
  | DEV_HDMI | DEV_GOVW | DEV_GOVRHD | DEV_GE | DEV_DISP | DEV_DVO | DEV_HDMILVDS | DEV_SDTV
  | DEV_I2S
  | DEV_ARM | DEV_AHB | DEV_APB | DEV_L2C | DEV_L2CAXI | DEV_L2CPAXI

text \<open>
  The values the C enumeration gives. The enumerators after \<^verbatim>\<open>DEV_I2S = 96+2\<close> have no
  initialiser, so they continue at 99.
\<close>

primrec dev_num :: "dev_id \<Rightarrow> int" where
  "dev_num DEV_SDMMC0 = 0" | "dev_num DEV_SDMMC1 = 1" | "dev_num DEV_SDMMC2 = 2"
| "dev_num DEV_SDMMC3 = 3" | "dev_num DEV_ETHMAC = 4" | "dev_num DEV_ETHPHY = 6"
| "dev_num DEV_RTC = 7" | "dev_num DEV_I2C0 = 8" | "dev_num DEV_I2C1 = 9"
| "dev_num DEV_I2C2 = 10" | "dev_num DEV_GPIO = 11" | "dev_num DEV_I2C3 = 12"
| "dev_num DEV_KEYPAD = 14" | "dev_num DEV_EBM = 15" | "dev_num DEV_PCM = 16"
| "dev_num DEV_PWM = 17" | "dev_num DEV_SCC = 21" | "dev_num DEV_SYS = 22"
| "dev_num DEV_AMP = 24" | "dev_num DEV_MALI = 26" | "dev_num DEV_PERM = 30"
| "dev_num DEV_MBOX = 31"
| "dev_num DEV_DDRMC = 32" | "dev_num DEV_ARF = 35" | "dev_num DEV_ARFP = 36"
| "dev_num DEV_DMA = 37" | "dev_num DEV_PDMA = 38" | "dev_num DEV_VDMA = 39"
| "dev_num DEV_UHDC = 41" | "dev_num DEV_AHBB = 45" | "dev_num DEV_NAND = 48"
| "dev_num DEV_NOR = 49" | "dev_num DEV_SPI0 = 51" | "dev_num DEV_SPI1 = 52"
| "dev_num DEV_SF = 55" | "dev_num DEV_UART0 = 56" | "dev_num DEV_UART1 = 57"
| "dev_num DEV_UART2 = 58" | "dev_num DEV_UART3 = 59" | "dev_num DEV_UART4 = 60"
| "dev_num DEV_UART5 = 61"
| "dev_num DEV_NA0 = 64" | "dev_num DEV_NA0REF = 65" | "dev_num DEV_JDEC = 67"
| "dev_num DEV_MSVD = 68" | "dev_num DEV_VP8DEC = 69" | "dev_num DEV_SAE = 70"
| "dev_num DEV_HDCE = 71" | "dev_num DEV_H264 = 72" | "dev_num DEV_CIR = 79"
| "dev_num DEV_NA12 = 80" | "dev_num DEV_VPU = 81" | "dev_num DEV_VPP = 82"
| "dev_num DEV_VID = 83" | "dev_num DEV_VDU = 84" | "dev_num DEV_SCL444U = 85"
| "dev_num DEV_HDMII2C = 86" | "dev_num DEV_HDMI = 87" | "dev_num DEV_GOVW = 88"
| "dev_num DEV_GOVRHD = 89" | "dev_num DEV_GE = 90" | "dev_num DEV_DISP = 91"
| "dev_num DEV_DVO = 93" | "dev_num DEV_HDMILVDS = 94" | "dev_num DEV_SDTV = 95"
| "dev_num DEV_I2S = 98"
| "dev_num DEV_ARM = 99" | "dev_num DEV_AHB = 100" | "dev_num DEV_APB = 101"
| "dev_num DEV_L2C = 102" | "dev_num DEV_L2CAXI = 103" | "dev_num DEV_L2CPAXI = 104"

datatype clk_cmd = CLK_DISABLE | GET_FREQ | CLK_ENABLE | SET_DIV | SET_PLL | SET_PLLDIV

section \<open>Which PLL and which divisor register a device uses\<close>

text \<open>
  The result is the PLL number (\<open>-1\<close>: unknown device, \<open>-2\<close>: clock enable only) and
  the value stored through \<open>div_offset\<close>, which the \<^verbatim>\<open>default\<close> branch leaves alone.
\<close>

definition calc_pll_num :: "dev_id \<Rightarrow> int \<times> int option" where
  "calc_pll_num dev = (case dev of
     DEV_UART0 \<Rightarrow> (-2, Some 0) | DEV_UART1 \<Rightarrow> (-2, Some 0) | DEV_UART2 \<Rightarrow> (-2, Some 0)
   | DEV_UART3 \<Rightarrow> (-2, Some 0) | DEV_UART4 \<Rightarrow> (-2, Some 0) | DEV_UART5 \<Rightarrow> (-2, Some 0)
   | DEV_CIR \<Rightarrow> (-2, Some 0) | DEV_VP8DEC \<Rightarrow> (-2, Some 0)
   | DEV_I2C0 \<Rightarrow> (1, Some 0x3A0) | DEV_I2C1 \<Rightarrow> (1, Some 0x3A4)
   | DEV_I2C2 \<Rightarrow> (1, Some 0x3A8) | DEV_I2C3 \<Rightarrow> (1, Some 0x3AC)
   | DEV_PWM \<Rightarrow> (1, Some 0x350) | DEV_SPI0 \<Rightarrow> (1, Some 0x340) | DEV_SPI1 \<Rightarrow> (1, Some 0x344)
   | DEV_HDMILVDS \<Rightarrow> (2, Some 0x36C) | DEV_SDTV \<Rightarrow> (2, Some 0x36C)
   | DEV_DVO \<Rightarrow> (6, Some 0x370) | DEV_EBM \<Rightarrow> (3, Some 0x38C)
   | DEV_SCC \<Rightarrow> (-2, Some 0) | DEV_JDEC \<Rightarrow> (-2, Some 0) | DEV_MSVD \<Rightarrow> (-2, Some 0)
   | DEV_AMP \<Rightarrow> (-2, Some 0) | DEV_VPU \<Rightarrow> (-2, Some 0) | DEV_MBOX \<Rightarrow> (-2, Some 0)
   | DEV_GE \<Rightarrow> (-2, Some 0) | DEV_GOVRHD \<Rightarrow> (-2, Some 0) | DEV_KEYPAD \<Rightarrow> (-2, Some 0)
   | DEV_RTC \<Rightarrow> (-2, Some 0) | DEV_GPIO \<Rightarrow> (-2, Some 0)
   | DEV_MALI \<Rightarrow> (1, Some 0x388) | DEV_DDRMC \<Rightarrow> (3, Some 0x310) | DEV_NA0 \<Rightarrow> (3, Some 0x358)
   | DEV_NA12 \<Rightarrow> (1, Some 0x35C) | DEV_VPP \<Rightarrow> (1, Some 0x35C)
   | DEV_L2C \<Rightarrow> (0, Some 0x30C) | DEV_L2CAXI \<Rightarrow> (0, Some 0x3B0) | DEV_L2CPAXI \<Rightarrow> (0, Some 0x3C0)
   | DEV_ARF \<Rightarrow> (-2, Some 0) | DEV_ARFP \<Rightarrow> (-2, Some 0) | DEV_DMA \<Rightarrow> (-2, Some 0)
   | DEV_UHDC \<Rightarrow> (-2, Some 0) | DEV_PERM \<Rightarrow> (-2, Some 0) | DEV_PDMA \<Rightarrow> (-2, Some 0)
   | DEV_VDMA \<Rightarrow> (-2, Some 0)
   | DEV_VDU \<Rightarrow> (1, Some 0x368) | DEV_NAND \<Rightarrow> (1, Some 0x318) | DEV_NOR \<Rightarrow> (1, Some 0x31C)
   | DEV_SDMMC0 \<Rightarrow> (1, Some 0x330) | DEV_SDMMC1 \<Rightarrow> (1, Some 0x334)
   | DEV_SDMMC2 \<Rightarrow> (1, Some 0x338) | DEV_SDMMC3 \<Rightarrow> (1, Some 0x33C)
   | DEV_ETHMAC \<Rightarrow> (1, Some 0x394) | DEV_SF \<Rightarrow> (1, Some 0x314) | DEV_PCM \<Rightarrow> (1, Some 0x354)
   | DEV_I2S \<Rightarrow> (4, Some 0x374)
   | DEV_HDMI \<Rightarrow> (-2, Some 0) | DEV_SCL444U \<Rightarrow> (-2, Some 0) | DEV_GOVW \<Rightarrow> (-2, Some 0)
   | DEV_VID \<Rightarrow> (-2, Some 0) | DEV_SAE \<Rightarrow> (-2, Some 0)
   | DEV_ARM \<Rightarrow> (0, Some 0x300) | DEV_AHB \<Rightarrow> (1, Some 0x304) | DEV_APB \<Rightarrow> (1, Some 0x320)
   | DEV_ETHPHY \<Rightarrow> (-2, Some 25)
   | _ \<Rightarrow> (-1, None))"

definition is_sdmmc :: "dev_id \<Rightarrow> bool" where
  "is_sdmmc dev \<longleftrightarrow> dev = DEV_SDMMC0 \<or> dev = DEV_SDMMC1 \<or> dev = DEV_SDMMC2 \<or> dev = DEV_SDMMC3"

section \<open>The identifiers are distinct and below 128\<close>

definition all_devs :: "dev_id list" where
  "all_devs = [DEV_SDMMC0, DEV_SDMMC1, DEV_SDMMC2, DEV_SDMMC3, DEV_ETHMAC, DEV_ETHPHY, DEV_RTC,
    DEV_I2C0, DEV_I2C1, DEV_I2C2, DEV_GPIO, DEV_I2C3, DEV_KEYPAD, DEV_EBM, DEV_PCM,
    DEV_PWM, DEV_SCC, DEV_SYS, DEV_AMP, DEV_MALI, DEV_PERM, DEV_MBOX,
    DEV_DDRMC, DEV_ARF, DEV_ARFP, DEV_DMA, DEV_PDMA, DEV_VDMA, DEV_UHDC, DEV_AHBB,
    DEV_NAND, DEV_NOR, DEV_SPI0, DEV_SPI1, DEV_SF, DEV_UART0, DEV_UART1, DEV_UART2,
    DEV_UART3, DEV_UART4, DEV_UART5,
    DEV_NA0, DEV_NA0REF, DEV_JDEC, DEV_MSVD, DEV_VP8DEC, DEV_SAE, DEV_HDCE, DEV_H264,
    DEV_CIR, DEV_NA12, DEV_VPU, DEV_VPP, DEV_VID, DEV_VDU, DEV_SCL444U, DEV_HDMII2C,
    DEV_HDMI, DEV_GOVW, DEV_GOVRHD, DEV_GE, DEV_DISP, DEV_DVO, DEV_HDMILVDS, DEV_SDTV,
    DEV_I2S, DEV_ARM, DEV_AHB, DEV_APB, DEV_L2C, DEV_L2CAXI, DEV_L2CPAXI]"

lemma all_devs_complete: "d \<in> set all_devs"
  by (cases d) (simp_all add: all_devs_def)

lemma sorted_dev_nums: "sorted_wrt (<) (map dev_num all_devs)"
  unfolding all_devs_def list.map dev_num.simps
  by (simp only: sorted_wrt2 [OF transp_on_less] sorted_wrt1) simp

lemma dev_num_inj: "dev_num d = dev_num d' \<longleftrightarrow> d = d'"
proof
  assume eq: "dev_num d = dev_num d'"
  have "distinct (map dev_num all_devs)"
    using sorted_dev_nums by (simp only: strict_sorted_iff)
  then have "inj_on dev_num (set all_devs)" by (simp add: distinct_map)
  with eq show "d = d'" by (meson all_devs_complete inj_onD)
qed simp

lemma dev_num_range: "0 \<le> dev_num d \<and> dev_num d \<le> 104"
  by (cases d) simp_all

lemma calc_pll_num_cases:
  "calc_pll_num dev = (n, Some off) \<Longrightarrow> n \<noteq> -2 \<Longrightarrow>
     (n \<in> {0, 1, 2, 3, 4, 6}) \<and> off \<in> {0x300..0x3C0} \<and> off mod 4 = 0"
  by (cases dev) (auto simp: calc_pll_num_def)

end
