(* ===== verification/WmtClk.thy ===== *)
theory WmtClk
  imports WmtDev
begin

text \<open>
  The clock and PLL driver of the WM8850 power management controller,
  \<^verbatim>\<open>arch/arm/mach-wmt/wmt_clk.c\<close> and \<^verbatim>\<open>wmt_clk.h\<close>.

  The state \<open>pmc\<close> is the controller and the driver's own data: the register file (a
  32-bit word per word-aligned offset from \<^verbatim>\<open>PMC_BASE\<close>; the driver reads back what it
  wrote), the values that successive reads of the volatile status word at offset
  \<^verbatim>\<open>0x18\<close> will deliver, the reference counts \<^verbatim>\<open>dev_en_count\<close>, and a log of the
  register writes in the order they are made. A driver function returns \<open>None\<close> when
  the busy bits never clear within the supplied status reads (the C code then spins),
  and otherwise the new state with the C return value.
\<close>

section \<open>Registers\<close>

record pmc =
  regs :: "int \<Rightarrow> int"
  status :: "int list"
  dev_en_count :: "int \<Rightarrow> int"
  wlog :: "(int \<times> int) list"

definition PMC_PLL :: int where "PMC_PLL = 0x200"
definition PMC_CLK :: int where "PMC_CLK = 0x250"
definition PLL_BUSY :: int where "PLL_BUSY = 0x7F0038"
definition MAX_DF :: int where "MAX_DF = 127"
definition MAX_DR :: int where "MAX_DR = 1"
definition MAX_DQ :: int where "MAX_DQ = 3"
definition SRC_FREQ :: int where "SRC_FREQ = 24"

definition GET_DIVF :: "int \<Rightarrow> int" where
  "GET_DIVF d = ((drop_bit 16 d AND MAX_DF) + 1) * 2"

definition GET_DIVR :: "int \<Rightarrow> int" where
  "GET_DIVR d = (drop_bit 8 d AND MAX_DR) + 1"

definition GET_DIVQ :: "int \<Rightarrow> int" where
  "GET_DIVQ d = push_bit (nat (d AND MAX_DQ)) 1"

definition readl :: "pmc \<Rightarrow> int \<Rightarrow> int" where
  "readl s off = regs s off"

definition writel :: "pmc \<Rightarrow> int \<Rightarrow> int \<Rightarrow> pmc" where
  "writel s off v = s\<lparr>regs := (regs s)(off := u32 v), wlog := wlog s @ [(off, u32 v)]\<rparr>"

definition readb :: "pmc \<Rightarrow> int \<Rightarrow> int" where
  "readb s off = u8 (drop_bit (8 * nat (off mod 4)) (regs s (off - off mod 4)))"

definition writeb :: "pmc \<Rightarrow> int \<Rightarrow> int \<Rightarrow> pmc" where
  "writeb s off v =
     (let w = off - off mod 4; sh = 8 * nat (off mod 4);
          x = (regs s w AND NOT (push_bit sh 255)) OR push_bit sh (u8 v)
      in s\<lparr>regs := (regs s)(w := x), wlog := wlog s @ [(w, x)]\<rparr>)"

text \<open>The busy-wait loop: read the status word until no busy bit is set.\<close>

fun poll_busy :: "int list \<Rightarrow> int list option" where
  "poll_busy [] = None"
| "poll_busy (v # vs) = (if v AND PLL_BUSY \<noteq> 0 then poll_busy vs else Some vs)"

definition check_PLL_DIV_busy :: "pmc \<Rightarrow> pmc option" where
  "check_PLL_DIV_busy s =
     (case poll_busy (status s) of None \<Rightarrow> None | Some vs \<Rightarrow> Some (s\<lparr>status := vs\<rparr>))"

section \<open>Clock gating with reference counts\<close>

definition clk_reg :: "dev_id \<Rightarrow> int" where
  "clk_reg dev = PMC_CLK + 4 * (dev_num dev div 32)"

definition clk_mask :: "dev_id \<Rightarrow> int" where
  "clk_mask dev = push_bit (nat (dev_num dev - 32 * (dev_num dev div 32))) 1"

definition disable_dev_clk :: "pmc \<Rightarrow> dev_id \<Rightarrow> pmc \<times> int" where
  "disable_dev_clk s dev =
     (if dev_num dev \<ge> 128 then (s, -1)
      else let en_count = dev_en_count s (dev_num dev) in
        if en_count \<le> 1 then
          (let s1 = s\<lparr>dev_en_count := (dev_en_count s)(dev_num dev := 0)\<rparr>
           in (writel s1 (clk_reg dev) (readl s1 (clk_reg dev) AND NOT (clk_mask dev)), 0))
        else (s\<lparr>dev_en_count := (dev_en_count s)(dev_num dev := en_count - 1)\<rparr>, en_count - 1))"

definition enable_dev_clk :: "pmc \<Rightarrow> dev_id \<Rightarrow> pmc \<times> int" where
  "enable_dev_clk s dev =
     (if dev_num dev > 128 then (s, -1)
      else let en_count = dev_en_count s (dev_num dev); tmp = readl s (clk_reg dev) in
        if en_count \<le> 0 \<or> tmp AND clk_mask dev = 0 then
          (let s1 = s\<lparr>dev_en_count := (dev_en_count s)(dev_num dev := 1)\<rparr>
           in (writel s1 (clk_reg dev) (readl s1 (clk_reg dev) OR clk_mask dev), 1))
        else (s\<lparr>dev_en_count := (dev_en_count s)(dev_num dev := s32 (en_count + 1))\<rparr>,
              s32 (en_count + 1)))"

text \<open>The clock-enable test made before a divisor is written; it is skipped for the
  identifiers from 128 on.\<close>

definition clk_disabled :: "pmc \<Rightarrow> dev_id \<Rightarrow> bool" where
  "clk_disabled s dev \<longleftrightarrow> dev_num dev < 128 \<and> readl s (clk_reg dev) AND clk_mask dev = 0"


section \<open>Reading a frequency\<close>

definition select_sdtv :: "pmc \<Rightarrow> dev_id \<Rightarrow> int \<Rightarrow> pmc" where
  "select_sdtv s dev off = writeb s (off + 2) (if dev = DEV_SDTV then 1 else 0)"

text \<open>
  \<open>get_freq s dev divisor\<close>: the last argument is the value behind the pointer
  \<^verbatim>\<open>int *divisor\<close>; it is returned, updated, as the second component.
\<close>

definition get_freq :: "pmc \<Rightarrow> dev_id \<Rightarrow> int \<Rightarrow> (pmc \<times> int \<times> int) option" where
  "get_freq s dev divisor =
     (case calc_pll_num dev of
        (_, None) \<Rightarrow> Some (s, divisor, -1)
      | (PLL_NO, Some off) \<Rightarrow>
          if PLL_NO = -1 then Some (s, divisor, -1)
          else if PLL_NO = -2 then Some (s, divisor, s32 (off * 1000000))
          else do {
            s1 \<leftarrow> check_PLL_DIV_busy (select_sdtv s dev off);
            let divisor' = readb s1 off;
                tmp = readl s1 (PMC_PLL + 4 * PLL_NO);
                j = is_sdmmc dev \<and> divisor' AND 32 \<noteq> 0;
                dv = (if is_sdmmc dev then (divisor' AND 0x1F) * (if j then 64 else 1) * 2
                      else divisor' AND 0x1F);
                freq_llu = u64 (SRC_FREQ * GET_DIVF tmp * 1000000);
                freq = u32 (do_div freq_llu (GET_DIVR tmp * GET_DIVQ tmp * dv))
            in Some (s1, divisor', s32 freq)
          })"

section \<open>Setting a frequency by the divisor alone\<close>

text \<open>The unit of a requested frequency: Hz, kHz or MHz.\<close>

definition scale_target :: "int \<Rightarrow> int \<Rightarrow> int" where
  "scale_target unit freq =
     (if unit = 1 then u64 (u64 freq * 1000)
      else if unit = 2 then u64 (u64 freq * 1000000) else u64 freq)"

text \<open>
  The divisor loops \<^verbatim>\<open>for (i = 1; i < 33; i++)\<close>: the first divisor that brings the PLL
  down to the target, with the frequency it gives. \<open>div_llu\<close> is the PLL's own
  divider, \<open>k\<close> the extra SD/MMC factor.
\<close>

definition divisor_step ::
    "int \<Rightarrow> int \<Rightarrow> int \<Rightarrow> int \<Rightarrow> bool \<Rightarrow> unit \<Rightarrow> int \<Rightarrow> (int \<times> int) + unit" where
  "divisor_step PLL div_llu k freq_target even_only _ i =
     (if even_only \<and> i > 1 \<and> i mod 2 \<noteq> 0 then Inr ()
      else let PLL_tmp = do_div PLL (div_llu * (i * k)) in
        if PLL_tmp \<le> freq_target then Inl (i, PLL_tmp) else Inr ())"

definition find_divisor ::
    "int \<Rightarrow> int \<Rightarrow> int \<Rightarrow> int \<Rightarrow> bool \<Rightarrow> (int \<times> int) option" where
  "find_divisor PLL div_llu k freq_target even_only =
     (case foldl_until (divisor_step PLL div_llu k freq_target even_only) () [1..32] of
        Inl r \<Rightarrow> Some r | Inr _ \<Rightarrow> None)"

text \<open>The value written to a divisor register: 32 is encoded as 0.\<close>

definition div_value :: "dev_id \<Rightarrow> bool \<Rightarrow> int \<Rightarrow> int" where
  "div_value dev j d =
     (if dev = DEV_NA0 then 0x200 OR (if d = 32 then 0 else d)
      else (if dev = DEV_SDTV then 0x10000 else 0) + (if j then 32 else 0)
           + (if d = 32 then 0 else d))"

definition set_divisor ::
    "pmc \<Rightarrow> dev_id \<Rightarrow> int \<Rightarrow> int \<Rightarrow> int \<Rightarrow> (pmc \<times> int \<times> int) option" where
  "set_divisor s dev unit freq divisor =
     (case calc_pll_num dev of
        (_, None) \<Rightarrow> Some (s, divisor, -1)
      | (PLL_NO, Some off) \<Rightarrow>
          if PLL_NO = -1 \<or> PLL_NO = -2 then Some (s, divisor, -1)
          else do {
            s1 \<leftarrow> check_PLL_DIV_busy (select_sdtv s dev off);
            let tmp = readl s1 (PMC_PLL + 4 * PLL_NO);
                PLL = u64 (u32 (SRC_FREQ * GET_DIVF tmp) * 1000000);
                div_llu = GET_DIVR tmp * GET_DIVQ tmp;
                freq_target = scale_target unit freq;
                j = is_sdmmc dev \<and> do_div (do_div PLL div_llu) 64 \<ge> freq_target
            in if clk_disabled s1 dev then Some (s1, divisor, -1)
               else (case find_divisor PLL div_llu
                            (if is_sdmmc dev then (if j then 64 else 1) * 2 else 1)
                            freq_target (\<not> is_sdmmc dev \<and> PLL_NO = 2) of
                 None \<Rightarrow> Some (s1, divisor, -1)
               | Some (dv, PLL_tmp) \<Rightarrow> do {
                   s2 \<leftarrow> check_PLL_DIV_busy s1;
                   s3 \<leftarrow> check_PLL_DIV_busy (writel s2 off (div_value dev j dv));
                   Some (s3, dv, s32 (u32 PLL_tmp))
                 })
          })"

section \<open>Searching PLL settings\<close>

text \<open>
  The selection the nested loops keep: the dividers chosen so far (all 1 before the
  first candidate) and the distance to the target they achieve. A turn of the
  innermost loop either goes on, leaves that loop (\<^verbatim>\<open>break\<close>) or jumps to \<^verbatim>\<open>find\<close>.
\<close>

record pllsel =
  DIVF :: int
  DIVR :: int
  DIVQ :: int
  seldiv :: int
  min_minor :: int

datatype loop_exit = Break pllsel | Find pllsel

definition sel0 :: pllsel where
  "sel0 = \<lparr>DIVF = 1, DIVR = 1, DIVQ = 1, seldiv = 1, min_minor = 0xFF000000\<rparr>"

definition better :: "pllsel \<Rightarrow> int \<Rightarrow> int \<Rightarrow> int \<Rightarrow> int \<Rightarrow> int \<Rightarrow> pllsel" where
  "better b DF DR DQ VD minor =
     (if minor < min_minor b
      then \<lparr>DIVF = DF, DIVR = DR, DIVQ = DQ, seldiv = VD, min_minor = minor\<rparr> else b)"

definition pll_freq :: "int \<Rightarrow> int \<Rightarrow> int \<Rightarrow> int \<Rightarrow> int" where
  "pll_freq DF DR DQ VD =
     do_div (u64 (SRC_FREQ * 2 * (DF + 1) * 1000000)) (VD * (DR + 1) * push_bit (nat DQ) 1)"

definition df_body ::
    "int \<Rightarrow> bool \<Rightarrow> int \<Rightarrow> int \<Rightarrow> int \<Rightarrow> pllsel \<Rightarrow> int \<Rightarrow> loop_exit + pllsel" where
  "df_body freq_llu both DR DQ VD b DF =
     (if SRC_FREQ div (DR + 1) < 10 then Inl (Break b)
      else if 800 div SRC_FREQ > (2 * (DF + 1)) div (DR + 1) then Inr b
      else if 1600 div SRC_FREQ < (2 * (DF + 1)) div (DR + 1) then Inl (Break b)
      else let PLL_llu = pll_freq DF DR DQ VD in
        if PLL_llu = freq_llu then
          Inl (Find (b\<lparr>DIVF := DF, DIVR := DR, DIVQ := DQ, seldiv := VD\<rparr>))
        else if PLL_llu < freq_llu then Inr (better b DF DR DQ VD (freq_llu - PLL_llu))
        else if both then Inl (Break (better b DF DR DQ VD (PLL_llu - freq_llu)))
        else Inl (Break b))"

text \<open>The \<open>DF\<close> loop as one turn of the loop around it: \<open>Inl\<close> is the jump to \<^verbatim>\<open>find\<close>.\<close>

definition df_loop ::
    "int \<Rightarrow> bool \<Rightarrow> int \<Rightarrow> int \<Rightarrow> int \<Rightarrow> pllsel \<Rightarrow> pllsel + pllsel" where
  "df_loop freq_llu both DR DQ VD b =
     (case foldl_until (df_body freq_llu both DR DQ VD) b [0..MAX_DF] of
        Inl (Find b') \<Rightarrow> Inl b' | Inl (Break b') \<Rightarrow> Inr b' | Inr b' \<Rightarrow> Inr b')"

definition rq_pairs :: "(int \<times> int) list" where
  "rq_pairs = List.product (rev [0..MAX_DR]) (rev [0..MAX_DQ])"

definition either_sel :: "pllsel + pllsel \<Rightarrow> pllsel" where
  "either_sel r = (case r of Inl b \<Rightarrow> b | Inr b \<Rightarrow> b)"

text \<open>The loops of \<^verbatim>\<open>set_pll_speed\<close> (fixed divisor) and of \<^verbatim>\<open>set_pll_divisor\<close> (which also
  tries the divisors 32 down to 1, even ones only on PLL C and PLL G).\<close>

definition search_speed :: "int \<Rightarrow> int \<Rightarrow> int \<Rightarrow> pllsel" where
  "search_speed PLL_NO freq_llu VD =
     either_sel (foldl_until (\<lambda>b (DR, DQ). df_loop freq_llu (PLL_NO = 2) DR DQ VD b)
                   sel0 rq_pairs)"

definition vd_body ::
    "int \<Rightarrow> int \<Rightarrow> int \<Rightarrow> int \<Rightarrow> pllsel \<Rightarrow> int \<Rightarrow> pllsel + pllsel" where
  "vd_body PLL_NO freq_llu DR DQ b VD =
     (if (VD > 1 \<and> VD mod 2 \<noteq> 0) \<and> (PLL_NO = 2 \<or> PLL_NO = 6) then Inr b
      else df_loop freq_llu (PLL_NO = 2 \<or> PLL_NO = 6) DR DQ VD b)"

definition search_divisor :: "int \<Rightarrow> int \<Rightarrow> pllsel" where
  "search_divisor PLL_NO freq_llu =
     either_sel (foldl_until
       (\<lambda>b (DR, DQ). foldl_until (vd_body PLL_NO freq_llu DR DQ) b (rev [1..32]))
       sel0 rq_pairs)"

definition unit_base :: "int \<Rightarrow> int option" where
  "unit_base unit =
     (if unit = 1 then Some 1000 else if unit = 2 then Some 1000000
      else if unit \<noteq> 0 then None else Some 1)"

definition pll_word :: "pllsel \<Rightarrow> int" where
  "pll_word b = u32 (push_bit 16 (DIVF b) + push_bit 8 (DIVR b) + DIVQ b)"

definition set_pll_speed ::
    "pmc \<Rightarrow> dev_id \<Rightarrow> int \<Rightarrow> int \<Rightarrow> int \<Rightarrow> (pmc \<times> int \<times> int) option" where
  "set_pll_speed s dev unit freq divisor =
     (case calc_pll_num dev of
        (_, None) \<Rightarrow> Some (s, divisor, -1)
      | (PLL_NO, Some off) \<Rightarrow>
          if PLL_NO = -1 \<or> PLL_NO = -2 then Some (s, divisor, -1)
          else do {
            s1 \<leftarrow> check_PLL_DIV_busy (select_sdtv s dev off);
            let VD = readb s1 off in
            case unit_base unit of
              None \<Rightarrow> Some (s1, VD, -1)
            | Some base_f \<Rightarrow>
                let b = search_speed PLL_NO (u64 (u64 freq * base_f)) VD;
                    last_freq = u32 (pll_freq (DIVF b) (DIVR b) (DIVQ b) VD)
                in do {
                  s2 \<leftarrow> check_PLL_DIV_busy s1;
                  s3 \<leftarrow> check_PLL_DIV_busy (writel s2 (PMC_PLL + 4 * PLL_NO) (pll_word b));
                  Some (s3, VD, s32 last_freq)
                }
          })"

definition set_pll_divisor ::
    "pmc \<Rightarrow> dev_id \<Rightarrow> int \<Rightarrow> int \<Rightarrow> int \<Rightarrow> (pmc \<times> int \<times> int) option" where
  "set_pll_divisor s dev unit freq divisor =
     (case calc_pll_num dev of
        (_, None) \<Rightarrow> Some (s, divisor, -1)
      | (PLL_NO, Some off) \<Rightarrow>
          if PLL_NO = -1 \<or> PLL_NO = -2 then Some (s, divisor, -1)
          else do {
            s1 \<leftarrow> check_PLL_DIV_busy (select_sdtv s dev off);
            let old_divisor = readb s1 off in
            case unit_base unit of
              None \<Rightarrow> Some (s1, divisor, -1)
            | Some base_f \<Rightarrow>
                let b = search_divisor PLL_NO (u64 (u64 freq * base_f));
                    dv = seldiv b;
                    last_freq = u32 (pll_freq (DIVF b) (DIVR b) (DIVQ b) dv)
                in if clk_disabled s1 dev then Some (s1, dv, -1)
                   else do {
                     s2 \<leftarrow> check_PLL_DIV_busy s1;
                     s3 \<leftarrow> (if old_divisor < dv
                           then check_PLL_DIV_busy (writel s2 off (div_value dev False dv))
                           else Some s2);
                     s4 \<leftarrow> check_PLL_DIV_busy (writel s3 (PMC_PLL + 4 * PLL_NO) (pll_word b));
                     s5 \<leftarrow> (if old_divisor > dv
                           then check_PLL_DIV_busy (writel s4 off (div_value dev False dv))
                           else Some s4);
                     Some (s5, dv, s32 last_freq)
                   }
          })"

section \<open>Entry points\<close>

definition auto_pll_divisor ::
    "pmc \<Rightarrow> dev_id \<Rightarrow> clk_cmd \<Rightarrow> int \<Rightarrow> int \<Rightarrow> (pmc \<times> int) option" where
  "auto_pll_divisor s dev cmd unit freq =
     (case cmd of
        CLK_DISABLE \<Rightarrow> if dev_num dev < 128 then Some (disable_dev_clk s dev) else Some (s, -1)
      | CLK_ENABLE \<Rightarrow> if dev_num dev < 128 then Some (enable_dev_clk s dev) else Some (s, -1)
      | GET_FREQ \<Rightarrow> map_option (\<lambda>(s', _, r). (s', r)) (get_freq s dev 0)
      | SET_DIV \<Rightarrow> map_option (\<lambda>(s', _, r). (s', r)) (set_divisor s dev unit freq 0)
      | SET_PLL \<Rightarrow> map_option (\<lambda>(s', _, r). (s', r)) (set_pll_speed s dev unit freq 0)
      | SET_PLLDIV \<Rightarrow> map_option (\<lambda>(s', _, r). (s', r)) (set_pll_divisor s dev unit freq 0))"

text \<open>
  \<^verbatim>\<open>manu_pll_divisor\<close> programs explicit divider values. The comparisons of the old and
  the new divisor are unsigned in C. A zero divisor makes the frequency computation
  divide by zero, which the ARM run-time answers with 0.
\<close>

definition manu_pll_divisor ::
    "pmc \<Rightarrow> dev_id \<Rightarrow> int \<Rightarrow> int \<Rightarrow> int \<Rightarrow> int \<Rightarrow> (pmc \<times> int) option" where
  "manu_pll_divisor s dev F R Q dev_div =
     (if F < 0 \<or> F > MAX_DF then Some (s, -1)
      else if R < 0 \<or> R > MAX_DR then Some (s, -1)
      else if Q < 0 \<or> Q > MAX_DQ then Some (s, -1)
      else if 800 div SRC_FREQ > (2 * (F + 1)) div (R + 1) then Some (s, -1)
      else if 1600 div SRC_FREQ < (2 * (F + 1)) div (R + 1) then Some (s, -1)
      else if dev_div > (if is_sdmmc dev then 63 else 31) then Some (s, -1)
      else case calc_pll_num dev of
        (_, None) \<Rightarrow> Some (s, -1)
      | (PLL_NO, Some off) \<Rightarrow>
          if PLL_NO = -1 then Some (s, -1)
          else let old_divisor = readb s off;
                   j = is_sdmmc dev \<and> dev_div AND 32 \<noteq> 0;
                   dv = dev_div AND 0x1F;
                   freq = u32 (((1000 * SRC_FREQ * 2 * (F + 1))
                       div u32 ((R + 1) * push_bit (nat Q) 1 * dv * (if j then 128 else 1))) * 1000);
                   PLL = push_bit 16 F + push_bit 8 R + Q;
                   dval = (if j then 32 else 0) + (if dv = 32 then 0 else dv);
                   s0 = (if clk_disabled s dev then fst (enable_dev_clk s dev) else s)
               in do {
                 s1 \<leftarrow> check_PLL_DIV_busy s0;
                 s2 \<leftarrow> (if old_divisor < u32 dev_div
                       then check_PLL_DIV_busy (writel s1 off dval) else Some s1);
                 s3 \<leftarrow> check_PLL_DIV_busy (writel s2 (PMC_PLL + 4 * PLL_NO) PLL);
                 s4 \<leftarrow> (if old_divisor > u32 dev_div
                       then check_PLL_DIV_busy (writel s3 off dval) else Some s3);
                 Some (s4, s32 freq)
               })"

section \<open>The state of the gates\<close>

text \<open>
  What a driver relies on when it switches a clock it shares: the clock runs while at
  least one user is left, and the last user to leave stops it. \<open>net\<close> is the number of
  users after a sequence of enables (\<open>True\<close>) and disables (\<open>False\<close>); a disable without
  a user is ignored.
\<close>

fun net :: "int \<Rightarrow> bool list \<Rightarrow> int" where
  "net n [] = n"
| "net n (e # es) = net (if e then n + 1 else max 0 (n - 1)) es"

fun gate_run :: "('s \<Rightarrow> 'd \<Rightarrow> 's) \<Rightarrow> ('s \<Rightarrow> 'd \<Rightarrow> 's) \<Rightarrow> 's \<Rightarrow> ('d \<times> bool) list \<Rightarrow> 's" where
  "gate_run en dis s [] = s"
| "gate_run en dis s ((d, e) # ops) = gate_run en dis (if e then en s d else dis s d) ops"

definition ops_of :: "'d \<Rightarrow> ('d \<times> bool) list \<Rightarrow> bool list" where
  "ops_of d ops = map snd (filter (\<lambda>p. fst p = d) ops)"

definition clk_on :: "pmc \<Rightarrow> dev_id \<Rightarrow> bool" where
  "clk_on s d \<longleftrightarrow> readl s (clk_reg d) AND clk_mask d \<noteq> 0"

definition en_cnt :: "pmc \<Rightarrow> dev_id \<Rightarrow> int" where
  "en_cnt s d = dev_en_count s (dev_num d)"

text \<open>No user has lost its clock; nothing is said of clocks nobody counts, which the
  boot loader may have left running.\<close>

definition gate_ok :: "pmc \<Rightarrow> bool" where
  "gate_ok s \<longleftrightarrow> (\<forall>d. 0 \<le> en_cnt s d \<and> en_cnt s d \<le> 2147483647 \<and> (0 < en_cnt s d \<longrightarrow> clk_on s d))"

section \<open>Clock gating: the contract of a reference-counted gate\<close>

lemma ops_of_simps [simp]:
  "ops_of d [] = []"
  "ops_of d ((e, b) # ops) = (if e = d then b # ops_of d ops else ops_of d ops)"
  by (simp_all add: ops_of_def)

lemma net_append: "net n (xs @ ys) = net (net n xs) ys"
  by (induction xs arbitrary: n) auto

locale refcounted_gate =
  fixes inv :: "'s \<Rightarrow> bool"
    and en :: "'s \<Rightarrow> 'd \<Rightarrow> 's" and dis :: "'s \<Rightarrow> 'd \<Rightarrow> 's"
    and on :: "'s \<Rightarrow> 'd \<Rightarrow> bool" and cnt :: "'s \<Rightarrow> 'd \<Rightarrow> int"
    and limit :: int
  assumes inv_en: "inv s \<Longrightarrow> cnt s d < limit \<Longrightarrow> inv (en s d)"
    and inv_dis: "inv s \<Longrightarrow> inv (dis s d)"
    and cnt_en: "inv s \<Longrightarrow> cnt s d < limit \<Longrightarrow>
      cnt (en s d) e = (if e = d then cnt s d + 1 else cnt s e)"
    and cnt_dis: "inv s \<Longrightarrow> cnt (dis s d) e = (if e = d then max 0 (cnt s d - 1) else cnt s e)"
    and cnt_ge0: "inv s \<Longrightarrow> 0 \<le> cnt s d"
    and on_users: "inv s \<Longrightarrow> 0 < cnt s d \<Longrightarrow> on s d"
    and dis_off: "inv s \<Longrightarrow> cnt s d \<le> 1 \<Longrightarrow> \<not> on (dis s d) d"
    and on_frame: "e \<noteq> d \<Longrightarrow> on (en s d) e = on s e" "e \<noteq> d \<Longrightarrow> on (dis s d) e = on s e"
begin

lemma run_inv_cnt:
  assumes "inv s" "\<And>d. cnt s d + int (length ops) \<le> limit"
  shows "inv (gate_run en dis s ops)
    \<and> cnt (gate_run en dis s ops) d = net (cnt s d) (ops_of d ops)"
  using assms
proof (induction ops arbitrary: s)
  case Nil
  then show ?case by simp
next
  case (Cons op ops)
  obtain e b where op: "op = (e, b)" by force
  let ?t = "if b then en s e else dis s e"
  have room: "cnt s f < limit" for f using Cons.prems(2) [of f] by simp
  have inv: "inv ?t" using Cons.prems(1) room by (auto intro: inv_en inv_dis)
  have cnt: "cnt ?t f = (if f = e then (if b then cnt s e + 1 else max 0 (cnt s e - 1)) else cnt s f)" for f
    using Cons.prems(1) room by (simp add: cnt_en cnt_dis)
  have "cnt ?t f + int (length ops) \<le> limit" for f
    using Cons.prems(2) [of f] Cons.prems(2) [of e] cnt_ge0 [OF Cons.prems(1), of e] by (auto simp: cnt)
  from Cons.IH [OF inv this] show ?case by (simp add: op cnt)
qed

lemma run_users_keep_clock:
  assumes "inv s" "\<And>d. cnt s d + int (length ops) \<le> limit" "0 < net (cnt s d) (ops_of d ops)"
  shows "on (gate_run en dis s ops) d"
  using run_inv_cnt [OF assms(1,2)] assms(3) by (auto intro: on_users)

lemma run_frame: "d \<notin> fst ` set ops \<Longrightarrow> on (gate_run en dis s ops) d = on s d"
  by (induction ops arbitrary: s) (auto simp: on_frame split: prod.splits if_splits)

lemma run_append: "gate_run en dis s (xs @ ys) = gate_run en dis (gate_run en dis s xs) ys"
  by (induction xs arbitrary: s) (auto split: prod.splits)

lemma run_last_user_stops:
  assumes "inv s" "\<And>d. cnt s d + int (length xs) \<le> limit" "net (cnt s d) (ops_of d xs) \<le> 1"
    "d \<notin> fst ` set ys"
  shows "\<not> on (gate_run en dis s (xs @ (d, False) # ys)) d"
  using run_inv_cnt [OF assms(1,2), of d] assms(3,4)
  by (simp add: run_append run_frame dis_off)

end

section \<open>Clock gating: the driver\<close>

lemma writel_simps [simp]:
  "regs (writel s off v) = (regs s)(off := u32 v)"
  "status (writel s off v) = status s"
  "dev_en_count (writel s off v) = dev_en_count s"
  "wlog (writel s off v) = wlog s @ [(off, u32 v)]"
  by (simp_all add: writel_def)

lemma clk_on_bit: "clk_on s d \<longleftrightarrow> bit (regs s (clk_reg d)) (nat (dev_num d mod 32))"
  by (simp add: clk_on_def clk_mask_def readl_def and_exp_eq_0_iff_not_bit minus_mult_div_eq_mod)

lemma clk_mask_bit: "bit (clk_mask d) k \<longleftrightarrow> k = nat (dev_num d mod 32)"
  by (auto simp: clk_mask_def minus_mult_div_eq_mod bit_exp_iff)

lemma clk_pos_inj:
  assumes "clk_reg d = clk_reg e" "nat (dev_num d mod 32) = nat (dev_num e mod 32)"
  shows "d = e"
proof -
  have "dev_num d div 32 = dev_num e div 32" using assms(1) by (simp add: clk_reg_def)
  moreover have "dev_num d mod 32 = dev_num e mod 32" using assms(2) by simp
  ultimately have "dev_num d = dev_num e" by (metis mult_div_mod_eq)
  then show ?thesis by (simp add: dev_num_inj)
qed

lemma clk_pos_less: "nat (dev_num d mod 32) < 32"
  by (simp add: nat_less_iff)

lemma clk_pos_cases: "e = d \<or> clk_reg e \<noteq> clk_reg d \<or> nat (dev_num e mod 32) \<noteq> nat (dev_num d mod 32)"
  using clk_pos_inj [of e d] by blast

lemma clk_on_set:
  "clk_on (writel s (clk_reg d) (regs s (clk_reg d) OR clk_mask d)) e \<longleftrightarrow> e = d \<or> clk_on s e"
proof (cases "clk_reg e = clk_reg d")
  case True
  then show ?thesis using clk_pos_cases [of e d]
    by (simp only: clk_on_bit writel_simps bit_or_iff clk_mask_bit bit_u32 clk_pos_less
        fun_upd_same simp_thms) blast
next
  case False
  then show ?thesis by (auto simp: clk_on_bit)
qed

lemma clk_on_clear:
  "clk_on (writel s (clk_reg d) (regs s (clk_reg d) AND NOT (clk_mask d))) e \<longleftrightarrow> e \<noteq> d \<and> clk_on s e"
proof (cases "clk_reg e = clk_reg d")
  case True
  then show ?thesis using clk_pos_cases [of e d]
    by (simp only: clk_on_bit writel_simps bit_and_iff bit_not_iff clk_mask_bit bit_u32 clk_pos_less
        fun_upd_same simp_thms possible_bit_int) blast
next
  case False
  then show ?thesis by (auto simp: clk_on_bit)
qed

lemma clk_on_cnt_upd [simp]: "clk_on (s\<lparr>dev_en_count := c\<rparr>) d = clk_on s d"
  by (simp add: clk_on_bit)

lemma en_cnt_simps [simp]:
  "en_cnt (writel s off v) d = en_cnt s d"
  "en_cnt (s\<lparr>dev_en_count := (dev_en_count s)(dev_num e := n)\<rparr>) d = (if d = e then n else en_cnt s d)"
  by (auto simp: en_cnt_def dev_num_inj)

lemma en_dev_cnt:
  "gate_ok s \<Longrightarrow> en_cnt s d < 2147483647 \<Longrightarrow>
     en_cnt (fst (enable_dev_clk s d)) e = (if e = d then en_cnt s d + 1 else en_cnt s e)"
proof -
  assume ok: "gate_ok s" and room: "en_cnt s d < 2147483647"
  have "\<not> dev_num d > 128" using dev_num_range [of d] by simp
  moreover have "0 \<le> en_cnt s d" "0 < en_cnt s d \<longrightarrow> clk_on s d" using ok by (simp_all add: gate_ok_def)
  ultimately show ?thesis using room
    by (cases "0 < en_cnt s d") (simp_all add: enable_dev_clk_def Let_def clk_on_def en_cnt_def [symmetric] s32_id)
qed

lemma en_dev_on: "clk_on (fst (enable_dev_clk s d)) e \<longleftrightarrow> e = d \<or> clk_on s e"
proof -
  let ?s = "s\<lparr>dev_en_count := (dev_en_count s)(dev_num d := 1)\<rparr>"
  have lt: "\<not> dev_num d > 128" using dev_num_range [of d] by simp
  have set: "clk_on (writel ?s (clk_reg d) (readl ?s (clk_reg d) OR clk_mask d)) e \<longleftrightarrow> e = d \<or> clk_on s e"
    using clk_on_set [of ?s d e] by (simp add: readl_def)
  show ?thesis
  proof (cases "en_cnt s d \<le> 0 \<or> \<not> clk_on s d")
    case True
    then show ?thesis using set lt
      by (simp add: enable_dev_clk_def Let_def clk_on_def [of s d] en_cnt_def)
  next
    case False
    then show ?thesis using lt
      by (auto simp: enable_dev_clk_def Let_def clk_on_def [of s d] en_cnt_def)
  qed
qed

lemma dis_dev_cnt:
  "gate_ok s \<Longrightarrow>
     en_cnt (fst (disable_dev_clk s d)) e = (if e = d then max 0 (en_cnt s d - 1) else en_cnt s e)"
  using dev_num_range [of d]
  by (cases "en_cnt s d \<le> 1") (simp_all add: disable_dev_clk_def Let_def en_cnt_def [of s d, symmetric])

lemma dis_dev_on:
  "clk_on (fst (disable_dev_clk s d)) e \<longleftrightarrow> (if e = d then 1 < en_cnt s d \<and> clk_on s d else clk_on s e)"
proof -
  let ?s = "s\<lparr>dev_en_count := (dev_en_count s)(dev_num d := 0)\<rparr>"
  have lt: "\<not> dev_num d \<ge> 128" using dev_num_range [of d] by simp
  have clear: "clk_on (writel ?s (clk_reg d) (readl ?s (clk_reg d) AND NOT (clk_mask d))) e
      \<longleftrightarrow> e \<noteq> d \<and> clk_on s e"
    using clk_on_clear [of ?s d e] by (simp add: readl_def)
  show ?thesis
  proof (cases "en_cnt s d \<le> 1")
    case True
    then show ?thesis using clear lt by (simp add: disable_dev_clk_def Let_def en_cnt_def [of s d])
  next
    case False
    then show ?thesis using lt by (simp add: disable_dev_clk_def Let_def en_cnt_def [of s d])
  qed
qed

lemma gate_ok_enable: "gate_ok s \<Longrightarrow> en_cnt s d < 2147483647 \<Longrightarrow> gate_ok (fst (enable_dev_clk s d))"
  by (simp add: gate_ok_def [of "fst _"] en_dev_cnt en_dev_on) (auto simp: gate_ok_def)

lemma gate_ok_disable: "gate_ok s \<Longrightarrow> gate_ok (fst (disable_dev_clk s d))"
proof -
  assume ok: "gate_ok s"
  then have "0 \<le> en_cnt s e \<and> en_cnt s e \<le> 2147483647 \<and> (0 < en_cnt s e \<longrightarrow> clk_on s e)" for e
    by (simp add: gate_ok_def)
  note all = this
  show ?thesis unfolding gate_ok_def [of "fst _"]
  proof
    fix e
    show "0 \<le> en_cnt (fst (disable_dev_clk s d)) e \<and> en_cnt (fst (disable_dev_clk s d)) e \<le> 2147483647 \<and>
      (0 < en_cnt (fst (disable_dev_clk s d)) e \<longrightarrow> clk_on (fst (disable_dev_clk s d)) e)"
      using all [of e] by (auto simp: dis_dev_cnt [OF ok] dis_dev_on)
  qed
qed

interpretation clk: refcounted_gate gate_ok "\<lambda>s d. fst (enable_dev_clk s d)"
  "\<lambda>s d. fst (disable_dev_clk s d)" clk_on en_cnt 2147483647
  by unfold_locales
    (simp_all add: gate_ok_enable gate_ok_disable en_dev_cnt dis_dev_cnt en_dev_on dis_dev_on,
      simp_all add: gate_ok_def)

section \<open>Sequences of gating calls\<close>

definition clk_call :: "pmc \<Rightarrow> dev_id \<Rightarrow> bool \<Rightarrow> pmc" where
  "clk_call s d e =
     (case auto_pll_divisor s d (if e then CLK_ENABLE else CLK_DISABLE) 0 0 of
        Some (s', _) \<Rightarrow> s' | None \<Rightarrow> s)"

definition pmc0 :: pmc where
  "pmc0 = \<lparr>regs = (\<lambda>_. 0), status = replicate 8 0, dev_en_count = (\<lambda>_. 0), wlog = []\<rparr>"

lemma clk_call_eq:
  "clk_call s d True = fst (enable_dev_clk s d)" "clk_call s d False = fst (disable_dev_clk s d)"
  using dev_num_range [of d] by (simp_all add: clk_call_def auto_pll_divisor_def split: prod.split)

text \<open>
  C18. Starting from a state in which every counted user has its clock, any sequence of
  \<^verbatim>\<open>CLK_ENABLE\<close> and \<^verbatim>\<open>CLK_DISABLE\<close> calls for any devices (short enough for the
  \<^verbatim>\<open>int\<close> counters) keeps it so: each counter is the number of users left, and every
  device with a user left is clocked.
\<close>

theorem clk_users_keep_clock:
  assumes "gate_ok s" "\<And>d. en_cnt s d + int (length ops) \<le> 2147483647"
    and "s' = gate_run (\<lambda>s d. clk_call s d True) (\<lambda>s d. clk_call s d False) s ops"
  shows "gate_ok s' \<and> en_cnt s' d = net (en_cnt s d) (ops_of d ops)
    \<and> (0 < net (en_cnt s d) (ops_of d ops) \<longrightarrow> clk_on s' d)"
  unfolding assms(3) clk_call_eq
  using clk.run_inv_cnt [OF assms(1,2)] clk.run_users_keep_clock [OF assms(1,2)] by blast

theorem clk_users_keep_clock_witness:
  "clk_on (gate_run (\<lambda>s d. clk_call s d True) (\<lambda>s d. clk_call s d False) pmc0
     [(DEV_SF, True), (DEV_SF, True), (DEV_UART0, True), (DEV_SF, False)]) DEV_SF"
proof -
  have "gate_ok pmc0" by (simp add: gate_ok_def en_cnt_def pmc0_def)
  from clk_users_keep_clock [OF this _ refl, where d = DEV_SF and
      ops = "[(DEV_SF, True), (DEV_SF, True), (DEV_UART0, True), (DEV_SF, False)]"]
  show ?thesis by (simp add: en_cnt_def pmc0_def)
qed

text \<open>
  C31. The last user that disables a device stops its clock, and no sequence of calls for
  other devices starts it again.
\<close>

theorem clk_last_user_stops:
  assumes "gate_ok s" "\<And>d. en_cnt s d + int (length xs) \<le> 2147483647"
    and "net (en_cnt s d) (ops_of d xs) \<le> 1" "d \<notin> fst ` set ys"
  shows "\<not> clk_on (gate_run (\<lambda>s d. clk_call s d True) (\<lambda>s d. clk_call s d False) s
           (xs @ (d, False) # ys)) d"
  unfolding clk_call_eq using assms by (rule clk.run_last_user_stops)

theorem clk_last_user_stops_witness:
  "\<not> clk_on (gate_run (\<lambda>s d. clk_call s d True) (\<lambda>s d. clk_call s d False) pmc0
       ([(DEV_SF, True), (DEV_NAND, True)] @ (DEV_SF, False) # [(DEV_NAND, True)])) DEV_SF"
proof -
  have ok: "gate_ok pmc0" by (simp add: gate_ok_def en_cnt_def pmc0_def)
  show ?thesis
    by (rule clk_last_user_stops [OF ok]) (simp_all add: en_cnt_def pmc0_def)
qed

end
