(* ===== verification/WmtDivisor.thy ===== *)
theory WmtDivisor
  imports WmtClk
begin

text \<open>
  Frequencies set by the divisor alone: \<^verbatim>\<open>set_divisor\<close> and \<^verbatim>\<open>get_freq\<close> of
  \<^verbatim>\<open>wmt_clk.c\<close>. \<open>permitted\<close> are the divisors the loop may try, \<open>div_freq\<close> is the
  frequency such a divisor gives. The lemmas reduce the driver function to the search
  (\<open>set_divisor_eq\<close>) and the search to its specification (\<open>find_divisor_Some\<close>,
  \<open>find_divisor_best\<close>).
\<close>

section \<open>The vocabulary of the specification\<close>

text \<open>\<open>ready n s\<close>: the status word will be read idle at least \<open>n\<close> times.\<close>

definition ready :: "nat \<Rightarrow> pmc \<Rightarrow> bool" where
  "ready n s \<longleftrightarrow> n \<le> length (filter (\<lambda>v. v AND PLL_BUSY = 0) (status s))"

definition permitted :: "bool \<Rightarrow> int \<Rightarrow> bool" where
  "permitted even_only i \<longleftrightarrow> 1 \<le> i \<and> i \<le> 32 \<and> \<not> (even_only \<and> i > 1 \<and> i mod 2 \<noteq> 0)"

definition pll_base :: "pmc \<Rightarrow> int \<Rightarrow> int" where
  "pll_base s n = SRC_FREQ * GET_DIVF (readl s (PMC_PLL + 4 * n)) * 1000000"

definition pll_post :: "pmc \<Rightarrow> int \<Rightarrow> int" where
  "pll_post s n = GET_DIVR (readl s (PMC_PLL + 4 * n)) * GET_DIVQ (readl s (PMC_PLL + 4 * n))"

definition div_freq :: "pmc \<Rightarrow> int \<Rightarrow> int \<Rightarrow> int \<Rightarrow> int" where
  "div_freq s n k i = pll_base s n div (pll_post s n * (i * k))"

text \<open>The prescaler the code selects: SD/MMC devices have a fixed factor 2 and a
  switchable factor 64.\<close>

definition sd_j :: "pmc \<Rightarrow> dev_id \<Rightarrow> int \<Rightarrow> int \<Rightarrow> bool" where
  "sd_j s dev n t \<longleftrightarrow> is_sdmmc dev \<and> do_div (do_div (pll_base s n) (pll_post s n)) 64 \<ge> t"

definition prescale :: "pmc \<Rightarrow> dev_id \<Rightarrow> int \<Rightarrow> int \<Rightarrow> int" where
  "prescale s dev n t = (if is_sdmmc dev then (if sd_j s dev n t then 64 else 1) * 2 else 1)"

text \<open>All settings a device has: the factor behind the divisor and the divisor.\<close>

definition prescales :: "dev_id \<Rightarrow> int set" where
  "prescales dev = (if is_sdmmc dev then {2, 128} else {1})"

definition even_only :: "dev_id \<Rightarrow> int \<Rightarrow> bool" where
  "even_only dev n \<longleftrightarrow> \<not> is_sdmmc dev \<and> n = 2"

definition setting :: "dev_id \<Rightarrow> int \<Rightarrow> int \<Rightarrow> int \<Rightarrow> bool" where
  "setting dev n k i \<longleftrightarrow> k \<in> prescales dev \<and> permitted (even_only dev n) i"

section \<open>The busy wait\<close>

lemma ready_writel [simp]: "ready n (writel s off v) = ready n s"
  by (simp add: ready_def)

lemma ready_writeb [simp]: "ready n (writeb s off v) = ready n s"
  by (simp add: ready_def writeb_def Let_def)

lemma poll_busy_ready:
  "Suc n \<le> length (filter (\<lambda>v. v AND PLL_BUSY = 0) vs) \<Longrightarrow>
     \<exists>ws. poll_busy vs = Some ws \<and> n \<le> length (filter (\<lambda>v. v AND PLL_BUSY = 0) ws)"
  by (induction vs) auto

lemma check_busy_ready:
  assumes "ready (Suc n) s"
  shows "\<exists>ws. check_PLL_DIV_busy s = Some (s\<lparr>status := ws\<rparr>) \<and> ready n (s\<lparr>status := ws\<rparr>)"
  using poll_busy_ready [of n "status s"] assms
  by (auto simp: ready_def check_PLL_DIV_busy_def)

lemma check_busy_frame:
  "check_PLL_DIV_busy s = Some s' \<Longrightarrow> \<exists>ws. s' = s\<lparr>status := ws\<rparr>"
  by (auto simp: check_PLL_DIV_busy_def split: option.splits)

lemma regs_status_upd [simp]:
  "readl (s\<lparr>status := ws\<rparr>) off = readl s off"
  "readb (s\<lparr>status := ws\<rparr>) off = readb s off"
  "clk_disabled (s\<lparr>status := ws\<rparr>) dev = clk_disabled s dev"
  by (simp_all add: readl_def readb_def clk_disabled_def)

section \<open>Register fields\<close>

lemma and_low_bits:
  "(x :: int) AND 3 = x mod 4" "x AND 15 = x mod 16" "x AND 31 = x mod 32"
  "x AND 127 = x mod 128" "x AND 255 = x mod 256"
  using take_bit_eq_mask [of 2 x] take_bit_eq_mask [of 4 x] take_bit_eq_mask [of 5 x]
    take_bit_eq_mask [of 7 x] take_bit_eq_mask [of 8 x]
  by (simp_all add: take_bit_eq_mod mask_eq_exp_minus_1)

lemma readl_writel [simp]: "readl (writel s off v) off' = (if off' = off then u32 v else readl s off')"
  by (simp add: readl_def)

lemma readl_select_sdtv: "off mod 4 = 0 \<Longrightarrow> off' \<noteq> off \<Longrightarrow> readl (select_sdtv s dev off) off' = readl s off'"
  by (simp add: select_sdtv_def writeb_def Let_def readl_def mod_add_left_eq [of off 4 2, symmetric])

lemma readb_select_sdtv: "off mod 4 = 0 \<Longrightarrow> readb (select_sdtv s dev off) off = readb s off"
proof -
  assume off: "off mod 4 = 0"
  then have m: "(off + 2) mod 4 = 2" by (simp add: mod_add_left_eq [of off 4 2, symmetric])
  have "take_bit 8 ((x AND NOT (push_bit 16 m)) OR push_bit 16 v) = take_bit 8 x" for x v m :: int
    by (rule bit_eqI) (auto simp: bit_take_bit_iff bit_or_iff bit_and_iff bit_not_iff bit_push_bit_iff
        simp flip: push_bit_of_1)
  moreover have "take_bit 8 x AND 255 = take_bit 8 x" for x :: int
    using take_bit_eq_mask [of 8 "take_bit 8 x"] by (simp add: mask_eq_exp_minus_1)
  ultimately show ?thesis
    using off by (simp add: select_sdtv_def writeb_def readb_def Let_def m u8_take_bit)
qed

lemma clk_reg_range: "clk_reg d \<in> {0x250..0x25C}"
  using dev_num_range [of d] by (auto simp: clk_reg_def PMC_CLK_def)

lemma clk_disabled_select_sdtv:
  "off mod 4 = 0 \<Longrightarrow> 0x300 \<le> off \<Longrightarrow> clk_disabled (select_sdtv s dev off) d = clk_disabled s d"
  using clk_reg_range [of d] by (auto simp: clk_disabled_def readl_select_sdtv)

lemma GET_DIVR_range: "GET_DIVR x \<in> {1, 2}"
proof -
  have "drop_bit 8 x AND 1 \<in> {0, 1}" by (simp add: and_one_eq) presburger
  then show ?thesis by (auto simp: GET_DIVR_def MAX_DR_def)
qed

lemma GET_DIVQ_range: "GET_DIVQ x \<in> {1, 2, 4, 8}"
proof -
  have "x mod 4 \<in> {0, 1, 2, 3}" by (simp only: insert_iff empty_iff) presburger
  then show ?thesis by (auto simp: GET_DIVQ_def MAX_DQ_def and_low_bits)
qed

lemma GET_DIVF_range: "2 \<le> GET_DIVF x \<and> GET_DIVF x \<le> 256"
proof -
  have "0 \<le> drop_bit 16 x mod 128 \<and> drop_bit 16 x mod 128 \<le> 127" by simp
  then show ?thesis unfolding GET_DIVF_def MAX_DF_def and_low_bits by simp
qed

section \<open>The divisor search\<close>

lemma foldl_until_first:
  "foldl_until (\<lambda>_ x. if P x then Inl (g x) else Inr ()) () xs =
     (case find P xs of Some x \<Rightarrow> Inl (g x) | None \<Rightarrow> Inr ())"
  by (induction xs) auto

lemma find_upto_Some:
  assumes "find P [lo..hi] = Some i"
  shows "lo \<le> i" "i \<le> hi" "P i" "\<And>i'. lo \<le> i' \<Longrightarrow> i' < i \<Longrightarrow> \<not> P i'"
proof -
  from assms obtain n where n: "n < length [lo..hi]" "P ([lo..hi] ! n)" "i = [lo..hi] ! n"
      "\<forall>j<n. \<not> P ([lo..hi] ! j)"
    by (auto simp: find_Some_iff)
  then have i: "i = lo + int n" by (simp add: nth_upto)
  show "lo \<le> i" "i \<le> hi" "P i" using n i by auto
  fix i' assume *: "lo \<le> i'" "i' < i"
  then have "nat (i' - lo) < n" using i by linarith
  then have "\<not> P ([lo..hi] ! nat (i' - lo))" using n(4) by blast
  moreover have "[lo..hi] ! nat (i' - lo) = i'" using * i n(1) by (simp add: nth_upto)
  ultimately show "\<not> P i'" by simp
qed

lemma find_upto_None: "find P [lo..hi] = None \<Longrightarrow> lo \<le> i \<Longrightarrow> i \<le> hi \<Longrightarrow> \<not> P i"
  by (auto simp: find_None_iff)

lemma find_divisor_find:
  "find_divisor PLL dl k t eo =
     map_option (\<lambda>i. (i, do_div PLL (dl * (i * k))))
       (find (\<lambda>i. \<not> (eo \<and> i > 1 \<and> i mod 2 \<noteq> 0) \<and> do_div PLL (dl * (i * k)) \<le> t) [1..32])"
proof -
  have step: "divisor_step PLL dl k t eo = (\<lambda>_ i. if \<not> (eo \<and> i > 1 \<and> i mod 2 \<noteq> 0) \<and> do_div PLL (dl * (i * k)) \<le> t
      then Inl (i, do_div PLL (dl * (i * k))) else Inr ())"
    by (intro ext) (auto simp: divisor_step_def Let_def)
  show ?thesis
    unfolding find_divisor_def step foldl_until_first by (simp split: option.split)
qed

lemma find_divisor_Some:
  assumes "find_divisor PLL dl k t eo = Some (i, f)"
  shows "permitted eo i" "f = do_div PLL (dl * (i * k))" "f \<le> t"
    "\<And>i'. permitted eo i' \<Longrightarrow> i' < i \<Longrightarrow> t < do_div PLL (dl * (i' * k))"
proof -
  let ?P = "\<lambda>i. \<not> (eo \<and> i > 1 \<and> i mod 2 \<noteq> 0) \<and> do_div PLL (dl * (i * k)) \<le> t"
  have find: "find ?P [1..32] = Some i" and f: "f = do_div PLL (dl * (i * k))"
    using assms by (auto simp: find_divisor_find)
  note * = find_upto_Some [OF find]
  show "permitted eo i" unfolding permitted_def using *(1-3) by (intro conjI) simp_all
  show "f = do_div PLL (dl * (i * k))" by (rule f)
  show "f \<le> t" unfolding f by (rule conjunct2 [OF *(3)])
  fix i' assume i': "permitted eo i'" "i' < i"
  then have "\<not> ?P i'" by (intro *(4)) (simp_all add: permitted_def)
  with i'(1) show "t < do_div PLL (dl * (i' * k))" by (simp add: permitted_def)
qed

lemma find_divisor_None:
  assumes "find_divisor PLL dl k t eo = None" "permitted eo i"
  shows "t < do_div PLL (dl * (i * k))"
proof -
  let ?P = "\<lambda>i. \<not> (eo \<and> i > 1 \<and> i mod 2 \<noteq> 0) \<and> do_div PLL (dl * (i * k)) \<le> t"
  have "find ?P [1..32] = None" using assms(1) by (simp add: find_divisor_find)
  then have "\<not> ?P i" by (rule find_upto_None) (use assms(2) in \<open>auto simp: permitted_def\<close>)
  with assms(2) show ?thesis by (simp add: permitted_def)
qed

lemma do_div_antimono:
  "0 \<le> n \<Longrightarrow> 0 < a \<Longrightarrow> a \<le> b \<Longrightarrow> b < 4294967296 \<Longrightarrow> do_div n b \<le> do_div n a"
  by (simp add: do_div_def u32_id zdiv_mono2)

text \<open>The divisor found gives the highest frequency not above the target.\<close>

lemma find_divisor_best:
  assumes "find_divisor PLL dl k t eo = Some (i, f)"
    and "0 \<le> PLL" "0 < dl" "0 < k" "dl * (32 * k) < 4294967296"
    and "permitted eo i'" "do_div PLL (dl * (i' * k)) \<le> t"
  shows "do_div PLL (dl * (i' * k)) \<le> f"
proof -
  note f = find_divisor_Some [OF assms(1)]
  have "i \<le> i'" using f(4) [OF assms(6)] assms(7) by linarith
  then have "dl * (i * k) \<le> dl * (i' * k)"
    using assms(3,4) by (intro mult_left_mono mult_right_mono) auto
  moreover have "dl * (i' * k) \<le> dl * (32 * k)"
    using assms(3,4,6) by (intro mult_left_mono mult_right_mono) (auto simp: permitted_def)
  moreover have "0 < dl * (i * k)" using f(1) assms(3,4) by (auto simp: permitted_def intro!: mult_pos_pos)
  ultimately show ?thesis unfolding f(2) using assms(2,5) by (intro do_div_antimono) auto
qed

section \<open>What a programmed divisor delivers\<close>

lemma pll_base_range: "0 < pll_base s n \<and> pll_base s n \<le> 6144000000"
  using GET_DIVF_range [of "readl s (PMC_PLL + 4 * n)"] by (auto simp: pll_base_def SRC_FREQ_def)

lemma pll_post_range: "1 \<le> pll_post s n \<and> pll_post s n \<le> 16"
  using GET_DIVR_range [of "readl s (PMC_PLL + 4 * n)"] GET_DIVQ_range [of "readl s (PMC_PLL + 4 * n)"]
  by (auto simp: pll_post_def)

lemma pll_base_u64:
  "u64 (u32 (SRC_FREQ * GET_DIVF (readl s (PMC_PLL + 4 * n))) * 1000000) = pll_base s n"
  "u64 (SRC_FREQ * GET_DIVF (readl s (PMC_PLL + 4 * n)) * 1000000) = pll_base s n"
  using GET_DIVF_range [of "readl s (PMC_PLL + 4 * n)"]
  by (simp_all add: pll_base_def SRC_FREQ_def cint)

lemma do_div_freq:
  assumes "1 \<le> i" "i \<le> 32" "1 \<le> k" "k \<le> 128"
  shows "do_div (pll_base s n) (pll_post s n * (i * k)) = div_freq s n k i"
proof -
  have ik: "1 \<le> i * k" "i * k \<le> 32 * 128"
    using assms mult_mono [of i 32 k 128] mult_mono [of 1 i 1 k] by auto
  have "1 \<le> pll_post s n * (i * k)" "pll_post s n * (i * k) \<le> 16 * (32 * 128)"
    using ik pll_post_range [of s n] mult_mono [of "pll_post s n" 16 "i * k" "32 * 128"]
      mult_mono [of 1 "pll_post s n" 1 "i * k"] by auto
  then show ?thesis by (simp add: do_div_def div_freq_def u32_id)
qed

lemma prescale_range: "1 \<le> prescale s dev n t \<and> prescale s dev n t \<le> 128"
  by (simp add: prescale_def)

text \<open>One equation for the whole function on a device that has a divisor and whose clock runs.\<close>

lemma set_divisor_eq:
  assumes pll: "calc_pll_num dev = (n, Some off)" "0 \<le> n" and on: "clk_on s dev" and rdy: "ready 3 s"
    and t: "t = scale_target unit freq"
  shows "\<exists>ws vs. set_divisor s dev unit freq d0 =
    Some (case find_divisor (pll_base s n) (pll_post s n) (prescale s dev n t) t (even_only dev n) of
        None \<Rightarrow> ((select_sdtv s dev off)\<lparr>status := ws\<rparr>, d0, -1)
      | Some (i, f) \<Rightarrow>
          ((writel (select_sdtv s dev off) off (div_value dev (sd_j s dev n t) i))\<lparr>status := vs\<rparr>, i, s32 (u32 f)))"
proof -
  have off: "off mod 4 = 0" "0x300 \<le> off" and n: "n \<in> {0, 1, 2, 3, 4, 6}" and n1: "n \<noteq> -1" "n \<noteq> -2"
    using calc_pll_num_cases [OF pll(1)] pll(2) by auto
  let ?s0 = "select_sdtv s dev off"
  have rdy0: "ready (Suc 2) ?s0" using rdy by (simp add: select_sdtv_def numeral_3_eq_3)
  then obtain ws where c1: "check_PLL_DIV_busy ?s0 = Some (?s0\<lparr>status := ws\<rparr>)" and r1: "ready (Suc 1) (?s0\<lparr>status := ws\<rparr>)"
    using check_busy_ready by (metis Suc_1)
  from check_busy_ready [OF r1] obtain ws2 where c2: "check_PLL_DIV_busy (?s0\<lparr>status := ws\<rparr>) = Some (?s0\<lparr>status := ws2\<rparr>)"
    and r2: "ready (Suc 0) (?s0\<lparr>status := ws2\<rparr>)" by auto
  let ?w = "\<lambda>v. writel (?s0\<lparr>status := ws2\<rparr>) off v"
  have "\<exists>vs. check_PLL_DIV_busy (?w v) = Some ((?w v)\<lparr>status := vs\<rparr>)" for v
    using check_busy_ready [of 0 "?w v"] r2 by auto
  then obtain vs where c3: "\<And>v. check_PLL_DIV_busy (?w v) = Some ((?w v)\<lparr>status := vs v\<rparr>)" by metis
  have reads: "readl ?s0 (PMC_PLL + 4 * n) = readl s (PMC_PLL + 4 * n)"
    using off n by (intro readl_select_sdtv) (auto simp: PMC_PLL_def)
  have dis: "\<not> clk_disabled ?s0 dev"
    using on off by (simp add: clk_disabled_select_sdtv) (simp add: clk_disabled_def clk_on_def)
  have wl: "(?w v)\<lparr>status := ws'\<rparr> = (writel ?s0 off v)\<lparr>status := ws'\<rparr>" for v ws'
    by (simp add: writel_def)
  let ?find = "find_divisor (pll_base s n) (pll_post s n) (prescale s dev n t) t (even_only dev n)"
  have eq: "set_divisor s dev unit freq d0 =
    (case ?find of None \<Rightarrow> Some (?s0\<lparr>status := ws\<rparr>, d0, -1)
     | Some (dv, f) \<Rightarrow> do {
         s2 \<leftarrow> check_PLL_DIV_busy (?s0\<lparr>status := ws\<rparr>);
         s3 \<leftarrow> check_PLL_DIV_busy (writel s2 off (div_value dev (sd_j s dev n t) dv));
         Some (s3, dv, s32 (u32 f))})"
    unfolding prescale_def sd_j_def even_only_def pll_post_def
    by (simp add: set_divisor_def pll n1 c1 reads dis pll_base_u64 Let_def t cong: option.case_cong)
  show ?thesis
  proof (cases ?find)
    case None
    then show ?thesis by (auto simp: eq)
  next
    case (Some p)
    obtain i f where "p = (i, f)" by force
    with Some show ?thesis
      by (intro exI [of _ ws] exI [of _ "vs (div_value dev (sd_j s dev n t) i)"])
        (simp add: eq c2 c3 wl)
  qed
qed

text \<open>The result by the factor \<open>k\<close> that the code chooses.\<close>

lemma set_divisor_chosen:
  assumes pll: "calc_pll_num dev = (n, Some off)" "0 \<le> n" and on: "clk_on s dev" and rdy: "ready 3 s"
    and vco: "pll_base s n < 2147483648"
    and t: "t = scale_target unit freq" and k: "k = prescale s dev n t"
  shows "\<exists>s' dv r. set_divisor s dev unit freq d0 = Some (s', dv, r) \<and>
    (if \<exists>i. permitted (even_only dev n) i \<and> div_freq s n k i \<le> t
     then permitted (even_only dev n) dv \<and> r = div_freq s n k dv \<and> r \<le> t
       \<and> (\<forall>i. permitted (even_only dev n) i \<and> div_freq s n k i \<le> t \<longrightarrow> div_freq s n k i \<le> r)
       \<and> readl s' off = u32 (div_value dev (sd_j s dev n t) dv)
       \<and> (\<forall>i. permitted (even_only dev n) i \<and> i < dv \<longrightarrow> t < div_freq s n k i)
     else r = -1 \<and> readl s' off = readl (select_sdtv s dev off) off)"
proof -
  let ?e = "even_only dev n"
  let ?find = "find_divisor (pll_base s n) (pll_post s n) k t ?e"
  obtain ws vs where eq: "set_divisor s dev unit freq d0 =
    Some (case ?find of
        None \<Rightarrow> ((select_sdtv s dev off)\<lparr>status := ws\<rparr>, d0, -1)
      | Some (i, f) \<Rightarrow>
          ((writel (select_sdtv s dev off) off (div_value dev (sd_j s dev n t) i))\<lparr>status := vs\<rparr>, i, s32 (u32 f)))"
    using set_divisor_eq [OF pll on rdy t] unfolding k by blast
  have kr: "1 \<le> k" "k \<le> 128" using prescale_range by (auto simp: k)
  have df: "permitted ?e i \<Longrightarrow> do_div (pll_base s n) (pll_post s n * (i * k)) = div_freq s n k i" for i
    using kr by (intro do_div_freq) (auto simp: permitted_def)
  show ?thesis
  proof (cases ?find)
    case None
    then have "\<not> div_freq s n k i \<le> t" if "permitted ?e i" for i
      using find_divisor_None [OF None that] df [OF that] by simp
    then show ?thesis by (auto simp: eq None)
  next
    case (Some p)
    obtain i f where p: "p = (i, f)" by force
    note F = find_divisor_Some [OF Some [unfolded p]]
    have f: "f = div_freq s n k i" "f \<le> t" using F(1,2,3) df by auto
    have best: "div_freq s n k i' \<le> f" if "permitted ?e i'" "div_freq s n k i' \<le> t" for i'
    proof -
      have "pll_post s n * (32 * k) \<le> 16 * (32 * 128)"
        using pll_post_range [of s n] kr by (intro mult_mono) auto
      then show ?thesis
        using find_divisor_best [OF Some [unfolded p], of i'] that df [OF that(1)] kr
          pll_base_range [of s n] pll_post_range [of s n] by simp
    qed
    have "0 \<le> f" "f < 2147483648"
    proof -
      have "0 < pll_post s n * (i * k)"
        using pll_post_range [of s n] F(1) kr by (auto simp: permitted_def intro!: mult_pos_pos)
      then show "0 \<le> f" using pll_base_range [of s n] by (simp add: f div_freq_def pos_imp_zdiv_nonneg_iff)
      have "f \<le> pll_base s n" unfolding f div_freq_def
        using zdiv_mono2 [of "pll_base s n" 1 "pll_post s n * (i * k)"] pll_base_range [of s n]
          \<open>0 < pll_post s n * (i * k)\<close> by simp
      with vco show "f < 2147483648" by simp
    qed
    then have "s32 (u32 f) = f" by (simp add: cint)
    moreover have "t < div_freq s n k i'" if "permitted ?e i'" "i' < i" for i' using F(4) [OF that] df [OF that(1)] by simp
    ultimately show ?thesis using F(1) f best by (auto simp: eq Some p readl_def)
  qed
qed

text \<open>For an SD/MMC device the code compares the target with the lowest frequency without the factor 64.\<close>

lemma div_freq_le:
  assumes "1 \<le> i" "1 \<le> k" "i * k \<le> i' * k'"
  shows "div_freq s n k' i' \<le> div_freq s n k i"
proof -
  have "1 \<le> i * k" using mult_mono [of 1 i 1 k] assms(1,2) by simp
  then show ?thesis
    unfolding div_freq_def using assms(3) pll_base_range [of s n] pll_post_range [of s n]
    by (intro zdiv_mono2) (auto intro!: mult_pos_pos mult_left_mono)
qed

lemma sd_j_iff:
  assumes "is_sdmmc dev"
  shows "sd_j s dev n t \<longleftrightarrow> t \<le> div_freq s n 2 32"
proof -
  have "do_div (do_div (pll_base s n) (pll_post s n)) 64 = pll_base s n div pll_post s n div 64"
    using pll_post_range [of s n] by (simp add: do_div_def u32_id)
  also have "\<dots> = div_freq s n 2 32"
    using zdiv_zmult2_eq [of 64 "pll_base s n" "pll_post s n"] by (simp add: div_freq_def)
  finally show ?thesis using assms by (auto simp: sd_j_def)
qed


lemma permitted_set: "permitted e i \<Longrightarrow> i \<in> set [1..32]"
  by (simp add: permitted_def)

lemma div_value_byte:
  assumes "permitted e i" "j \<longrightarrow> is_sdmmc dev"
  shows "u8 (u32 (div_value dev j i)) = (if j then 32 else 0) + (if i = 32 then 0 else i)"
proof -
  have "u8 (u32 (div_value DEV_NA0 False i)) = (if i = 32 then 0 else i)"
    using permitted_set [OF assms(1)] by (auto simp: upto.simps div_value_def u8_def u32_def)
  moreover have "dev = DEV_NA0 \<Longrightarrow> \<not> j" using assms(2) by (auto simp: is_sdmmc_def)
  ultimately show ?thesis
    using permitted_set [OF assms(1)] by (cases "dev = DEV_NA0") (auto simp: upto.simps div_value_def u8_def u32_def)
qed

lemma div_byte_fields:
  assumes "permitted e i" "b = (if j then 32 else 0) + (if i = 32 then 0 else i)"
  shows "b AND 31 = (if i = 32 then 0 else i)" "(b AND 32 \<noteq> 0) = j"
  using permitted_set [OF assms(1)] by (auto simp: upto.simps assms(2))

text \<open>
  C32. \<^verbatim>\<open>GET_FREQ\<close> after a successful \<^verbatim>\<open>SET_DIV\<close> reports the frequency that
  \<^verbatim>\<open>SET_DIV\<close> returned, except for the divisor 32: it is stored as 0, which
  \<^verbatim>\<open>get_freq\<close> does not decode, so that it divides by zero and reports 0.
\<close>

theorem get_freq_after_set_divisor:
  assumes pll: "calc_pll_num dev = (n, Some off)" "0 \<le> n" and on: "clk_on s dev" and rdy: "ready 3 s"
    and set: "set_divisor s dev unit freq d0 = Some (s', dv, r)" "r \<noteq> -1" and rdy': "ready 1 s'"
  shows "\<exists>s'' b. get_freq s' dev d1 = Some (s'', b, if dv = 32 then 0 else r)"
proof -
  define t k j where "t = scale_target unit freq" and "k = prescale s dev n t" and "j = sd_j s dev n t"
  have off: "off mod 4 = 0" "0x300 \<le> off" and n: "n \<in> {0, 1, 2, 3, 4, 6}" and n1: "n \<noteq> -1" "n \<noteq> -2"
    using calc_pll_num_cases [OF pll(1)] pll(2) by auto
  obtain ws vs where eq: "set_divisor s dev unit freq d0 =
    Some (case find_divisor (pll_base s n) (pll_post s n) k t (even_only dev n) of
        None \<Rightarrow> ((select_sdtv s dev off)\<lparr>status := ws\<rparr>, d0, -1)
      | Some (i, f) \<Rightarrow>
          ((writel (select_sdtv s dev off) off (div_value dev j i))\<lparr>status := vs\<rparr>, i, s32 (u32 f)))"
    using set_divisor_eq [OF pll on rdy t_def, of d0] unfolding j_def k_def by blast
  then obtain f where fd: "find_divisor (pll_base s n) (pll_post s n) k t (even_only dev n) = Some (dv, f)"
    and r: "r = s32 (u32 f)"
    and s': "s' = (writel (select_sdtv s dev off) off (div_value dev j dv))\<lparr>status := vs\<rparr>"
    using set by (cases "find_divisor (pll_base s n) (pll_post s n) k t (even_only dev n)") auto
  note F = find_divisor_Some [OF fd]
  have dv: "1 \<le> dv" "dv \<le> 32" using F(1) by (auto simp: permitted_def)
  have j: "j \<longrightarrow> is_sdmmc dev" by (simp add: j_def sd_j_def)
  let ?s1 = "select_sdtv s' dev off"
  obtain ws where c: "check_PLL_DIV_busy ?s1 = Some (?s1\<lparr>status := ws\<rparr>)"
    using check_busy_ready [of 0 ?s1] rdy' by (auto simp: select_sdtv_def)
  have pllreg: "readl ?s1 (PMC_PLL + 4 * n) = readl s (PMC_PLL + 4 * n)"
    using off n by (subst readl_select_sdtv) (auto simp: PMC_PLL_def s' readl_select_sdtv)
  have b: "readb ?s1 off = u8 (u32 (div_value dev j dv))"
    using off by (subst readb_select_sdtv) (simp_all add: s' readb_def)
  define b where "b = readb ?s1 off"
  note bf = div_byte_fields [OF F(1), of b j]
  have bb: "b AND 31 = (if dv = 32 then 0 else dv)" "(b AND 32 \<noteq> 0) = j"
    using bf div_value_byte [OF F(1) j] by (simp_all add: b b_def)
  have k: "k = (if is_sdmmc dev then (if j then 64 else 1) * 2 else 1)" by (simp add: k_def j_def prescale_def)
  have kr: "1 \<le> k" "k \<le> 128" using prescale_range by (auto simp: k_def)
  have pb: "pll_base (?s1\<lparr>status := ws\<rparr>) n = pll_base s n"
    by (simp add: pll_base_def pllreg)
  have g: "get_freq s' dev d1 = Some (?s1\<lparr>status := ws\<rparr>, b,
      s32 (u32 (do_div (pll_base s n) (pll_post s n * (if dv = 32 then 0 else dv * k)))))"
    using j by (simp add: get_freq_def pll n1 c pllreg pll_base_u64 pb pll_post_def Let_def bb k
        flip: b_def) (simp add: mult_ac)
  show ?thesis
    by (simp add: g r F(2) do_div_def u32_0 s32_def)
qed

section \<open>A concrete controller\<close>

text \<open>PLL B at 1008 MHz, the clock of \<^verbatim>\<open>DEV_I2C0\<close> running, its divisor set to 4.\<close>

definition pmc1 :: pmc where
  "pmc1 = pmc0\<lparr>regs := (\<lambda>_. 0)(0x250 := 0x100, 0x204 := 0x140000, 0x3A0 := 4)\<rparr>"

lemma pmc1_ok:
  "calc_pll_num DEV_I2C0 = (1, Some 0x3A0)" "clk_on pmc1 DEV_I2C0" "ready 3 pmc1" "ready 5 pmc1"
  "pll_base pmc1 1 = 1008000000" "pll_post pmc1 1 = 1" "readb pmc1 0x3A0 = 4"
  by code_simp+


theorem get_freq_after_set_divisor_witness:
  "\<exists>s' s'' b. set_divisor pmc1 DEV_I2C0 2 100 0 = Some (s', 11, 91636363)
     \<and> get_freq s' DEV_I2C0 0 = Some (s'', b, 91636363)"
proof -
  have "map_option (\<lambda>(s', dv, r). (dv, r, status s')) (set_divisor pmc1 DEV_I2C0 2 100 0)
      = Some (11, 91636363, [0, 0, 0, 0, 0])" by code_simp
  then obtain s' where s': "set_divisor pmc1 DEV_I2C0 2 100 0 = Some (s', 11, 91636363)" "status s' = [0, 0, 0, 0, 0]"
    by auto
  then have "ready 1 s'" by (simp add: ready_def)
  from get_freq_after_set_divisor [OF pmc1_ok(1) _ pmc1_ok(2,3) s'(1) _ this, of 0] s'(1)
  show ?thesis by auto
qed

end
