(* ===== verification/WmtPll.thy ===== *)
theory WmtPll
  imports WmtDivisor
begin

text \<open>
  The PLL searches of \<^verbatim>\<open>set_pll_speed\<close> and \<^verbatim>\<open>set_pll_divisor\<close> in \<^verbatim>\<open>wmt_clk.c\<close>. The
  nested loops leave early in several ways; \<open>best_of\<close> is the invariant that shows that
  none of the early exits skips a better setting. The second half relates the register
  writes to the clock the hardware delivers (\<open>hw_freq\<close>).
\<close>

section \<open>The vocabulary of the specification\<close>

text \<open>A candidate is a setting \<open>(DR, DQ, VD, DF)\<close> that the loops may try; its oscillator
  frequency lies between 800 MHz and 1600 MHz, in units of the reference clock.\<close>

type_synonym cand = "int \<times> int \<times> int \<times> int"

definition vco_ok :: "int \<Rightarrow> int \<Rightarrow> bool" where
  "vco_ok DR DF \<longleftrightarrow> 0 \<le> DF \<and> DF \<le> MAX_DF \<and> 33 \<le> (2 * (DF + 1)) div (DR + 1) \<and> (2 * (DF + 1)) div (DR + 1) \<le> 66"

fun cand_freq :: "cand \<Rightarrow> int" where
  "cand_freq (DR, DQ, VD, DF) = pll_freq DF DR DQ VD"

definition cand_dist :: "int \<Rightarrow> cand \<Rightarrow> int" where
  "cand_dist freq c = \<bar>freq - cand_freq c\<bar>"

definition admissible :: "int \<Rightarrow> bool \<Rightarrow> cand \<Rightarrow> bool" where
  "admissible freq both c \<longleftrightarrow> both \<or> cand_freq c \<le> freq"

definition sel_cand :: "pllsel \<Rightarrow> cand" where
  "sel_cand b = (DIVR b, DIVQ b, seldiv b, DIVF b)"

definition df_cands :: "int \<Rightarrow> int \<Rightarrow> int \<Rightarrow> cand set" where
  "df_cands DR DQ VD = {(DR, DQ, VD, DF) | DF. vco_ok DR DF}"

text \<open>\<open>best_of freq both U S b\<close>: the selection \<open>b\<close> is still the initial one or an
  admissible candidate of \<open>U\<close>, and no admissible candidate of \<open>S\<close> is closer to the target.\<close>

definition best_of :: "int \<Rightarrow> bool \<Rightarrow> cand set \<Rightarrow> cand set \<Rightarrow> pllsel \<Rightarrow> bool" where
  "best_of freq both U S b \<longleftrightarrow>
     (b = sel0 \<or> sel_cand b \<in> U \<and> admissible freq both (sel_cand b)
        \<and> min_minor b = cand_dist freq (sel_cand b) \<and> min_minor b < min_minor sel0) \<and>
     (\<forall>c\<in>S. admissible freq both c \<longrightarrow> min_minor b \<le> cand_dist freq c)"

definition exact_of :: "int \<Rightarrow> cand set \<Rightarrow> pllsel \<Rightarrow> bool" where
  "exact_of freq U b \<longleftrightarrow> sel_cand b \<in> U \<and> cand_freq (sel_cand b) = freq"

text \<open>The candidates of the innermost loop below \<open>m\<close>, and one turn of that loop.\<close>

definition df_below :: "int \<Rightarrow> int \<Rightarrow> int \<Rightarrow> int \<Rightarrow> cand set" where
  "df_below DR DQ VD m = {c \<in> df_cands DR DQ VD. snd (snd (snd c)) < m}"

definition df_post :: "int \<Rightarrow> bool \<Rightarrow> cand set \<Rightarrow> cand set \<Rightarrow> cand set \<Rightarrow> loop_exit + pllsel \<Rightarrow> bool" where
  "df_post freq both U S T r = (case r of
     Inl (Find b') \<Rightarrow> exact_of freq U b'
   | Inl (Break b') \<Rightarrow> best_of freq both U S b'
   | Inr b' \<Rightarrow> best_of freq both U T b')"

definition search_post :: "int \<Rightarrow> bool \<Rightarrow> cand set \<Rightarrow> cand set \<Rightarrow> pllsel + pllsel \<Rightarrow> bool" where
  "search_post freq both U S r =
     (case r of Inl b \<Rightarrow> exact_of freq U b | Inr b \<Rightarrow> best_of freq both U S b)"

text \<open>All candidates of the two searches.\<close>

definition speed_cands :: "int \<Rightarrow> cand set" where
  "speed_cands VD = {(DR, DQ, VD', DF). DR \<in> {0, 1} \<and> DQ \<in> {0..3} \<and> VD' = VD \<and> vco_ok DR DF}"

definition plldiv_cands :: "int \<Rightarrow> cand set" where
  "plldiv_cands n = {(DR, DQ, VD, DF). DR \<in> {0, 1} \<and> DQ \<in> {0..3} \<and> permitted (n \<in> {2, 6}) VD \<and> vco_ok DR DF}"

definition plldiv_writes :: "pmc \<Rightarrow> dev_id \<Rightarrow> int \<Rightarrow> int \<Rightarrow> pllsel \<Rightarrow> pmc" where
  "plldiv_writes s dev n off b =
     (let s1 = select_sdtv s dev off; v = div_value dev False (seldiv b); old = readb s off;
          s2 = (if old < seldiv b then writel s1 off v else s1);
          s3 = writel s2 (PMC_PLL + 4 * n) (pll_word b)
      in if old > seldiv b then writel s3 off v else s3)"

text \<open>
  The clock that the hardware delivers to a device, for a register file \<open>R\<close>. The SD/MMC devices have a
  fixed factor 2 behind the divisor and, where bit 5 of the divisor register is set, a factor 64, as
  \<^verbatim>\<open>get_freq\<close> knows.
\<close>

definition hw_factor :: "dev_id \<Rightarrow> int \<Rightarrow> int" where
  "hw_factor dev w = (if is_sdmmc dev then (if w AND 32 \<noteq> 0 then 64 else 1) * 2 else 1)"

definition hw_freq :: "(int \<Rightarrow> int) \<Rightarrow> dev_id \<Rightarrow> int \<Rightarrow> int \<Rightarrow> int" where
  "hw_freq R dev n off =
     (let w = R (PMC_PLL + 4 * n); d = R off mod 32
      in SRC_FREQ * GET_DIVF w * 1000000 div (GET_DIVR w * GET_DIVQ w * (if d = 0 then 32 else d) * hw_factor dev (R off)))"

definition replay :: "(int \<times> int) list \<Rightarrow> (int \<Rightarrow> int) \<Rightarrow> int \<Rightarrow> int" where
  "replay ws R = foldl (\<lambda>R (off, v). R(off := v)) R ws"

section \<open>The PLL search\<close>

lemma best_of_sel0: "best_of freq both U {} sel0"
  by (simp add: best_of_def)

lemma best_of_better:
  assumes "best_of freq both U S b" "(DR, DQ, VD, DF) \<in> U" "admissible freq both (DR, DQ, VD, DF)"
    and "minor = cand_dist freq (DR, DQ, VD, DF)"
  shows "best_of freq both U (insert (DR, DQ, VD, DF) S) (better b DF DR DQ VD minor)"
proof (cases "minor < min_minor b")
  case True
  moreover have "min_minor b \<le> min_minor sel0" using assms(1) by (auto simp: best_of_def)
  ultimately show ?thesis using assms
    by (force simp: best_of_def better_def sel_cand_def)
next
  case False
  then show ?thesis using assms by (auto simp: best_of_def better_def)
qed

lemma best_of_widen:
  "best_of freq both U S b \<Longrightarrow> (\<And>c. c \<in> T \<Longrightarrow> c \<notin> S \<Longrightarrow> admissible freq both c \<Longrightarrow> min_minor b \<le> cand_dist freq c)
     \<Longrightarrow> best_of freq both U T b"
  by (auto simp: best_of_def)

lemma push_bit_one_pos: "0 < push_bit n (1 :: int)"
  by (simp add: push_bit_eq_mult)

lemma pll_freq_mono:
  assumes "0 \<le> DF" "DF \<le> DF'" "DF' \<le> 127" "DR \<in> {0, 1}" "0 \<le> VD" "VD \<le> 255" "DQ \<in> {0..3}"
  shows "pll_freq DF DR DQ VD \<le> pll_freq DF' DR DQ VD"
proof -
  have "u64 (SRC_FREQ * 2 * (DF + 1) * 1000000) \<le> u64 (SRC_FREQ * 2 * (DF' + 1) * 1000000)"
    using assms(1-3) by (simp add: SRC_FREQ_def cint)
  then show ?thesis by (simp add: pll_freq_def do_div_def zdiv_mono1 order.strict_iff_order)
qed

lemma vco_ratio_mono: "DR \<in> {0, 1} \<Longrightarrow> DF \<le> DF' \<Longrightarrow> (2 * (DF + 1)) div (DR + 1) \<le> (2 * (DF' + 1)) div ((DR::int) + 1)"
  by (intro zdiv_mono1) auto

lemma df_below_Suc:
  "df_below DR DQ VD (m + 1) = (if vco_ok DR m then insert (DR, DQ, VD, m) else id) (df_below DR DQ VD m)"
  by (auto simp: df_below_def df_cands_def order_le_less)

lemma df_below_all:
  "(\<And>DF. vco_ok DR DF \<Longrightarrow> DF < m) \<Longrightarrow> df_below DR DQ VD m = df_cands DR DQ VD"
  by (auto simp: df_below_def df_cands_def)

lemma df_body_in_range:
  assumes dr: "DR \<in> {0, 1}" and dq: "DQ \<in> {0..3}" and vd: "0 \<le> VD" "VD \<le> 255"
    and U: "df_cands DR DQ VD \<subseteq> U" and ok: "vco_ok DR m"
    and b: "best_of freq both U (S \<union> df_below DR DQ VD m) b"
  shows "df_post freq both U (S \<union> df_cands DR DQ VD) (S \<union> df_below DR DQ VD (m + 1))
           (df_body freq both DR DQ VD b m)"
proof -
  define p where "p = pll_freq m DR DQ VD"
  have c: "(DR, DQ, VD, m) \<in> U" using ok U by (auto simp: df_cands_def)
  have S1: "insert (DR, DQ, VD, m) (S \<union> df_below DR DQ VD m) = S \<union> df_below DR DQ VD (m + 1)"
    using ok by (simp add: df_below_Suc)
  have body: "df_body freq both DR DQ VD b m =
     (if p = freq then Inl (Find (b\<lparr>DIVF := m, DIVR := DR, DIVQ := DQ, seldiv := VD\<rparr>))
      else if p < freq then Inr (better b m DR DQ VD (freq - p))
      else if both then Inl (Break (better b m DR DQ VD (p - freq))) else Inl (Break b))"
    using ok dr by (auto simp: df_body_def SRC_FREQ_def vco_ok_def p_def Let_def)
  have later: "p \<le> cand_freq c" if "c \<in> df_cands DR DQ VD" "c \<notin> df_below DR DQ VD m" for c
    using that pll_freq_mono [of m _ DR VD DQ] ok dr dq vd
    by (auto simp: df_below_def df_cands_def p_def vco_ok_def MAX_DF_def)
  consider (eq) "p = freq" | (lt) "p < freq" | (both) "freq < p" both | (gt) "freq < p" "\<not> both" by linarith
  then show ?thesis
  proof cases
    case eq
    then show ?thesis using c by (simp add: df_post_def body exact_of_def sel_cand_def p_def)
  next
    case lt
    then show ?thesis using best_of_better [OF b c] S1
      by (simp add: df_post_def body admissible_def cand_dist_def p_def)
  next
    case both
    let ?b = "better b m DR DQ VD (p - freq)"
    have "best_of freq both U (S \<union> df_below DR DQ VD (m + 1)) ?b"
      using best_of_better [OF b c] S1 both by (simp add: admissible_def cand_dist_def p_def)
    then have "best_of freq both U (S \<union> df_cands DR DQ VD) ?b"
    proof (rule best_of_widen)
      fix c assume "c \<in> S \<union> df_cands DR DQ VD" "c \<notin> S \<union> df_below DR DQ VD (m + 1)"
      then have "p \<le> cand_freq c" by (intro later) (auto simp: df_below_def)
      moreover have "min_minor ?b \<le> p - freq" by (simp add: better_def)
      ultimately show "min_minor ?b \<le> cand_dist freq c" using both by (simp add: cand_dist_def)
    qed
    then show ?thesis using both unfolding body df_post_def by simp
  next
    case gt
    have "best_of freq both U (S \<union> df_cands DR DQ VD) b"
      using b by (rule best_of_widen) (use later gt in \<open>force simp: admissible_def\<close>)
    then show ?thesis using gt unfolding body df_post_def by simp
  qed
qed

lemma df_body_step:
  assumes dr: "DR \<in> {0, 1}" and dq: "DQ \<in> {0..3}" and vd: "0 \<le> VD" "VD \<le> 255"
    and U: "df_cands DR DQ VD \<subseteq> U" and m: "0 \<le> m" "m \<le> MAX_DF"
    and b: "best_of freq both U (S \<union> df_below DR DQ VD m) b"
  shows "df_post freq both U (S \<union> df_cands DR DQ VD) (S \<union> df_below DR DQ VD (m + 1))
           (df_body freq both DR DQ VD b m)"
proof -
  have lim: "\<not> SRC_FREQ div (DR + 1) < 10" "800 div SRC_FREQ = 33" "1600 div SRC_FREQ = 66"
    using dr by (auto simp: SRC_FREQ_def)
  consider (low) "\<not> 33 \<le> (2 * (m + 1)) div (DR + 1)" | (high) "66 < (2 * (m + 1)) div (DR + 1)"
    | (ok) "vco_ok DR m" using m by (force simp: vco_ok_def)
  then show ?thesis
  proof cases
    case low
    then have "\<not> vco_ok DR m" by (simp add: vco_ok_def)
    with low b show ?thesis by (simp add: df_post_def df_below_Suc df_body_def lim)
  next
    case high
    have "DF < m" if "vco_ok DR DF" for DF
      using vco_ratio_mono [OF dr, of m DF] that high by (force simp: vco_ok_def)
    then have "df_below DR DQ VD m = df_cands DR DQ VD" by (rule df_below_all)
    with high b show ?thesis by (simp add: df_post_def df_body_def lim)
  next
    case ok
    then show ?thesis using df_body_in_range [OF dr dq vd U _ b] by simp
  qed
qed

lemma df_loop_from:
  assumes dr: "DR \<in> {0, 1}" and dq: "DQ \<in> {0..3}" and vd: "0 \<le> VD" "VD \<le> 255"
    and U: "df_cands DR DQ VD \<subseteq> U" and m: "0 \<le> m"
    and b: "best_of freq both U (S \<union> df_below DR DQ VD m) b"
  shows "df_post freq both U (S \<union> df_cands DR DQ VD) (S \<union> df_cands DR DQ VD)
           (foldl_until (df_body freq both DR DQ VD) b [m..MAX_DF])"
  using m b
proof (induction "nat (MAX_DF + 1 - m)" arbitrary: m b)
  case 0
  then have "df_below DR DQ VD m = df_cands DR DQ VD" by (intro df_below_all) (auto simp: vco_ok_def)
  then show ?case using 0 by (simp add: df_post_def)
next
  case (Suc k)
  have up: "[m..MAX_DF] = m # [m + 1..MAX_DF]" and le: "m \<le> MAX_DF" using Suc.hyps(2) by (simp_all add: upto_rec1)
  note step = df_body_step [OF dr dq vd U Suc.prems(1) le Suc.prems(2)]
  show ?case
  proof (cases "df_body freq both DR DQ VD b m")
    case (Inl e)
    with step show ?thesis by (simp add: up df_post_def split: loop_exit.splits)
  next
    case (Inr b')
    with step have "best_of freq both U (S \<union> df_below DR DQ VD (m + 1)) b'" by (simp add: df_post_def)
    then show ?thesis using Suc.hyps Suc.prems(1) Inr by (simp add: up)
  qed
qed

lemma df_loop_post:
  assumes "DR \<in> {0, 1}" "DQ \<in> {0..3}" "0 \<le> VD" "VD \<le> 255" "df_cands DR DQ VD \<subseteq> U" "best_of freq both U S b"
  shows "search_post freq both U (S \<union> df_cands DR DQ VD) (df_loop freq both DR DQ VD b)"
proof -
  have "df_below DR DQ VD 0 = {}" by (auto simp: df_below_def df_cands_def vco_ok_def)
  then show ?thesis
    using df_loop_from [OF assms(1-5), of 0 freq both S b] assms(6)
    by (auto simp: df_loop_def search_post_def df_post_def split: sum.splits loop_exit.splits)
qed

text \<open>A loop whose turns each cover one more group of candidates covers all of them.\<close>

lemma search_loop:
  assumes "\<And>x S b. x \<in> set xs \<Longrightarrow> best_of freq both U S b \<Longrightarrow> search_post freq both U (S \<union> A x) (f b x)"
    and "best_of freq both U S b"
  shows "search_post freq both U (S \<union> \<Union> (A ` set xs)) (foldl_until f b xs)"
  using assms
proof (induction xs arbitrary: S b)
  case Nil
  then show ?case by (simp add: search_post_def)
next
  case (Cons x xs)
  have step: "search_post freq both U (S \<union> A x) (f b x)" using Cons.prems by simp
  show ?case
  proof (cases "f b x")
    case (Inl r)
    with step show ?thesis by (simp add: search_post_def)
  next
    case (Inr b')
    with step have "best_of freq both U (S \<union> A x) b'" by (simp add: search_post_def)
    with Cons.IH [of "S \<union> A x" b'] Cons.prems(1) Inr show ?thesis by (simp add: Un_assoc)
  qed
qed

lemma set_rq_pairs: "set rq_pairs = {0, 1} \<times> {0..3}"
  by (auto simp: rq_pairs_def MAX_DR_def MAX_DQ_def upto.simps)

lemma search_speed_post:
  assumes "0 \<le> VD" "VD \<le> 255"
  shows "exact_of freq (speed_cands VD) (search_speed n freq VD) \<or>
         best_of freq (n = 2) (speed_cands VD) (speed_cands VD) (search_speed n freq VD)"
proof -
  let ?A = "\<lambda>(DR, DQ). df_cands DR DQ VD"
  have all: "\<Union> (?A ` set rq_pairs) = speed_cands VD"
    unfolding set_rq_pairs by (auto simp: speed_cands_def df_cands_def)
  have "search_post freq (n = 2) (speed_cands VD) ({} \<union> \<Union> (?A ` set rq_pairs))
     (foldl_until (\<lambda>b (DR, DQ). df_loop freq (n = 2) DR DQ VD b) sel0 rq_pairs)"
  proof (rule search_loop)
    fix x S b assume x: "x \<in> set rq_pairs" and b: "best_of freq (n = 2) (speed_cands VD) S b"
    obtain DR DQ where xx: "x = (DR, DQ)" by force
    show "search_post freq (n = 2) (speed_cands VD) (S \<union> ?A x) ((\<lambda>(DR, DQ). df_loop freq (n = 2) DR DQ VD b) x)"
      unfolding xx prod.case
      by (rule df_loop_post) (use x b assms in \<open>auto simp: xx set_rq_pairs df_cands_def speed_cands_def\<close>)
  qed (rule best_of_sel0)
  then show ?thesis
    unfolding all by (auto simp: search_speed_def either_sel_def search_post_def split: sum.splits)
qed

lemma search_divisor_post:
  "exact_of freq (plldiv_cands n) (search_divisor n freq) \<or>
   best_of freq (n \<in> {2, 6}) (plldiv_cands n) (plldiv_cands n) (search_divisor n freq)"
proof -
  let ?U = "plldiv_cands n" and ?both = "n \<in> {2, 6}"
  let ?B = "\<lambda>DR DQ VD. if permitted (n \<in> {2, 6}) VD then df_cands DR DQ VD else {}"
  let ?A = "\<lambda>(DR, DQ). \<Union> (?B DR DQ ` set (rev [1..32]))"
  have all: "\<Union> (?A ` set rq_pairs) = ?U"
  proof (intro set_eqI)
    fix c :: cand
    obtain DR DQ VD DF where c: "c = (DR, DQ, VD, DF)" by (metis prod.exhaust)
    have "c \<in> \<Union> (?A ` set rq_pairs) \<longleftrightarrow>
        DR \<in> {0, 1} \<and> DQ \<in> {0..3} \<and> VD \<in> {1..32} \<and> permitted ?both VD \<and> vco_ok DR DF"
      unfolding set_rq_pairs c by (auto simp: df_cands_def split: if_splits)
    also have "\<dots> \<longleftrightarrow> c \<in> ?U" by (auto simp: c plldiv_cands_def permitted_def)
    finally show "c \<in> \<Union> (?A ` set rq_pairs) \<longleftrightarrow> c \<in> ?U" .
  qed
  have vd: "search_post freq ?both ?U (S \<union> ?B DR DQ VD) (vd_body n freq DR DQ b VD)"
    if "DR \<in> {0, 1}" "DQ \<in> {0..3}" "VD \<in> set (rev [1..32])" "best_of freq ?both ?U S b" for DR DQ VD S b
  proof (cases "permitted ?both VD")
    case True
    then have "search_post freq ?both ?U (S \<union> df_cands DR DQ VD) (df_loop freq ?both DR DQ VD b)"
      by (intro df_loop_post) (use that in \<open>auto simp: df_cands_def plldiv_cands_def\<close>)
    with True show ?thesis by (auto simp: vd_body_def permitted_def)
  next
    case False
    with that show ?thesis by (auto simp: vd_body_def permitted_def search_post_def)
  qed
  have "search_post freq ?both ?U ({} \<union> \<Union> (?A ` set rq_pairs))
     (foldl_until (\<lambda>b (DR, DQ). foldl_until (vd_body n freq DR DQ) b (rev [1..32])) sel0 rq_pairs)"
  proof (rule search_loop)
    fix x S b assume x: "x \<in> set rq_pairs" and b: "best_of freq ?both ?U S b"
    obtain DR DQ where xx: "x = (DR, DQ)" by force
    have rq: "DR \<in> {0, 1}" "DQ \<in> {0..3}" using x by (auto simp: xx set_rq_pairs)
    show "search_post freq ?both ?U (S \<union> ?A x)
        ((\<lambda>(DR, DQ). foldl_until (vd_body n freq DR DQ) b (rev [1..32])) x)"
      unfolding xx prod.case by (rule search_loop [OF vd [OF rq] b])
  qed (rule best_of_sel0)
  then show ?thesis
    unfolding all by (auto simp: search_divisor_def either_sel_def search_post_def split: sum.splits)
qed

section \<open>What set_pll_divisor does\<close>

lemma status_writel_swap [simp]:
  "writel (s\<lparr>status := ws\<rparr>) off v = (writel s off v)\<lparr>status := ws\<rparr>"
  by (simp add: writel_def)

lemma check_busy_status:
  assumes "ready (Suc n) (s\<lparr>status := ws\<rparr>)"
  shows "\<exists>vs. check_PLL_DIV_busy (s\<lparr>status := ws\<rparr>) = Some (s\<lparr>status := vs\<rparr>) \<and> (\<forall>s'. ready n (s'\<lparr>status := vs\<rparr>))"
  using check_busy_ready [OF assms] by (auto simp: ready_def)

lemma set_pll_divisor_eq:
  assumes pll: "calc_pll_num dev = (n, Some off)" "0 \<le> n" and on: "clk_on s dev" and rdy: "ready 5 s"
    and u: "unit_base unit = Some bf" and b: "b = search_divisor n (u64 (u64 freq * bf))"
  shows "\<exists>ws. set_pll_divisor s dev unit freq d0 =
    Some ((plldiv_writes s dev n off b)\<lparr>status := ws\<rparr>, seldiv b,
          s32 (u32 (pll_freq (DIVF b) (DIVR b) (DIVQ b) (seldiv b))))"
proof -
  have off: "off mod 4 = 0" "0x300 \<le> off" and n1: "n \<noteq> -1" "n \<noteq> -2"
    using calc_pll_num_cases [OF pll(1)] pll(2) by auto
  let ?s0 = "select_sdtv s dev off" and ?v = "div_value dev False (seldiv b)" and ?w = "pll_word b"
  have "ready (Suc 4) (?s0\<lparr>status := status ?s0\<rparr>)" using rdy by (simp add: select_sdtv_def)
  from check_busy_status [OF this] obtain w1
    where c1: "check_PLL_DIV_busy ?s0 = Some (?s0\<lparr>status := w1\<rparr>)" and r1: "\<And>s'. ready (Suc 3) (s'\<lparr>status := w1\<rparr>)"
    by auto
  from check_busy_status [OF r1] obtain w2
    where c2: "check_PLL_DIV_busy (?s0\<lparr>status := w1\<rparr>) = Some (?s0\<lparr>status := w2\<rparr>)"
      and r2: "\<And>s'. ready (Suc 2) (s'\<lparr>status := w2\<rparr>)" by (metis numeral_3_eq_3 numeral_2_eq_2)
  have dis: "\<not> clk_disabled ?s0 dev"
    using on off by (simp add: clk_disabled_select_sdtv) (simp add: clk_disabled_def clk_on_def)
  have old: "readb ?s0 off = readb s off" using off by (rule_tac readb_select_sdtv)
  let ?s2 = "if readb s off < seldiv b then writel ?s0 off ?v else ?s0"
  let ?s3 = "writel ?s2 (PMC_PLL + 4 * n) ?w"
  obtain w3 where c3: "(if readb s off < seldiv b then check_PLL_DIV_busy (writel (?s0\<lparr>status := w2\<rparr>) off ?v)
      else Some (?s0\<lparr>status := w2\<rparr>)) = Some (?s2\<lparr>status := w3\<rparr>)" and r3: "\<And>s'. ready (Suc 1) (s'\<lparr>status := w3\<rparr>)"
    using check_busy_status [OF r2, of "writel ?s0 off ?v"] r2
    by (cases "readb s off < seldiv b") (auto simp: ready_def numeral_2_eq_2)
  from check_busy_status [OF r3] obtain w4
    where c4: "check_PLL_DIV_busy (?s3\<lparr>status := w3\<rparr>) = Some (?s3\<lparr>status := w4\<rparr>)"
      and r4: "\<And>s'. ready (Suc 0) (s'\<lparr>status := w4\<rparr>)" by (metis One_nat_def)
  obtain w5 where c5: "(if readb s off > seldiv b then check_PLL_DIV_busy (writel (?s3\<lparr>status := w4\<rparr>) off ?v)
      else Some (?s3\<lparr>status := w4\<rparr>)) = Some ((plldiv_writes s dev n off b)\<lparr>status := w5\<rparr>)"
    using check_busy_status [OF r4, of "writel ?s3 off ?v"]
    by (cases "readb s off > seldiv b") (auto simp: plldiv_writes_def Let_def)
  have "set_pll_divisor s dev unit freq d0 =
     do { s3 \<leftarrow> (if readb s off < seldiv b then check_PLL_DIV_busy (writel (?s0\<lparr>status := w2\<rparr>) off ?v)
               else Some (?s0\<lparr>status := w2\<rparr>));
          s4 \<leftarrow> check_PLL_DIV_busy (writel s3 (PMC_PLL + 4 * n) ?w);
          s5 \<leftarrow> (if readb s off > seldiv b then check_PLL_DIV_busy (writel s4 off ?v) else Some s4);
          Some (s5, seldiv b, s32 (u32 (pll_freq (DIVF b) (DIVR b) (DIVQ b) (seldiv b)))) }"
    by (simp only: set_pll_divisor_def pll prod.case option.case n1 c1 c2 bind.bind_lunit u dis Let_def
        regs_status_upd old b [symmetric] if_False simp_thms)
  also have "\<dots> = Some ((plldiv_writes s dev n off b)\<lparr>status := w5\<rparr>, seldiv b,
          s32 (u32 (pll_freq (DIVF b) (DIVR b) (DIVQ b) (seldiv b))))"
    by (simp only: c3 [unfolded status_writel_swap] c5 [unfolded status_writel_swap] bind.bind_lunit
        status_writel_swap c4)
  finally show ?thesis by blast
qed

section \<open>Bounds and register fields\<close>

lemma div_between:
  fixes P D :: int
  assumes "lo \<le> D" "D \<le> hi" "1 \<le> lo" "A * hi \<le> P" "P < (B + 1) * lo" "0 \<le> A" "0 \<le> B"
  shows "A \<le> P div D \<and> P div D \<le> B"
proof
  have "A * D \<le> A * hi" using assms by (intro mult_left_mono) auto
  then show "A \<le> P div D" using assms by (metis dual_order.trans zero_less_one order_less_le_trans nonzero_mult_div_cancel_right zdiv_mono1 less_irrefl)
  have "(B + 1) * lo \<le> (B + 1) * D" using assms by (intro mult_left_mono) auto
  then have "P < (B + 1) * D" using assms by linarith
  moreover have "P div D * D \<le> P"
    using assms by (smt (verit) div_mult_mod_eq pos_mod_sign)
  ultimately have "P div D * D < (B + 1) * D" by linarith
  then show "P div D \<le> B" using assms by simp
qed

lemma push_bit_DQ: "DQ \<in> {0..3} \<Longrightarrow> push_bit (nat DQ) (1 :: int) \<in> {1, 2, 4, 8}"
proof -
  assume "DQ \<in> {0..3}"
  then have "DQ = 0 \<or> DQ = 1 \<or> DQ = 2 \<or> DQ = 3" by auto
  then show ?thesis by (auto simp: push_bit_eq_mult)
qed

lemma pll_freq_eq:
  assumes "0 \<le> DF" "DF \<le> 127" "DR \<in> {0, 1}" "DQ \<in> {0..3}" "1 \<le> VD" "VD \<le> 255"
  shows "pll_freq DF DR DQ VD = 48000000 * (DF + 1) div (VD * (DR + 1) * push_bit (nat DQ) 1)"
proof -
  define D where "D = VD * (DR + 1) * push_bit (nat DQ) 1"
  have "1 \<le> D \<and> D \<le> 4080"
    using assms(3,5,6) push_bit_DQ [OF assms(4)] by (auto simp: D_def)
  moreover have "SRC_FREQ * 2 * (DF + 1) * 1000000 = 48000000 * (DF + 1)" by (simp add: SRC_FREQ_def)
  ultimately show ?thesis
    unfolding pll_freq_def D_def [symmetric] using assms(1,2) by (auto simp: do_div_def cint)
qed

lemma cand_freq_bounds:
  assumes "vco_ok DR DF" "DR \<in> {0, 1}" "DQ \<in> {0..3}" "1 \<le> VD" "VD \<le> 32"
  shows "3093750 \<le> cand_freq (DR, DQ, VD, DF) \<and> cand_freq (DR, DQ, VD, DF) \<le> 1584000000"
proof -
  define D where "D = VD * (DR + 1) * push_bit (nat DQ) 1"
  have D: "DR + 1 \<le> D" "D \<le> 256 * (DR + 1)"
    using push_bit_DQ [OF assms(3)] assms(2,4,5) by (auto simp: D_def)
  have df: "0 \<le> DF" "DF \<le> 127" using assms(1) by (auto simp: vco_ok_def MAX_DF_def)
  have f: "cand_freq (DR, DQ, VD, DF) = 48000000 * (DF + 1) div D"
    using pll_freq_eq [OF df assms(2-4)] assms(5) by (simp add: D_def)
  show ?thesis unfolding f
    by (rule div_between [OF D]) (use assms(1,2) df in \<open>auto simp: vco_ok_def\<close>)
qed

lemma search_divisor_ranges:
  assumes "b = search_divisor n t"
  shows "DIVF b \<in> {0..127}" "DIVR b \<in> {0, 1}" "DIVQ b \<in> {0..3}" "permitted (n \<in> {2, 6}) (seldiv b)"
proof -
  have "b = sel0 \<or> sel_cand b \<in> plldiv_cands n"
    using search_divisor_post [of t n] unfolding assms [symmetric] by (auto simp: exact_of_def best_of_def)
  then show "DIVF b \<in> {0..127}" "DIVR b \<in> {0, 1}" "DIVQ b \<in> {0..3}" "permitted (n \<in> {2, 6}) (seldiv b)"
    by (auto simp: sel0_def sel_cand_def plldiv_cands_def vco_ok_def MAX_DF_def permitted_def)
qed

lemma pll_word_fields:
  assumes "DIVF b \<in> {0..127}" "DIVR b \<in> {0, 1}" "DIVQ b \<in> {0..3}"
  shows "GET_DIVF (pll_word b) = 2 * (DIVF b + 1)" "GET_DIVR (pll_word b) = DIVR b + 1"
    "GET_DIVQ (pll_word b) = push_bit (nat (DIVQ b)) 1" "u32 (pll_word b) = pll_word b"
proof -
  define w where "w = DIVF b * 65536 + DIVR b * 256 + DIVQ b"
  have pw: "pll_word b = w"
    using assms unfolding pll_word_def w_def by (subst u32_id) (auto simp: push_bit_eq_mult)
  have q: "w mod 4 = DIVQ b"
  proof -
    have "w = DIVQ b + (DIVF b * 16384 + DIVR b * 64) * 4" by (simp add: w_def)
    then have "w mod 4 = DIVQ b mod 4" by (metis mod_mult_self1)
    then show ?thesis using assms(3) by simp
  qed
  have r: "w div 256 mod 2 = DIVR b"
  proof -
    have "w = (DIVR b * 256 + DIVQ b) + (DIVF b * 256) * 256" by (simp add: w_def)
    then have "w div 256 = (DIVR b * 256 + DIVQ b) div 256 + DIVF b * 256" by (metis div_mult_self1 zero_neq_numeral add.commute)
    moreover have "(DIVR b * 256 + DIVQ b) div 256 = DIVR b" using assms(3) by simp
    ultimately have "w div 256 = DIVR b + (DIVF b * 128) * 2" by simp
    then have "w div 256 mod 2 = DIVR b mod 2" by (metis mod_mult_self1)
    then show ?thesis using assms(2) by auto
  qed
  have f: "w div 65536 mod 128 = DIVF b"
  proof -
    have "w = (DIVR b * 256 + DIVQ b) + DIVF b * 65536" by (simp add: w_def)
    then have "w div 65536 = (DIVR b * 256 + DIVQ b) div 65536 + DIVF b" by (metis div_mult_self1 zero_neq_numeral add.commute)
    moreover have "(DIVR b * 256 + DIVQ b) div 65536 = 0" using assms(2,3) by (intro div_pos_pos_trivial) auto
    ultimately show ?thesis using assms(1) by simp
  qed
  show "GET_DIVF (pll_word b) = 2 * (DIVF b + 1)"
    using f by (simp add: pw GET_DIVF_def MAX_DF_def and_low_bits drop_bit_eq_div)
  show "GET_DIVR (pll_word b) = DIVR b + 1"
    using r by (simp add: pw GET_DIVR_def MAX_DR_def and_one_eq drop_bit_eq_div)
  show "GET_DIVQ (pll_word b) = push_bit (nat (DIVQ b)) 1"
    using q by (simp add: pw GET_DIVQ_def MAX_DQ_def and_low_bits)
  show "u32 (pll_word b) = pll_word b" by (simp add: pll_word_def)
qed

section \<open>The order of the register writes\<close>

lemma replay_simps [simp]:
  "replay [] R = R" "replay (w # ws) R = replay ws (R(fst w := snd w))"
  by (simp_all add: replay_def case_prod_beta)

lemma and_32: "(w :: int) AND 32 = (if w mod 64 < 32 then 0 else 32)"
proof -
  have "w AND 2 ^ 5 = (if bit w 5 then 2 ^ 5 else 0)"
    by (rule bit_eqI) (simp only: bit_and_iff bit_exp_iff if_distrib [of "\<lambda>x. bit x _"] bit_0_eq, auto)
  moreover have "bit w 5 \<longleftrightarrow> \<not> w mod 64 < 32"
  proof -
    have "w div 32 mod 2 = w mod 64 div 32" using zmod_zmult2_eq [of 2 w 32] by simp
    moreover have "0 \<le> w mod 64" "w mod 64 < 64" by simp_all
    ultimately have "w div 32 mod 2 = (if w mod 64 < 32 then 0 else 1)" by auto
    then show ?thesis by (simp add: bit_iff_odd odd_iff_mod_2_eq_one)
  qed
  ultimately show ?thesis by simp
qed

lemma hw_factor_cong: "w mod 64 = w' mod 64 \<Longrightarrow> hw_factor dev w = hw_factor dev w'"
  by (simp add: hw_factor_def and_32)

lemma hw_factor_low: "w mod 64 < 32 \<Longrightarrow> hw_factor dev w = (if is_sdmmc dev then 2 else 1)"
  by (simp add: hw_factor_def and_32)

lemma hw_factor_pos: "0 < hw_factor dev w"
  by (simp add: hw_factor_def)

lemma mod_64_32: "x mod 64 = d \<Longrightarrow> x mod 32 = d mod (32 :: int)"
  using mod_mod_cancel [of 32 64 x] by auto

text \<open>A divisor register of the device whose low bits hold the divisor \<open>d\<close>, without the factor 64.\<close>

definition holds_div :: "int \<Rightarrow> int \<Rightarrow> bool" where
  "holds_div w d \<longleftrightarrow> w mod 64 = (if d = 32 then 0 else d) \<and> 1 \<le> d \<and> d \<le> 32"

lemma holds_divD:
  assumes "holds_div w d"
  shows "(if w mod 32 = 0 then 32 else w mod 32) = d" "hw_factor dev w = (if is_sdmmc dev then 2 else 1)"
proof -
  show "(if w mod 32 = 0 then 32 else w mod 32) = d"
    using assms mod_64_32 [of w "if d = 32 then 0 else d"] by (cases "d = 32") (auto simp: holds_div_def)
  have "w mod 64 < 32" using assms by (cases "d = 32") (auto simp: holds_div_def)
  then show "hw_factor dev w = (if is_sdmmc dev then 2 else 1)" by (rule hw_factor_low)
qed

lemma hw_freq_divisor_antimono:
  assumes "holds_div (R off) d" "holds_div (R' off) d'"
    and "R' (PMC_PLL + 4 * n) = R (PMC_PLL + 4 * n)" "d \<le> d'"
  shows "hw_freq R' dev n off \<le> hw_freq R dev n off"
proof -
  let ?w = "R (PMC_PLL + 4 * n)" and ?k = "if is_sdmmc dev then 2 else (1 :: int)"
  have pos: "0 < GET_DIVR ?w * GET_DIVQ ?w" "0 \<le> SRC_FREQ * GET_DIVF ?w * 1000000" "1 \<le> d"
    using GET_DIVR_range [of ?w] GET_DIVQ_range [of ?w] GET_DIVF_range [of ?w] assms(1)
    by (auto simp: SRC_FREQ_def holds_div_def)
  have "SRC_FREQ * GET_DIVF ?w * 1000000 div (GET_DIVR ?w * GET_DIVQ ?w * d' * ?k)
      \<le> SRC_FREQ * GET_DIVF ?w * 1000000 div (GET_DIVR ?w * GET_DIVQ ?w * d * ?k)"
    using pos assms(4) by (intro zdiv_mono2) (auto intro!: mult_left_mono mult_pos_pos)
  then show ?thesis unfolding hw_freq_def Let_def assms(3) holds_divD [OF assms(1)] holds_divD [OF assms(2)] .
qed

lemma hw_freq_cong:
  "R off mod 64 = R' off mod 64 \<Longrightarrow> R (PMC_PLL + 4 * n) = R' (PMC_PLL + 4 * n) \<Longrightarrow> hw_freq R dev n off = hw_freq R' dev n off"
  using mod_64_32 [of "R off" "R' off mod 64"] mod_64_32 [of "R' off" "R' off mod 64"] hw_factor_cong [of "R off" "R' off" dev]
  by (simp add: hw_freq_def)

lemma readb_mod64: "off mod 4 = 0 \<Longrightarrow> readb s off mod 64 = regs s off mod 64"
  by (simp add: readb_def u8_def mod_mod_cancel)

lemma div_value_holds:
  assumes "permitted e d"
  shows "holds_div (u32 (div_value dev False d)) d"
proof -
  have "u32 (div_value dev False d) mod 64 = u8 (u32 (div_value dev False d)) mod 64"
    by (simp add: u8_def mod_mod_cancel)
  then show ?thesis using div_value_byte [OF assms, of False dev] assms by (auto simp: permitted_def holds_div_def)
qed

lemma hw_freq_programmed:
  assumes "R (PMC_PLL + 4 * n) = pll_word b" "(if R off mod 32 = 0 then 32 else R off mod 32) = d"
    and "DIVF b \<in> {0..127}" "DIVR b \<in> {0, 1}" "DIVQ b \<in> {0..3}" "1 \<le> d" "d \<le> 32"
  shows "hw_freq R dev n off = pll_freq (DIVF b) (DIVR b) (DIVQ b) d div hw_factor dev (R off)"
proof -
  let ?k = "hw_factor dev (R off)"
  have f: "SRC_FREQ * (2 * (DIVF b + 1)) * 1000000 = 48000000 * (DIVF b + 1)" by (simp add: SRC_FREQ_def)
  have "hw_freq R dev n off = 48000000 * (DIVF b + 1) div ((DIVR b + 1) * push_bit (nat (DIVQ b)) 1 * d * ?k)"
    unfolding hw_freq_def Let_def assms(1) pll_word_fields [OF assms(3-5)] assms(2) f ..
  also have "\<dots> = 48000000 * (DIVF b + 1) div (d * (DIVR b + 1) * push_bit (nat (DIVQ b)) 1 * ?k)"
    by (simp only: mult_ac)
  also have "\<dots> = 48000000 * (DIVF b + 1) div (d * (DIVR b + 1) * push_bit (nat (DIVQ b)) 1) div ?k"
    by (rule zdiv_zmult2_eq) (use hw_factor_pos [of dev "R off"] in simp)
  also have "48000000 * (DIVF b + 1) div (d * (DIVR b + 1) * push_bit (nat (DIVQ b)) 1) = pll_freq (DIVF b) (DIVR b) (DIVQ b) d"
    using assms(3,6,7) by (intro pll_freq_eq [OF _ _ assms(4,5), symmetric]) auto
  finally show ?thesis .
qed

text \<open>What an SD/MMC device gets of the frequency that \<^verbatim>\<open>SET_PLLDIV\<close> returns. A register that holds the
  factor 64 and the divisor 32, the byte 32, is taken for the divisor 32 alone and not written.\<close>

definition plldiv_factor :: "pmc \<Rightarrow> dev_id \<Rightarrow> int \<Rightarrow> int \<Rightarrow> int" where
  "plldiv_factor s dev off dv = (if is_sdmmc dev then (if readb s off = 32 \<and> dv = 32 then 128 else 2) else 1)"

lemma plldiv_writes_hw_freq:
  assumes pll: "calc_pll_num dev = (n, Some off)" "0 \<le> n" and b: "b = search_divisor n t"
  shows "hw_freq (regs (plldiv_writes s dev n off b)) dev n off =
    pll_freq (DIVF b) (DIVR b) (DIVQ b) (seldiv b) div plldiv_factor s dev off (seldiv b)"
proof -
  have off: "off mod 4 = 0" "0x300 \<le> off" and n: "n \<in> {0, 1, 2, 3, 4, 6}"
    using calc_pll_num_cases [OF pll(1)] pll(2) by auto
  then have ne: "PMC_PLL + 4 * n \<noteq> off" by (auto simp: PMC_PLL_def)
  note rg = search_divisor_ranges [OF b]
  have dv: "1 \<le> seldiv b" "seldiv b \<le> 32" using rg(4) by (auto simp: permitted_def)
  let ?R = "regs (plldiv_writes s dev n off b)"
  have w: "?R (PMC_PLL + 4 * n) = pll_word b"
    using ne pll_word_fields(4) [OF rg(1-3)] by (simp add: plldiv_writes_def Let_def)
  have d: "(if ?R off mod 32 = 0 then 32 else ?R off mod 32) = seldiv b \<and> hw_factor dev (?R off) = plldiv_factor s dev off (seldiv b)"
  proof (cases "readb s off = seldiv b")
    case False
    then have "?R off = u32 (div_value dev False (seldiv b))" using ne by (auto simp: plldiv_writes_def Let_def)
    then have h: "holds_div (?R off) (seldiv b)" using div_value_holds [OF rg(4), of dev] by simp
    show ?thesis unfolding holds_divD(1) [OF h] holds_divD(2) [OF h, of dev] using False by (auto simp: plldiv_factor_def)
  next
    case True
    have "?R off = regs (select_sdtv s dev off) off" using True ne by (simp add: plldiv_writes_def Let_def)
    then have m: "?R off mod 64 = seldiv b"
      using readb_select_sdtv [OF off(1), of s dev] readb_mod64 [OF off(1), of "select_sdtv s dev off"] True dv by simp
    from mod_64_32 [OF this] dv have "(if ?R off mod 32 = 0 then 32 else ?R off mod 32) = seldiv b"
      by (cases "seldiv b = 32") auto
    moreover have "hw_factor dev (?R off) = plldiv_factor s dev off (seldiv b)"
      using m True dv by (auto simp: hw_factor_def and_32 plldiv_factor_def)
    ultimately show ?thesis ..
  qed
  then show ?thesis using hw_freq_programmed [of ?R n b off "seldiv b" dev] w rg(1-3) dv by simp
qed


text \<open>
  Outside PLL C and PLL G, a target below 3.09375 MHz is out of reach of the search;
  \<^verbatim>\<open>SET_PLLDIV\<close> then programs the initial values of its variables, 24 MHz, which is above
  the target although the comment of \<^verbatim>\<open>auto_pll_divisor\<close> promises a frequency equal to
  or less than the one asked for.
\<close>

theorem set_pll_divisor_low_target:
  assumes pll: "calc_pll_num dev = (n, Some off)" "0 \<le> n" "n \<notin> {2, 6}" and on: "clk_on s dev" and rdy: "ready 5 s"
    and u: "unit_base unit = Some bf" and t: "u64 (u64 freq * bf) < 3093750"
  shows "\<exists>s'. set_pll_divisor s dev unit freq d0 = Some (s', 1, 24000000)"
proof -
  define t' where "t' = u64 (u64 freq * bf)"
  have above: "3093750 \<le> cand_freq c" if "c \<in> plldiv_cands n" for c
    using that cand_freq_bounds by (fastforce simp: plldiv_cands_def permitted_def)
  have "search_divisor n t' = sel0"
    using search_divisor_post [of t' n]
  proof
    assume "exact_of t' (plldiv_cands n) (search_divisor n t')"
    with above t show ?thesis by (fastforce simp: exact_of_def t'_def)
  next
    assume "best_of t' (n \<in> {2, 6}) (plldiv_cands n) (plldiv_cands n) (search_divisor n t')"
    moreover have "\<not> admissible t' (n \<in> {2, 6}) c" if "c \<in> plldiv_cands n" for c
      using above [OF that] t pll(3) by (auto simp: admissible_def t'_def)
    ultimately show ?thesis unfolding best_of_def by blast
  qed
  then show ?thesis
    using set_pll_divisor_eq [OF pll(1,2) on rdy u refl, of freq d0]
    by (auto simp: t'_def sel0_def pll_freq_def do_div_def SRC_FREQ_def u64_def u32_def s32_def)
qed

text \<open>
  C22. \<^verbatim>\<open>SET_PLLDIV\<close> changes the divisor and the PLL in the order that never overclocks
  the device: after each single register write the delivered clock is at most the larger
  of the old and the new one. This needs an old divisor of 1 to 31; 32 is encoded as 0
  and would compare as the smallest.
\<close>

theorem set_pll_divisor_no_overclock:
  assumes pll: "calc_pll_num dev = (n, Some off)" "0 \<le> n" and on: "clk_on s dev" and rdy: "ready 5 s"
    and u: "unit_base unit = Some bf" and old: "1 \<le> readb s off" "readb s off \<le> 31"
  shows "\<exists>s' dv r ws. set_pll_divisor s dev unit freq d0 = Some (s', dv, r) \<and> wlog s' = wlog s @ ws \<and> regs s' = replay ws (regs s) \<and>
    (\<forall>k. hw_freq (replay (take k ws) (regs s)) dev n off \<le> max (hw_freq (regs s) dev n off) (hw_freq (regs s') dev n off))"
proof -
  define b where "b = search_divisor n (u64 (u64 freq * bf))"
  have off: "off mod 4 = 0" "0x300 \<le> off" and n: "n \<in> {0, 1, 2, 3, 4, 6}"
    using calc_pll_num_cases [OF pll(1)] pll(2) by auto
  then have ne: "PMC_PLL + 4 * n \<noteq> off" by (auto simp: PMC_PLL_def)
  define dv where "dv = seldiv b"
  obtain ws where set: "set_pll_divisor s dev unit freq d0 = Some ((plldiv_writes s dev n off b)\<lparr>status := ws\<rparr>, dv,
      s32 (u32 (pll_freq (DIVF b) (DIVR b) (DIVQ b) dv)))"
    using set_pll_divisor_eq [OF pll on rdy u b_def, of d0] unfolding dv_def by blast
  let ?s' = "(plldiv_writes s dev n off b)\<lparr>status := ws\<rparr>"
  have perm: "permitted (n \<in> {2, 6}) dv" using search_divisor_ranges [OF b_def] by (simp add: dv_def)
  then have dvr: "1 \<le> dv" "dv \<le> 32" by (auto simp: permitted_def)
  define x where "x = regs (select_sdtv s dev off) off"
  have sel: "regs (select_sdtv s dev off) = (regs s)(off := x)" "wlog (select_sdtv s dev off) = wlog s @ [(off, x)]"
    using off by (auto simp: x_def select_sdtv_def writeb_def Let_def mod_add_left_eq [of off 4 2, symmetric])
  have x: "x mod 64 = readb s off" "regs s off mod 64 = readb s off"
    using readb_select_sdtv [OF off(1), of s dev] old
    by (simp_all add: x_def flip: readb_mod64 [OF off(1)])
  let ?R0 = "regs s" and ?v = "u32 (div_value dev False dv)" and ?p = "PMC_PLL + 4 * n" and ?w = "u32 (pll_word b)"
  have v: "holds_div ?v dv" by (rule div_value_holds [OF perm])
  have o: "holds_div x (readb s off)" "holds_div (regs s off) (readb s off)" using x old by (simp_all add: holds_div_def)
  have h1: "hw_freq (?R0(off := x)) dev n off = hw_freq ?R0 dev n off"
    by (rule hw_freq_cong) (use x ne in auto)
  consider (up) "readb s off < dv" | (down) "dv < readb s off" | (same) "dv = readb s off" by linarith
  then show ?thesis
  proof cases
    case up
    let ?ws = "[(off, x), (off, ?v), (?p, ?w)]"
    have "hw_freq (?R0(off := x, off := ?v)) dev n off \<le> hw_freq ?R0 dev n off"
      by (rule hw_freq_divisor_antimono [where d = "readb s off" and d' = dv]) (use up o v ne in auto)
    then have "hw_freq (replay (take k ?ws) ?R0) dev n off \<le> max (hw_freq ?R0 dev n off) (hw_freq (replay ?ws ?R0) dev n off)" for k
      using h1 by (cases k; cases "k - 1"; cases "k - 2") (auto simp: less_eq_Suc_le)
    moreover have "regs ?s' = replay ?ws ?R0" "wlog ?s' = wlog s @ ?ws"
      using up by (simp_all add: plldiv_writes_def Let_def sel flip: dv_def)
    ultimately show ?thesis using set by metis
  next
    case down
    let ?ws = "[(off, x), (?p, ?w), (off, ?v)]"
    have "hw_freq (?R0(off := x, ?p := ?w)) dev n off \<le> hw_freq (?R0(off := x, ?p := ?w, off := ?v)) dev n off"
      by (rule hw_freq_divisor_antimono [where d = dv and d' = "readb s off"]) (use down o v ne in auto)
    then have "hw_freq (replay (take k ?ws) ?R0) dev n off \<le> max (hw_freq ?R0 dev n off) (hw_freq (replay ?ws ?R0) dev n off)" for k
      using h1 by (cases k; cases "k - 1"; cases "k - 2") auto
    moreover have "regs ?s' = replay ?ws ?R0" "wlog ?s' = wlog s @ ?ws"
      using down by (simp_all add: plldiv_writes_def Let_def sel flip: dv_def)
    ultimately show ?thesis using set by metis
  next
    case same
    let ?ws = "[(off, x), (?p, ?w)]"
    have "hw_freq (replay (take k ?ws) ?R0) dev n off \<le> max (hw_freq ?R0 dev n off) (hw_freq (replay ?ws ?R0) dev n off)" for k
      using h1 by (cases k; cases "k - 1") auto
    moreover have "regs ?s' = replay ?ws ?R0" "wlog ?s' = wlog s @ ?ws"
      using same by (simp_all add: plldiv_writes_def Let_def sel flip: dv_def)
    ultimately show ?thesis using set by metis
  qed
qed

lemma set_pll_speed_eq:
  assumes pll: "calc_pll_num dev = (n, Some off)" "0 \<le> n" and rdy: "ready 3 s"
    and u: "unit_base unit = Some bf" and b: "b = search_speed n (u64 (u64 freq * bf)) (readb s off)"
  shows "\<exists>ws. set_pll_speed s dev unit freq d0 =
    Some ((writel (select_sdtv s dev off) (PMC_PLL + 4 * n) (pll_word b))\<lparr>status := ws\<rparr>, readb s off,
          s32 (u32 (pll_freq (DIVF b) (DIVR b) (DIVQ b) (readb s off))))"
proof -
  have off: "off mod 4 = 0" "0x300 \<le> off" and n1: "n \<noteq> -1" "n \<noteq> -2"
    using calc_pll_num_cases [OF pll(1)] pll(2) by auto
  let ?s0 = "select_sdtv s dev off"
  let ?s1 = "writel ?s0 (PMC_PLL + 4 * n) (pll_word b)"
  have "ready (Suc 2) (?s0\<lparr>status := status ?s0\<rparr>)" using rdy by (simp add: select_sdtv_def numeral_3_eq_3)
  from check_busy_status [OF this] obtain w1
    where c1: "check_PLL_DIV_busy ?s0 = Some (?s0\<lparr>status := w1\<rparr>)" and r1: "\<And>s'. ready (Suc 1) (s'\<lparr>status := w1\<rparr>)"
    by (auto simp: numeral_2_eq_2)
  from check_busy_status [OF r1] obtain w2
    where c2: "check_PLL_DIV_busy (?s0\<lparr>status := w1\<rparr>) = Some (?s0\<lparr>status := w2\<rparr>)"
      and r2: "\<And>s'. ready (Suc 0) (s'\<lparr>status := w2\<rparr>)" by (metis One_nat_def)
  from check_busy_status [OF r2] obtain w3
    where c3: "check_PLL_DIV_busy (?s1\<lparr>status := w2\<rparr>) = Some (?s1\<lparr>status := w3\<rparr>)" by blast
  have old: "readb ?s0 off = readb s off" using off by (rule_tac readb_select_sdtv)
  have "set_pll_speed s dev unit freq d0 = Some (?s1\<lparr>status := w3\<rparr>, readb s off,
          s32 (u32 (pll_freq (DIVF b) (DIVR b) (DIVQ b) (readb s off))))"
    by (simp only: set_pll_speed_def pll prod.case option.case n1 c1 c2 bind.bind_lunit u Let_def
        regs_status_upd old b [symmetric] if_False simp_thms status_writel_swap c3)
  then show ?thesis by blast
qed


section \<open>The properties at a concrete controller\<close>

lemma pll_example: "vco_ok 0 16" "cand_freq (0, 3, 4, 16) = 25500000"
  by code_simp+

lemma pll_example_ok:
  "admissible 100000000 b (0, 3, 4, 16)" "cand_dist 100000000 (0, 3, 4, 16) = 74500000"
  by (simp_all only: admissible_def cand_dist_def pll_example) simp_all



theorem set_pll_divisor_low_target_witness:
  "\<exists>s'. set_pll_divisor pmc1 DEV_I2C0 2 1 0 = Some (s', 1, 24000000)"
proof -
  have u: "unit_base 2 = Some 1000000" by code_simp
  show ?thesis
    by (rule set_pll_divisor_low_target [OF pmc1_ok(1) _ _ pmc1_ok(2,4) u]) (simp_all add: u64_def)
qed

theorem set_pll_divisor_no_overclock_witness:
  "\<exists>s' dv r ws. set_pll_divisor pmc1 DEV_I2C0 2 100 0 = Some (s', dv, r) \<and>
     (\<forall>k. hw_freq (replay (take k ws) (regs pmc1)) DEV_I2C0 1 0x3A0
        \<le> max (hw_freq (regs pmc1) DEV_I2C0 1 0x3A0) (hw_freq (regs s') DEV_I2C0 1 0x3A0))"
proof -
  have u: "unit_base 2 = Some 1000000" by code_simp
  from set_pll_divisor_no_overclock [OF pmc1_ok(1) _ pmc1_ok(2,4) u, of 100 0] show ?thesis
    by (auto simp: pmc1_ok(7))
qed

end
