(* ===== verification/WmtPower.thy ===== *)
theory WmtPower
  imports WmtClk
begin

text \<open>
  The power switch of the graphics processor, \<^verbatim>\<open>wm_pmc_set\<close> and \<^verbatim>\<open>wmt_power_dev\<close> of
  \<^verbatim>\<open>arch/arm/mach-wmt/wmt_clk.c\<close>. The switch is a volatile register: \<open>reads\<close> are the values that its
  successive reads deliver, \<open>None\<close> is a wait that does not end with them. The result has the values that
  are written to it, the reads that are left and the C return value.
\<close>

datatype power_cmd = DEV_PWRON | DEV_PWROFF | DEV_PWRSTS

text \<open>The condition of the loop reads the register once or twice.\<close>

fun mali_wait :: "int list \<Rightarrow> int list option" where
  "mali_wait [] = None"
| "mali_wait (v # vs) =
     (if v AND 0xF0 = 0 then Some vs
      else (case vs of [] \<Rightarrow> None | w # ws \<Rightarrow> if w AND 0xF0 = 0xF0 then Some ws else mali_wait ws))"

definition mali_read :: "int list \<Rightarrow> (int \<times> int list) option" where
  "mali_read reads = (case reads of [] \<Rightarrow> None | v # vs \<Rightarrow> Some (v, vs))"

definition chip_code :: "int \<Rightarrow> int" where
  "chip_code scc = (drop_bit 10 scc AND 0xC0) OR (scc AND 0x3F)"

definition wm_pmc_set :: "int \<Rightarrow> power_cmd \<Rightarrow> int list \<Rightarrow> (int list \<times> int list \<times> int) option" where
  "wm_pmc_set scc cmd reads =
     (if cmd = DEV_PWRON then
        (if chip_code scc AND 0xC0 = 0x80 then Some ([], reads, -1)
         else do {
           r1 \<leftarrow> mali_wait reads;
           (mali_val, r2) \<leftarrow> mali_read r1;
           (ws, r3) \<leftarrow> (if mali_val AND 0xF0 \<noteq> 0xF0 then do { (v, r) \<leftarrow> mali_read r2; Some ([v OR 1], r) } else Some ([], r2));
           r4 \<leftarrow> mali_wait r3;
           Some (ws, r4, 0)
         })
      else if cmd = DEV_PWROFF then
        (if chip_code scc AND 0xC3 = 0xC0 then Some ([], reads, -1)
         else do {
           r1 \<leftarrow> mali_wait reads;
           (mali_val, r2) \<leftarrow> mali_read r1;
           (ws, r3) \<leftarrow> (if mali_val AND 0xF0 \<noteq> 0 then do { (v, r) \<leftarrow> mali_read r2; Some ([v AND 0xFFFFFFFE], r) } else Some ([], r2));
           r4 \<leftarrow> mali_wait r3;
           Some (ws, r4, 0)
         })
      else do {
        r1 \<leftarrow> mali_wait reads;
        (v, r2) \<leftarrow> mali_read r1;
        Some ([], r2, if v AND 0xF0 \<noteq> 0 then 1 else 0)
      })"

text \<open>The body of \<^verbatim>\<open>wmt_power_dev\<close> is compiled out.\<close>

definition wmt_power_dev :: "dev_id \<Rightarrow> power_cmd \<Rightarrow> pmc \<Rightarrow> pmc \<times> int" where
  "wmt_power_dev dev cmd s = (s, 0)"

text \<open>
  The switch is thrown at most once, and only by its lowest bit; on a chip that cannot be switched
  nothing is read or written. A domain that is settled in the state that is asked for is left alone.
\<close>

lemma wm_pmc_set_once:
  assumes "wm_pmc_set scc cmd reads = Some (ws, rest, r)"
  shows "r \<in> {-1, 0, 1} \<and> (r = -1 \<longrightarrow> ws = [] \<and> rest = reads) \<and>
     (ws = [] \<or> cmd = DEV_PWRON \<and> ws \<in> range (\<lambda>v. [v OR 1]) \<or> cmd = DEV_PWROFF \<and> ws \<in> range (\<lambda>v. [v AND 0xFFFFFFFE]))"
  using assms by (cases cmd) (auto simp: wm_pmc_set_def split: if_splits bind_splits)

lemma wm_pmc_set_settled:
  "chip_code scc AND 0xC0 \<noteq> 0x80 \<Longrightarrow> v AND 0xF0 = 0xF0 \<Longrightarrow> wm_pmc_set scc DEV_PWRON [v, v, v, v, v] = Some ([], [], 0)"
  "chip_code scc AND 0xC3 \<noteq> 0xC0 \<Longrightarrow> v AND 0xF0 = 0 \<Longrightarrow> wm_pmc_set scc DEV_PWROFF [v, v, v] = Some ([], [], 0)"
  by (simp_all add: wm_pmc_set_def mali_read_def)

end
