(* ===== verification/MemBlock.thy ===== *)
theory MemBlock
  imports CPrelude
begin

text \<open>
  The memory block driver \<^verbatim>\<open>drivers/video/wmt/memblock.c\<close>: data structures, the block
  allocator and the operations on blocks (\<^verbatim>\<open>mb_alloc_mba\<close> to \<^verbatim>\<open>mb_do_put\<close>), for the
  configuration of \<^verbatim>\<open>Android_defconfig\<close> (\<^verbatim>\<open>CONFIG_WMT_MB_RESERVE_FROM_IO\<close>, no dynamic
  allocation).

  Every C object carries the address the slab allocator gave it (\<open>mba_p\<close>, \<open>mb_p\<close>,
  \<open>mbu_p\<close>); the rings of \<^verbatim>\<open>list_head\<close>s are lists, nested the way the C structures
  point to each other, so that the back pointers \<^verbatim>\<open>mbu->mb\<close>, \<^verbatim>\<open>mb->mba\<close> and
  \<^verbatim>\<open>mba->mbah\<close> are the nesting. Every call of \<^verbatim>\<open>kmem_cache_alloc\<close> is an argument of
  type \<open>nat option\<close>, the answer of the slab allocator; the I/O resource functions are
  the record \<open>io_env\<close>. The spin locks serialise the operations, which therefore run
  one after the other.
\<close>

section \<open>Data structures\<close>

definition MB_DEF_TGID :: int where "MB_DEF_TGID = 0"
definition TASK_COMM_LEN :: nat where "TASK_COMM_LEN = 16"
definition MBAFLAG_STATIC :: int where "MBAFLAG_STATIC = 0x80000000"
definition MBFIND_VIRT :: int where "MBFIND_VIRT = 0"
definition MBFIND_PHYS :: int where "MBFIND_PHYS = 1"
definition MBUFIND_USER :: int where "MBUFIND_USER = 1"
definition MBUFIND_VIRT :: int where "MBUFIND_VIRT = 2"
definition MBUFIND_PHYS :: int where "MBUFIND_PHYS = 4"
definition MBUFIND_ALL :: int where "MBUFIND_ALL = 0x10"
definition MBUFIND_CREATOR :: int where "MBUFIND_CREATOR = 0x20"
definition MBUFIND_MMAP :: int where "MBUFIND_MMAP = 0x40"
definition MBUFIND_GETPUT :: int where "MBUFIND_GETPUT = 0x80"
definition MBUFIND_ADDRMASK :: int where "MBUFIND_ADDRMASK = 7"

record mb_user =
  mbu_p :: nat
  mbu_tgid :: int
  mbu_addr :: int
  mbu_size :: int
  the_user :: string

record mb_struct =
  mb_p :: nat
  mb_start :: int
  mb_end :: int
  mb_phys :: int
  mb_virt :: int
  mb_size :: int
  mb_count :: int
  creator :: "nat option"
  mbu_list :: "mb_user list"

record mb_area =
  mba_p :: nat
  mba_flags :: int
  mba_tgid :: int
  mba_phys :: int
  mba_virt :: int
  mba_pages :: int
  mba_start :: int
  mba_end :: int
  nr_mb :: int
  mba_free :: int
  mba_max :: int
  mb_list :: "mb_struct list"

record mba_host =
  nr_mba :: int
  tot_pages :: int
  tot_static_pages :: int
  tot_free_pages :: int
  max_available_pages :: int
  mba_list :: "mb_area list"

record io_env =
  num_physpages :: int
  check_region :: "int \<Rightarrow> int \<Rightarrow> bool"
  request_mem_region :: "int \<Rightarrow> int \<Rightarrow> bool"
  ioremap :: "int \<Rightarrow> int \<Rightarrow> int"

section \<open>Page arithmetic\<close>

definition PAGE_ALIGN :: "int \<Rightarrow> int" where
  "PAGE_ALIGN x = u32 (x + 4095) AND NOT 4095"

fun order_loop :: "nat \<Rightarrow> nat" where
  "order_loop s = (if s div 2 = 0 then 0 else Suc (order_loop (s div 2)))"

declare order_loop.simps [simp del]

definition get_order :: "int \<Rightarrow> nat" where
  "get_order sz = order_loop (nat (u32 (sz - 1) div 2048))"

text \<open>\<open>__va\<close> and \<open>__pa\<close>: physical memory starts at 0 and is mapped at \<^verbatim>\<open>PAGE_OFFSET\<close>.\<close>

definition va :: "int \<Rightarrow> int" where "va p = u32 (p + 0xC0000000)"
definition pa :: "int \<Rightarrow> int" where "pa v = u32 (v - 0xC0000000)"

section \<open>Pointers\<close>

definition is_mba :: "nat \<Rightarrow> mb_area \<Rightarrow> bool" where "is_mba p a \<longleftrightarrow> mba_p a = p"
definition is_mb :: "nat \<Rightarrow> mb_struct \<Rightarrow> bool" where "is_mb q b \<longleftrightarrow> mb_p b = q"
definition is_mbu :: "nat \<Rightarrow> mb_user \<Rightarrow> bool" where "is_mbu r u \<longleftrightarrow> mbu_p u = r"

definition is_static :: "mb_area \<Rightarrow> bool" where
  "is_static a \<longleftrightarrow> mba_flags a AND MBAFLAG_STATIC \<noteq> 0"

text \<open>Writing through a pointer.\<close>

definition upd_mba :: "nat \<Rightarrow> (mb_area \<Rightarrow> mb_area) \<Rightarrow> mba_host \<Rightarrow> mba_host" where
  "upd_mba p f h = h\<lparr>mba_list := upd_first (is_mba p) f (mba_list h)\<rparr>"

definition upd_mb :: "nat \<Rightarrow> nat \<Rightarrow> (mb_struct \<Rightarrow> mb_struct) \<Rightarrow> mba_host \<Rightarrow> mba_host" where
  "upd_mb p q f = upd_mba p (\<lambda>a. a\<lparr>mb_list := upd_first (is_mb q) f (mb_list a)\<rparr>)"

section \<open>Memory areas\<close>

definition mb_alloc_pages :: "io_env \<Rightarrow> int \<Rightarrow> (int \<times> int) option" where
  "mb_alloc_pages env nr_pages =
     (let order = get_order (u32 (num_physpages env * 4096));
          size = u32 (nr_pages * 4096);
          addr = u32 ((2 ^ order - nr_pages) * 4096)
      in if nr_pages = 0 then None
         else if check_region env addr size then None
         else if \<not> request_mem_region env addr size then None
         else if ioremap env addr size = 0 then None
         else Some (ioremap env addr size, addr))"

text \<open>The loop that recomputes the host's largest free zone.\<close>

definition host_max :: "mb_area list \<Rightarrow> int" where
  "host_max as = foldl (\<lambda>m a. max m (mba_max a)) 0 as"

definition mb_alloc_mba ::
    "mba_host \<Rightarrow> io_env \<Rightarrow> int \<Rightarrow> nat option \<Rightarrow> mba_host \<times> nat option" where
  "mb_alloc_mba h env pages mem =
     (if pages = 0 then (h, None)
      else case mem of None \<Rightarrow> (h, None)
      | Some p \<Rightarrow>
        (case mb_alloc_pages env pages of None \<Rightarrow> (h, None)
         | Some (virt, phys) \<Rightarrow>
           let a = \<lparr>mba_p = p, mba_flags = 0, mba_tgid = 0, mba_phys = phys, mba_virt = virt,
                    mba_pages = pages, mba_start = phys div 4096,
                    mba_end = phys div 4096 + pages, nr_mb = 0,
                    mba_free = pages, mba_max = pages, mb_list = []\<rparr>
           in (h\<lparr>nr_mba := nr_mba h + 1, tot_pages := tot_pages h + pages,
                 tot_free_pages := tot_free_pages h + pages,
                 max_available_pages := max (max_available_pages h) pages,
                 mba_list := mba_list h @ [a]\<rparr>, Some p)))"

definition mb_free_mba :: "mba_host \<Rightarrow> nat \<Rightarrow> mba_host \<times> (errno + int)" where
  "mb_free_mba h p =
     (case find (is_mba p) (mba_list h) of None \<Rightarrow> (h, Inl EFAULT)
      | Some a \<Rightarrow>
        if nr_mb a \<noteq> 0 then (h, Inl EFAULT)
        else if is_static a then (h, Inr 0)
        else let as = del_first (is_mba p) (mba_list h)
             in (h\<lparr>mba_list := as, nr_mba := nr_mba h - 1,
                   tot_free_pages := tot_free_pages h - mba_free a,
                   tot_pages := tot_pages h - mba_pages a,
                   max_available_pages := host_max as\<rparr>, Inr 0))"

section \<open>Blocks\<close>

text \<open>The first loop of \<^verbatim>\<open>mb_alloc_mb\<close>: \<open>zs\<close>, \<open>ze\<close> and \<open>next\<close> are its variables, \<open>i\<close> is
  the position of the entry.\<close>

fun zone_search ::
    "int \<Rightarrow> int \<Rightarrow> int \<Rightarrow> nat \<Rightarrow> nat \<Rightarrow> mb_struct list \<Rightarrow> int \<times> int \<times> nat" where
  "zone_search pages zs ze next i [] = (zs, ze, next)"
| "zone_search pages zs ze next i (e # es) =
     (if u32 (mb_start e - zs) \<ge> pages then (zs, mb_start e, i)
      else zone_search pages (mb_end e) (mb_start e) i (i + 1) es)"

text \<open>The loops that recompute the largest and the total free zone of an area.\<close>

fun zone_max :: "int \<Rightarrow> int \<Rightarrow> mb_struct list \<Rightarrow> int \<Rightarrow> int" where
  "zone_max zs m [] e = max (u32 (e - zs)) m"
| "zone_max zs m (b # bs) e = zone_max (mb_end b) (max (u32 (mb_start b - zs)) m) bs e"

fun zone_sum :: "int \<Rightarrow> int \<Rightarrow> mb_struct list \<Rightarrow> int \<Rightarrow> int" where
  "zone_sum zs n [] e = n + u32 (e - zs)"
| "zone_sum zs n (b # bs) e = zone_sum (mb_end b) (n + u32 (mb_start b - zs)) bs e"

definition new_mb :: "mb_area \<Rightarrow> nat \<Rightarrow> int \<Rightarrow> int \<Rightarrow> int \<Rightarrow> mb_struct" where
  "new_mb a q zs pages sz =
     (let phys = mba_phys a + (zs - mba_start a) * 4096
      in \<lparr>mb_p = q, mb_start = zs, mb_end = zs + pages, mb_phys = phys,
          mb_virt = mba_virt a + (phys - mba_phys a), mb_size = sz, mb_count = 0,
          creator = None, mbu_list = []\<rparr>)"

definition mb_alloc_mb ::
    "mba_host \<Rightarrow> nat \<Rightarrow> int \<Rightarrow> nat option \<Rightarrow> mba_host \<times> mb_struct option" where
  "mb_alloc_mb h p size0 mem =
     (case find (is_mba p) (mba_list h) of None \<Rightarrow> (h, None)
      | Some a \<Rightarrow>
        if size0 = 0 then (h, None)
        else let size = PAGE_ALIGN size0; pages = size div 4096 in
          if mba_max a < pages then (h, None)
          else let (zs, ze0, next0) = zone_search pages (mba_start a) (mba_start a)
                     (length (mb_list a)) 0 (mb_list a);
                   ze = (if zs \<ge> ze0 then mba_end a else ze0);
                   next = (if zs \<ge> ze0 then length (mb_list a) else next0)
               in if u32 (ze - zs) < pages then (h, None)
                  else case mem of None \<Rightarrow> (h, None)
                  | Some q \<Rightarrow>
                    let mb = new_mb a q zs pages size;
                        bs = insert_at next mb (mb_list a);
                        h1 = upd_mba p (\<lambda>a. a\<lparr>mb_list := bs, nr_mb := nr_mb a + 1,
                               mba_free := mba_free a - pages,
                               mba_max := zone_max (mba_start a) 0 bs (mba_end a)\<rparr>) h
                    in (h1\<lparr>tot_free_pages := tot_free_pages h - pages,
                           max_available_pages := host_max (mba_list h1)\<rparr>, Some mb))"

text \<open>A block is freed through the pair of its area and its own address.\<close>

definition mb_free_mb :: "mba_host \<Rightarrow> nat \<Rightarrow> nat \<Rightarrow> mba_host \<times> (errno + int)" where
  "mb_free_mb h p q =
     (case find (is_mba p) (mba_list h) of None \<Rightarrow> (h, Inl EFAULT)
      | Some a \<Rightarrow>
        (case find (is_mb q) (mb_list a) of None \<Rightarrow> (h, Inl EFAULT)
         | Some b \<Rightarrow>
           if mb_count b \<noteq> 0 then (h, Inl EINVAL)
           else let bs = del_first (is_mb q) (mb_list a);
                    h1 = upd_mba p (\<lambda>a. a\<lparr>mb_list := bs, nr_mb := nr_mb a - 1\<rparr>) h
                in if nr_mb a - 1 = 0 \<and> \<not> is_static a then mb_free_mba h1 p
                   else let free = zone_sum (mba_start a) 0 bs (mba_end a);
                            mx = zone_max (mba_start a) 0 bs (mba_end a);
                            h2 = upd_mba p (\<lambda>a. a\<lparr>mba_free := free, mba_max := mx\<rparr>) h1
                        in (h2\<lparr>tot_free_pages := tot_free_pages h - mba_free a + free,
                               max_available_pages := max (max_available_pages h) mx\<rparr>, Inr 0)))"

section \<open>Searching\<close>

text \<open>\<^verbatim>\<open>list_for_each_entry\<close> with a \<^verbatim>\<open>return\<close> or \<^verbatim>\<open>goto\<close> in its body.\<close>

fun first_some :: "('a \<Rightarrow> 'b option) \<Rightarrow> 'a list \<Rightarrow> 'b option" where
  "first_some f [] = None"
| "first_some f (x # xs) = (case f x of None \<Rightarrow> first_some f xs | Some y \<Rightarrow> Some y)"

definition mb_hit :: "int \<Rightarrow> int \<Rightarrow> mb_struct \<Rightarrow> bool" where
  "mb_hit addr type b \<longleftrightarrow>
     (let mbaddr = (if type = MBFIND_PHYS then mb_phys b else mb_virt b)
      in addr \<ge> mbaddr \<and> addr < u32 (mbaddr + mb_size b))"

definition mba_hit :: "int \<Rightarrow> int \<Rightarrow> mb_area \<Rightarrow> (mb_area \<times> mb_struct) option" where
  "mba_hit addr type a =
     (let saddr = (if type = MBFIND_PHYS then mba_phys a else mba_virt a);
          eaddr = u32 (saddr + mba_pages a * 4096)
      in if addr < saddr \<or> addr > eaddr then None
         else map_option (Pair a) (find (mb_hit addr type) (mb_list a)))"

definition mb_find_mb :: "mba_host \<Rightarrow> int \<Rightarrow> int \<Rightarrow> (mb_area \<times> mb_struct) option" where
  "mb_find_mb h addr type =
     (if addr = 0 \<or> type \<noteq> MBFIND_PHYS \<and> type \<noteq> MBFIND_VIRT then None
      else first_some (mba_hit addr type) (mba_list h))"

text \<open>
  The body of the innermost loop of \<^verbatim>\<open>mb_find_mbu\<close>. \<open>Some r\<close> is the jump to \<^verbatim>\<open>leave\<close>
  with \<open>mbu = r\<close>; with \<^verbatim>\<open>MBUFIND_CREATOR\<close> the result is the creator of the block,
  which may be \<^verbatim>\<open>NULL\<close>.
\<close>

definition mbu_match ::
    "int \<Rightarrow> int \<Rightarrow> int \<Rightarrow> mb_struct \<Rightarrow> mb_user \<Rightarrow> mb_user option option" where
  "mbu_match addr tgid st b u =
     (if mbu_tgid u \<noteq> tgid \<and> tgid \<noteq> MB_DEF_TGID then None
      else if st AND MBUFIND_USER \<noteq> 0 \<and> addr \<noteq> mbu_addr u then None
      else if st AND MBUFIND_ALL \<noteq> 0 then Some (Some u)
      else if st AND MBUFIND_CREATOR \<noteq> 0 then
        Some (case creator b of None \<Rightarrow> None | Some r \<Rightarrow> find (is_mbu r) (mbu_list b))
      else if st AND MBUFIND_MMAP \<noteq> 0 \<and> mbu_size u \<noteq> 0 then Some (Some u)
      else if st AND MBUFIND_GETPUT \<noteq> 0 \<and> mbu_addr u \<noteq> 0 \<and> mbu_size u = 0 then Some (Some u)
      else None)"

definition mb_match :: "int \<Rightarrow> int \<Rightarrow> int \<Rightarrow> mb_struct \<Rightarrow> (mb_struct \<times> mb_user option) option" where
  "mb_match addr tgid st b =
     (if st AND MBUFIND_PHYS \<noteq> 0 \<and> addr \<noteq> mb_phys b then None
      else if st AND MBUFIND_VIRT \<noteq> 0 \<and> addr \<noteq> mb_virt b then None
      else map_option (Pair b) (first_some (mbu_match addr tgid st b) (mbu_list b)))"

definition mba_match ::
    "int \<Rightarrow> int \<Rightarrow> int \<Rightarrow> mb_area \<Rightarrow> (mb_area \<times> mb_struct \<times> mb_user option) option" where
  "mba_match addr tgid st a =
     (let saddr = (if st AND MBUFIND_PHYS \<noteq> 0 then mba_phys a else mba_virt a);
          eaddr = u32 (saddr + mba_pages a * 4096)
      in if st AND (MBUFIND_VIRT OR MBUFIND_PHYS) \<noteq> 0 \<and> (addr < saddr \<or> addr > eaddr) then None
         else map_option (Pair a) (first_some (mb_match addr tgid st) (mb_list a)))"

definition mb_find_mbu ::
    "mba_host \<Rightarrow> int \<Rightarrow> int \<Rightarrow> int \<Rightarrow> (mb_area \<times> mb_struct \<times> mb_user) option" where
  "mb_find_mbu h addr tgid st =
     (if addr = 0 \<or> st AND MBUFIND_ADDRMASK = 0 then None
      else case first_some (mba_match addr tgid st) (mba_list h) of
        Some (a, b, Some u) \<Rightarrow> Some (a, b, u)
      | _ \<Rightarrow> None)"

definition mb_update_mbah :: "mba_host \<Rightarrow> mba_host" where
  "mb_update_mbah h =
     (let (free, mx) = foldl (\<lambda>(free, mx) a.
            let nr_pages = zone_max (mba_start a) 0 (mb_list a) (mba_end a);
                mba_free = zone_sum (mba_start a) 0 (mb_list a) (mba_end a)
            in (free + mba_free, max mx nr_pages)) (0, 0) (mba_list h)
      in h\<lparr>tot_free_pages := free, max_available_pages := mx\<rparr>)"

section \<open>Address translation\<close>

definition mb_do_phys_to_virt :: "mba_host \<Rightarrow> int \<Rightarrow> int" where
  "mb_do_phys_to_virt h phys =
     (case mb_find_mb h phys MBFIND_PHYS of
        Some (a, b) \<Rightarrow> mb_virt b + (phys - mb_phys b) | None \<Rightarrow> va phys)"

definition mb_do_virt_to_phys :: "mba_host \<Rightarrow> int \<Rightarrow> int" where
  "mb_do_virt_to_phys h virt =
     (case mb_find_mb h virt MBFIND_VIRT of
        Some (a, b) \<Rightarrow> mb_phys b + (virt - mb_virt b) | None \<Rightarrow> pa virt)"

definition mb_do_user_to_phys :: "mba_host \<Rightarrow> int \<Rightarrow> int \<Rightarrow> int" where
  "mb_do_user_to_phys h user tgid =
     (case mb_find_mbu h user tgid (MBUFIND_USER OR MBUFIND_ALL) of
        None \<Rightarrow> 0 | Some (a, b, u) \<Rightarrow> mb_phys b)"

definition mb_do_user_to_virt :: "mba_host \<Rightarrow> int \<Rightarrow> int \<Rightarrow> int" where
  "mb_do_user_to_virt h user tgid =
     (case mb_find_mbu h user tgid (MBUFIND_USER OR MBUFIND_ALL) of
        None \<Rightarrow> 0 | Some (a, b, u) \<Rightarrow> mb_virt b)"

definition mb_do_counter :: "mba_host \<Rightarrow> int \<Rightarrow> errno + int" where
  "mb_do_counter h addr =
     (if addr = 0 then Inl EINVAL
      else Inr (case mb_find_mb h addr MBFIND_PHYS of Some (a, b) \<Rightarrow> mb_count b | None \<Rightarrow> -1))"

section \<open>Allocation and reference counting\<close>

definition user_name :: "string \<Rightarrow> string" where
  "user_name name = take TASK_COMM_LEN name"

text \<open>Adding a user to a block and taking one away.\<close>

definition add_user :: "mb_user \<Rightarrow> mb_struct \<Rightarrow> mb_struct" where
  "add_user u b = b\<lparr>mbu_list := mbu_list b @ [u], mb_count := mb_count b + 1\<rparr>"

definition del_user :: "nat \<Rightarrow> mb_struct \<Rightarrow> mb_struct" where
  "del_user r b = b\<lparr>mbu_list := del_first (is_mbu r) (mbu_list b), mb_count := mb_count b - 1\<rparr>"

definition mb_do_alloc ::
    "mba_host \<Rightarrow> int \<Rightarrow> int \<Rightarrow> string option \<Rightarrow> nat option \<Rightarrow> nat option \<Rightarrow> mba_host \<times> int" where
  "mb_do_alloc h size0 tgid name mbu_mem mb_mem =
     (case name of None \<Rightarrow> (h, 0)
      | Some nm \<Rightarrow>
        let size = PAGE_ALIGN size0; pages = size div 4096 in
        if pages = 0 then (h, 0)
        else case mbu_mem of None \<Rightarrow> (h, 0)
        | Some r \<Rightarrow>
          if pages > max_available_pages h then (h, 0)
          else case find (\<lambda>a. mba_max a \<ge> pages) (mba_list h) of None \<Rightarrow> (h, 0)
          | Some a \<Rightarrow>
            (case mb_alloc_mb h (mba_p a) size mb_mem of
               (h1, None) \<Rightarrow> (h1, 0)
             | (h1, Some mb) \<Rightarrow>
               let u = \<lparr>mbu_p = r, mbu_tgid = tgid, mbu_addr = 0, mbu_size = mb_size mb,
                        the_user = user_name nm\<rparr>
               in (upd_mb (mba_p a) (mb_p mb) (\<lambda>b. (add_user u b)\<lparr>creator := Some r\<rparr>) h1,
                   mb_phys mb)))"

definition mb_do_free :: "mba_host \<Rightarrow> int \<Rightarrow> int \<Rightarrow> string option \<Rightarrow> mba_host \<times> (errno + int)" where
  "mb_do_free h addr tgid name =
     (if addr = 0 \<or> name = None then (h, Inl EINVAL)
      else case mb_find_mbu h addr tgid (MBUFIND_PHYS OR MBUFIND_CREATOR) of
        None \<Rightarrow> (h, Inl EINVAL)
      | Some (a, b, u) \<Rightarrow>
          let h1 = upd_mb (mba_p a) (mb_p b) (\<lambda>b. (del_user (mbu_p u) b)\<lparr>creator := None\<rparr>) h
          in if mb_count b - 1 \<noteq> 0 then (h1, Inr 0) else mb_free_mb h1 (mba_p a) (mb_p b))"

definition mb_do_get ::
    "mba_host \<Rightarrow> int \<Rightarrow> int \<Rightarrow> string option \<Rightarrow> nat option \<Rightarrow> mba_host \<times> (errno + int)" where
  "mb_do_get h addr tgid name mem =
     (case name of None \<Rightarrow> (h, Inl EINVAL)
      | Some nm \<Rightarrow>
        if addr = 0 then (h, Inl EINVAL)
        else case mem of None \<Rightarrow> (h, Inl ENOMEM)
        | Some r \<Rightarrow>
          let mb = (if tgid \<noteq> MB_DEF_TGID
                    then map_option (\<lambda>(a, b, u). (a, b))
                           (mb_find_mbu h addr tgid (MBUFIND_USER OR MBUFIND_MMAP))
                    else mb_find_mb h addr MBFIND_PHYS)
          in case mb of None \<Rightarrow> (h, Inl EFAULT)
             | Some (a, b) \<Rightarrow>
               let u = \<lparr>mbu_p = r, mbu_tgid = tgid, mbu_addr = addr, mbu_size = 0,
                        the_user = user_name nm\<rparr>
               in (upd_mb (mba_p a) (mb_p b) (add_user u) h, Inr 0))"

text \<open>Dropping one user of a block; the last one to go frees it. The result of
  \<^verbatim>\<open>mb_free_mb\<close> is ignored.\<close>

definition drop_user :: "mba_host \<Rightarrow> mb_area \<Rightarrow> mb_struct \<Rightarrow> mb_user \<Rightarrow> mba_host" where
  "drop_user h a b u =
     (let h1 = upd_mb (mba_p a) (mb_p b) (del_user (mbu_p u)) h
      in if mb_count b - 1 \<noteq> 0 then h1 else fst (mb_free_mb h1 (mba_p a) (mb_p b)))"

definition mb_do_put :: "mba_host \<Rightarrow> int \<Rightarrow> int \<Rightarrow> string option \<Rightarrow> mba_host \<times> (errno + int)" where
  "mb_do_put h addr tgid name =
     (if addr = 0 \<or> name = None then (h, Inl EINVAL)
      else case mb_find_mbu h addr tgid
             ((if tgid = MB_DEF_TGID then MBUFIND_PHYS else MBUFIND_USER) OR MBUFIND_GETPUT) of
        None \<Rightarrow> (h, Inl EINVAL)
      | Some (a, b, u) \<Rightarrow>
          if mb_count b = 0 then (h, Inl EPERM) else (drop_user h a b u, Inr 0))"

end
