(* ===== verification/MbZone.thy ===== *)
theory MbZone
  imports MemBlock
begin

text \<open>
  The geometry of one area: blocks in page order, the free zones between them, and what the
  first-fit search \<open>zone_search\<close> of \<^verbatim>\<open>mb_alloc_mb\<close> finds.
\<close>

section \<open>Free zones of an area\<close>

text \<open>\<open>zones_ok zs bs e\<close>: the blocks \<open>bs\<close> lie in order, without overlap, between the pages
  \<open>zs\<close> and \<open>e\<close>. \<open>gaps zs bs e\<close> are the lengths of the free zones around them.\<close>

fun zones_ok :: "int \<Rightarrow> mb_struct list \<Rightarrow> int \<Rightarrow> bool" where
  "zones_ok zs [] e \<longleftrightarrow> zs \<le> e"
| "zones_ok zs (b # bs) e \<longleftrightarrow> zs \<le> mb_start b \<and> mb_start b < mb_end b \<and> zones_ok (mb_end b) bs e"

fun gaps :: "int \<Rightarrow> mb_struct list \<Rightarrow> int \<Rightarrow> int list" where
  "gaps zs [] e = [e - zs]"
| "gaps zs (b # bs) e = (mb_start b - zs) # gaps (mb_end b) bs e"

definition zend :: "int \<Rightarrow> mb_struct list \<Rightarrow> int" where
  "zend zs bs = (if bs = [] then zs else mb_end (last bs))"

definition mb_pages :: "mb_struct \<Rightarrow> int" where
  "mb_pages b = mb_end b - mb_start b"

lemma zend_simps [simp]: "zend zs [] = zs" "zend zs (b # bs) = zend (mb_end b) bs"
  by (auto simp: zend_def)

lemma zones_ok_le: "zones_ok zs bs e \<Longrightarrow> zs \<le> e"
  by (induction zs bs e rule: zones_ok.induct) auto

lemma zones_ok_append:
  "zones_ok zs (us @ vs) e \<longleftrightarrow> zones_ok zs us (zend zs us) \<and> zones_ok (zend zs us) vs e"
  by (induction us arbitrary: zs) auto

lemma zones_ok_mem: "zones_ok zs bs e \<Longrightarrow> b \<in> set bs \<Longrightarrow> zs \<le> mb_start b \<and> mb_start b < mb_end b \<and> mb_end b \<le> e"
  by (induction zs bs e rule: zones_ok.induct) (auto dest: zones_ok_le)

lemma zones_ok_disjoint:
  "zones_ok zs (us @ b # vs @ c # ws) e \<Longrightarrow> mb_end b \<le> mb_start c"
  using zones_ok_mem [of "mb_end b" "vs @ c # ws" e c] by (simp add: zones_ok_append)

lemma gaps_ne [simp]: "gaps zs bs e \<noteq> []"
  by (cases bs) auto

lemma gaps_append: "gaps zs (us @ vs) e = butlast (gaps zs us (zend zs us)) @ gaps (zend zs us) vs e"
  by (induction us arbitrary: zs) auto

lemma gaps_ge0: "zones_ok zs bs e \<Longrightarrow> g \<in> set (gaps zs bs e) \<Longrightarrow> 0 \<le> g"
  by (induction zs bs e rule: zones_ok.induct) auto

lemma sum_gaps: "sum_list (gaps zs bs e) = e - zs - sum_list (map mb_pages bs)"
  by (induction zs bs e rule: gaps.induct) (auto simp: mb_pages_def)

text \<open>The loops of the driver compute the sum and the maximum of the gaps.\<close>

lemma zone_sum_gaps:
  "zones_ok zs bs e \<Longrightarrow> 0 \<le> zs \<Longrightarrow> e < 4294967296 \<Longrightarrow> zone_sum zs n bs e = n + sum_list (gaps zs bs e)"
  by (induction zs n bs e rule: zone_sum.induct) (auto simp: u32_id dest: zones_ok_le)

lemma zone_max_gaps:
  "zones_ok zs bs e \<Longrightarrow> 0 \<le> zs \<Longrightarrow> e < 4294967296 \<Longrightarrow> zone_max zs m bs e = foldr max (gaps zs bs e) m"
proof (induction zs m bs e rule: zone_max.induct)
  case (1 zs m e)
  then show ?case by (simp add: u32_id)
next
  case (2 zs m b bs e)
  have "foldr max gs (max (x :: int) m) = max x (foldr max gs m)" for gs x by (induction gs) auto
  moreover have "mb_start b < 4294967296" using 2 zones_ok_le [of "mb_end b" bs e] by auto
  ultimately show ?case using 2 by (simp add: u32_id)
qed

lemma foldr_max_ge: "(m :: int) \<le> foldr max gs m" "g \<in> set gs \<Longrightarrow> g \<le> foldr max gs m"
  by (induction gs) auto

lemma foldr_max_in: "foldr max gs (m :: int) = m \<or> foldr max gs m \<in> set gs"
  by (induction gs) (auto simp: max_def)

lemma foldr_max_le_iff: "foldr max gs (m :: int) \<le> c \<longleftrightarrow> m \<le> c \<and> (\<forall>g \<in> set gs. g \<le> c)"
  by (induction gs) auto

section \<open>The zone search\<close>

text \<open>The zone that \<^verbatim>\<open>mb_alloc_mb\<close> ends up with: \<open>find_zone a pages\<close> is \<open>(zs, ze, next)\<close> after
  the loop and the test that follows it.\<close>

definition find_zone :: "mb_area \<Rightarrow> int \<Rightarrow> int \<times> int \<times> nat" where
  "find_zone a pages =
     (let (zs, ze0, next0) = zone_search pages (mba_start a) (mba_start a)
                (length (mb_list a)) 0 (mb_list a)
      in (zs, if zs \<ge> ze0 then mba_end a else ze0, if zs \<ge> ze0 then length (mb_list a) else next0))"

lemma zone_search_spec:
  assumes "zones_ok zs bs e" "0 \<le> zs" "e < 4294967296" "0 < pages"
    and "zone_search pages zs ze next i bs = (zs', ze', next')"
  shows "(\<exists>us b vs. bs = us @ b # vs \<and> zs' = zend zs us \<and> ze' = mb_start b \<and> next' = i + length us
            \<and> pages \<le> mb_start b - zend zs us \<and> (\<forall>g \<in> set (butlast (gaps zs us (zend zs us))). g < pages))
    \<or> zs' = zend zs bs \<and> (bs \<noteq> [] \<longrightarrow> ze' < zs') \<and> (bs = [] \<longrightarrow> ze' = ze)
       \<and> (\<forall>g \<in> set (butlast (gaps zs bs e)). g < pages)"
  using assms
proof (induction bs arbitrary: zs ze "next" i)
  case Nil
  then show ?case by simp
next
  case (Cons b bs)
  have b: "zs \<le> mb_start b" "mb_start b < mb_end b" "zones_ok (mb_end b) bs e" using Cons.prems(1) by auto
  have u: "u32 (mb_start b - zs) = mb_start b - zs"
    using b Cons.prems(2,3) zones_ok_le [OF b(3)] by (simp add: u32_id)
  show ?case
  proof (cases "pages \<le> mb_start b - zs")
    case True
    then show ?thesis using Cons.prems(5) u by (intro disjI1 exI [of _ "[]"]) auto
  next
    case False
    then have s: "zone_search pages (mb_end b) (mb_start b) i (i + 1) bs = (zs', ze', next')"
      using Cons.prems(5) u by simp
    have "0 \<le> mb_end b" using b Cons.prems(2) by simp
    from Cons.IH [OF b(3) this Cons.prems(3,4) s] show ?thesis
    proof
      assume "\<exists>us c vs. bs = us @ c # vs \<and> zs' = zend (mb_end b) us \<and> ze' = mb_start c \<and> next' = i + 1 + length us
          \<and> pages \<le> mb_start c - zend (mb_end b) us \<and> (\<forall>g \<in> set (butlast (gaps (mb_end b) us (zend (mb_end b) us))). g < pages)"
      then obtain us c vs where "bs = us @ c # vs" "zs' = zend (mb_end b) us" "ze' = mb_start c" "next' = i + 1 + length us"
          "pages \<le> mb_start c - zend (mb_end b) us" "\<forall>g \<in> set (butlast (gaps (mb_end b) us (zend (mb_end b) us))). g < pages"
        by blast
      with False show ?thesis by (intro disjI1 exI [of _ "b # us"] exI [of _ c] exI [of _ vs]) auto
    next
      assume R: "zs' = zend (mb_end b) bs \<and> (bs \<noteq> [] \<longrightarrow> ze' < zs') \<and> (bs = [] \<longrightarrow> ze' = mb_start b)
          \<and> (\<forall>g \<in> set (butlast (gaps (mb_end b) bs e)). g < pages)"
      then have "ze' < zs'" using b by (cases "bs = []") auto
      with R False show ?thesis by (intro disjI2) auto
    qed
  qed
qed

lemma find_zone_spec:
  assumes ok: "zones_ok (mba_start a) (mb_list a) (mba_end a)" "0 \<le> mba_start a" "mba_end a < 4294967296"
    and pages: "0 < pages" and f: "find_zone a pages = (zs, ze, next)"
  shows "\<exists>us vs. mb_list a = us @ vs \<and> next = length us \<and> zs = zend (mba_start a) us
    \<and> ze = (case vs of [] \<Rightarrow> mba_end a | b # _ \<Rightarrow> mb_start b) \<and> (vs \<noteq> [] \<longrightarrow> pages \<le> ze - zs)
    \<and> (\<forall>g \<in> set (butlast (gaps (mba_start a) us zs)). g < pages)"
proof -
  obtain zs0 ze0 next0 where z: "zone_search pages (mba_start a) (mba_start a) (length (mb_list a)) 0 (mb_list a)
      = (zs0, ze0, next0)" by (metis prod_cases3)
  from zone_search_spec [OF ok pages z] show ?thesis
  proof
    assume "\<exists>us b vs. mb_list a = us @ b # vs \<and> zs0 = zend (mba_start a) us \<and> ze0 = mb_start b \<and> next0 = 0 + length us
            \<and> pages \<le> mb_start b - zend (mba_start a) us
            \<and> (\<forall>g \<in> set (butlast (gaps (mba_start a) us (zend (mba_start a) us))). g < pages)"
    then obtain us b vs where *: "mb_list a = us @ b # vs" "zs0 = zend (mba_start a) us" "ze0 = mb_start b" "next0 = length us"
            "pages \<le> mb_start b - zend (mba_start a) us"
            "\<forall>g \<in> set (butlast (gaps (mba_start a) us (zend (mba_start a) us))). g < pages" by auto
    with pages have "\<not> zs0 \<ge> ze0" by simp
    with f z have "zs = zs0" "ze = ze0" "next = next0" by (auto simp: find_zone_def)
    with * show ?thesis by (intro exI [of _ us] exI [of _ "b # vs"]) auto
  next
    assume *: "zs0 = zend (mba_start a) (mb_list a) \<and> (mb_list a \<noteq> [] \<longrightarrow> ze0 < zs0) \<and> (mb_list a = [] \<longrightarrow> ze0 = mba_start a)
       \<and> (\<forall>g \<in> set (butlast (gaps (mba_start a) (mb_list a) (mba_end a))). g < pages)"
    then have "ze0 \<le> zs0" by (cases "mb_list a = []") auto
    with f z have zs: "zs = zs0" "ze = mba_end a" "next = length (mb_list a)" by (auto simp: find_zone_def)
    have "butlast (gaps s bs e) = butlast (gaps s bs e')" for s bs e e'
      by (induction bs arbitrary: s) auto
    then have "\<forall>g \<in> set (butlast (gaps (mba_start a) (mb_list a) zs)). g < pages" using * by metis
    with zs * show ?thesis by (intro exI [of _ "mb_list a"] exI [of _ "[]"]) simp
  qed
qed

end
