(* ===== verification/MbInv.thy ===== *)
theory MbInv
  imports MbZone
begin

text \<open>
  The invariant of the memory block driver, \<open>host_ok\<close>: what the counters and lists of the
  host, its areas and their blocks say about each other, and the updates that keep it.
\<close>

section \<open>The invariant\<close>

definition creator_ok :: "mb_struct \<Rightarrow> bool" where
  "creator_ok b \<longleftrightarrow> (\<forall>r. creator b = Some r \<longrightarrow>
     (\<exists>u \<in> set (mbu_list b). mbu_p u = r \<and> mbu_addr u = 0 \<and> mbu_size u = mb_size b))"

definition mb_ok :: "mb_area \<Rightarrow> mb_struct \<Rightarrow> bool" where
  "mb_ok a b \<longleftrightarrow>
     mb_phys b = mba_phys a + (mb_start b - mba_start a) * 4096 \<and>
     mb_virt b = mba_virt a + (mb_phys b - mba_phys a) \<and>
     mb_size b = mb_pages b * 4096 \<and>
     mb_count b = int (length (mbu_list b)) \<and> distinct (map mbu_p (mbu_list b)) \<and> creator_ok b"

definition area_ok :: "mb_area \<Rightarrow> bool" where
  "area_ok a \<longleftrightarrow>
     0 < mba_start a \<and> 0 < mba_pages a \<and> mba_end a = mba_start a + mba_pages a \<and> mba_end a < 0x100000 \<and>
     mba_phys a = mba_start a * 4096 \<and> 0 < mba_virt a \<and> mba_virt a + mba_pages a * 4096 < 0x100000000"

definition mba_ok :: "mb_area \<Rightarrow> bool" where
  "mba_ok a \<longleftrightarrow> area_ok a \<and>
     zones_ok (mba_start a) (mb_list a) (mba_end a) \<and>
     nr_mb a = int (length (mb_list a)) \<and>
     mba_free a = sum_list (gaps (mba_start a) (mb_list a) (mba_end a)) \<and>
     mba_max a = foldr max (gaps (mba_start a) (mb_list a) (mba_end a)) 0 \<and>
     distinct (map mb_p (mb_list a)) \<and> (\<forall>b \<in> set (mb_list a). mb_ok a b)"

definition apart :: "mb_area \<Rightarrow> mb_area \<Rightarrow> bool" where
  "apart a a' \<longleftrightarrow>
     (mba_end a \<le> mba_start a' \<or> mba_end a' \<le> mba_start a) \<and>
     (mba_virt a + mba_pages a * 4096 < mba_virt a' \<or> mba_virt a' + mba_pages a' * 4096 < mba_virt a)"

definition areas_ok :: "mba_host \<Rightarrow> bool" where
  "areas_ok h \<longleftrightarrow>
     nr_mba h = int (length (mba_list h)) \<and>
     tot_pages h = sum_list (map mba_pages (mba_list h)) \<and>
     tot_static_pages h = sum_list (map (\<lambda>a. if is_static a then mba_pages a else 0) (mba_list h)) \<and>
     distinct (map mba_p (mba_list h)) \<and>
     (\<forall>a \<in> set (mba_list h). mba_ok a) \<and>
     (\<forall>a \<in> set (mba_list h). \<forall>a' \<in> set (mba_list h). mba_p a \<noteq> mba_p a' \<longrightarrow> apart a a')"

definition host_ok :: "mba_host \<Rightarrow> bool" where
  "host_ok h \<longleftrightarrow> areas_ok h \<and>
     tot_free_pages h = sum_list (map mba_free (mba_list h)) \<and>
     max_available_pages h = host_max (mba_list h)"

definition same_geom :: "mb_area \<Rightarrow> mb_area \<Rightarrow> bool" where
  "same_geom a a' \<longleftrightarrow> mba_p a' = mba_p a \<and> mba_flags a' = mba_flags a \<and> mba_phys a' = mba_phys a \<and>
     mba_virt a' = mba_virt a \<and> mba_pages a' = mba_pages a \<and> mba_start a' = mba_start a \<and> mba_end a' = mba_end a"

section \<open>Largest free zone of the host\<close>

lemma foldl_max_eq: "foldl (\<lambda>m a. max m (g a)) (k :: int) xs = foldr max (map g xs) k"
proof (induction xs arbitrary: k)
  case (Cons x xs)
  have "foldr max ys (max k y) = max y (foldr max ys k)" for ys and y :: int by (induction ys) auto
  then show ?case using Cons by simp
qed simp

lemma host_max_foldr: "host_max as = foldr max (map mba_max as) 0"
  by (simp add: host_max_def foldl_max_eq)

lemma host_max_upd:
  assumes "find P as = Some a" "mba_max a \<le> mba_max (f a)"
  shows "host_max (upd_first P f as) = max (host_max as) (mba_max (f a))"
proof -
  obtain us vs where "as = us @ a # vs" "upd_first P f as = us @ f a # vs"
    using upd_first_split [OF assms(1), of f] by blast
  moreover have "foldr max xs (max y z) = max y (foldr max xs z)" for xs and y z :: int by (induction xs) auto
  ultimately show ?thesis using assms(2) by (simp add: host_max_foldr)
qed

section \<open>Updating one area\<close>

lemma is_mba_simps [simp]: "is_mba (mba_p a) a" "is_mb (mb_p b) b" "is_mbu (mbu_p u) u"
  by (simp_all add: is_mba_def is_mb_def is_mbu_def)

lemma find_distinct:
  assumes "distinct (map g xs)" "x \<in> set xs"
  shows "find (\<lambda>y. g y = g x) xs = Some x"
  using assms by (induction xs) (auto simp: rev_image_eqI)

lemma find_mba: "distinct (map mba_p as) \<Longrightarrow> a \<in> set as \<Longrightarrow> find (is_mba (mba_p a)) as = Some a"
  using find_distinct [of mba_p as a] by (simp add: is_mba_def [abs_def])

lemma find_mb: "distinct (map mb_p bs) \<Longrightarrow> b \<in> set bs \<Longrightarrow> find (is_mb (mb_p b)) bs = Some b"
  using find_distinct [of mb_p bs b] by (simp add: is_mb_def [abs_def])

lemma find_mbu: "distinct (map mbu_p us) \<Longrightarrow> u \<in> set us \<Longrightarrow> find (is_mbu (mbu_p u)) us = Some u"
  using find_distinct [of mbu_p us u] by (simp add: is_mbu_def [abs_def])

lemma sum_upd_first:
  "find P xs = Some x \<Longrightarrow> sum_list (map g (upd_first P f xs)) = sum_list (map g xs) - g x + (g (f x) :: int)"
  using upd_first_split [of P xs x f] by auto

lemma set_upd_first:
  assumes "find P xs = Some x"
  shows "set (upd_first P f xs) \<subseteq> insert (f x) (set xs)" "f x \<in> set (upd_first P f xs)"
  using upd_first_split [OF assms, of f] by auto

lemma map_upd_first: "find P xs = Some x \<Longrightarrow> g (f x) = g x \<Longrightarrow> map g (upd_first P f xs) = map g xs"
  using upd_first_split [of P xs x f] by auto

lemma upd_mba_simps [simp]:
  "mba_list (upd_mba p f h) = upd_first (is_mba p) f (mba_list h)"
  "nr_mba (upd_mba p f h) = nr_mba h" "tot_pages (upd_mba p f h) = tot_pages h"
  "tot_static_pages (upd_mba p f h) = tot_static_pages h"
  "tot_free_pages (upd_mba p f h) = tot_free_pages h"
  "max_available_pages (upd_mba p f h) = max_available_pages h"
  by (simp_all add: upd_mba_def)

lemma areas_ok_upd:
  assumes ok: "areas_ok h" and a: "find (is_mba p) (mba_list h) = Some a"
    and new: "mba_ok (f a)" "same_geom a (f a)"
  shows "areas_ok (upd_mba p f h)"
proof -
  let ?as = "mba_list h" and ?bs = "upd_first (is_mba p) f (mba_list h)"
  obtain us vs where split: "?as = us @ a # vs" "?bs = us @ f a # vs"
    using upd_first_split [OF a, of f] by blast
  have geom: "mba_p (f a) = mba_p a" "mba_pages (f a) = mba_pages a" "is_static (f a) = is_static a"
    "apart (f a) x = apart a x" "apart x (f a) = apart x a" for x
    using new(2) by (simp_all add: same_geom_def apart_def is_static_def)
  have "apart x y" if "x \<in> set ?bs" "y \<in> set ?bs" "mba_p x \<noteq> mba_p y" for x y
  proof -
    have "apart x' y'" if "x' \<in> set ?as" "y' \<in> set ?as" "mba_p x' \<noteq> mba_p y'" for x' y'
      using ok that unfolding areas_ok_def by blast
    then show ?thesis using that split geom by (auto 0 3)
  qed
  moreover have "\<forall>x \<in> set ?bs. mba_ok x" using ok new(1) split unfolding areas_ok_def by auto
  moreover note map_upd_first [OF a, of mba_p f] map_upd_first [OF a, of mba_pages f]
    map_upd_first [OF a, of "\<lambda>a. if is_static a then mba_pages a else 0" f]
  ultimately show ?thesis
    using ok geom unfolding areas_ok_def upd_mba_simps length_upd_first by (simp only: simp_thms) blast
qed

lemma host_ok_upd:
  assumes ok: "host_ok h" and a: "find (is_mba p) (mba_list h) = Some a"
    and new: "mba_ok (f a)" "same_geom a (f a)" "mba_free (f a) = mba_free a" "mba_max (f a) = mba_max a"
  shows "host_ok (upd_mba p f h)"
  using areas_ok_upd [where f = f, OF _ a new(1,2)] ok sum_upd_first [OF a, of mba_free f] host_max_upd [OF a, of f]
    map_upd_first [OF a, of mba_max f] new(3,4)
  by (simp add: host_ok_def host_max_foldr)

section \<open>Updating one block\<close>

definition same_block :: "mb_struct \<Rightarrow> mb_struct \<Rightarrow> bool" where
  "same_block b b' \<longleftrightarrow> mb_p b' = mb_p b \<and> mb_start b' = mb_start b \<and> mb_end b' = mb_end b \<and>
     mb_phys b' = mb_phys b \<and> mb_virt b' = mb_virt b \<and> mb_size b' = mb_size b"

lemma zones_same:
  "find P bs = Some b \<Longrightarrow> same_block b (f b) \<Longrightarrow> zones_ok zs (upd_first P f bs) e = zones_ok zs bs e"
  "find P bs = Some b \<Longrightarrow> same_block b (f b) \<Longrightarrow> gaps zs (upd_first P f bs) e = gaps zs bs e"
  by (induction bs arbitrary: zs) (auto simp: same_block_def split: if_splits)

lemma mba_ok_upd:
  assumes ok: "mba_ok a" and b: "find (is_mb q) (mb_list a) = Some b"
    and new: "mb_ok a (f b)" "same_block b (f b)"
  shows "mba_ok (a\<lparr>mb_list := upd_first (is_mb q) f (mb_list a)\<rparr>)"
proof -
  have "mb_p (f b) = mb_p b" using new(2) by (simp add: same_block_def)
  then have "map mb_p (upd_first (is_mb q) f (mb_list a)) = map mb_p (mb_list a)" by (rule map_upd_first [OF b])
  moreover have "mb_ok (a\<lparr>mb_list := bs\<rparr>) x = mb_ok a x" "area_ok (a\<lparr>mb_list := bs\<rparr>) = area_ok a" for bs x
    by (simp_all add: mb_ok_def area_ok_def)
  moreover have "\<forall>x \<in> set (upd_first (is_mb q) f (mb_list a)). mb_ok a x"
    using set_upd_first(1) [OF b, of f] ok new(1) unfolding mba_ok_def by blast
  ultimately show ?thesis
    using ok zones_same [OF b, of f] new(2) by (simp add: mba_ok_def)
qed

lemma host_ok_upd_mb:
  assumes ok: "host_ok h" and a: "find (is_mba p) (mba_list h) = Some a"
    and b: "find (is_mb q) (mb_list a) = Some b" and new: "mb_ok a (f b)" "same_block b (f b)"
  shows "host_ok (upd_mb p q f h)"
proof -
  have "a \<in> set (mba_list h)" using a by (metis find_Some_iff nth_mem)
  then have "mba_ok a" using ok unfolding host_ok_def areas_ok_def by blast
  from mba_ok_upd [where f = f, OF this b new] show ?thesis
    unfolding upd_mb_def by (intro host_ok_upd [OF ok a]) (simp_all add: same_geom_def)
qed

end
