(* ===== verification/MbAlloc.thy ===== *)
theory MbAlloc
  imports MbInv
begin

text \<open>
  Page rounding, and \<^verbatim>\<open>mb_alloc_mb\<close> on a consistent host: where it fits a block and that
  the invariant survives.
\<close>

section \<open>Allocating a block\<close>

lemma and_not_4095: "(y :: int) AND NOT 4095 = y - y mod 4096"
proof -
  have "y AND NOT (mask 12) = push_bit 12 (drop_bit 12 y)"
    by (rule bit_eqI) (auto simp: bit_and_iff bit_not_iff bit_mask_iff bit_push_bit_iff bit_drop_bit_eq)
  then show ?thesis by (simp add: mask_eq_exp_minus_1 push_bit_eq_mult drop_bit_eq_div minus_mod_eq_div_mult)
qed

lemma PAGE_ALIGN_spec:
  "PAGE_ALIGN x mod 4096 = 0" "0 \<le> PAGE_ALIGN x" "PAGE_ALIGN x < 4294967296"
  "0 \<le> x \<Longrightarrow> x \<le> 0xFFFFF000 \<Longrightarrow> x \<le> PAGE_ALIGN x \<and> PAGE_ALIGN x < x + 4096"
proof -
  have e: "PAGE_ALIGN x = u32 (x + 4095) - u32 (x + 4095) mod 4096" by (simp only: PAGE_ALIGN_def and_not_4095)
  have m: "0 \<le> u32 (x + 4095) mod 4096" "u32 (x + 4095) mod 4096 < 4096" "u32 (x + 4095) mod 4096 \<le> u32 (x + 4095)"
    by (simp_all add: zmod_le_nonneg_dividend)
  show "PAGE_ALIGN x mod 4096 = 0" unfolding e by (simp add: mod_diff_left_eq)
  show "0 \<le> PAGE_ALIGN x" unfolding e using m by simp
  show "PAGE_ALIGN x < 4294967296" unfolding e using m u32_less [of "x + 4095"] by linarith
  show "0 \<le> x \<Longrightarrow> x \<le> 0xFFFFF000 \<Longrightarrow> x \<le> PAGE_ALIGN x \<and> PAGE_ALIGN x < x + 4096"
    using m unfolding e by (simp add: u32_id) linarith
qed

lemma PAGE_pages_ge0: "0 \<le> PAGE_ALIGN sz div 4096"
  using PAGE_ALIGN_spec(2) [of sz] by (simp add: pos_imp_zdiv_nonneg_iff)

lemma PAGE_pages_mult: "PAGE_ALIGN sz div 4096 * 4096 = PAGE_ALIGN sz"
  using PAGE_ALIGN_spec(1) [of sz] by (metis div_mult_mod_eq add.right_neutral)

lemma PAGE_ALIGN_idem: "PAGE_ALIGN (PAGE_ALIGN x) = PAGE_ALIGN x"
proof -
  let ?y = "PAGE_ALIGN x"
  have y: "?y mod 4096 = 0" "0 \<le> ?y" "?y < 4294967296" by (rule PAGE_ALIGN_spec)+
  then obtain k where k: "?y = 4096 * k" by (auto simp: mod_eq_0_iff_dvd elim: dvdE)
  with y have u: "u32 (?y + 4095) = ?y + 4095" by (simp add: u32_id)
  have "(?y + 4095) mod 4096 = 4095" unfolding k by (subst mult.commute) simp
  then show ?thesis unfolding PAGE_ALIGN_def [of ?y] and_not_4095 u by simp
qed

lemma mba_ok_bounds:
  assumes "mba_ok a"
  shows "zones_ok (mba_start a) (mb_list a) (mba_end a)" "0 \<le> mba_start a" "mba_end a < 4294967296"
  using assms by (auto simp: mba_ok_def area_ok_def)

text \<open>\<^verbatim>\<open>mb_alloc_mb\<close> in terms of \<open>find_zone\<close>.\<close>

lemma mb_alloc_mb_find_zone:
  assumes "find (is_mba p) (mba_list h) = Some a" "find_zone a (PAGE_ALIGN sz div 4096) = (zs, ze, next)"
    and "sz \<noteq> 0"
  shows "mb_alloc_mb h p sz mem =
    (if mba_max a < PAGE_ALIGN sz div 4096 \<or> u32 (ze - zs) < PAGE_ALIGN sz div 4096 then (h, None)
     else case mem of None \<Rightarrow> (h, None)
     | Some q \<Rightarrow>
       let mb = new_mb a q zs (PAGE_ALIGN sz div 4096) (PAGE_ALIGN sz);
           bs = insert_at next mb (mb_list a);
           h1 = upd_mba p (\<lambda>a. a\<lparr>mb_list := bs, nr_mb := nr_mb a + 1, mba_free := mba_free a - PAGE_ALIGN sz div 4096,
                  mba_max := zone_max (mba_start a) 0 bs (mba_end a)\<rparr>) h
       in (h1\<lparr>tot_free_pages := tot_free_pages h - PAGE_ALIGN sz div 4096,
              max_available_pages := host_max (mba_list h1)\<rparr>, Some mb))"
  using assms by (auto simp: mb_alloc_mb_def find_zone_def Let_def split: prod.splits option.splits)

text \<open>A block put into a free zone.\<close>

lemma insert_block:
  assumes ok: "mba_ok a" and split: "mb_list a = us @ vs" and zs: "zs = zend (mba_start a) us"
    and ze: "ze = (case vs of [] \<Rightarrow> mba_end a | c # _ \<Rightarrow> mb_start c)" and pages: "0 < pages" "pages \<le> ze - zs"
    and b: "b = new_mb a q zs pages (pages * 4096)" and q: "q \<notin> mb_p ` set (mb_list a)"
    and bs: "bs = us @ b # vs"
  shows "mba_ok (a\<lparr>mb_list := bs, nr_mb := nr_mb a + 1, mba_free := mba_free a - pages,
                  mba_max := zone_max (mba_start a) 0 bs (mba_end a)\<rparr>)"
proof -
  note z = mba_ok_bounds [OF ok]
  have st: "mb_start b = zs" "mb_end b = zs + pages" "mb_p b = q" "mb_pages b = pages" by (simp_all add: b new_mb_def Let_def mb_pages_def)
  have zok: "zones_ok (mba_start a) us zs" "zones_ok zs vs (mba_end a)" using z(1) zs by (simp_all add: split zones_ok_append)
  have "zones_ok (zs + pages) vs (mba_end a)" using zok(2) ze pages by (cases vs) auto
  then have ok': "zones_ok (mba_start a) bs (mba_end a)" using zok(1) zs pages st by (simp add: bs zones_ok_append)
  moreover have "sum_list (gaps (mba_start a) bs (mba_end a)) = mba_free a - pages"
    using ok st(4) by (simp add: sum_gaps bs split mba_ok_def)
  moreover have "mb_ok a b" using pages
    by (simp add: b new_mb_def Let_def mb_ok_def mb_pages_def creator_ok_def)
  moreover have "mb_ok (a\<lparr>mb_list := l, nr_mb := n, mba_free := f, mba_max := m\<rparr>) x = mb_ok a x"
      "area_ok (a\<lparr>mb_list := l, nr_mb := n, mba_free := f, mba_max := m\<rparr>) = area_ok a" for l n f m x
    by (simp_all add: mb_ok_def area_ok_def)
  ultimately show ?thesis
    using ok q st(3) zone_max_gaps [OF ok' z(2,3), of 0]
    by (simp add: mba_ok_def split bs image_Un)
qed


lemma find_zone_room:
  assumes ok: "mba_ok a" and pages: "0 < pages" "pages \<le> mba_max a" and f: "find_zone a pages = (zs, ze, next)"
  shows "\<exists>us vs. mb_list a = us @ vs \<and> next = length us \<and> zs = zend (mba_start a) us
    \<and> ze = (case vs of [] \<Rightarrow> mba_end a | b # _ \<Rightarrow> mb_start b) \<and> pages \<le> ze - zs"
proof -
  note z = mba_ok_bounds [OF ok]
  obtain us vs where *: "mb_list a = us @ vs" "next = length us" "zs = zend (mba_start a) us"
    "ze = (case vs of [] \<Rightarrow> mba_end a | b # _ \<Rightarrow> mb_start b)" "vs \<noteq> [] \<longrightarrow> pages \<le> ze - zs"
    "\<forall>g \<in> set (butlast (gaps (mba_start a) us zs)). g < pages"
    using find_zone_spec [OF z pages(1) f] by blast
  have "pages \<le> ze - zs" if "vs = []"
  proof -
    let ?gs = "gaps (mba_start a) us (mba_end a)"
    have g: "?gs = butlast (gaps (mba_start a) us zs) @ [mba_end a - zs]"
      unfolding *(3) by (rule gaps_append [of "mba_start a" us "[]" "mba_end a", unfolded append_Nil2 gaps.simps])
    have "pages \<le> foldr max ?gs 0" using pages(2) ok *(1) that by (simp add: mba_ok_def)
    moreover have "foldr max ?gs 0 = 0 \<or> foldr max ?gs 0 \<in> set ?gs" by (rule foldr_max_in)
    ultimately show ?thesis using *(4,6) pages(1) that unfolding g by auto
  qed
  with * show ?thesis by blast
qed

lemma zone_in_area:
  assumes ok: "mba_ok a" and split: "mb_list a = us @ vs" and zs: "zs = zend (mba_start a) us"
    and ze: "ze = (case vs of [] \<Rightarrow> mba_end a | c # _ \<Rightarrow> mb_start c)"
  shows "mba_start a \<le> zs" "zs \<le> ze" "ze \<le> mba_end a"
    "b \<in> set us \<Longrightarrow> mb_end b \<le> zs" "b \<in> set vs \<Longrightarrow> ze \<le> mb_start b"
proof -
  note z = mba_ok_bounds [OF ok]
  have zok: "zones_ok (mba_start a) us zs" "zones_ok zs vs (mba_end a)" using z(1) zs by (simp_all add: split zones_ok_append)
  show "mba_start a \<le> zs" by (rule zones_ok_le [OF zok(1)])
  show "zs \<le> ze" using zok(2) ze by (cases vs) auto
  show "ze \<le> mba_end a" using zok(2) ze zones_ok_mem [OF zok(2), of "hd vs"] by (cases vs) auto
  show "b \<in> set us \<Longrightarrow> mb_end b \<le> zs" using zones_ok_mem [OF zok(1)] by blast
  show "b \<in> set vs \<Longrightarrow> ze \<le> mb_start b"
    using zok(2) ze zones_ok_mem [of "mb_end (hd vs)" "tl vs" "mba_end a" b] by (cases vs) auto
qed

text \<open>A request that fits is served: the new block lies in a free zone of the area, and nothing else
  changes.\<close>

lemma mb_alloc_mb_success:
  assumes ok: "host_ok h" and a: "find (is_mba p) (mba_list h) = Some a"
    and pages: "pages = PAGE_ALIGN sz div 4096" "0 < pages" "pages \<le> mba_max a" and sz: "sz \<noteq> 0"
    and q: "q \<notin> mb_p ` set (mb_list a)"
  shows "\<exists>h' b us vs f. mb_alloc_mb h p sz (Some q) = (h', Some b) \<and> host_ok h' \<and> mb_p b = q
    \<and> mb_count b = 0 \<and> mbu_list b = [] \<and> mb_pages b = pages \<and> mb_size b = pages * 4096 \<and> mb_phys b = mb_start b * 4096
    \<and> mb_list a = us @ vs \<and> mb_list (f a) = us @ b # vs \<and> same_geom a (f a)
    \<and> mba_list h' = upd_first (is_mba p) f (mba_list h)
    \<and> h' = h\<lparr>mba_list := mba_list h', tot_free_pages := tot_free_pages h', max_available_pages := max_available_pages h'\<rparr>
    \<and> f a = a\<lparr>mb_list := us @ b # vs, nr_mb := nr_mb a + 1, mba_free := mba_free (f a), mba_max := mba_max (f a)\<rparr>
    \<and> mba_start a \<le> mb_start b \<and> mb_end b \<le> mba_end a
    \<and> (\<forall>c \<in> set (mb_list a). mb_end c \<le> mb_start b \<or> mb_end b \<le> mb_start c)"
proof -
  have am: "a \<in> set (mba_list h)" using a by (metis find_Some_iff nth_mem)
  have aok: "mba_ok a" using ok am unfolding host_ok_def areas_ok_def by blast
  obtain zs ze nxt where fz: "find_zone a pages = (zs, ze, nxt)" by (metis prod_cases3)
  obtain us vs where *: "mb_list a = us @ vs" "nxt = length us" "zs = zend (mba_start a) us"
    "ze = (case vs of [] \<Rightarrow> mba_end a | b # _ \<Rightarrow> mb_start b)" "pages \<le> ze - zs"
    using find_zone_room [OF aok pages(2,3) fz] by blast
  note zone = zone_in_area [OF aok *(1,3,4)]
  have psz: "PAGE_ALIGN sz = pages * 4096"
    by (simp add: pages(1) PAGE_pages_mult)
  define b where "b = new_mb a q zs pages (pages * 4096)"
  define f where "f = (\<lambda>a :: mb_area. a\<lparr>mb_list := us @ b # vs, nr_mb := nr_mb a + 1, mba_free := mba_free a - pages,
                  mba_max := zone_max (mba_start a) 0 (us @ b # vs) (mba_end a)\<rparr>)"
  let ?h1 = "upd_mba p f h"
  let ?h' = "?h1\<lparr>tot_free_pages := tot_free_pages h - pages, max_available_pages := host_max (mba_list ?h1)\<rparr>"
  have u: "\<not> u32 (ze - zs) < pages" using *(5) pages(2) zone aok by (simp add: u32_id mba_ok_def area_ok_def)
  have ins: "insert_at nxt b (mb_list a) = us @ b # vs" by (simp add: insert_at_def *)
  have eq: "mb_alloc_mb h p sz (Some q) = (?h', Some b)"
    using mb_alloc_mb_find_zone [OF a fz [unfolded pages(1)] sz, of "Some q"] u pages(3) ins
    by (simp add: psz Let_def b_def f_def)
  have fok: "mba_ok (f a)" unfolding f_def by (rule insert_block [OF aok *(1,3,4) pages(2) *(5) b_def q refl])
  have geom: "same_geom a (f a)" by (simp add: f_def same_geom_def)
  have "areas_ok ?h1" using areas_ok_upd [where f = f, OF _ a fok geom] ok by (simp add: host_ok_def)
  then have "areas_ok ?h'" by (simp add: areas_ok_def)
  moreover have "sum_list (map mba_free (mba_list ?h1)) = tot_free_pages h - pages"
    using sum_upd_first [OF a, of mba_free f] ok by (simp add: host_ok_def f_def)
  ultimately have hok: "host_ok ?h'" by (simp add: host_ok_def)
  have bs: "mb_start b = zs" "mb_end b = zs + pages" by (simp_all add: b_def new_mb_def Let_def)
  have "\<forall>c \<in> set (mb_list a). mb_end c \<le> mb_start b \<or> mb_end b \<le> mb_start c"
    using zone(4,5) *(1,5) by (fastforce simp: bs)
  moreover have "mba_start a \<le> mb_start b \<and> mb_end b \<le> mba_end a" using zone *(5) by (simp add: bs)
  moreover have "mb_p b = q" "mb_count b = 0" "mbu_list b = []" "mb_pages b = pages" "mb_size b = pages * 4096"
    by (simp_all add: b_def new_mb_def Let_def mb_pages_def)
  moreover have "mb_phys b = mb_start b * 4096" using aok by (simp add: b_def new_mb_def Let_def mba_ok_def area_ok_def algebra_simps)
  ultimately show ?thesis using eq hok geom *(1)
    by (intro exI [of _ ?h'] exI [of _ b] exI [of _ us] exI [of _ vs] exI [of _ f]) (simp add: f_def upd_mba_def)
qed

end
