(* ===== verification/MbFree.thy ===== *)
theory MbFree
  imports MbAlloc
begin

text \<open>
  \<^verbatim>\<open>mb_free_mb\<close> on a consistent host: the block leaves its area, the zones around it merge
  and the invariant survives.
\<close>

section \<open>Freeing a block\<close>

lemma gaps_widen:
  assumes "zones_ok z vs e" "z' \<le> z"
  shows "foldr max (gaps z vs e) m \<le> foldr max (gaps z' vs e) (m :: int)"
  using assms by (cases vs) auto

lemma max_gaps_del:
  assumes "zones_ok zs (us @ b # vs) e"
  shows "foldr max (gaps zs (us @ b # vs) e) 0 \<le> foldr max (gaps zs (us @ vs) e) (0 :: int)"
proof -
  let ?z = "zend zs us"
  have z: "?z \<le> mb_start b" "mb_start b < mb_end b" "zones_ok (mb_end b) vs e"
    using assms by (simp_all add: zones_ok_append)
  have "mb_start b - ?z \<le> foldr max (gaps ?z vs e) 0"
    using z zones_ok_le [OF z(3)] by (cases vs) auto
  then have "foldr max ((mb_start b - ?z) # gaps (mb_end b) vs e) 0 \<le> foldr max (gaps ?z vs e) 0"
    using gaps_widen [OF z(3), of ?z 0] z by simp
  moreover have "x \<le> y \<Longrightarrow> foldr max gs x \<le> foldr max gs y" for gs and x y :: int by (induction gs) auto
  ultimately show ?thesis by (simp add: gaps_append)
qed

definition without_block :: "mb_area \<Rightarrow> mb_struct list \<Rightarrow> mb_area" where
  "without_block a bs = a\<lparr>mb_list := bs, nr_mb := nr_mb a - 1,
     mba_free := zone_sum (mba_start a) 0 bs (mba_end a), mba_max := zone_max (mba_start a) 0 bs (mba_end a)\<rparr>"

lemma delete_block:
  assumes ok: "mba_ok a" and split: "mb_list a = us @ b # vs"
  shows "mba_ok (without_block a (us @ vs))" "same_geom a (without_block a (us @ vs))"
    "mba_max a \<le> mba_max (without_block a (us @ vs))" "mba_free (without_block a (us @ vs)) = mba_free a + mb_pages b"
proof -
  note z = mba_ok_bounds [OF ok]
  have zb: "zend (mba_start a) us \<le> mb_start b" "mb_start b < mb_end b" "zones_ok (mb_end b) vs (mba_end a)"
    "zones_ok (mba_start a) us (zend (mba_start a) us)"
    using z(1) by (simp_all add: split zones_ok_append)
  have "zones_ok (zend (mba_start a) us) vs (mba_end a)" using zb by (cases vs) auto
  then have ok': "zones_ok (mba_start a) (us @ vs) (mba_end a)" using zb by (simp add: zones_ok_append)
  note zs = zone_sum_gaps [OF ok' z(2,3), of 0] and zm = zone_max_gaps [OF ok' z(2,3), of 0]
  have "mb_ok (without_block a bs) x = mb_ok a x" "area_ok (without_block a bs) = area_ok a" for bs x
    by (simp_all add: mb_ok_def area_ok_def without_block_def)
  note eqs = this
  have wb: "mb_list (without_block a bs) = bs" "mba_start (without_block a bs) = mba_start a"
    "mba_end (without_block a bs) = mba_end a" "nr_mb (without_block a bs) = nr_mb a - 1"
    "mba_free (without_block a bs) = zone_sum (mba_start a) 0 bs (mba_end a)"
    "mba_max (without_block a bs) = zone_max (mba_start a) 0 bs (mba_end a)" for bs
    by (simp_all add: without_block_def)
  show "mba_ok (without_block a (us @ vs))"
    using ok ok' unfolding mba_ok_def eqs wb zs zm by (simp add: split)
  show "same_geom a (without_block a (us @ vs))" by (simp add: same_geom_def without_block_def)
  show "mba_max a \<le> mba_max (without_block a (us @ vs))"
    using ok max_gaps_del [OF z(1) [unfolded split]] unfolding wb zm by (simp add: mba_ok_def split)
  show "mba_free (without_block a (us @ vs)) = mba_free a + mb_pages b"
    using ok unfolding wb zs by (simp add: mba_ok_def split sum_gaps)
qed

lemma upd_first_twice:
  assumes "find P xs = Some x" "P (f x)"
  shows "upd_first P g (upd_first P f xs) = upd_first P (\<lambda>y. g (f y)) xs"
proof -
  have "upd_first P g (upd_first P f ys) = upd_first P (\<lambda>y. g (f y)) ys" if "find P ys = Some x" for ys
    using that assms(2) by (induction ys) (auto split: if_splits)
  then show ?thesis using assms(1) by blast
qed

lemma upd_first_cong: "find P xs = Some x \<Longrightarrow> f x = g x \<Longrightarrow> upd_first P f xs = upd_first P g xs"
  by (induction xs) (auto split: if_splits)

lemma del_upd_first:
  assumes "find P xs = Some x" "P (f x)"
  shows "del_first P (upd_first P f xs) = del_first P xs" "find P (upd_first P f xs) = Some (f x)"
  using assms by (induction xs) (auto split: if_splits)

text \<open>Removing a whole area.\<close>

lemma areas_ok_del:
  assumes ok: "areas_ok h" and a: "find (is_mba p) (mba_list h) = Some a" "\<not> is_static a"
  shows "areas_ok (h\<lparr>mba_list := del_first (is_mba p) (mba_list h), nr_mba := nr_mba h - 1,
           tot_pages := tot_pages h - mba_pages a, tot_free_pages := x, max_available_pages := m\<rparr>)"
proof -
  obtain us vs where split: "mba_list h = us @ a # vs" "del_first (is_mba p) (mba_list h) = us @ vs"
    using upd_first_split [OF a(1)] by blast
  have "apart x y" if "x \<in> set (us @ vs)" "y \<in> set (us @ vs)" "mba_p x \<noteq> mba_p y" for x y
    using ok that unfolding areas_ok_def split by auto
  moreover have "\<forall>x \<in> set (us @ vs). mba_ok x" using ok unfolding areas_ok_def split by auto
  moreover note ok [unfolded areas_ok_def split(1)]
  ultimately show ?thesis
    using a(2) unfolding areas_ok_def split(2) by (simp add: split(2))
qed

lemma sum_del_first:
  "find P xs = Some x \<Longrightarrow> sum_list (map g (del_first P xs)) = sum_list (map g xs) - (g x :: int)"
  using upd_first_split [of P xs x id] by auto

definition freed_area :: "mb_area \<Rightarrow> nat \<Rightarrow> mb_area" where
  "freed_area a q = without_block a (del_first (is_mb q) (mb_list a))"

lemma mb_free_mb_success:
  assumes ok: "host_ok h" and a: "find (is_mba p) (mba_list h) = Some a"
    and b: "find (is_mb q) (mb_list a) = Some b" and unused: "mb_count b = 0"
  shows "\<exists>h'. mb_free_mb h p q = (h', Inr 0) \<and> host_ok h' \<and>
    mba_list h' = (if nr_mb a = 1 \<and> \<not> is_static a then del_first (is_mba p) (mba_list h)
                   else upd_first (is_mba p) (\<lambda>a. freed_area a q) (mba_list h))"
proof -
  have am: "a \<in> set (mba_list h)" using a by (metis find_Some_iff nth_mem)
  have aok: "mba_ok a" using ok am unfolding host_ok_def areas_ok_def by blast
  have pa: "is_mba p a" using a by (metis find_Some_iff)
  obtain us vs where split: "mb_list a = us @ b # vs" "del_first (is_mb q) (mb_list a) = us @ vs"
    using upd_first_split [OF b] by blast
  define bs where "bs = del_first (is_mb q) (mb_list a)"
  define f where "f = (\<lambda>a :: mb_area. a\<lparr>mb_list := bs, nr_mb := nr_mb a - 1\<rparr>)"
  have fa: "is_mba p (f a)" "nr_mb (f a) = nr_mb a - 1" "is_static (f a) = is_static a" "mba_free (f a) = mba_free a"
      "mba_pages (f a) = mba_pages a"
    using pa by (simp_all add: f_def is_mba_def is_static_def)
  show ?thesis
  proof (cases "nr_mb a = 1 \<and> \<not> is_static a")
    case True
    let ?as = "del_first (is_mba p) (mba_list h)"
    let ?h' = "h\<lparr>mba_list := ?as, nr_mba := nr_mba h - 1, tot_pages := tot_pages h - mba_pages a,
                tot_free_pages := tot_free_pages h - mba_free a, max_available_pages := host_max ?as\<rparr>"
    have "mb_free_mb h p q = mb_free_mba (upd_mba p f h) p"
      using True by (simp add: mb_free_mb_def a b unused Let_def f_def bs_def)
    also have "\<dots> = (?h', Inr 0)"
      using True fa by (simp add: mb_free_mba_def del_upd_first [where f = f, OF a fa(1)] Let_def upd_mba_def)
    finally have eq: "mb_free_mb h p q = (?h', Inr 0)" .
    have "areas_ok ?h'" using areas_ok_del [OF _ a, where x = "tot_free_pages h - mba_free a" and m = "host_max ?as"] ok True
      by (simp add: host_ok_def)
    then have "host_ok ?h'" using ok by (simp add: host_ok_def sum_del_first [OF a])
    then show ?thesis using eq True by simp
  next
    case False
    define g where "g = (\<lambda>x :: mb_area. x\<lparr>mba_free := zone_sum (mba_start a) 0 bs (mba_end a),
          mba_max := zone_max (mba_start a) 0 bs (mba_end a)\<rparr>)"
    define w where "w = (\<lambda>x. freed_area x q)"
    let ?h2 = "upd_mba p g (upd_mba p f h)"
    let ?h' = "?h2\<lparr>tot_free_pages := tot_free_pages h - mba_free a + zone_sum (mba_start a) 0 bs (mba_end a),
        max_available_pages := max (max_available_pages h) (zone_max (mba_start a) 0 bs (mba_end a))\<rparr>"
    have eq: "mb_free_mb h p q = (?h', Inr 0)"
      using False by (auto simp: mb_free_mb_def a b unused Let_def f_def g_def bs_def)
    have gw: "g (f a) = w a" by (simp add: g_def f_def w_def freed_area_def without_block_def bs_def)
    have wa: "mba_free (w a) = zone_sum (mba_start a) 0 bs (mba_end a)" "mba_max (w a) = zone_max (mba_start a) 0 bs (mba_end a)"
      by (simp_all add: w_def freed_area_def without_block_def bs_def)
    have lists: "mba_list ?h2 = upd_first (is_mba p) w (mba_list h)"
      unfolding upd_mba_simps upd_first_twice [where f = f, OF a fa(1)]
      by (rule upd_first_cong [OF a]) (rule gw)
    note del = delete_block [OF aok split(1), folded split(2), folded freed_area_def]
    have "areas_ok (upd_mba p w h)" using areas_ok_upd [where f = w, OF _ a] del(1,2) ok by (simp add: w_def host_ok_def)
    then have "areas_ok ?h'" using lists by (simp add: areas_ok_def)
    moreover have "sum_list (map mba_free (mba_list ?h')) = tot_free_pages ?h'"
      using sum_upd_first [OF a, of mba_free w] ok lists wa by (simp add: host_ok_def)
    moreover have "host_max (mba_list ?h') = max_available_pages ?h'"
      using host_max_upd [OF a, of w] del(3) ok lists wa by (simp add: host_ok_def w_def)
    ultimately have "host_ok ?h'" by (simp add: host_ok_def)
    then show ?thesis using eq False lists by (auto simp: w_def)
  qed
qed

end
