(* ===== verification/MbOps.thy ===== *)
theory MbOps
  imports MbFree
begin

text \<open>
  The searches \<^verbatim>\<open>mb_find_mb\<close> and \<^verbatim>\<open>mb_find_mbu\<close>, and that \<^verbatim>\<open>mb_do_free\<close>,
  \<^verbatim>\<open>mb_do_get\<close> and \<^verbatim>\<open>mb_do_put\<close> keep the invariant.
\<close>

section \<open>What the searches return\<close>

lemma first_some_SomeD: "first_some f xs = Some y \<Longrightarrow> \<exists>x \<in> set xs. f x = Some y"
  by (induction xs) (auto split: option.splits)

lemma first_some_None: "first_some f xs = None \<longleftrightarrow> (\<forall>x \<in> set xs. f x = None)"
  by (induction xs) (auto split: option.splits)

lemma first_some_unique:
  "x \<in> set xs \<Longrightarrow> f x = Some y \<Longrightarrow> (\<And>z. z \<in> set xs \<Longrightarrow> f z \<noteq> None \<Longrightarrow> f z = Some y) \<Longrightarrow> first_some f xs = Some y"
  by (induction xs) (fastforce split: option.splits)+

definition live :: "mba_host \<Rightarrow> mb_struct set" where
  "live h = (\<Union>a \<in> set (mba_list h). set (mb_list a))"

lemma host_okD:
  assumes "host_ok h" "a \<in> set (mba_list h)"
  shows "mba_ok a" "find (is_mba (mba_p a)) (mba_list h) = Some a"
  using assms find_mba by (auto simp: host_ok_def areas_ok_def)

lemma host_ok_mb:
  assumes "host_ok h" "a \<in> set (mba_list h)" "b \<in> set (mb_list a)"
  shows "mb_ok a b" "find (is_mb (mb_p b)) (mb_list a) = Some b"
    "mba_start a \<le> mb_start b" "mb_start b < mb_end b" "mb_end b \<le> mba_end a" "mb_phys b = mb_start b * 4096"
    "mb_virt b = mba_virt a + (mb_start b - mba_start a) * 4096" "mb_size b = mb_pages b * 4096"
proof -
  have a: "mba_ok a" using host_okD assms by blast
  then show "mb_ok a b" using assms(3) by (simp add: mba_ok_def)
  then show "mb_phys b = mb_start b * 4096" "mb_virt b = mba_virt a + (mb_start b - mba_start a) * 4096"
      "mb_size b = mb_pages b * 4096"
    using a by (simp_all add: mb_ok_def mba_ok_def area_ok_def algebra_simps)
  show "find (is_mb (mb_p b)) (mb_list a) = Some b" using a assms(3) by (simp add: find_mb mba_ok_def)
  show "mba_start a \<le> mb_start b" "mb_start b < mb_end b" "mb_end b \<le> mba_end a"
    using zones_ok_mem [of _ "mb_list a" _ b] a assms(3) by (auto simp: mba_ok_def)
qed

text \<open>The addresses of a block do not wrap around.\<close>

lemma mb_hit_exact:
  assumes "host_ok h" "a \<in> set (mba_list h)" "b \<in> set (mb_list a)"
  shows "mb_hit addr MBFIND_PHYS b \<longleftrightarrow> mb_phys b \<le> addr \<and> addr < mb_phys b + mb_size b"
    "mb_hit addr MBFIND_VIRT b \<longleftrightarrow> mb_virt b \<le> addr \<and> addr < mb_virt b + mb_size b"
proof -
  note * = host_ok_mb [OF assms]
  have a: "area_ok a" using host_okD(1) [OF assms(1,2)] by (simp add: mba_ok_def)
  have "u32 (mb_phys b + mb_size b) = mb_phys b + mb_size b" "u32 (mb_virt b + mb_size b) = mb_virt b + mb_size b"
    unfolding *(6-8) using a *(3-5) by (auto simp: area_ok_def mb_pages_def intro!: u32_id)
  then show "mb_hit addr MBFIND_PHYS b \<longleftrightarrow> mb_phys b \<le> addr \<and> addr < mb_phys b + mb_size b"
    "mb_hit addr MBFIND_VIRT b \<longleftrightarrow> mb_virt b \<le> addr \<and> addr < mb_virt b + mb_size b"
    by (simp_all add: mb_hit_def Let_def MBFIND_PHYS_def MBFIND_VIRT_def)
qed

lemma area_ends:
  assumes "host_ok h" "a \<in> set (mba_list h)"
  shows "u32 (mba_phys a + mba_pages a * 4096) = mba_phys a + mba_pages a * 4096"
    "u32 (mba_virt a + mba_pages a * 4096) = mba_virt a + mba_pages a * 4096"
  using host_okD(1) [OF assms] by (auto simp: mba_ok_def area_ok_def intro!: u32_id)

lemma mb_find_mb_SomeD:
  assumes "mb_find_mb h addr type = Some (a, b)"
  shows "a \<in> set (mba_list h)" "b \<in> set (mb_list a)" "addr \<noteq> 0" "mb_hit addr type b"
proof -
  have "addr \<noteq> 0" "first_some (mba_hit addr type) (mba_list h) = Some (a, b)"
    using assms by (auto simp: mb_find_mb_def split: if_splits)
  from this(1) first_some_SomeD [OF this(2)]
  show "a \<in> set (mba_list h)" "b \<in> set (mb_list a)" "addr \<noteq> 0" "mb_hit addr type b"
    by (auto simp: mba_hit_def Let_def find_Some_iff split: if_splits)
qed

lemma mb_find_mbu_SomeD:
  assumes "mb_find_mbu h addr tgid st = Some (a, b, u)"
  shows "a \<in> set (mba_list h)" "b \<in> set (mb_list a)" "addr \<noteq> 0"
    "st AND MBUFIND_PHYS \<noteq> 0 \<longrightarrow> mb_phys b = addr"
    "\<exists>v \<in> set (mbu_list b). mbu_match addr tgid st b v = Some (Some u)"
proof -
  have *: "addr \<noteq> 0" "first_some (mba_match addr tgid st) (mba_list h) = Some (a, b, Some u)"
    using assms by (auto simp: mb_find_mbu_def split: if_splits option.splits)
  obtain a' where a: "a' \<in> set (mba_list h)" "mba_match addr tgid st a' = Some (a, b, Some u)"
    using first_some_SomeD [OF *(2)] by blast
  then have "a' = a" "first_some (mb_match addr tgid st) (mb_list a) = Some (b, Some u)"
    by (auto simp: mba_match_def Let_def split: if_splits)
  from this(1) first_some_SomeD [OF this(2)] obtain b' where b: "b' \<in> set (mb_list a)"
    "mb_match addr tgid st b' = Some (b, Some u)" and aa: "a' = a" by blast
  then have "b' = b" "first_some (mbu_match addr tgid st b) (mbu_list b) = Some (Some u)"
      "st AND MBUFIND_PHYS \<noteq> 0 \<longrightarrow> mb_phys b = addr"
    by (auto simp: mb_match_def split: if_splits)
  with a(1) b(1) aa *(1) first_some_SomeD [OF this(2)]
  show "a \<in> set (mba_list h)" "b \<in> set (mb_list a)" "addr \<noteq> 0"
    "st AND MBUFIND_PHYS \<noteq> 0 \<longrightarrow> mb_phys b = addr"
    "\<exists>v \<in> set (mbu_list b). mbu_match addr tgid st b v = Some (Some u)" by auto
qed

lemmas mbu_flags = MBUFIND_USER_def MBUFIND_VIRT_def MBUFIND_PHYS_def MBUFIND_ALL_def MBUFIND_CREATOR_def
  MBUFIND_MMAP_def MBUFIND_GETPUT_def MBUFIND_ADDRMASK_def

text \<open>The users that the five search types used in the driver find.\<close>

lemma find_creator:
  assumes "mb_find_mbu h addr tgid (MBUFIND_PHYS OR MBUFIND_CREATOR) = Some (a, b, u)"
  shows "a \<in> set (mba_list h)" "b \<in> set (mb_list a)" "u \<in> set (mbu_list b)" "creator b = Some (mbu_p u)" "mb_phys b = addr"
proof -
  note * = mb_find_mbu_SomeD [OF assms]
  show "a \<in> set (mba_list h)" "b \<in> set (mb_list a)" "mb_phys b = addr" using * by (simp_all add: mbu_flags)
  obtain v where "mbu_match addr tgid (MBUFIND_PHYS OR MBUFIND_CREATOR) b v = Some (Some u)" using *(5) by blast
  then show "u \<in> set (mbu_list b)" "creator b = Some (mbu_p u)"
    by (auto simp: mbu_match_def mbu_flags find_Some_iff is_mbu_def split: if_splits option.splits)
qed

lemma find_user_of_kind:
  assumes "mb_find_mbu h addr tgid st = Some (a, b, u)"
    and "st \<in> {MBUFIND_USER OR MBUFIND_ALL, MBUFIND_USER OR MBUFIND_MMAP, MBUFIND_PHYS OR MBUFIND_GETPUT,
               MBUFIND_USER OR MBUFIND_GETPUT}"
  shows "a \<in> set (mba_list h)" "b \<in> set (mb_list a)" "u \<in> set (mbu_list b)" "addr \<noteq> 0"
    "tgid \<noteq> MB_DEF_TGID \<longrightarrow> mbu_tgid u = tgid"
    "st AND MBUFIND_USER \<noteq> 0 \<longrightarrow> mbu_addr u = addr" "st AND MBUFIND_PHYS \<noteq> 0 \<longrightarrow> mb_phys b = addr"
    "st AND MBUFIND_MMAP \<noteq> 0 \<longrightarrow> mbu_size u \<noteq> 0" "st AND MBUFIND_GETPUT \<noteq> 0 \<longrightarrow> mbu_size u = 0 \<and> mbu_addr u \<noteq> 0"
proof -
  note * = mb_find_mbu_SomeD [OF assms(1)]
  show "a \<in> set (mba_list h)" "b \<in> set (mb_list a)" "addr \<noteq> 0" "st AND MBUFIND_PHYS \<noteq> 0 \<longrightarrow> mb_phys b = addr"
    using * by simp_all
  obtain v where v: "v \<in> set (mbu_list b)" "mbu_match addr tgid st b v = Some (Some u)" using *(5) by blast
  then have "v = u" using assms(2) by (auto simp: mbu_match_def mbu_flags split: if_splits)
  with v assms(2) show "u \<in> set (mbu_list b)" "tgid \<noteq> MB_DEF_TGID \<longrightarrow> mbu_tgid u = tgid"
    "st AND MBUFIND_USER \<noteq> 0 \<longrightarrow> mbu_addr u = addr"
    "st AND MBUFIND_MMAP \<noteq> 0 \<longrightarrow> mbu_size u \<noteq> 0" "st AND MBUFIND_GETPUT \<noteq> 0 \<longrightarrow> mbu_size u = 0 \<and> mbu_addr u \<noteq> 0"
    by (auto simp: mbu_match_def mbu_flags split: if_splits)
qed


section \<open>The operations keep the invariant\<close>

text \<open>What the slab allocator promises: the object it hands out is not in use.\<close>

definition mbu_ids :: "mba_host \<Rightarrow> nat set" where
  "mbu_ids h = (\<Union>b \<in> live h. mbu_p ` set (mbu_list b))"

definition mb_ids :: "mba_host \<Rightarrow> nat set" where
  "mb_ids h = mb_p ` live h"

lemma same_block_simps [simp]:
  "same_block b (add_user u b)" "same_block b ((add_user u b)\<lparr>creator := c\<rparr>)"
  "same_block b (del_user r b)" "same_block b ((del_user r b)\<lparr>creator := c\<rparr>)"
  by (simp_all add: same_block_def add_user_def del_user_def)

lemma mb_ok_add:
  assumes "mb_ok a b" "mbu_p u \<notin> mbu_p ` set (mbu_list b)"
  shows "mb_ok a (add_user u b)"
  using assms by (auto simp: mb_ok_def add_user_def creator_ok_def mb_pages_def)

lemma mb_ok_add_creator:
  assumes "mb_ok a b" "mbu_p u \<notin> mbu_p ` set (mbu_list b)" "mbu_addr u = 0" "mbu_size u = mb_size b"
  shows "mb_ok a ((add_user u b)\<lparr>creator := Some (mbu_p u)\<rparr>)"
  using assms by (auto simp: mb_ok_def add_user_def creator_ok_def mb_pages_def)

lemma del_user_simps [simp]:
  "mb_phys (del_user r b) = mb_phys b" "mb_virt (del_user r b) = mb_virt b" "mb_size (del_user r b) = mb_size b"
  "mb_start (del_user r b) = mb_start b" "mb_end (del_user r b) = mb_end b" "mb_pages (del_user r b) = mb_pages b"
  "mb_count (del_user r b) = mb_count b - 1" "creator (del_user r b) = creator b"
  by (simp_all add: del_user_def mb_pages_def)

lemma del_user_list:
  assumes "mb_ok a b" "u \<in> set (mbu_list b)"
  shows "\<exists>xs ys. mbu_list b = xs @ u # ys \<and> mbu_list (del_user (mbu_p u) b) = xs @ ys"
proof -
  have "distinct (map mbu_p (mbu_list b))" using assms(1) by (simp add: mb_ok_def)
  from upd_first_split [OF find_mbu [OF this assms(2)], of id] show ?thesis by (auto simp: del_user_def)
qed

lemma mb_ok_del:
  assumes ok: "mb_ok a b" and u: "u \<in> set (mbu_list b)" and c: "creator b \<noteq> Some (mbu_p u)"
  shows "mb_ok a (del_user (mbu_p u) b)"
proof -
  obtain xs ys where s: "mbu_list b = xs @ u # ys" "mbu_list (del_user (mbu_p u) b) = xs @ ys"
    using del_user_list [OF ok u] by blast
  have "creator_ok (del_user (mbu_p u) b)"
    using ok c unfolding mb_ok_def creator_ok_def s by auto
  then show ?thesis using ok unfolding mb_ok_def s by simp
qed

lemma mb_ok_del_creator:
  assumes ok: "mb_ok a b" and u: "u \<in> set (mbu_list b)"
  shows "mb_ok a ((del_user (mbu_p u) b)\<lparr>creator := None\<rparr>)"
proof -
  obtain xs ys where s: "mbu_list b = xs @ u # ys" "mbu_list (del_user (mbu_p u) b) = xs @ ys"
    using del_user_list [OF ok u] by blast
  have p: "mb_pages (c\<lparr>creator := None\<rparr>) = mb_pages c" for c by (simp add: mb_pages_def)
  show ?thesis using ok unfolding mb_ok_def creator_ok_def s p by (simp add: s)
qed

lemma not_creator:
  assumes "mb_ok a b" "0 < mb_pages b" "u \<in> set (mbu_list b)" "mbu_addr u \<noteq> 0 \<or> mbu_size u = 0"
  shows "creator b \<noteq> Some (mbu_p u)"
proof
  assume c: "creator b = Some (mbu_p u)"
  with assms(1) obtain v where v: "v \<in> set (mbu_list b)" "mbu_p v = mbu_p u" "mbu_addr v = 0" "mbu_size v = mb_size b"
    unfolding mb_ok_def creator_ok_def by blast
  moreover have "distinct (map mbu_p (mbu_list b))" using assms(1) by (simp add: mb_ok_def)
  ultimately have "v = u" using assms(3) by (auto simp: distinct_map inj_on_def)
  with v assms(1,2,4) show False by (simp add: mb_ok_def)
qed

lemma host_ok_mb_upd:
  assumes ok: "host_ok h" and ab: "a \<in> set (mba_list h)" "b \<in> set (mb_list a)"
    and new: "mb_ok a (f b)" "same_block b (f b)"
  shows "host_ok (upd_mb (mba_p a) (mb_p b) f h)"
  using host_ok_upd_mb [where f = f, OF ok host_okD(2) [OF ok ab(1)] host_ok_mb(2) [OF ok ab] new] .

text \<open>The block and its area after the update.\<close>

lemma upd_mb_lookup:
  assumes ok: "host_ok h" and ab: "a \<in> set (mba_list h)" "b \<in> set (mb_list a)"
    and new: "same_block b (f b)"
  defines "a' \<equiv> a\<lparr>mb_list := upd_first (is_mb (mb_p b)) f (mb_list a)\<rparr>"
  shows "find (is_mba (mba_p a)) (mba_list (upd_mb (mba_p a) (mb_p b) f h)) = Some a'"
    "find (is_mb (mb_p b)) (mb_list a') = Some (f b)"
proof -
  have "is_mb (mb_p b) (f b)" using new by (simp add: same_block_def is_mb_def)
  then show "find (is_mb (mb_p b)) (mb_list a') = Some (f b)"
    using del_upd_first(2) [where f = f, OF host_ok_mb(2) [OF ok ab]] by (simp add: a'_def)
  show "find (is_mba (mba_p a)) (mba_list (upd_mb (mba_p a) (mb_p b) f h)) = Some a'"
    unfolding upd_mb_def upd_mba_simps a'_def
    by (rule del_upd_first(2) [OF host_okD(2) [OF ok ab(1)]]) (simp add: is_mba_def)
qed

lemma host_ok_drop:
  assumes ok: "host_ok h" and ab: "a \<in> set (mba_list h)" "b \<in> set (mb_list a)"
    and new: "mb_ok a (f b)" "same_block b (f b)" "mb_count (f b) = mb_count b - 1"
  defines "h1 \<equiv> upd_mb (mba_p a) (mb_p b) f h"
  shows "host_ok h1" "mb_count b = 1 \<Longrightarrow> \<exists>h'. mb_free_mb h1 (mba_p a) (mb_p b) = (h', Inr 0) \<and> host_ok h'"
proof -
  show h1: "host_ok h1" unfolding h1_def by (rule host_ok_mb_upd [where f = f, OF ok ab new(1,2)])
  note l = upd_mb_lookup [where f = f, OF ok ab new(2), folded h1_def]
  show "mb_count b = 1 \<Longrightarrow> \<exists>h'. mb_free_mb h1 (mba_p a) (mb_p b) = (h', Inr 0) \<and> host_ok h'"
    using mb_free_mb_success [OF h1 l] new(3) by auto
qed

lemma mb_do_free_ok:
  assumes "host_ok h" shows "host_ok (fst (mb_do_free h addr tgid name))"
proof (cases "addr = 0 \<or> name = None \<or> mb_find_mbu h addr tgid (MBUFIND_PHYS OR MBUFIND_CREATOR) = None")
  case True
  then show ?thesis using assms by (auto simp: mb_do_free_def)
next
  case False
  then obtain a b u where f: "mb_find_mbu h addr tgid (MBUFIND_PHYS OR MBUFIND_CREATOR) = Some (a, b, u)" by auto
  note c = find_creator [OF f]
  note d = host_ok_drop [where f = "\<lambda>b. (del_user (mbu_p u) b)\<lparr>creator := None\<rparr>", OF assms c(1,2)
      mb_ok_del_creator [OF host_ok_mb(1) [OF assms c(1,2)] c(3)]]
  show ?thesis using False f d by (auto simp: mb_do_free_def Let_def)
qed

lemma drop_user_ok:
  assumes ok: "host_ok h" and ab: "a \<in> set (mba_list h)" "b \<in> set (mb_list a)" "u \<in> set (mbu_list b)"
    and u: "mbu_addr u \<noteq> 0 \<or> mbu_size u = 0"
  shows "host_ok (drop_user h a b u)"
proof -
  note bok = host_ok_mb [OF ok ab(1,2)]
  have "creator b \<noteq> Some (mbu_p u)" using not_creator [OF bok(1) _ ab(3) u] bok(4) by (simp add: mb_pages_def)
  note d = host_ok_drop [where f = "del_user (mbu_p u)", OF ok ab(1,2) mb_ok_del [OF bok(1) ab(3) this]]
  show ?thesis using d by (auto simp: drop_user_def Let_def)
qed

lemma mb_do_put_ok:
  assumes ok: "host_ok h" shows "host_ok (fst (mb_do_put h addr tgid name))"
proof -
  let ?st = "(if tgid = MB_DEF_TGID then MBUFIND_PHYS else MBUFIND_USER) OR MBUFIND_GETPUT"
  show ?thesis
  proof (cases "mb_find_mbu h addr tgid ?st")
    case None
    then show ?thesis using ok by (auto simp: mb_do_put_def)
  next
    case (Some r)
    then obtain a b u where f: "mb_find_mbu h addr tgid ?st = Some (a, b, u)" by (cases r) auto
    have "?st \<in> {MBUFIND_USER OR MBUFIND_ALL, MBUFIND_USER OR MBUFIND_MMAP, MBUFIND_PHYS OR MBUFIND_GETPUT,
               MBUFIND_USER OR MBUFIND_GETPUT}" "?st AND MBUFIND_GETPUT \<noteq> 0" by (simp_all add: mbu_flags)
    note u = find_user_of_kind [OF f this(1)] and this(2)
    then show ?thesis using ok f drop_user_ok [OF ok u(1-3)] by (auto simp: mb_do_put_def)
  qed
qed

lemma mb_do_get_ok:
  assumes ok: "host_ok h" and fresh: "\<And>r. mem = Some r \<Longrightarrow> r \<notin> mbu_ids h"
  shows "host_ok (fst (mb_do_get h addr tgid name mem))"
proof -
  let ?mb = "if tgid \<noteq> MB_DEF_TGID
                    then map_option (\<lambda>(a, b, u). (a, b)) (mb_find_mbu h addr tgid (MBUFIND_USER OR MBUFIND_MMAP))
                    else mb_find_mb h addr MBFIND_PHYS"
  have ab: "a \<in> set (mba_list h) \<and> b \<in> set (mb_list a)" if "?mb = Some (a, b)" for a b
    using that find_user_of_kind(1,2) [of h addr tgid "MBUFIND_USER OR MBUFIND_MMAP" a b] mb_find_mb_SomeD(1,2) [of h addr MBFIND_PHYS a b]
    by (auto split: if_splits)
  show ?thesis
  proof (cases "name = None \<or> addr = 0 \<or> mem = None \<or> ?mb = None")
    case True
    then show ?thesis using ok by (auto simp: mb_do_get_def Let_def split: option.splits)
  next
    case False
    then obtain a b nm r where *: "?mb = Some (a, b)" "name = Some nm" "mem = Some r" "addr \<noteq> 0" by auto
    define u where "u = \<lparr>mbu_p = r, mbu_tgid = tgid, mbu_addr = addr, mbu_size = 0, the_user = user_name nm\<rparr>"
    have ab': "a \<in> set (mba_list h)" "b \<in> set (mb_list a)" using ab [OF *(1)] by auto
    then have "r \<notin> mbu_p ` set (mbu_list b)" using fresh [OF *(3)] by (auto simp: mbu_ids_def live_def)
    then have "mb_ok a (add_user u b)" using host_ok_mb(1) [OF ok ab'] by (intro mb_ok_add) (auto simp: u_def)
    from host_ok_mb_upd [where f = "add_user u", OF ok ab' this]
    show ?thesis unfolding mb_do_get_def *(2,3) option.case Let_def *(1) prod.case u_def [symmetric] using *(4) by simp
  qed
qed

end
