(* ===== verification/MbSpec.thy ===== *)
theory MbSpec
  imports MbOps
begin

text \<open>
  Live blocks are disjoint and inside their areas; \<^verbatim>\<open>mb_do_alloc\<close> by cases: no memory for
  the bookkeeping, no room, success.
\<close>

section \<open>Live blocks never overlap\<close>

lemma live_disjoint:
  assumes ok: "host_ok h" and b: "b \<in> live h" and c: "c \<in> live h" and ne: "b \<noteq> c"
  shows "mb_end b \<le> mb_start c \<or> mb_end c \<le> mb_start b"
proof -
  obtain a a' where a: "a \<in> set (mba_list h)" "b \<in> set (mb_list a)" and a': "a' \<in> set (mba_list h)" "c \<in> set (mb_list a')"
    using b c by (auto simp: live_def)
  show ?thesis
  proof (cases "mba_p a = mba_p a'")
    case True
    then have "a = a'" using ok a a' by (auto simp: host_ok_def areas_ok_def distinct_map inj_on_def)
    then have c': "c \<in> set (mb_list a)" using a' by simp
    have z: "zones_ok (mba_start a) (mb_list a) (mba_end a)" using host_okD(1) [OF ok a(1)] by (simp add: mba_ok_def)
    obtain us vs where s: "mb_list a = us @ b # vs" using a(2) by (meson split_list)
    then consider "c \<in> set us" | "c \<in> set vs" using c' ne by auto
    then show ?thesis
    proof cases
      case 1
      then obtain xs ys where "us = xs @ c # ys" by (meson split_list)
      then show ?thesis using zones_ok_disjoint [of "mba_start a" xs c ys b vs] z s by simp
    next
      case 2
      then obtain xs ys where "vs = xs @ c # ys" by (meson split_list)
      then show ?thesis using zones_ok_disjoint [of "mba_start a" us b xs c ys] z s by simp
    qed
  next
    case False
    then have "apart a a'" using ok a a' unfolding host_ok_def areas_ok_def by blast
    then show ?thesis using host_ok_mb(3,5) [OF ok a] host_ok_mb(3,5) [OF ok a'] unfolding apart_def by linarith
  qed
qed

lemma live_bounds:
  assumes "host_ok h" "b \<in> live h"
  shows "0 < mb_phys b" "mb_size b = mb_pages b * 4096" "0 < mb_pages b" "mb_phys b = mb_start b * 4096"
    "mb_phys b + mb_size b \<le> 4294967296" "mb_count b = int (length (mbu_list b))"
proof -
  obtain a where a: "a \<in> set (mba_list h)" "b \<in> set (mb_list a)" using assms(2) by (auto simp: live_def)
  note * = host_ok_mb [OF assms(1) a]
  have "0 < mba_start a" "mba_end a \<le> 0x100000" using host_okD(1) [OF assms(1) a(1)] by (auto simp: mba_ok_def area_ok_def)
  note bd = this
  show "mb_size b = mb_pages b * 4096" "mb_phys b = mb_start b * 4096" by (fact *)+
  show "0 < mb_phys b" unfolding *(6) using bd(1) *(3) by simp
  show "0 < mb_pages b" using *(4) by (simp add: mb_pages_def)
  show "mb_phys b + mb_size b \<le> 4294967296" unfolding *(6,8) mb_pages_def using bd(2) *(5) by simp
  show "mb_count b = int (length (mbu_list b))" using *(1) by (simp add: mb_ok_def)
qed

section \<open>Allocation\<close>

lemma live_upd:
  assumes "find (is_mba p) (mba_list h) = Some a" "mba_list h' = upd_first (is_mba p) f (mba_list h)"
    and "set (mb_list (f a)) = insert b (set (mb_list a))"
  shows "live h' = insert b (live h)"
proof -
  obtain us vs where s: "mba_list h = us @ a # vs" "upd_first (is_mba p) f (mba_list h) = us @ f a # vs"
    using upd_first_split [OF assms(1), of f] by blast
  have "live h' = (\<Union>x \<in> set (us @ f a # vs). set (mb_list x))" unfolding live_def assms(2) s(2) ..
  also have "\<dots> = insert b (\<Union>x \<in> set (us @ a # vs). set (mb_list x))" using assms(3) by auto
  finally show ?thesis by (simp add: live_def s(1))
qed

lemma host_max_attained:
  assumes "0 < pages" "pages \<le> host_max as"
  shows "\<exists>a \<in> set as. pages \<le> mba_max a"
  using foldr_max_in [of "map mba_max as" 0] assms by (auto simp: host_max_foldr)

lemma mb_do_alloc_fail:
  "PAGE_ALIGN sz div 4096 = 0 \<or> PAGE_ALIGN sz div 4096 > max_available_pages h \<or> mbu_mem = None \<or> name = None
     \<Longrightarrow> mb_do_alloc h sz tgid name mbu_mem mb_mem = (h, 0)"
  by (auto simp: mb_do_alloc_def Let_def split: option.splits)

lemma mb_do_alloc_nomem:
  assumes "host_ok h" shows "mb_do_alloc h sz tgid name mbu_mem None = (h, 0)"
proof -
  have "mb_alloc_mb h p s None = (h, None)" for p s
    by (auto simp: mb_alloc_mb_def Let_def split: option.splits prod.splits)
  then show ?thesis by (auto simp: mb_do_alloc_def Let_def split: option.splits)
qed

lemma mb_do_alloc_shape:
  assumes ok: "host_ok h" and pages: "pages = PAGE_ALIGN sz div 4096" "0 < pages" "pages \<le> max_available_pages h"
    and q: "q \<notin> mb_ids h"
  shows "\<exists>h' b. mb_do_alloc h sz tgid (Some nm) (Some r) (Some q) = (h', mb_phys b) \<and> host_ok h' \<and>
    live h' = insert b (live h) \<and> b \<notin> live h \<and> mb_p b = q \<and> mb_size b = PAGE_ALIGN sz \<and> mb_count b = 1 \<and>
    mbu_list b = [\<lparr>mbu_p = r, mbu_tgid = tgid, mbu_addr = 0, mbu_size = PAGE_ALIGN sz, the_user = user_name nm\<rparr>] \<and>
    creator b = Some r \<and>
    (\<exists>a us vs w. a \<in> set (mba_list h) \<and> mb_list a = us @ vs \<and>
       w a = a\<lparr>mb_list := us @ b # vs, nr_mb := nr_mb a + 1, mba_free := mba_free (w a), mba_max := mba_max (w a)\<rparr> \<and>
       mba_list h' = upd_first (is_mba (mba_p a)) w (mba_list h) \<and>
       h' = h\<lparr>mba_list := mba_list h', tot_free_pages := tot_free_pages h', max_available_pages := max_available_pages h'\<rparr>)"
proof -
  have "\<exists>a \<in> set (mba_list h). pages \<le> mba_max a" using host_max_attained [OF pages(2)] pages(3) ok by (simp add: host_ok_def)
  then obtain a where fa: "find (\<lambda>a. mba_max a \<ge> pages) (mba_list h) = Some a"
    by (meson find_None_iff option.exhaust)
  then have am: "a \<in> set (mba_list h)" "pages \<le> mba_max a" by (auto simp: find_Some_iff)
  note a = host_okD [OF ok am(1)]
  have sz: "PAGE_ALIGN sz = pages * 4096"
    by (simp add: pages(1) PAGE_pages_mult)
  have pg: "pages = PAGE_ALIGN (PAGE_ALIGN sz) div 4096" by (simp add: PAGE_ALIGN_idem pages(1))
  have ne: "PAGE_ALIGN sz \<noteq> 0" using pages by auto
  have qa: "q \<notin> mb_p ` set (mb_list a)" using q am(1) by (auto simp: mb_ids_def live_def)
  from mb_alloc_mb_success [OF ok a(2) pg pages(2) am(2) ne qa] obtain h1 b us vs f where
    al: "mb_alloc_mb h (mba_p a) (PAGE_ALIGN sz) (Some q) = (h1, Some b)" and h1: "host_ok h1" and
    b: "mb_p b = q" "mb_count b = 0" "mbu_list b = []" "mb_size b = pages * 4096" and
    l: "mb_list a = us @ vs" "mb_list (f a) = us @ b # vs" "same_geom a (f a)" "mba_list h1 = upd_first (is_mba (mba_p a)) f (mba_list h)"
      "h1 = h\<lparr>mba_list := mba_list h1, tot_free_pages := tot_free_pages h1, max_available_pages := max_available_pages h1\<rparr>"
      "f a = a\<lparr>mb_list := us @ b # vs, nr_mb := nr_mb a + 1, mba_free := mba_free (f a), mba_max := mba_max (f a)\<rparr>"
    by blast
  define u where "u = \<lparr>mbu_p = r, mbu_tgid = tgid, mbu_addr = 0, mbu_size = mb_size b, the_user = user_name nm\<rparr>"
  define g where "g = (\<lambda>b. (add_user u b)\<lparr>creator := Some r\<rparr>)"
  let ?h' = "upd_mb (mba_p a) q g h1"
  have eq: "mb_do_alloc h sz tgid (Some nm) (Some r) (Some q) = (?h', mb_phys b)"
    using pages fa al by (simp add: mb_do_alloc_def Let_def g_def u_def b(1))
  have pf: "is_mba (mba_p a) (f a)" using l(3) by (simp add: is_mba_def same_geom_def)
  have fa1: "find (is_mba (mba_p a)) (mba_list h1) = Some (f a)"
    unfolding l(4) by (rule del_upd_first(2) [where f = f, OF a(2) pf])
  then have fam: "f a \<in> set (mba_list h1)" by (metis find_Some_iff nth_mem)
  have bm: "b \<in> set (mb_list (f a))" by (simp add: l(2))
  have "mb_ok (f a) (g b)" using mb_ok_add_creator [OF host_ok_mb(1) [OF h1 fam bm], of u] b(3)
    by (simp add: g_def u_def)
  from host_ok_mb_upd [where f = g, OF h1 fam bm this]
  have hok: "host_ok ?h'" using l(3) b(1) by (simp add: g_def same_geom_def)
  define w where "w = (\<lambda>x. (f x)\<lparr>mb_list := upd_first (is_mb q) g (mb_list (f x))\<rparr>)"
  have ml: "mba_list ?h' = upd_first (is_mba (mba_p a)) w (mba_list h)"
    unfolding upd_mb_def upd_mba_simps l(4) upd_first_twice [where f = f, OF a(2) pf] w_def ..
  have wl: "mb_list (w a) = us @ g b # vs"
  proof -
    have "\<not> is_mb q x" if "x \<in> set us" for x using that qa by (auto simp: l(1) is_mb_def)
    then have "upd_first (is_mb q) g (us @ b # vs) = us @ g b # vs"
      using b(1) by (induction us) (auto simp: is_mb_def)
    then show ?thesis by (simp add: w_def l(2))
  qed
  then have "set (mb_list (w a)) = insert (g b) (set (mb_list a))" by (auto simp: l(1))
  with ml have live: "live ?h' = insert (g b) (live h)" by (rule live_upd [where f = w, OF a(2)])
  have gb: "mb_p (g b) = q" "mb_size (g b) = PAGE_ALIGN sz" "mb_count (g b) = 1" "mbu_list (g b) = [u]"
    "creator (g b) = Some r" "mb_phys (g b) = mb_phys b"
    using b sz by (simp_all add: g_def add_user_def)
  moreover have "g b \<notin> live h" using q gb(1) by (auto simp: mb_ids_def)
  moreover have "w a = a\<lparr>mb_list := us @ g b # vs, nr_mb := nr_mb a + 1, mba_free := mba_free (w a), mba_max := mba_max (w a)\<rparr>"
  proof -
    have "w a = (f a)\<lparr>mb_list := us @ g b # vs\<rparr>" using wl by (simp add: w_def)
    also have "\<dots> = a\<lparr>mb_list := us @ g b # vs, nr_mb := nr_mb a + 1, mba_free := mba_free (f a), mba_max := mba_max (f a)\<rparr>"
      by (subst l(6)) simp
    finally show ?thesis by (simp add: w_def)
  qed
  moreover have "?h' = h\<lparr>mba_list := mba_list ?h', tot_free_pages := tot_free_pages ?h', max_available_pages := max_available_pages ?h'\<rparr>"
    using l(5) by (cases h, cases h1) (simp add: upd_mb_def upd_mba_def)
  ultimately show ?thesis using eq hok live u_def b(4) sz ml l(1) am(1)
    by (intro exI [of _ ?h'] exI [of _ "g b"] conjI exI [of _ a] exI [of _ us] exI [of _ vs] exI [of _ w]) simp_all
qed

lemma mb_do_alloc_success:
  assumes "host_ok h" "pages = PAGE_ALIGN sz div 4096" "0 < pages" "pages \<le> max_available_pages h" "q \<notin> mb_ids h"
  shows "\<exists>h' b. mb_do_alloc h sz tgid (Some nm) (Some r) (Some q) = (h', mb_phys b) \<and> host_ok h' \<and>
    live h' = insert b (live h) \<and> b \<notin> live h \<and> mb_p b = q \<and> mb_size b = PAGE_ALIGN sz \<and> mb_count b = 1"
  using mb_do_alloc_shape [OF assms, of tgid nm r] by blast

lemma mb_do_alloc_ok:
  assumes ok: "host_ok h" and q: "\<And>q. mb_mem = Some q \<Longrightarrow> q \<notin> mb_ids h"
  shows "host_ok (fst (mb_do_alloc h sz tgid name mbu_mem mb_mem))"
proof (cases "PAGE_ALIGN sz div 4096 = 0 \<or> PAGE_ALIGN sz div 4096 > max_available_pages h \<or> mbu_mem = None \<or> name = None")
  case True
  then show ?thesis using ok by (simp add: mb_do_alloc_fail)
next
  case False
  then obtain nm r where *: "name = Some nm" "mbu_mem = Some r" by auto
  have "0 < PAGE_ALIGN sz div 4096" using False PAGE_pages_ge0 [of sz] by linarith
  note pos = this
  show ?thesis
  proof (cases mb_mem)
    case None
    then show ?thesis using ok by (simp add: mb_do_alloc_nomem)
  next
    case (Some q')
    have le: "PAGE_ALIGN sz div 4096 \<le> max_available_pages h" using False by simp
    from mb_do_alloc_success [OF ok refl pos le q [OF Some], of tgid nm r] show ?thesis
      unfolding * Some by auto
  qed
qed

end
