(* ===== verification/MbView.thy ===== *)
theory MbView
  imports MbSpec
begin

text \<open>
  The abstract state of the allocator: a finite map from the first address of a block to its
  size and use count, and what the list updates of the driver do to it.
\<close>

section \<open>The abstract view: blocks by address, with size and number of users\<close>

type_synonym view = "int \<Rightarrow> (int \<times> int) option"

definition mb_view :: "mba_host \<Rightarrow> view" where
  "mb_view h p = map_option (\<lambda>b. (mb_size b, mb_count b))
     (find (\<lambda>b. mb_phys b = p) (concat (map mb_list (mba_list h))))"

lemma live_concat: "set (concat (map mb_list (mba_list h))) = live h"
  by (auto simp: live_def)

lemma live_phys_inj:
  assumes "host_ok h" "b \<in> live h" "c \<in> live h" "mb_phys b = mb_phys c"
  shows "b = c"
proof (rule ccontr)
  assume "b \<noteq> c"
  from live_disjoint [OF assms(1-3) this] show False
    using live_bounds(3,4) [OF assms(1,2)] live_bounds(3,4) [OF assms(1,3)] assms(4) by (auto simp: mb_pages_def)
qed

lemma mb_view_iff:
  assumes "host_ok h"
  shows "mb_view h p = Some sc \<longleftrightarrow> (\<exists>b \<in> live h. mb_phys b = p \<and> sc = (mb_size b, mb_count b))"
proof
  assume "mb_view h p = Some sc"
  then obtain b where "find (\<lambda>b. mb_phys b = p) (concat (map mb_list (mba_list h))) = Some b" "sc = (mb_size b, mb_count b)"
    by (auto simp: mb_view_def)
  then show "\<exists>b \<in> live h. mb_phys b = p \<and> sc = (mb_size b, mb_count b)"
    by (metis (mono_tags, lifting) find_Some_iff live_concat nth_mem)
next
  assume "\<exists>b \<in> live h. mb_phys b = p \<and> sc = (mb_size b, mb_count b)"
  then obtain b where b: "b \<in> live h" "mb_phys b = p" "sc = (mb_size b, mb_count b)" by blast
  then have "\<exists>c. find (\<lambda>b. mb_phys b = p) (concat (map mb_list (mba_list h))) = Some c"
    by (metis (mono_tags, lifting) find_None_iff live_concat option.exhaust)
  then obtain c where c: "find (\<lambda>b. mb_phys b = p) (concat (map mb_list (mba_list h))) = Some c" by blast
  then have "c \<in> live h" "mb_phys c = p" by (metis (mono_tags, lifting) find_Some_iff live_concat nth_mem)+
  then have "c = b" using live_phys_inj [OF assms] b by metis
  with c b show "mb_view h p = Some sc" by (simp add: mb_view_def)
qed

lemma mb_view_None: "mb_view h p = None \<longleftrightarrow> (\<forall>b \<in> live h. mb_phys b \<noteq> p)"
  by (auto simp: mb_view_def find_None_iff live_def)

lemma mb_view_eqI:
  assumes "\<And>p sc. m p = Some sc \<longleftrightarrow> mb_view h p = Some sc"
  shows "mb_view h = m"
proof
  fix p show "mb_view h p = m p" using assms [of p] by (metis not_None_eq)
qed

text \<open>A block occurs in one area, at one position.\<close>

lemma block_area_unique:
  assumes ok: "host_ok h" and a: "a \<in> set (mba_list h)" "b \<in> set (mb_list a)" and x: "x \<in> set (mba_list h)" "b \<in> set (mb_list x)"
  shows "x = a"
proof (rule ccontr)
  assume "x \<noteq> a"
  then have "mba_p x \<noteq> mba_p a" using ok a x by (auto simp: host_ok_def areas_ok_def distinct_map inj_on_def)
  then have "apart x a" using ok a x unfolding host_ok_def areas_ok_def by blast
  then show False using host_ok_mb(3-5) [OF ok a] host_ok_mb(3-5) [OF ok x] unfolding apart_def by linarith
qed

lemma live_unique:
  assumes ok: "host_ok h" and a: "mba_list h = us @ a # vs" and b: "mb_list a = xs @ b # ys"
  shows "live h = insert b ((\<Union>x \<in> set (us @ vs). set (mb_list x)) \<union> set (xs @ ys))"
    "b \<notin> (\<Union>x \<in> set (us @ vs). set (mb_list x)) \<union> set (xs @ ys)"
proof -
  show "live h = insert b ((\<Union>x \<in> set (us @ vs). set (mb_list x)) \<union> set (xs @ ys))"
    by (auto simp: live_def a b)
  have am: "a \<in> set (mba_list h)" "b \<in> set (mb_list a)" by (simp_all add: a b)
  have "distinct (map mb_p (mb_list a))" using host_okD(1) [OF ok am(1)] by (simp add: mba_ok_def)
  then have 1: "b \<notin> set (xs @ ys)" by (auto simp: b)
  have "b \<notin> set (mb_list x)" if "x \<in> set (us @ vs)" for x
  proof
    assume "b \<in> set (mb_list x)"
    then have "x = a" using block_area_unique [OF ok am, of x] that by (auto simp: a)
    moreover have "distinct (map mba_p (mba_list h))" using ok by (simp add: host_ok_def areas_ok_def)
    ultimately show False using that by (auto simp: a)
  qed
  with 1 show "b \<notin> (\<Union>x \<in> set (us @ vs). set (mb_list x)) \<union> set (xs @ ys)" by blast
qed

lemma live_upd_mb:
  assumes ok: "host_ok h" and ab: "a \<in> set (mba_list h)" "b \<in> set (mb_list a)"
  shows "live (upd_mb (mba_p a) (mb_p b) f h) = insert (f b) (live h - {b})"
proof -
  let ?g = "\<lambda>a :: mb_area. a\<lparr>mb_list := upd_first (is_mb (mb_p b)) f (mb_list a)\<rparr>"
  obtain us vs where a: "mba_list h = us @ a # vs" "upd_first (is_mba (mba_p a)) ?g (mba_list h) = us @ ?g a # vs"
    using upd_first_split [OF host_okD(2) [OF ok ab(1)], of ?g] by blast
  obtain xs ys where b: "mb_list a = xs @ b # ys" "upd_first (is_mb (mb_p b)) f (mb_list a) = xs @ f b # ys"
    using upd_first_split [OF host_ok_mb(2) [OF ok ab], of f] by blast
  note u = live_unique [OF ok a(1) b(1)]
  have "live (upd_mb (mba_p a) (mb_p b) f h) = insert (f b) ((\<Union>x \<in> set (us @ vs). set (mb_list x)) \<union> set (xs @ ys))"
    unfolding live_def upd_mb_def upd_mba_simps a(2) by (auto simp: b(2))
  also have "\<dots> = insert (f b) (live h - {b})" using u by simp
  finally show ?thesis .
qed

lemma live_free_mb:
  assumes ok: "host_ok h" and ab: "a \<in> set (mba_list h)" "b \<in> set (mb_list a)" and c: "mb_count b = 0"
  shows "\<exists>h'. mb_free_mb h (mba_p a) (mb_p b) = (h', Inr 0) \<and> host_ok h' \<and> live h' = live h - {b}"
proof -
  note l = host_okD(2) [OF ok ab(1)] host_ok_mb(2) [OF ok ab]
  obtain us vs where a: "mba_list h = us @ a # vs" "del_first (is_mba (mba_p a)) (mba_list h) = us @ vs"
    "upd_first (is_mba (mba_p a)) (\<lambda>x. freed_area x (mb_p b)) (mba_list h) = us @ freed_area a (mb_p b) # vs"
    using upd_first_split [OF l(1), of "\<lambda>x. freed_area x (mb_p b)"] by blast
  obtain xs ys where b: "mb_list a = xs @ b # ys" "del_first (is_mb (mb_p b)) (mb_list a) = xs @ ys"
    using upd_first_split [OF l(2)] by blast
  note u = live_unique [OF ok a(1) b(1)]
  obtain h' where h': "mb_free_mb h (mba_p a) (mb_p b) = (h', Inr 0)" "host_ok h'"
    "mba_list h' = (if nr_mb a = 1 \<and> \<not> is_static a then us @ vs else us @ freed_area a (mb_p b) # vs)"
    using mb_free_mb_success [OF ok l c] unfolding a(2,3) by blast
  have "live h' = (\<Union>x \<in> set (us @ vs). set (mb_list x)) \<union> set (xs @ ys)"
  proof (cases "nr_mb a = 1 \<and> \<not> is_static a")
    case True
    then have "length (mb_list a) = 1" using host_okD(1) [OF ok ab(1)] by (simp add: mba_ok_def)
    then have "xs = []" "ys = []" by (simp_all add: b(1))
    then show ?thesis unfolding live_def h'(3) using True by simp
  next
    case False
    then show ?thesis unfolding live_def h'(3) by (auto simp: freed_area_def without_block_def b(2))
  qed
  also have "\<dots> = live h - {b}" using u by simp
  finally show ?thesis using h' by blast
qed

section \<open>The operations on the view\<close>

lemma view_replace:
  assumes ok: "host_ok h" "host_ok h'" and b: "b \<in> live h" and same: "mb_phys b' = mb_phys b" "mb_size b' = mb_size b"
    and live: "live h' = insert b' (live h - {b})"
  shows "mb_view h' = (mb_view h)(mb_phys b \<mapsto> (mb_size b, mb_count b'))"
proof (rule mb_view_eqI)
  fix p sc
  have "c = b" if "c \<in> live h" "mb_phys c = mb_phys b" for c using live_phys_inj [OF ok(1) that(1) b that(2)] .
  then show "((mb_view h)(mb_phys b \<mapsto> (mb_size b, mb_count b'))) p = Some sc \<longleftrightarrow> mb_view h' p = Some sc"
    using b same unfolding mb_view_iff [OF ok(2)] live by (auto simp: mb_view_iff [OF ok(1)])
qed

lemma view_remove:
  assumes ok: "host_ok h" "host_ok h'" and b: "b \<in> live h" and live: "live h' = live h - {b}"
  shows "mb_view h' = (mb_view h)(mb_phys b := None)"
proof (rule mb_view_eqI)
  fix p sc
  have "c = b" if "c \<in> live h" "mb_phys c = mb_phys b" for c using live_phys_inj [OF ok(1) that(1) b that(2)] .
  then show "((mb_view h)(mb_phys b := None)) p = Some sc \<longleftrightarrow> mb_view h' p = Some sc"
    using b unfolding mb_view_iff [OF ok(2)] live by (auto simp: mb_view_iff [OF ok(1)])
qed

lemma view_insert:
  assumes ok: "host_ok h" "host_ok h'" and b: "b \<notin> live h" and live: "live h' = insert b (live h)"
  shows "mb_view h' = (mb_view h)(mb_phys b \<mapsto> (mb_size b, mb_count b))" "mb_view h (mb_phys b) = None"
proof -
  have ne: "mb_phys c \<noteq> mb_phys b" if "c \<in> live h" for c
    using live_phys_inj [OF ok(2), of c b] that b by (auto simp: live)
  then show "mb_view h (mb_phys b) = None" by (simp add: mb_view_None)
  show "mb_view h' = (mb_view h)(mb_phys b \<mapsto> (mb_size b, mb_count b))"
  proof (rule mb_view_eqI)
    fix p sc
    show "((mb_view h)(mb_phys b \<mapsto> (mb_size b, mb_count b))) p = Some sc \<longleftrightarrow> mb_view h' p = Some sc"
      using ne unfolding mb_view_iff [OF ok(2)] live by (auto simp: mb_view_iff [OF ok(1)])
  qed
qed

text \<open>Taking one user away: the count goes down, the last one takes the block with it.\<close>

definition view_drop :: "int \<Rightarrow> view \<Rightarrow> view" where
  "view_drop p m = (case m p of None \<Rightarrow> m | Some (s, c) \<Rightarrow> if c = 1 then m(p := None) else m(p \<mapsto> (s, c - 1)))"

lemma view_after_drop:
  assumes ok: "host_ok h" and ab: "a \<in> set (mba_list h)" "b \<in> set (mb_list a)"
    and new: "mb_ok a (f b)" "same_block b (f b)" "mb_count (f b) = mb_count b - 1"
  defines "h1 \<equiv> upd_mb (mba_p a) (mb_p b) f h"
  shows "mb_view (if mb_count b - 1 \<noteq> 0 then h1 else fst (mb_free_mb h1 (mba_p a) (mb_p b))) = view_drop (mb_phys b) (mb_view h)"
proof -
  have bl: "b \<in> live h" using ab by (auto simp: live_def)
  note h1 = host_ok_mb_upd [where f = f, OF ok ab new(1,2), folded h1_def]
  have l1: "live h1 = insert (f b) (live h - {b})" unfolding h1_def by (rule live_upd_mb [OF ok ab])
  have same: "mb_phys (f b) = mb_phys b" "mb_size (f b) = mb_size b" "mb_p (f b) = mb_p b" using new(2) by (simp_all add: same_block_def)
  note v1 = view_replace [OF ok h1 bl same(1,2) l1]
  have vb: "mb_view h (mb_phys b) = Some (mb_size b, mb_count b)" using bl mb_view_iff [OF ok] by blast
  show ?thesis
  proof (cases "mb_count b = 1")
    case False
    then show ?thesis using v1 vb new(3) by (simp add: view_drop_def)
  next
    case True
    let ?a' = "a\<lparr>mb_list := upd_first (is_mb (mb_p b)) f (mb_list a)\<rparr>"
    note lk = upd_mb_lookup [where f = f, OF ok ab new(2), folded h1_def]
    have m: "?a' \<in> set (mba_list h1)" "f b \<in> set (mb_list ?a')" using lk by (metis find_Some_iff nth_mem)+
    have c0: "mb_count (f b) = 0" using True new(3) by simp
    obtain h' where h': "mb_free_mb h1 (mba_p a) (mb_p b) = (h', Inr 0)" "host_ok h'" "live h' = live h1 - {f b}"
      using live_free_mb [OF h1 m c0] same(3) by auto
    have "mb_view h' = (mb_view h1)(mb_phys (f b) := None)"
      by (rule view_remove [OF h1 h'(2) _ h'(3)]) (simp add: l1)
    then show ?thesis using True v1 vb h'(1) same by (simp add: view_drop_def)
  qed
qed

end
