(* ===== verification/MbClient.thy ===== *)
theory MbClient
  imports MbView
begin

text \<open>
  The operations of the driver as operations on the abstract state.
\<close>

section \<open>Views of the operations\<close>

lemma live_hit: "host_ok h \<Longrightarrow> b \<in> live h \<Longrightarrow> mb_hit addr MBFIND_PHYS b \<longleftrightarrow> mb_phys b \<le> addr \<and> addr < mb_phys b + mb_size b"
  using mb_hit_exact(1) by (auto simp: live_def)

lemma mb_find_mb_complete:
  assumes ok: "host_ok h" and ab: "a \<in> set (mba_list h)" "b \<in> set (mb_list a)"
    and addr: "mb_phys b \<le> addr" "addr < mb_phys b + mb_size b"
  shows "mb_find_mb h addr MBFIND_PHYS = Some (a, b)"
proof -
  note bb = host_ok_mb [OF ok ab]
  have bl: "b \<in> live h" using ab by (auto simp: live_def)
  have nz: "addr \<noteq> 0" using live_bounds(1) [OF ok bl] addr by simp
  have hit: "c = b" if "c \<in> live h" "mb_hit addr MBFIND_PHYS c" for c
  proof (rule ccontr)
    assume "c \<noteq> b"
    from live_disjoint [OF ok that(1) bl this] live_bounds(2,4) [OF ok bl] live_bounds(2,4) [OF ok that(1)] that(2) addr
      live_hit [OF ok that(1)]
    show False by (auto simp: mb_pages_def)
  qed
  have aok: "mba_phys a = mba_start a * 4096" "mba_end a = mba_start a + mba_pages a"
    using host_okD(1) [OF ok ab(1)] by (auto simp: mba_ok_def area_ok_def)
  have "find (mb_hit addr MBFIND_PHYS) (mb_list a) = Some b"
  proof -
    have "mb_hit addr MBFIND_PHYS b" using addr by (simp add: mb_hit_exact [OF ok ab])
    then obtain c where "find (mb_hit addr MBFIND_PHYS) (mb_list a) = Some c" using ab(2) by (metis find_None_iff option.exhaust)
    then show ?thesis using hit ab(1) by (metis UN_I find_Some_iff live_def nth_mem)
  qed
  then have ha: "mba_hit addr MBFIND_PHYS a = Some (a, b)"
    using addr bb(3,5,6,8) aok area_ends(1) [OF ok ab(1)] by (simp add: mba_hit_def mb_pages_def)
  have "mba_hit addr MBFIND_PHYS x = Some (a, b)" if xm: "x \<in> set (mba_list h)" and hx: "mba_hit addr MBFIND_PHYS x \<noteq> None" for x
  proof -
    obtain c where c: "find (mb_hit addr MBFIND_PHYS) (mb_list x) = Some c" using hx by (auto simp: mba_hit_def Let_def split: if_splits)
    then have cx: "c \<in> set (mb_list x)" "mb_hit addr MBFIND_PHYS c" by (metis find_Some_iff nth_mem)+
    then have "c = b" using hit xm by (auto simp: live_def)
    have "x = a" using block_area_unique [OF ok ab xm] cx(1) \<open>c = b\<close> by simp
    with ha show ?thesis by simp
  qed
  from first_some_unique [OF ab(1), where f = "mba_hit addr MBFIND_PHYS", OF ha this] nz show ?thesis
    by (simp add: mb_find_mb_def)
qed

text \<open>A search by the physical address of a block looks at the users of that block only.\<close>

lemma mb_find_mbu_phys:
  assumes ok: "host_ok h" and ab: "a \<in> set (mba_list h)" "b \<in> set (mb_list a)"
    and st: "st AND MBUFIND_PHYS \<noteq> 0" "st AND MBUFIND_VIRT = 0"
  shows "mb_find_mbu h (mb_phys b) tgid st =
    (case first_some (mbu_match (mb_phys b) tgid st b) (mbu_list b) of
       Some (Some u) \<Rightarrow> Some (a, b, u) | _ \<Rightarrow> None)"
proof -
  note bb = host_ok_mb [OF ok ab]
  have bl: "b \<in> live h" using ab by (auto simp: live_def)
  let ?m = "mb_match (mb_phys b) tgid st" and ?A = "mba_match (mb_phys b) tgid st"
  have nz: "mb_phys b \<noteq> 0" using live_bounds(1) [OF ok bl] by simp
  have mask: "st AND MBUFIND_ADDRMASK \<noteq> 0"
  proof
    assume "st AND MBUFIND_ADDRMASK = 0"
    then have "(st AND MBUFIND_ADDRMASK) AND MBUFIND_PHYS = 0" by simp
    then show False using st(1) by (simp add: mbu_flags and.assoc)
  qed
  have other: "?m c = None" if "c \<in> live h" "c \<noteq> b" for c
    using live_phys_inj [OF ok that(1) bl] that(2) st(1) by (auto simp: mb_match_def)
  have own: "?m b = map_option (Pair b) (first_some (mbu_match (mb_phys b) tgid st b) (mbu_list b))"
    using st by (simp add: mb_match_def)
  have lista: "first_some ?m (mb_list a) = ?m b"
  proof (cases "?m b")
    case None
    then have "?m c = None" if "c \<in> set (mb_list a)" for c using other [of c] that ab(1) by (cases "c = b") (auto simp: live_def)
    then show ?thesis using None by (simp add: first_some_None)
  next
    case (Some y)
    have "?m c = Some y" if "c \<in> set (mb_list a)" "?m c \<noteq> None" for c
      using other [of c] that ab(1) Some by (cases "c = b") (auto simp: live_def)
    from first_some_unique [OF ab(2), where f = ?m, OF Some this] Some show ?thesis by simp
  qed
  have rng: "mba_phys a \<le> mb_phys b" "mb_phys b \<le> mba_phys a + mba_pages a * 4096"
    using bb(3-6) host_okD(1) [OF ok ab(1)] by (auto simp: mba_ok_def area_ok_def)
  have Aa: "?A a = map_option (Pair a) (?m b)" using rng st lista area_ends(1) [OF ok ab(1)] by (simp add: mba_match_def Let_def)
  have Ax: "?A x = None" if "x \<in> set (mba_list h)" "x \<noteq> a" for x
  proof -
    have "b \<notin> set (mb_list x)" using block_area_unique [OF ok ab that(1)] that(2) by blast
    then have "\<forall>c \<in> set (mb_list x). ?m c = None" using other that(1) by (metis UN_I live_def)
    then show ?thesis by (simp add: mba_match_def Let_def first_some_None)
  qed
  have "first_some ?A (mba_list h) = ?A a"
  proof (cases "?A a")
    case None
    then have "?A x = None" if "x \<in> set (mba_list h)" for x using Ax [of x] that by (cases "x = a") auto
    then show ?thesis using None by (simp add: first_some_None)
  next
    case (Some y)
    have "?A x = Some y" if "x \<in> set (mba_list h)" "?A x \<noteq> None" for x using Ax [of x] that Some by (cases "x = a") auto
    from first_some_unique [OF ab(1), where f = ?A, OF Some this] Some show ?thesis by simp
  qed
  then show ?thesis using nz mask unfolding mb_find_mbu_def Aa own by (simp split: option.splits)
qed


lemma mb_do_get_kernel:
  assumes ok: "host_ok h" and ab: "a \<in> set (mba_list h)" "b \<in> set (mb_list a)" and r: "r \<notin> mbu_ids h"
    and addr: "mb_phys b \<le> addr" "addr < mb_phys b + mb_size b"
  shows "\<exists>u. mb_do_get h addr MB_DEF_TGID (Some nm) (Some r) = (upd_mb (mba_p a) (mb_p b) (add_user u) h, Inr 0)
    \<and> host_ok (upd_mb (mba_p a) (mb_p b) (add_user u) h)
    \<and> mb_view (upd_mb (mba_p a) (mb_p b) (add_user u) h) = (mb_view h)(mb_phys b \<mapsto> (mb_size b, mb_count b + 1))
    \<and> mbu_p u = r \<and> mbu_addr u = addr \<and> mbu_size u = 0 \<and> mbu_tgid u = MB_DEF_TGID"
proof -
  have bl: "b \<in> live h" using ab by (auto simp: live_def)
  define u where "u = \<lparr>mbu_p = r, mbu_tgid = MB_DEF_TGID, mbu_addr = addr, mbu_size = 0, the_user = user_name nm\<rparr>"
  let ?h = "upd_mb (mba_p a) (mb_p b) (add_user u) h"
  have nz: "addr \<noteq> 0" using live_bounds(1) [OF ok bl] addr by simp
  have eq: "mb_do_get h addr MB_DEF_TGID (Some nm) (Some r) = (?h, Inr 0)"
    using nz mb_find_mb_complete [OF ok ab addr] by (simp add: mb_do_get_def u_def)
  have "r \<notin> mbu_p ` set (mbu_list b)" using r bl by (auto simp: mbu_ids_def)
  then have "mb_ok a (add_user u b)" using host_ok_mb(1) [OF ok ab] by (intro mb_ok_add) (auto simp: u_def)
  from host_ok_mb_upd [where f = "add_user u", OF ok ab this] have hok: "host_ok ?h" by simp
  have "mb_view ?h = (mb_view h)(mb_phys b \<mapsto> (mb_size b, mb_count (add_user u b)))"
    by (rule view_replace [OF ok hok bl _ _ live_upd_mb [OF ok ab]]) (simp_all add: add_user_def)
  with eq hok show ?thesis by (intro exI [of _ u]) (simp add: u_def add_user_def)
qed

lemma mb_do_get_view:
  assumes ok: "host_ok h" and fresh: "\<And>r. mem = Some r \<Longrightarrow> r \<notin> mbu_ids h"
  shows "fst (mb_do_get h addr MB_DEF_TGID name mem) = h \<or>
    (\<exists>p n c. mb_view h p = Some (n, c) \<and> mb_view (fst (mb_do_get h addr MB_DEF_TGID name mem)) = (mb_view h)(p \<mapsto> (n, c + 1)))"
proof (cases "name = None \<or> addr = 0 \<or> mem = None \<or> mb_find_mb h addr MBFIND_PHYS = None")
  case True
  then show ?thesis by (auto simp: mb_do_get_def Let_def split: option.splits)
next
  case False
  then obtain a b nm r where *: "mb_find_mb h addr MBFIND_PHYS = Some (a, b)" "name = Some nm" "mem = Some r" by auto
  note f = mb_find_mb_SomeD [OF *(1)]
  have "b \<in> live h" using f by (auto simp: live_def)
  then have "mb_view h (mb_phys b) = Some (mb_size b, mb_count b)" using mb_view_iff [OF ok] by blast
  moreover obtain u where "fst (mb_do_get h addr MB_DEF_TGID name mem) = upd_mb (mba_p a) (mb_p b) (add_user u) h"
      "mb_view (upd_mb (mba_p a) (mb_p b) (add_user u) h) = (mb_view h)(mb_phys b \<mapsto> (mb_size b, mb_count b + 1))"
    using mb_do_get_kernel [OF ok f(1,2) fresh [OF *(3)], of addr nm] f(4) unfolding *(2,3) mb_hit_exact(1) [OF ok f(1,2)] by auto
  ultimately show ?thesis by metis
qed

lemma mb_do_put_view:
  assumes ok: "host_ok h"
  shows "fst (mb_do_put h addr MB_DEF_TGID name) = h \<or>
    mb_view (fst (mb_do_put h addr MB_DEF_TGID name)) = view_drop addr (mb_view h)"
proof (cases "mb_find_mbu h addr MB_DEF_TGID (MBUFIND_PHYS OR MBUFIND_GETPUT)")
  case None
  then show ?thesis by (auto simp: mb_do_put_def)
next
  case (Some x)
  then obtain a b u where f: "mb_find_mbu h addr MB_DEF_TGID (MBUFIND_PHYS OR MBUFIND_GETPUT) = Some (a, b, u)" by (cases x) auto
  note u = find_user_of_kind [OF f, simplified]
  have pa: "mb_phys b = addr" "mbu_size u = 0" using u(7,9) by (simp_all add: mbu_flags)
  note bok = host_ok_mb [OF ok u(1,2)]
  have "creator b \<noteq> Some (mbu_p u)" using not_creator [OF bok(1) _ u(3)] bok(4) pa(2) by (simp add: mb_pages_def)
  from view_after_drop [where f = "del_user (mbu_p u)", OF ok u(1,2) mb_ok_del [OF bok(1) u(3) this]]
  show ?thesis using f pa by (auto simp: mb_do_put_def drop_user_def Let_def)
qed

lemma mb_do_free_view:
  assumes ok: "host_ok h"
  shows "fst (mb_do_free h addr tgid name) = h \<or> mb_view (fst (mb_do_free h addr tgid name)) = view_drop addr (mb_view h)"
proof (cases "mb_find_mbu h addr tgid (MBUFIND_PHYS OR MBUFIND_CREATOR)")
  case None
  then show ?thesis by (auto simp: mb_do_free_def)
next
  case (Some x)
  then obtain a b u where f: "mb_find_mbu h addr tgid (MBUFIND_PHYS OR MBUFIND_CREATOR) = Some (a, b, u)" by (cases x) auto
  note c = find_creator [OF f]
  from view_after_drop [where f = "\<lambda>b. (del_user (mbu_p u) b)\<lparr>creator := None\<rparr>", OF ok c(1,2)
      mb_ok_del_creator [OF host_ok_mb(1) [OF ok c(1,2)] c(3)]]
  show ?thesis using f c(5) by (auto simp: mb_do_free_def Let_def split: if_splits)
qed

lemma mb_do_alloc_view:
  assumes ok: "host_ok h" and q: "\<And>q. mb_mem = Some q \<Longrightarrow> q \<notin> mb_ids h"
  shows "mb_do_alloc h sz tgid name mbu_mem mb_mem = (h, 0) \<or>
    (\<exists>h' p. mb_do_alloc h sz tgid name mbu_mem mb_mem = (h', p) \<and> p \<noteq> 0 \<and> mb_view h p = None
       \<and> mb_view h' = (mb_view h)(p \<mapsto> (PAGE_ALIGN sz, 1)))"
proof (cases "PAGE_ALIGN sz div 4096 = 0 \<or> PAGE_ALIGN sz div 4096 > max_available_pages h \<or> mbu_mem = None \<or> name = None
    \<or> mb_mem = None")
  case True
  then show ?thesis using ok by (auto simp: mb_do_alloc_fail mb_do_alloc_nomem)
next
  case False
  then obtain nm r q' where *: "name = Some nm" "mbu_mem = Some r" "mb_mem = Some q'" by auto
  have pos: "0 < PAGE_ALIGN sz div 4096" using False PAGE_pages_ge0 [of sz] by linarith
  have le: "PAGE_ALIGN sz div 4096 \<le> max_available_pages h" using False by simp
  obtain h' b where "mb_do_alloc h sz tgid (Some nm) (Some r) (Some q') = (h', mb_phys b)" and h': "host_ok h'"
    and l: "live h' = insert b (live h)" "b \<notin> live h" and b: "mb_size b = PAGE_ALIGN sz" "mb_count b = 1"
    using mb_do_alloc_success [OF ok refl pos le q [OF *(3)], of tgid nm r] by blast
  moreover have "mb_phys b \<noteq> 0" using live_bounds(1) [OF h', of b] l by simp
  ultimately show ?thesis using view_insert [OF ok h' l(2,1)] unfolding * b by blast
qed

end
