(* ===== verification/MbPool.thy ===== *)
theory MbPool
  imports MbClient
begin

text \<open>
  The interface of the memory block driver to its clients in the kernel (the macros
  \<^verbatim>\<open>mb_alloc\<close>, \<^verbatim>\<open>mb_free\<close>, \<^verbatim>\<open>mb_get\<close> and \<^verbatim>\<open>mb_put\<close> of \<^verbatim>\<open>memblock.h\<close>): the contract
  of a pool of reference-counted blocks as a locale, what a client can conclude from it,
  and the proof that the driver meets it.
\<close>

section \<open>The macros of memblock.h\<close>

definition THE_MB_USER :: string where "THE_MB_USER = ''WMT-MB''"

type_synonym slab = "nat option \<times> nat option"

definition mb_alloc :: "mba_host \<Rightarrow> int \<Rightarrow> slab \<Rightarrow> mba_host \<times> int" where
  "mb_alloc h s m = mb_do_alloc h s MB_DEF_TGID (Some THE_MB_USER) (fst m) (snd m)"

definition mb_free :: "mba_host \<Rightarrow> int \<Rightarrow> mba_host \<times> (errno + int)" where
  "mb_free h p = mb_do_free h p MB_DEF_TGID (Some THE_MB_USER)"

definition mb_get :: "mba_host \<Rightarrow> int \<Rightarrow> slab \<Rightarrow> mba_host \<times> (errno + int)" where
  "mb_get h p m = mb_do_get h p MB_DEF_TGID (Some THE_MB_USER) (fst m)"

definition mb_put :: "mba_host \<Rightarrow> int \<Rightarrow> mba_host \<times> (errno + int)" where
  "mb_put h p = mb_do_put h p MB_DEF_TGID (Some THE_MB_USER)"

section \<open>The contract\<close>

datatype 'm pool_op = OpAlloc int 'm | OpFree int | OpGet int 'm | OpPut int

fun pool_step ::
    "('s \<Rightarrow> int \<Rightarrow> 'm \<Rightarrow> 's) \<Rightarrow> ('s \<Rightarrow> int \<Rightarrow> 's) \<Rightarrow> ('s \<Rightarrow> int \<Rightarrow> 'm \<Rightarrow> 's) \<Rightarrow> ('s \<Rightarrow> int \<Rightarrow> 's)
       \<Rightarrow> 's \<Rightarrow> 'm pool_op \<Rightarrow> 's" where
  "pool_step al fr ge pu s (OpAlloc n m) = al s n m"
| "pool_step al fr ge pu s (OpFree p) = fr s p"
| "pool_step al fr ge pu s (OpGet p m) = ge s p m"
| "pool_step al fr ge pu s (OpPut p) = pu s p"

fun op_mem :: "('s \<Rightarrow> 'm \<Rightarrow> bool) \<Rightarrow> 's \<Rightarrow> 'm pool_op \<Rightarrow> bool" where
  "op_mem fresh s (OpAlloc n m) = fresh s m"
| "op_mem fresh s (OpGet p m) = fresh s m"
| "op_mem fresh s _ = True"

text \<open>A run of operations during which the slab allocator never hands out an object in use.\<close>

fun fresh_run :: "('s \<Rightarrow> 'm pool_op \<Rightarrow> 's) \<Rightarrow> ('s \<Rightarrow> 'm \<Rightarrow> bool) \<Rightarrow> 's \<Rightarrow> 'm pool_op list \<Rightarrow> bool" where
  "fresh_run step fresh s [] = True"
| "fresh_run step fresh s (x # xs) = (op_mem fresh s x \<and> fresh_run step fresh (step s x) xs)"

fun is_drop :: "int \<Rightarrow> 'm pool_op \<Rightarrow> bool" where
  "is_drop p (OpFree q) = (q = p)"
| "is_drop p (OpPut q) = (q = p)"
| "is_drop p _ = False"

definition drops :: "int \<Rightarrow> 'm pool_op list \<Rightarrow> nat" where
  "drops p ops = length (filter (is_drop p) ops)"

locale block_pool =
  fixes inv :: "'s \<Rightarrow> bool" and vw :: "'s \<Rightarrow> view" and fresh :: "'s \<Rightarrow> 'm \<Rightarrow> bool"
    and al :: "'s \<Rightarrow> int \<Rightarrow> 'm \<Rightarrow> 's \<times> int" and fr :: "'s \<Rightarrow> int \<Rightarrow> 's"
    and ge :: "'s \<Rightarrow> int \<Rightarrow> 'm \<Rightarrow> 's" and pu :: "'s \<Rightarrow> int \<Rightarrow> 's"
  assumes al_inv: "inv s \<Longrightarrow> fresh s m \<Longrightarrow> inv (fst (al s n m))"
    and fr_inv: "inv s \<Longrightarrow> inv (fr s p)"
    and ge_inv: "inv s \<Longrightarrow> fresh s m \<Longrightarrow> inv (ge s p m)"
    and pu_inv: "inv s \<Longrightarrow> inv (pu s p)"
    and vw_apart: "inv s \<Longrightarrow> vw s p = Some (n, c) \<Longrightarrow> vw s q = Some (k, d) \<Longrightarrow> p \<noteq> q \<Longrightarrow> p + n \<le> q \<or> q + k \<le> p"
    and al_vw: "inv s \<Longrightarrow> fresh s m \<Longrightarrow> al s n m = (s, 0) \<or>
      (\<exists>s' p. al s n m = (s', p) \<and> p \<noteq> 0 \<and> vw s p = None \<and> vw s' = (vw s)(p \<mapsto> (PAGE_ALIGN n, 1)))"
    and fr_vw: "inv s \<Longrightarrow> vw (fr s p) = vw s \<or> vw (fr s p) = view_drop p (vw s)"
    and ge_vw: "inv s \<Longrightarrow> fresh s m \<Longrightarrow> vw (ge s p m) = vw s \<or>
      (\<exists>q n c. vw s q = Some (n, c) \<and> vw (ge s p m) = (vw s)(q \<mapsto> (n, c + 1)))"
    and pu_vw: "inv s \<Longrightarrow> vw (pu s p) = vw s \<or> vw (pu s p) = view_drop p (vw s)"
begin

abbreviation step :: "'s \<Rightarrow> 'm pool_op \<Rightarrow> 's" where
  "step \<equiv> pool_step (\<lambda>s n m. fst (al s n m)) fr ge pu"

lemma step_inv: "inv s \<Longrightarrow> op_mem fresh s x \<Longrightarrow> inv (step s x)"
  by (cases x) (auto intro: al_inv fr_inv ge_inv pu_inv)

lemma run_inv: "inv s \<Longrightarrow> fresh_run step fresh s ops \<Longrightarrow> inv (foldl step s ops)"
  by (induction ops arbitrary: s) (auto intro: step_inv)

lemma drop_keeps:
  "m p = Some (n, c) \<Longrightarrow> q \<noteq> p \<or> 1 < c \<Longrightarrow> view_drop q m p = Some (n, if q = p then c - 1 else c)"
  by (auto simp: view_drop_def split: option.splits)

lemma step_keeps:
  assumes "inv s" "op_mem fresh s x" "vw s p = Some (n, c)" "is_drop p x \<longrightarrow> 1 < c"
  shows "\<exists>c'. vw (step s x) p = Some (n, c') \<and> c - (if is_drop p x then 1 else 0) \<le> c'"
proof (cases x)
  case (OpAlloc k m)
  then show ?thesis using al_vw [of s m k] assms by fastforce
next
  case (OpFree q)
  then show ?thesis using fr_vw [of s q] drop_keeps [of "vw s" p n c q] assms by auto
next
  case (OpGet q m)
  then show ?thesis using ge_vw [of s m q] assms by fastforce
next
  case (OpPut q)
  then show ?thesis using pu_vw [of s q] drop_keeps [of "vw s" p n c q] assms by auto
qed

lemma run_keeps:
  "inv s \<Longrightarrow> fresh_run step fresh s ops \<Longrightarrow> vw s p = Some (n, c) \<Longrightarrow> int (drops p ops) < c \<Longrightarrow>
     \<exists>c'. vw (foldl step s ops) p = Some (n, c') \<and> c - int (drops p ops) \<le> c'"
proof (induction ops arbitrary: s c)
  case Nil
  then show ?case by (simp add: drops_def)
next
  case (Cons x ops)
  have d: "drops p (x # ops) = (if is_drop p x then 1 else 0) + drops p ops" by (simp add: drops_def)
  obtain c1 where c1: "vw (step s x) p = Some (n, c1)" "c - (if is_drop p x then 1 else 0) \<le> c1"
    using step_keeps [of s x p n c] Cons.prems d by (auto split: if_splits)
  have "int (drops p ops) < c1" using Cons.prems(4) d c1(2) by (auto split: if_splits)
  with Cons.IH [of "step s x" c1] step_inv [of s x] Cons.prems(1,2) c1 d show ?case
    by (fastforce split: if_splits)
qed

end

section \<open>The driver meets the contract\<close>

definition slab_fresh :: "mba_host \<Rightarrow> slab \<Rightarrow> bool" where
  "slab_fresh h m \<longleftrightarrow> (\<forall>r. fst m = Some r \<longrightarrow> r \<notin> mbu_ids h) \<and> (\<forall>q. snd m = Some q \<longrightarrow> q \<notin> mb_ids h)"

lemma mb_view_apart:
  assumes ok: "host_ok h" and p: "mb_view h p = Some (n, c)" and q: "mb_view h q = Some (k, d)" and ne: "p \<noteq> q"
  shows "p + n \<le> q \<or> q + k \<le> p"
proof -
  obtain b b' where b: "b \<in> live h" "mb_phys b = p" "mb_size b = n" and b': "b' \<in> live h" "mb_phys b' = q" "mb_size b' = k"
    using p q unfolding mb_view_iff [OF ok] by auto
  have "b \<noteq> b'" using b b' ne by auto
  from live_disjoint [OF ok b(1) b'(1) this] show ?thesis
    using live_bounds(2,4) [OF ok b(1)] live_bounds(2,4) [OF ok b'(1)] b b' by (auto simp: mb_pages_def)
qed

interpretation pool: block_pool host_ok mb_view slab_fresh mb_alloc "\<lambda>h p. fst (mb_free h p)"
  "\<lambda>h p m. fst (mb_get h p m)" "\<lambda>h p. fst (mb_put h p)"
proof unfold_locales
  fix h m p n c q k d
  assume ok: "host_ok h"
  show "host_ok (fst (mb_free h p))" unfolding mb_free_def by (rule mb_do_free_ok [OF ok])
  show "host_ok (fst (mb_put h p))" unfolding mb_put_def by (rule mb_do_put_ok [OF ok])
  show "mb_view (fst (mb_free h p)) = mb_view h \<or> mb_view (fst (mb_free h p)) = view_drop p (mb_view h)"
    unfolding mb_free_def using mb_do_free_view [OF ok] by metis
  show "mb_view (fst (mb_put h p)) = mb_view h \<or> mb_view (fst (mb_put h p)) = view_drop p (mb_view h)"
    unfolding mb_put_def using mb_do_put_view [OF ok] by metis
  show "mb_view h p = Some (n, c) \<Longrightarrow> mb_view h q = Some (k, d) \<Longrightarrow> p \<noteq> q \<Longrightarrow> p + n \<le> q \<or> q + k \<le> p"
    by (rule mb_view_apart [OF ok])
  assume m: "slab_fresh h m"
  then have fr: "\<And>r. fst m = Some r \<Longrightarrow> r \<notin> mbu_ids h" "\<And>q. snd m = Some q \<Longrightarrow> q \<notin> mb_ids h"
    by (auto simp: slab_fresh_def)
  show "host_ok (fst (mb_alloc h n m))" unfolding mb_alloc_def by (rule mb_do_alloc_ok [OF ok fr(2)])
  show "host_ok (fst (mb_get h p m))" unfolding mb_get_def by (rule mb_do_get_ok [OF ok fr(1)])
  show "mb_alloc h n m = (h, 0) \<or> (\<exists>h' p. mb_alloc h n m = (h', p) \<and> p \<noteq> 0 \<and> mb_view h p = None
      \<and> mb_view h' = (mb_view h)(p \<mapsto> (PAGE_ALIGN n, 1)))"
    unfolding mb_alloc_def by (rule mb_do_alloc_view [OF ok fr(2)])
  show "mb_view (fst (mb_get h p m)) = mb_view h \<or>
      (\<exists>q n c. mb_view h q = Some (n, c) \<and> mb_view (fst (mb_get h p m)) = (mb_view h)(q \<mapsto> (n, c + 1)))"
    unfolding mb_get_def using mb_do_get_view [OF ok fr(1)] by metis
qed

end
