(* ===== verification/MbProps.thy ===== *)
theory MbProps
  imports MbPool
begin

text \<open>
  The properties of the block allocator of \<^verbatim>\<open>memblock.c\<close>, with a concrete host on which
  they are applied: one static area of 16 MB at the physical address \<^verbatim>\<open>0x1F000000\<close>.
\<close>

definition mb_host1 :: mba_host where
  "mb_host1 = \<lparr>nr_mba = 1, tot_pages = 4096, tot_static_pages = 4096, tot_free_pages = 4096,
     max_available_pages = 4096,
     mba_list = [\<lparr>mba_p = 1, mba_flags = 0x80000000, mba_tgid = 0, mba_phys = 0x1F000000,
       mba_virt = 0xE0000000, mba_pages = 4096, mba_start = 0x1F000, mba_end = 0x20000, nr_mb = 0,
       mba_free = 4096, mba_max = 4096, mb_list = []\<rparr>]\<rparr>"

definition pool_run :: "mba_host \<Rightarrow> slab pool_op list \<Rightarrow> mba_host" where
  "pool_run = foldl (pool_step (\<lambda>h n m. fst (mb_alloc h n m)) (\<lambda>h p. fst (mb_free h p))
     (\<lambda>h p m. fst (mb_get h p m)) (\<lambda>h p. fst (mb_put h p)))"

definition pool_fresh :: "mba_host \<Rightarrow> slab pool_op list \<Rightarrow> bool" where
  "pool_fresh = fresh_run (pool_step (\<lambda>h n m. fst (mb_alloc h n m)) (\<lambda>h p. fst (mb_free h p))
     (\<lambda>h p m. fst (mb_get h p m)) (\<lambda>h p. fst (mb_put h p))) slab_fresh"

lemma mb_host1_ok: "host_ok mb_host1"
  by (simp add: host_ok_def areas_ok_def mba_ok_def area_ok_def mb_host1_def is_static_def MBAFLAG_STATIC_def
      host_max_def)

lemma mb_host1_static: "a \<in> set (mba_list mb_host1) \<Longrightarrow> is_static a"
  by (simp add: mb_host1_def is_static_def MBAFLAG_STATIC_def)

lemma host1_ids: "mbu_ids mb_host1 = {}" "mb_ids mb_host1 = {}"
  by (simp_all add: mbu_ids_def mb_ids_def live_def mb_host1_def)

text \<open>The state after one allocation of 8 KB.\<close>

definition mb_host2 :: mba_host where
  "mb_host2 = fst (mb_alloc mb_host1 8000 (Some 1, Some 2))"

lemma host2: "mb_alloc mb_host1 8000 (Some 1, Some 2) = (mb_host2, 0x1F000000)" "mb_view mb_host2 0x1F000000 = Some (8192, 1)"
  "pool_fresh mb_host1 [OpAlloc 8000 (Some 1, Some 2)]"
proof -
  have "snd (mb_alloc mb_host1 8000 (Some 1, Some 2)) = 0x1F000000" by code_simp
  then show "mb_alloc mb_host1 8000 (Some 1, Some 2) = (mb_host2, 0x1F000000)" by (simp add: mb_host2_def prod_eq_iff)
  show "mb_view mb_host2 0x1F000000 = Some (8192, 1)" by code_simp
  show "pool_fresh mb_host1 [OpAlloc 8000 (Some 1, Some 2)]" by (simp add: pool_fresh_def slab_fresh_def host1_ids)
qed


lemma host2_ok: "host_ok mb_host2"
  unfolding mb_host2_def mb_alloc_def by (rule mb_do_alloc_ok [OF mb_host1_ok]) (simp add: host1_ids)

lemma host2_ids: "mbu_ids mb_host2 = {1}" "mb_ids mb_host2 = {2}"
  by (simp_all add: mbu_ids_def mb_ids_def live_concat [symmetric]) (code_simp, code_simp)

text \<open>
  C16. From any consistent state of the driver, every sequence of \<^verbatim>\<open>mb_alloc\<close>, \<^verbatim>\<open>mb_free\<close>,
  \<^verbatim>\<open>mb_get\<close> and \<^verbatim>\<open>mb_put\<close> calls, with any arguments and any failures of the slab allocator,
  leads to a consistent state: the blocks of each area are sorted and inside it, the
  cached totals and largest free zones of the areas and of the host are exact, each use
  count is the number of users in the list, and two blocks never overlap.
\<close>

theorem mb_run_invariant:
  assumes "host_ok h" "pool_fresh h ops"
  shows "host_ok (pool_run h ops) \<and>
    (\<forall>p n c q k d. mb_view (pool_run h ops) p = Some (n, c) \<and> mb_view (pool_run h ops) q = Some (k, d) \<and> p \<noteq> q
       \<longrightarrow> p + n \<le> q \<or> q + k \<le> p)"
proof -
  have ok: "host_ok (pool_run h ops)"
    unfolding pool_run_def using assms by (intro pool.run_inv) (simp_all add: pool_fresh_def)
  then show ?thesis using pool.vw_apart [OF ok] by blast
qed

theorem mb_run_invariant_witness:
  "host_ok (pool_run mb_host1 [OpAlloc 8000 (Some 1, Some 2), OpGet 0x1F000004 (Some 3, None), OpFree 0x1F000000])"
proof -
  let ?ops = "[OpAlloc 8000 (Some 1, Some 2), OpGet 0x1F000004 (Some 3, None), OpFree 0x1F000000]"
  have "pool_fresh mb_host1 ?ops"
    using host2(1) by (simp add: pool_fresh_def slab_fresh_def host1_ids host2_ids)
  from mb_run_invariant [OF mb_host1_ok this] show ?thesis by blast
qed

text \<open>
  C4. A block cannot be taken away from its users: while the calls that release a user of
  it (\<^verbatim>\<open>mb_free\<close> and \<^verbatim>\<open>mb_put\<close> with its address) are fewer than its users, it stays
  allocated, at its address and with its size, whatever else is called.
\<close>

theorem mb_block_survives:
  assumes "host_ok h" "pool_fresh h ops" "mb_view h p = Some (n, c)" "int (drops p ops) < c"
  shows "\<exists>c'. mb_view (pool_run h ops) p = Some (n, c') \<and> c - int (drops p ops) \<le> c'"
  unfolding pool_run_def using assms by (intro pool.run_keeps) (simp_all add: pool_fresh_def)

theorem mb_block_survives_witness:
  "\<exists>c'. mb_view (pool_run mb_host2 [OpAlloc 100 (Some 3, Some 4), OpFree 0x1F002000]) 0x1F000000 = Some (8192, c')"
proof -
  have "pool_fresh mb_host2 [OpAlloc 100 (Some 3, Some 4), OpFree 0x1F002000]"
    by (simp add: pool_fresh_def slab_fresh_def host2_ids)
  from mb_block_survives [OF host2_ok this host2(2)] show ?thesis by (auto simp: drops_def)
qed


text \<open>
  C8. \<^verbatim>\<open>mb_do_alloc\<close> serves a request exactly when some area has a free zone that is large
  enough (and the slab allocator has memory). The block it returns is new, page aligned
  and as large as the request rounded up to pages; all other blocks are untouched.
\<close>

theorem mb_alloc_exact:
  assumes ok: "host_ok h" and q: "q \<notin> mb_ids h"
    and pages: "pages = PAGE_ALIGN sz div 4096"
  shows "if 0 < pages \<and> (\<exists>a \<in> set (mba_list h). \<exists>g \<in> set (gaps (mba_start a) (mb_list a) (mba_end a)). pages \<le> g)
    then \<exists>h' p. mb_do_alloc h sz tgid (Some nm) (Some r) (Some q) = (h', p) \<and> p \<noteq> 0 \<and> p mod 4096 = 0 \<and>
           mb_view h p = None \<and> mb_view h' = (mb_view h)(p \<mapsto> (pages * 4096, 1))
    else mb_do_alloc h sz tgid (Some nm) (Some r) (Some q) = (h, 0)"
proof -
  have mx: "max_available_pages h = foldr max (map mba_max (mba_list h)) 0" using ok by (simp add: host_ok_def host_max_foldr)
  have am: "mba_max a = foldr max (gaps (mba_start a) (mb_list a) (mba_end a)) 0" if "a \<in> set (mba_list h)" for a
    using host_okD(1) [OF ok that] by (simp add: mba_ok_def)
  have room: "pages \<le> max_available_pages h \<longleftrightarrow>
      (\<exists>a \<in> set (mba_list h). \<exists>g \<in> set (gaps (mba_start a) (mb_list a) (mba_end a)). pages \<le> g)" if pos: "0 < pages"
  proof
    assume "pages \<le> max_available_pages h"
    then obtain a where a: "a \<in> set (mba_list h)" "pages \<le> mba_max a"
      using host_max_attained [OF pos, of "mba_list h"] by (auto simp: mx host_max_foldr)
    then show "\<exists>a \<in> set (mba_list h). \<exists>g \<in> set (gaps (mba_start a) (mb_list a) (mba_end a)). pages \<le> g"
      using am [OF a(1)] pos foldr_max_in [of "gaps (mba_start a) (mb_list a) (mba_end a)" 0] by (metis linorder_not_le)
  next
    assume "\<exists>a \<in> set (mba_list h). \<exists>g \<in> set (gaps (mba_start a) (mb_list a) (mba_end a)). pages \<le> g"
    then obtain a g where a: "a \<in> set (mba_list h)" "g \<in> set (gaps (mba_start a) (mb_list a) (mba_end a))" "pages \<le> g" by blast
    have "g \<le> mba_max a" unfolding am [OF a(1)] by (rule foldr_max_ge(2) [OF a(2)])
    moreover have "mba_max a \<le> max_available_pages h" unfolding mx by (rule foldr_max_ge(2)) (use a(1) in auto)
    ultimately show "pages \<le> max_available_pages h" using a(3) by simp
  qed
  have sz: "PAGE_ALIGN sz = pages * 4096"
    by (simp add: pages PAGE_pages_mult)
  show ?thesis
  proof (cases "0 < pages \<and> pages \<le> max_available_pages h")
    case True
    then obtain h' b where b: "mb_do_alloc h sz tgid (Some nm) (Some r) (Some q) = (h', mb_phys b)" "host_ok h'"
        "live h' = insert b (live h)" "b \<notin> live h" "mb_size b = PAGE_ALIGN sz" "mb_count b = 1"
      using mb_do_alloc_success [OF ok pages _ _ q] by blast
    note v = view_insert [OF ok b(2,4,3)]
    have "mb_phys b \<noteq> 0" "mb_phys b mod 4096 = 0" using live_bounds(1,4) [OF b(2), of b] b(3) by auto
    with True room b(1,5,6) v sz show ?thesis by auto
  next
    case False
    have "0 \<le> pages" unfolding pages by (rule PAGE_pages_ge0)
    then have "pages = 0 \<or> pages > max_available_pages h" using False by linarith
    then have "mb_do_alloc h sz tgid (Some nm) (Some r) (Some q) = (h, 0)"
      unfolding pages by (intro mb_do_alloc_fail) auto
    with False room show ?thesis by auto
  qed
qed

theorem mb_alloc_exact_witness:
  "\<exists>h' p. mb_do_alloc mb_host1 8000 5 (Some ''app'') (Some 1) (Some 2) = (h', p) \<and> p \<noteq> 0 \<and>
     mb_view h' = (mb_view mb_host1)(p \<mapsto> (8192, 1))"
proof -
  have pg: "PAGE_ALIGN 8000 div 4096 = 2" by code_simp
  have q: "2 \<notin> mb_ids mb_host1" by (simp add: host1_ids)
  have "0 < PAGE_ALIGN 8000 div 4096 \<and> (\<exists>a \<in> set (mba_list mb_host1). \<exists>g \<in> set (gaps (mba_start a) (mb_list a) (mba_end a)).
      PAGE_ALIGN 8000 div 4096 \<le> g)" unfolding pg by (simp add: mb_host1_def)
  from mb_alloc_exact [OF mb_host1_ok q refl, of 8000 5 "''app''" 1, unfolded if_P [OF this]] show ?thesis
    unfolding pg by auto
qed


lemma host_ok_eq: "host_ok h \<Longrightarrow> host_ok h' \<Longrightarrow> mba_list h' = mba_list h \<Longrightarrow> h' = h"
  by (cases h, cases h') (simp add: host_ok_def areas_ok_def)

lemma upd_first_same: "find P xs = Some x \<Longrightarrow> f x = x \<Longrightarrow> upd_first P f xs = xs"
  by (induction xs) (auto split: if_splits)

lemma freed_area_restores:
  assumes ok: "mba_ok a" and s: "mb_list a = us @ vs" and q: "q \<notin> mb_p ` set (mb_list a)" and b: "mb_p b = q"
    and x: "x = a\<lparr>mb_list := us @ b # vs, nr_mb := nr_mb a + 1, mba_free := f, mba_max := m\<rparr>"
  shows "freed_area x q = a"
proof -
  have "\<not> is_mb q c" if "c \<in> set us" for c using that q by (auto simp: s is_mb_def)
  then have "del_first (is_mb q) (us @ b # vs) = us @ vs" using b by (induction us) (auto simp: is_mb_def)
  then have d: "del_first (is_mb q) (us @ b # vs) = mb_list a" by (simp add: s)
  note z = mba_ok_bounds [OF ok]
  show ?thesis
    using ok zone_sum_gaps [OF z, of 0] zone_max_gaps [OF z, of 0]
    by (simp add: x freed_area_def without_block_def d mba_ok_def)
qed

text \<open>
  C24. Freeing a block that was just allocated restores the driver's state exactly, in
  every field, for the static areas the driver is configured with.
\<close>

theorem mb_alloc_free_roundtrip:
  assumes ok: "host_ok h" and static: "\<And>a. a \<in> set (mba_list h) \<Longrightarrow> is_static a" and q: "q \<notin> mb_ids h"
    and alloc: "mb_do_alloc h sz tgid (Some nm) (Some r) (Some q) = (h', p)" "p \<noteq> 0"
  shows "mb_do_free h' p tgid (Some nm') = (h, Inr 0)"
proof -
  have "\<not> (PAGE_ALIGN sz div 4096 = 0 \<or> PAGE_ALIGN sz div 4096 > max_available_pages h)"
    using mb_do_alloc_fail [of sz h "Some r" "Some nm" tgid "Some q"] alloc by auto
  then have pg: "0 < PAGE_ALIGN sz div 4096" "PAGE_ALIGN sz div 4096 \<le> max_available_pages h"
    using PAGE_pages_ge0 [of sz] by linarith+
  define u where "u = \<lparr>mbu_p = r, mbu_tgid = tgid, mbu_addr = 0, mbu_size = PAGE_ALIGN sz, the_user = user_name nm\<rparr>"
  obtain h'' b a us vs w where e: "mb_do_alloc h sz tgid (Some nm) (Some r) (Some q) = (h'', mb_phys b)"
    and h'': "host_ok h''" and b: "mb_p b = q" "mb_count b = 1" "mbu_list b = [u]" "creator b = Some r" and
    a: "a \<in> set (mba_list h)" "mb_list a = us @ vs" and
    w: "w a = a\<lparr>mb_list := us @ b # vs, nr_mb := nr_mb a + 1, mba_free := mba_free (w a), mba_max := mba_max (w a)\<rparr>" and
    l'': "mba_list h'' = upd_first (is_mba (mba_p a)) w (mba_list h)"
    using mb_do_alloc_shape [OF ok refl pg q, of tgid nm r] unfolding u_def by blast
  have hh: "h'' = h'" and pb: "p = mb_phys b" using e alloc(1) by simp_all
  note h' = h'' [unfolded hh] and l = l'' [unfolded hh]
  have wp: "mba_p (w a) = mba_p a" "mb_list (w a) = us @ b # vs" "is_static (w a)"
    by (subst w, simp add: is_static_def static [OF a(1), unfolded is_static_def])+
  note fa = host_okD(2) [OF ok a(1)]
  have wm: "w a \<in> set (mba_list h')" unfolding l by (rule set_upd_first(2) [OF fa])
  have bm: "b \<in> set (mb_list (w a))" by (simp add: wp)
  have "mb_find_mbu h' p tgid (MBUFIND_PHYS OR MBUFIND_CREATOR) = Some (w a, b, u)"
    unfolding pb by (subst mb_find_mbu_phys [OF h' wm bm])
      (simp_all add: mbu_flags b mbu_match_def u_def is_mbu_def)
  moreover define g where "g = (\<lambda>b. (del_user r b)\<lparr>creator := None\<rparr>)"
  moreover define h1 where "h1 = upd_mb (mba_p a) q g h'"
  ultimately have eq: "mb_do_free h' p tgid (Some nm') = mb_free_mb h1 (mba_p a) q"
    using alloc(2) by (simp add: mb_do_free_def Let_def wp b u_def)
  have um: "u \<in> set (mbu_list b)" "mbu_p u = r" by (simp_all add: b u_def)
  have gok: "mb_ok (w a) (g b)" "same_block b (g b)"
    using mb_ok_del_creator [OF host_ok_mb(1) [OF h' wm bm] um(1)] by (simp_all add: g_def um(2))
  note h1 = host_ok_mb_upd [where f = g, OF h' wm bm gok, unfolded wp b(1), folded h1_def]
  define a1 where "a1 = (w a)\<lparr>mb_list := upd_first (is_mb q) g (mb_list (w a))\<rparr>"
  note lk = upd_mb_lookup [where f = g, OF h' wm bm gok(2), unfolded wp(1) b(1), folded h1_def a1_def]
  have "mb_count (g b) = 0" by (simp add: g_def b(2))
  from mb_free_mb_success [OF h1 lk this] obtain h2 where
    h2: "mb_free_mb h1 (mba_p a) q = (h2, Inr 0)" "host_ok h2"
      "mba_list h2 = upd_first (is_mba (mba_p a)) (\<lambda>a. freed_area a q) (mba_list h1)"
    using wp(3) by (auto simp: a1_def is_static_def)
  let ?k = "\<lambda>x. freed_area ((w x)\<lparr>mb_list := upd_first (is_mb q) g (mb_list (w x))\<rparr>) q"
  have isw: "is_mba (mba_p a) (w a)" "is_mba (mba_p a) ((w a)\<lparr>mb_list := upd_first (is_mb q) g (mb_list (w a))\<rparr>)"
    by (simp_all add: is_mba_def wp)
  have "mba_list h2 = upd_first (is_mba (mba_p a)) ?k (mba_list h)"
    unfolding h2(3) h1_def upd_mb_def upd_mba_simps l
    by (subst upd_first_twice [where f = w, OF fa isw(1)])
      (rule upd_first_twice [where f = "\<lambda>x. (w x)\<lparr>mb_list := upd_first (is_mb q) g (mb_list (w x))\<rparr>", OF fa isw(2)])
  moreover have "?k a = a"
  proof -
    have qa: "q \<notin> mb_p ` set (mb_list a)" using q a(1) by (auto simp: mb_ids_def live_def)
    then have "\<not> is_mb q c" if "c \<in> set us" for c using that by (auto simp: a(2) is_mb_def)
    then have "upd_first (is_mb q) g (us @ b # vs) = us @ g b # vs" using b(1) by (induction us) (auto simp: is_mb_def)
    then have "(w a)\<lparr>mb_list := upd_first (is_mb q) g (mb_list (w a))\<rparr> =
        a\<lparr>mb_list := us @ g b # vs, nr_mb := nr_mb a + 1, mba_free := mba_free (w a), mba_max := mba_max (w a)\<rparr>"
      by (subst w) (simp add: wp(2))
    from freed_area_restores [OF host_okD(1) [OF ok a(1)] a(2) qa _ this] show ?thesis
      using gok(2) b(1) by (simp add: same_block_def)
  qed
  ultimately have "mba_list h2 = mba_list h" using upd_first_same [where f = ?k, OF fa] by simp
  from host_ok_eq [OF ok h2(2) this] h2(1) eq show ?thesis by simp
qed

theorem mb_alloc_free_roundtrip_witness:
  "mb_do_free mb_host2 0x1F000000 MB_DEF_TGID (Some ''app'') = (mb_host1, Inr 0)"
  using mb_alloc_free_roundtrip [OF mb_host1_ok mb_host1_static, of 2 8000 MB_DEF_TGID THE_MB_USER 1 mb_host2 "0x1F000000" "''app''"]
    host2(1) by (simp add: mb_alloc_def host1_ids)

end
