(* ===== verification/MbUserProps.thy ===== *)
theory MbUserProps
  imports MbProps
begin

text \<open>
  What a client that takes and drops references to a block can rely on.
\<close>

section \<open>Users of a block\<close>

lemma first_some_hit: "x \<in> set xs \<Longrightarrow> f x \<noteq> None \<Longrightarrow> \<exists>y \<in> set xs. f y \<noteq> None \<and> first_some f xs = f y"
  by (induction xs) (auto split: option.splits)

lemma view_block:
  assumes "host_ok h" "mb_view h p = Some (n, c)"
  shows "\<exists>a b. a \<in> set (mba_list h) \<and> b \<in> set (mb_list a) \<and> mb_phys b = p \<and> mb_size b = n \<and> mb_count b = c \<and> b \<in> live h"
  using assms(2) unfolding mb_view_iff [OF assms(1)] live_def by auto

lemma upd_mb_mem:
  assumes "host_ok h" "a \<in> set (mba_list h)" "b \<in> set (mb_list a)" "same_block b (f b)"
  shows "\<exists>a'. a' \<in> set (mba_list (upd_mb (mba_p a) (mb_p b) f h)) \<and> f b \<in> set (mb_list a') \<and> mba_p a' = mba_p a"
proof -
  note l = upd_mb_lookup [where f = f, OF assms]
  have "a\<lparr>mb_list := upd_first (is_mb (mb_p b)) f (mb_list a)\<rparr> \<in> set (mba_list (upd_mb (mba_p a) (mb_p b) f h))"
    using l(1) by (metis find_Some_iff nth_mem)
  moreover have "f b \<in> set (mb_list (a\<lparr>mb_list := upd_first (is_mb (mb_p b)) f (mb_list a)\<rparr>))"
    using l(2) by (metis find_Some_iff nth_mem)
  ultimately show ?thesis by (intro exI [of _ "a\<lparr>mb_list := upd_first (is_mb (mb_p b)) f (mb_list a)\<rparr>"]) simp
qed

text \<open>
  C34. A kernel client that takes a reference to a block and puts it back leaves the pool
  as it was: both calls succeed, the use count goes up by one and down again.
\<close>

theorem mb_get_put_roundtrip:
  assumes ok: "host_ok h" and v: "mb_view h p = Some (n, c)" "0 < c" and r: "r \<notin> mbu_ids h"
  shows "\<exists>h1 h2. mb_get h p (Some r, m) = (h1, Inr 0) \<and> mb_view h1 = (mb_view h)(p \<mapsto> (n, c + 1)) \<and>
    mb_put h1 p = (h2, Inr 0) \<and> mb_view h2 = mb_view h \<and> host_ok h2"
proof -
  obtain a b where ab: "a \<in> set (mba_list h)" "b \<in> set (mb_list a)" and b: "mb_phys b = p" "mb_size b = n" "mb_count b = c" "b \<in> live h"
    using view_block [OF ok v(1)] by blast
  have sz: "0 < mb_size b" using live_bounds(2,3) [OF ok b(4)] by simp
  obtain u where g: "mb_get h p (Some r, m) = (upd_mb (mba_p a) (mb_p b) (add_user u) h, Inr 0)"
    and h1: "host_ok (upd_mb (mba_p a) (mb_p b) (add_user u) h)"
    and v1: "mb_view (upd_mb (mba_p a) (mb_p b) (add_user u) h) = (mb_view h)(p \<mapsto> (n, c + 1))"
    and u: "mbu_addr u = p" "mbu_size u = 0"
    using mb_do_get_kernel [OF ok ab r, of p THE_MB_USER] b sz unfolding mb_get_def by auto
  define h1' where "h1' = upd_mb (mba_p a) (mb_p b) (add_user u) h"
  define b1 where "b1 = add_user u b"
  have b1: "mb_phys b1 = p" "mb_count b1 = c + 1" "mbu_list b1 = mbu_list b @ [u]" using b by (simp_all add: b1_def add_user_def)
  obtain a1 where a1: "a1 \<in> set (mba_list h1')" "b1 \<in> set (mb_list a1)"
    using upd_mb_mem [where f = "add_user u", OF ok ab] unfolding h1'_def b1_def by auto
  let ?st = "MBUFIND_PHYS OR MBUFIND_GETPUT"
  have p0: "p \<noteq> 0" using live_bounds(1) [OF ok b(4)] b(1) by simp
  let ?m = "mbu_match p MB_DEF_TGID ?st b1"
  have self: "?m x \<noteq> None \<Longrightarrow> ?m x = Some (Some x)" for x
    by (simp add: mbu_match_def mbu_flags split: if_splits)
  have nn: "?m u \<noteq> None" using u p0 by (simp add: mbu_match_def mbu_flags)
  have "u \<in> set (mbu_list b1)" by (simp add: b1(3))
  from first_some_hit [where f = ?m, OF this nn] obtain w where "?m w \<noteq> None" "first_some ?m (mbu_list b1) = ?m w"
    by blast
  then have w: "first_some ?m (mbu_list b1) = Some (Some w)" using self by simp
  have f: "mb_find_mbu h1' p MB_DEF_TGID ?st = Some (a1, b1, w)"
    using mb_find_mbu_phys [OF h1 [folded h1'_def] a1, of ?st MB_DEF_TGID] w b1(1) by (simp add: mbu_flags)
  then have "mb_put h1' p = (drop_user h1' a1 b1 w, Inr 0)"
    using p0 b1(2) v(2) by (simp add: mb_put_def mb_do_put_def)
  moreover have "mb_view (fst (mb_put h1' p)) = view_drop p (mb_view h1')"
  proof -
    note k = find_user_of_kind [OF f, simplified]
    have s: "mbu_size w = 0" using k(9) by (simp add: mbu_flags)
    note bok = host_ok_mb [OF h1 [folded h1'_def] a1]
    have "creator b1 \<noteq> Some (mbu_p w)" using not_creator [OF bok(1) _ k(3)] bok(4) s by (simp add: mb_pages_def)
    from view_after_drop [where f = "del_user (mbu_p w)", OF h1 [folded h1'_def] a1 mb_ok_del [OF bok(1) k(3) this]]
    show ?thesis using calculation b1(1) by (simp add: drop_user_def Let_def)
  qed
  moreover have "host_ok (fst (mb_put h1' p))" unfolding mb_put_def by (rule mb_do_put_ok [OF h1 [folded h1'_def]])
  moreover have "view_drop p (mb_view h1') = mb_view h"
    using v v1 unfolding h1'_def by (auto simp: view_drop_def fun_upd_idem)
  ultimately show ?thesis using g v1 unfolding h1'_def by auto
qed

theorem mb_get_put_roundtrip_witness:
  "\<exists>h1 h2. mb_get mb_host2 0x1F000000 (Some 7, None) = (h1, Inr 0) \<and> mb_put h1 0x1F000000 = (h2, Inr 0) \<and>
     mb_view h2 = mb_view mb_host2"
proof -
  have "7 \<notin> mbu_ids mb_host2" by (simp add: host2_ids)
  from mb_get_put_roundtrip [OF host2_ok host2(2) _ this, of None] show ?thesis by auto
qed

text \<open>
  \<^verbatim>\<open>mb_get\<close> accepts every address inside a block, \<^verbatim>\<open>mb_put\<close> only its first one: a
  reference taken through an interior address cannot be given back with that address.
\<close>

theorem mb_get_interior_no_put:
  assumes ok: "host_ok h" and v: "mb_view h p = Some (n, c)" and r: "r \<notin> mbu_ids h" and x: "p < x" "x < p + n"
  shows "\<exists>h1. mb_get h x (Some r, m) = (h1, Inr 0) \<and> mb_view h1 = (mb_view h)(p \<mapsto> (n, c + 1)) \<and>
    mb_put h1 x = (h1, Inl EINVAL)"
proof -
  obtain a b where ab: "a \<in> set (mba_list h)" "b \<in> set (mb_list a)" and b: "mb_phys b = p" "mb_size b = n" "mb_count b = c" "b \<in> live h"
    using view_block [OF ok v] by blast
  obtain u where g: "mb_get h x (Some r, m) = (upd_mb (mba_p a) (mb_p b) (add_user u) h, Inr 0)"
    and h1: "host_ok (upd_mb (mba_p a) (mb_p b) (add_user u) h)"
    and v1: "mb_view (upd_mb (mba_p a) (mb_p b) (add_user u) h) = (mb_view h)(p \<mapsto> (n, c + 1))"
    using mb_do_get_kernel [OF ok ab r, of x THE_MB_USER] b x unfolding mb_get_def by auto
  let ?h1 = "upd_mb (mba_p a) (mb_p b) (add_user u) h"
  have "mb_find_mbu ?h1 x MB_DEF_TGID (MBUFIND_PHYS OR MBUFIND_GETPUT) = None"
  proof (rule ccontr)
    assume "mb_find_mbu ?h1 x MB_DEF_TGID (MBUFIND_PHYS OR MBUFIND_GETPUT) \<noteq> None"
    then obtain a' b' w where f: "mb_find_mbu ?h1 x MB_DEF_TGID (MBUFIND_PHYS OR MBUFIND_GETPUT) = Some (a', b', w)" by auto
    note k = find_user_of_kind [OF f, simplified]
    have "mb_phys b' = x" "b' \<in> live ?h1" using k(1,2,7) by (auto simp: mbu_flags live_def)
    then have "\<exists>k d. mb_view ?h1 x = Some (k, d) \<and> 0 < k"
      using mb_view_iff [OF h1, of x] live_bounds(2,3) [OF h1, of b'] by fastforce
    then obtain k d where "mb_view ?h1 x = Some (k, d)" "0 < k" by blast
    moreover have "mb_view ?h1 p = Some (n, c + 1)" using v1 by simp
    ultimately have "x + k \<le> p \<or> p + n \<le> x" using mb_view_apart [OF h1, of x k d p n "c + 1"] x by blast
    with x \<open>0 < k\<close> show False by auto
  qed
  then have "mb_put ?h1 x = (?h1, Inl EINVAL)" by (simp add: mb_put_def mb_do_put_def)
  with g v1 show ?thesis by blast
qed

theorem mb_get_interior_no_put_witness:
  "\<exists>h1. mb_get mb_host2 0x1F001000 (Some 7, None) = (h1, Inr 0) \<and> mb_put h1 0x1F001000 = (h1, Inl EINVAL)"
proof -
  have "7 \<notin> mbu_ids mb_host2" by (simp add: host2_ids)
  from mb_get_interior_no_put [OF host2_ok host2(2) this, of "0x1F001000" None] show ?thesis by auto
qed

end
