(* ===== verification/MbDev.thy ===== *)
theory MbDev
  imports MemBlock
begin

text \<open>
  The character device of the memory block driver: opening and closing it
  (\<^verbatim>\<open>mb_open\<close>, \<^verbatim>\<open>mb_release\<close>), its \<^verbatim>\<open>ioctl\<close> commands, \<^verbatim>\<open>mmap\<close> and the
  reservation of the memory areas in \<^verbatim>\<open>mb_probe\<close>.

  The state is the host with its areas and the list of tasks that have the device open.
  A file is the value of its \<^verbatim>\<open>private_data\<close>, an optional pointer to a task record; the
  calling task, the user memory a command reads and the answers of the slab allocator
  are arguments. The result \<open>None\<close> is an access through a dangling pointer or a loop that
  does not end.
\<close>

section \<open>Tasks\<close>

record mb_task_info =
  mbti_p :: nat
  mbti_tgid :: int
  mbti_count :: int
  task_name :: string
  mbti_task :: nat

record mb_dev =
  mbah :: mba_host
  mbti_list :: "mb_task_info list"

text \<open>What the driver reads of \<^verbatim>\<open>current\<close>.\<close>

record task_struct =
  task_p :: nat
  tgid :: int
  comm :: string

definition is_mbti :: "nat \<Rightarrow> mb_task_info \<Rightarrow> bool" where "is_mbti p t \<longleftrightarrow> mbti_p t = p"

definition of_task :: "int \<Rightarrow> mb_task_info \<Rightarrow> bool" where
  "of_task tg t \<longleftrightarrow> mbti_task t \<noteq> 0 \<and> mbti_tgid t = tg"

definition mb_open ::
    "mb_dev \<Rightarrow> task_struct \<Rightarrow> nat option \<Rightarrow> nat option \<Rightarrow> mb_dev \<times> nat option \<times> (errno + int)" where
  "mb_open d cur priv mem =
     (if priv \<noteq> None then (d, priv, Inl EFAULT)
      else let inc = (\<lambda>t. t\<lparr>mbti_count := mbti_count t + 1\<rparr>) in
        case find (of_task (tgid cur)) (mbti_list d) of
          Some t \<Rightarrow> (d\<lparr>mbti_list := upd_first (of_task (tgid cur)) inc (mbti_list d)\<rparr>, Some (mbti_p t), Inr 0)
        | None \<Rightarrow>
          (case mem of None \<Rightarrow> (d, None, Inl EFAULT)
           | Some p \<Rightarrow>
             let t = \<lparr>mbti_p = p, mbti_tgid = tgid cur, mbti_count = 0, task_name = user_name (comm cur),
                      mbti_task = task_p cur\<rparr>
             in (d\<lparr>mbti_list := mbti_list d @ [inc t]\<rparr>, Some p, Inr 0)))"

section \<open>Closing the device\<close>

text \<open>
  The innermost loop of \<^verbatim>\<open>mb_release\<close> with the jump to \<^verbatim>\<open>RESCAN_MBU\<close>: it removes the users
  of the task from a block one by one; the flag says that the last user of the block went.
\<close>

definition stop_user :: "mb_user \<Rightarrow> mb_struct \<Rightarrow> mb_struct" where
  "stop_user u b =
     (let b1 = (if creator b = Some (mbu_p u) then b\<lparr>creator := None\<rparr> else b)
      in del_user (mbu_p u) b1)"

lemma del_first_shorter: "find P xs = Some x \<Longrightarrow> length (del_first P xs) < length xs"
  by (induction xs) (auto split: if_splits)

lemma stop_user_shorter:
  assumes "find P (mbu_list b) = Some u"
  shows "length (mbu_list (stop_user u b)) < length (mbu_list b)"
proof -
  have "u \<in> set (mbu_list b)" using assms by (metis find_Some_iff nth_mem)
  then have "find (is_mbu (mbu_p u)) (mbu_list b) \<noteq> None" by (auto simp: find_None_iff is_mbu_def)
  then show ?thesis using del_first_shorter by (auto simp: stop_user_def del_user_def Let_def)
qed

function rescan_mbu :: "int \<Rightarrow> mb_struct \<Rightarrow> mb_struct \<times> bool" where
  "rescan_mbu tg b =
     (case find (\<lambda>u. mbu_tgid u = tg) (mbu_list b) of
        None \<Rightarrow> (b, False)
      | Some u \<Rightarrow>
          let b1 = stop_user u b
          in if mb_count b1 \<noteq> 0 then rescan_mbu tg b1 else (b1, True))"
  by pat_completeness auto
termination
  by (relation "measure (\<lambda>(tg, b). length (mbu_list b))") (auto dest: stop_user_shorter)

declare rescan_mbu.simps [simp del]

text \<open>One pass over the areas and their blocks; the flag says that a block was freed and
  the pass left through the jump to \<^verbatim>\<open>RESCAN_MBA\<close>.\<close>

fun scan_blocks :: "int \<Rightarrow> mba_host \<Rightarrow> (nat \<times> mb_struct) list \<Rightarrow> mba_host \<times> bool" where
  "scan_blocks tg h [] = (h, False)"
| "scan_blocks tg h ((p, b) # pbs) =
     (let (b1, unused) = rescan_mbu tg b; h1 = upd_mb p (mb_p b) (\<lambda>_. b1) h
      in if unused then (fst (mb_free_mb h1 p (mb_p b)), True) else scan_blocks tg h1 pbs)"

definition all_blocks :: "mba_host \<Rightarrow> (nat \<times> mb_struct) list" where
  "all_blocks h = concat (map (\<lambda>a. map (Pair (mba_p a)) (mb_list a)) (mba_list h))"

partial_function (option) rescan_mba :: "int \<Rightarrow> mba_host \<Rightarrow> mba_host option" where
  "rescan_mba tg h =
     (let (h1, again) = scan_blocks tg h (all_blocks h)
      in if again then rescan_mba tg h1 else Some h1)"

definition mb_release :: "mb_dev \<Rightarrow> nat option \<Rightarrow> (mb_dev \<times> nat option \<times> (errno + int)) option" where
  "mb_release d priv =
     (case priv of None \<Rightarrow> Some (d, None, Inl EFAULT)
      | Some p \<Rightarrow>
        (case find (is_mbti p) (mbti_list d) of None \<Rightarrow> None
         | Some cmbti \<Rightarrow>
           let P = of_task (mbti_tgid cmbti) in
           case find P (mbti_list d) of None \<Rightarrow> Some (d, priv, Inr 0)
           | Some mbti \<Rightarrow>
             let d1 = d\<lparr>mbti_list := upd_first P (\<lambda>t. t\<lparr>mbti_count := mbti_count t - 1\<rparr>) (mbti_list d)\<rparr>
             in if mbti_count mbti - 1 \<noteq> 0 then Some (d1, priv, Inr 0)
                else case rescan_mba (mbti_tgid mbti) (mbah d1) of None \<Rightarrow> None
                | Some h \<Rightarrow> Some (d1\<lparr>mbah := mb_update_mbah h, mbti_list := del_first P (mbti_list d1)\<rparr>, None, Inr 0)))"

section \<open>The ioctl commands\<close>

definition IOC :: "int \<Rightarrow> int \<Rightarrow> int \<Rightarrow> int \<Rightarrow> int" where
  "IOC dir type nr sz = push_bit 30 dir OR push_bit 8 type OR nr OR push_bit 16 sz"

definition IO :: "int \<Rightarrow> int \<Rightarrow> int" where "IO type nr = IOC 0 type nr 0"
definition IOW :: "int \<Rightarrow> int \<Rightarrow> int" where "IOW type nr = IOC 1 type nr 4"
definition IOR :: "int \<Rightarrow> int \<Rightarrow> int" where "IOR type nr = IOC 2 type nr 4"
definition IOWR :: "int \<Rightarrow> int \<Rightarrow> int" where "IOWR type nr = IOC 3 type nr 4"

definition IOC_TYPE :: "int \<Rightarrow> int" where "IOC_TYPE cmd = drop_bit 8 cmd AND 0xFF"
definition IOC_DIR :: "int \<Rightarrow> int" where "IOC_DIR cmd = drop_bit 30 cmd AND 3"

definition MB_IOC_MAGIC :: int where "MB_IOC_MAGIC = 0x4D"
definition MBIO_MALLOC :: int where "MBIO_MALLOC = IOWR MB_IOC_MAGIC 0"
definition MBIO_FREE :: int where "MBIO_FREE = IOWR MB_IOC_MAGIC 1"
definition MBIO_UNMAP :: int where "MBIO_UNMAP = IOWR MB_IOC_MAGIC 2"
definition MBIO_MBSIZE :: int where "MBIO_MBSIZE = IOWR MB_IOC_MAGIC 3"
definition MBIO_MAX_AVAILABLE_SIZE :: int where "MBIO_MAX_AVAILABLE_SIZE = IOR MB_IOC_MAGIC 4"
definition MBIO_GET :: int where "MBIO_GET = IOW MB_IOC_MAGIC 5"
definition MBIO_PUT :: int where "MBIO_PUT = IOW MB_IOC_MAGIC 6"
definition MBIO_USER_TO_VIRT :: int where "MBIO_USER_TO_VIRT = IOWR MB_IOC_MAGIC 7"
definition MBIO_USER_TO_PHYS :: int where "MBIO_USER_TO_PHYS = IOWR MB_IOC_MAGIC 8"
definition MBIO_PREFETCH :: int where "MBIO_PREFETCH = IOW MB_IOC_MAGIC 9"
definition MBIO_STATIC_SIZE :: int where "MBIO_STATIC_SIZE = IOR MB_IOC_MAGIC 10"
definition MBIO_MB_USER_COUNT :: int where "MBIO_MB_USER_COUNT = IOWR MB_IOC_MAGIC 11"
definition MBIO_FORCE_RESET :: int where "MBIO_FORCE_RESET = IO MB_IOC_MAGIC 12"
definition MBIO_GET_BY_PHYS :: int where "MBIO_GET_BY_PHYS = IOW MB_IOC_MAGIC 13"
definition MBIO_PUT_BY_PHYS :: int where "MBIO_PUT_BY_PHYS = IOW MB_IOC_MAGIC 14"
definition MBIO_FSCREENINFO :: int where "MBIO_FSCREENINFO = 0x4602"

text \<open>The environment of one command: whether \<^verbatim>\<open>access_ok\<close> accepts the argument, the word
  \<^verbatim>\<open>get_user\<close> reads there, the answers of the slab allocator, and whether
  \<^verbatim>\<open>copy_to_user\<close> faults.\<close>

record io_call =
  access_ok :: bool
  user_value :: int
  mbu_mem :: "nat option"
  mb_mem :: "nat option"
  copy_faults :: bool

text \<open>What a command writes to user memory: a word, or the two fields of
  \<^verbatim>\<open>struct fb_fix_screeninfo\<close> that are set.\<close>

datatype io_out = NoOut | PutUser int | FixInfo int int

text \<open>\<^verbatim>\<open>MBIO_FREE\<close>: a mapping at the address is dropped first, without a look at the
  use count; then the creator's reference goes.\<close>

definition io_free :: "mba_host \<Rightarrow> int \<Rightarrow> int \<Rightarrow> string \<Rightarrow> mba_host \<times> (errno + int) \<times> io_out" where
  "io_free h tg val name =
     (let (h1, addr, size) =
            (case mb_find_mbu h val tg (MBUFIND_USER OR MBUFIND_MMAP) of
               None \<Rightarrow> (h, val, val)
             | Some (a, b, u) \<Rightarrow>
                 (upd_mb (mba_p a) (mb_p b) (del_user (mbu_p u)) h, mb_phys b, mbu_size u));
          (h2, ret) = mb_do_free h1 addr tg (Some name)
      in (h2, ret, PutUser size))"

definition io_unmap :: "mba_host \<Rightarrow> int \<Rightarrow> int \<Rightarrow> mba_host \<times> (errno + int) \<times> io_out" where
  "io_unmap h tg val =
     (case mb_find_mbu h val tg (MBUFIND_USER OR MBUFIND_MMAP) of
        None \<Rightarrow> (h, Inl EFAULT, NoOut)
      | Some (a, b, u) \<Rightarrow>
          (upd_mb (mba_p a) (mb_p b) (del_user (mbu_p u)) h, Inr 0, PutUser (mbu_size u)))"

definition io_get_by_phys ::
    "mba_host \<Rightarrow> int \<Rightarrow> int \<Rightarrow> string \<Rightarrow> nat option \<Rightarrow> mba_host \<times> (errno + int)" where
  "io_get_by_phys h tg val name mem =
     (if val = 0 \<or> tg = MB_DEF_TGID then (h, Inl EINVAL)
      else case mem of None \<Rightarrow> (h, Inl ENOMEM)
      | Some r \<Rightarrow>
        (case mb_find_mb h val MBFIND_PHYS of None \<Rightarrow> (h, Inl EFAULT)
         | Some (a, b) \<Rightarrow>
           let u = \<lparr>mbu_p = r, mbu_tgid = tg, mbu_addr = val, mbu_size = 0, the_user = user_name name\<rparr>
           in (upd_mb (mba_p a) (mb_p b) (add_user u) h, Inr 0)))"

definition io_put_by_phys :: "mba_host \<Rightarrow> int \<Rightarrow> int \<Rightarrow> mba_host \<times> (errno + int)" where
  "io_put_by_phys h tg val =
     (if val = 0 \<or> tg = MB_DEF_TGID then (h, Inl EINVAL)
      else case mb_find_mbu h val tg (MBUFIND_PHYS OR MBUFIND_GETPUT) of
        None \<Rightarrow> (h, Inl EINVAL)
      | Some (a, b, u) \<Rightarrow> if mb_count b = 0 then (h, Inl EPERM) else (drop_user h a b u, Inr 0))"

text \<open>
  \<^verbatim>\<open>MBIO_FORCE_RESET\<close>. The loop over the users of a block reads the link of an entry it has
  just deleted and freed, so a block with a user ends in an access to freed memory, the
  result \<open>Some None\<close>. A block without users is freed and the scan starts again; \<open>None\<close> would
  be a scan that never ends.
\<close>

partial_function (option) force_reset :: "mba_host \<Rightarrow> mba_host option option" where
  "force_reset h =
     (case all_blocks h of [] \<Rightarrow> Some (Some (mb_update_mbah h))
      | (p, b) # _ \<Rightarrow>
          if mbu_list b \<noteq> [] then Some None
          else force_reset (fst (mb_free_mb
                 (upd_mb p (mb_p b) (\<lambda>b. b\<lparr>creator := None, mb_count := 0\<rparr>) h) p (mb_p b))))"

text \<open>The \<^verbatim>\<open>switch\<close> over the commands, for the task record \<open>t\<close> of the file.\<close>

definition io_switch ::
    "mba_host \<Rightarrow> mb_task_info \<Rightarrow> int \<Rightarrow> io_call \<Rightarrow> (mba_host \<times> (errno + int) \<times> io_out) option" where
  "io_switch h t cmd c =
     (let tg = mbti_tgid t; val = user_value c; name = task_name t in
      if cmd = MBIO_MALLOC then
        (let (h1, phys) = mb_do_alloc h val tg (Some name) (mbu_mem c) (mb_mem c)
         in Some (if phys = 0 then (h1, Inl EFAULT, NoOut) else (h1, Inr 0, PutUser phys)))
      else if cmd = MBIO_FREE then Some (io_free h tg val name)
      else if cmd = MBIO_UNMAP then Some (io_unmap h tg val)
      else if cmd = MBIO_MBSIZE then
        Some (case mb_find_mb h val MBFIND_PHYS of None \<Rightarrow> (h, Inl EFAULT, NoOut)
              | Some (a, b) \<Rightarrow> (h, Inr 0, PutUser (mb_size b)))
      else if cmd = MBIO_MAX_AVAILABLE_SIZE then
        Some (h, Inr 0, PutUser (u32 (max_available_pages h * 4096)))
      else if cmd = MBIO_GET then
        (let (h1, ret) = mb_do_get h val tg (Some name) (mbu_mem c) in Some (h1, ret, NoOut))
      else if cmd = MBIO_PUT then
        (let (h1, ret) = mb_do_put h val tg (Some name) in Some (h1, ret, NoOut))
      else if cmd = MBIO_USER_TO_VIRT then Some (h, Inr 0, PutUser (mb_do_user_to_virt h val tg))
      else if cmd = MBIO_USER_TO_PHYS then Some (h, Inr 0, PutUser (mb_do_user_to_phys h val tg))
      else if cmd = MBIO_FSCREENINFO then
        Some (case mba_list h of [] \<Rightarrow> (h, Inl EFAULT, NoOut)
              | a # _ \<Rightarrow>
                  if copy_faults c then (h, Inl EFAULT, NoOut)
                  else (h, Inr 0, FixInfo (mba_phys a) (u32 (tot_static_pages h * 4096))))
      else if cmd = MBIO_PREFETCH then Some (h, Inl ENOTTY, NoOut)
      else if cmd = MBIO_STATIC_SIZE then Some (h, Inr 0, PutUser (u32 (tot_static_pages h * 4096)))
      else if cmd = MBIO_MB_USER_COUNT then
        Some (h, Inr 0, PutUser (case mb_find_mb h val MBFIND_PHYS of None \<Rightarrow> 0 | Some (a, b) \<Rightarrow> mb_count b))
      else if cmd = MBIO_FORCE_RESET then
        (case force_reset h of Some (Some h1) \<Rightarrow> Some (h1, Inr 0, NoOut) | _ \<Rightarrow> None)
      else if cmd = MBIO_GET_BY_PHYS then
        (let (h1, ret) = io_get_by_phys h tg val name (mbu_mem c) in Some (h1, ret, NoOut))
      else if cmd = MBIO_PUT_BY_PHYS then
        (let (h1, ret) = io_put_by_phys h tg val in Some (h1, ret, NoOut))
      else Some (h, Inl ENOTTY, NoOut))"

definition mb_ioctl ::
    "mb_dev \<Rightarrow> nat option \<Rightarrow> int \<Rightarrow> io_call \<Rightarrow> (mb_dev \<times> (errno + int) \<times> io_out) option" where
  "mb_ioctl d priv cmd c =
     (if IOC_TYPE cmd \<noteq> MB_IOC_MAGIC \<and> cmd \<noteq> MBIO_FSCREENINFO then Some (d, Inl ENOTTY, NoOut)
      else if IOC_DIR cmd \<noteq> 0 \<and> \<not> access_ok c then Some (d, Inl EFAULT, NoOut)
      else case priv of None \<Rightarrow> Some (d, Inl EFAULT, NoOut)
      | Some p \<Rightarrow>
        (case find (is_mbti p) (mbti_list d) of None \<Rightarrow> None
         | Some t \<Rightarrow>
             map_option (\<lambda>(h, ret, out). (d\<lparr>mbah := h\<rparr>, ret, out)) (io_switch (mbah d) t cmd c)))"

section \<open>Mapping memory into a task\<close>

record vm_area =
  vm_start :: int
  vm_end :: int
  vm_pgoff :: int

text \<open>The result carries the mapping made by \<^verbatim>\<open>io_remap_pfn_range\<close>: user address, first
  page frame and length. \<open>remap_fails\<close> is the answer of that call.\<close>

definition mb_mmap ::
    "mb_dev \<Rightarrow> nat option \<Rightarrow> vm_area \<Rightarrow> nat option \<Rightarrow> bool \<Rightarrow>
       (mb_dev \<times> (errno + int) \<times> (int \<times> int \<times> int) option) option" where
  "mb_mmap d priv vma mem remap_fails =
     (case priv of None \<Rightarrow> Some (d, Inl EFAULT, None)
      | Some p \<Rightarrow>
        (case find (is_mbti p) (mbti_list d) of None \<Rightarrow> None
         | Some t \<Rightarrow>
           let h = mbah d; off = u32 (vm_pgoff vma * 4096); len = u32 (vm_end vma - vm_start vma) in
           if vm_pgoff vma \<le> tot_static_pages h then
             (if u32 (len + off) > u32 (tot_static_pages h * 4096) then Some (d, Inl EINVAL, None)
              else case mba_list h of [] \<Rightarrow> None
              | a # _ \<Rightarrow>
                  if remap_fails then Some (d, Inl EAGAIN, None)
                  else Some (d, Inr 0, Some (vm_start vma, u32 (vm_pgoff vma + mba_phys a div 4096), len)))
           else case mem of None \<Rightarrow> Some (d, Inl ENOMEM, None)
           | Some r \<Rightarrow>
             (case mb_find_mb h off MBFIND_PHYS of None \<Rightarrow> Some (d, Inl EINVAL, None)
              | Some (a, b) \<Rightarrow>
                if u32 (len + off) > PAGE_ALIGN (mb_phys b + mb_size b) then Some (d, Inl EINVAL, None)
                else if remap_fails then Some (d, Inl EAGAIN, None)
                else let u = \<lparr>mbu_p = r, mbu_tgid = mbti_tgid t, mbu_addr = vm_start vma, mbu_size = len,
                              the_user = user_name (task_name t)\<rparr>
                     in Some (d\<lparr>mbah := upd_mb (mba_p a) (mb_p b) (add_user u) h\<rparr>, Inr 0,
                              Some (vm_start vma, vm_pgoff vma, len)))))"

section \<open>Reserving the areas\<close>

definition MBA_MAX_ORDER :: nat where "MBA_MAX_ORDER = 20"

text \<open>\<^verbatim>\<open>MB_COMBIND_MBA(h,t)\<close>: the area \<open>t\<close> is appended to \<open>h\<close>.\<close>

definition MB_COMBIND_MBA :: "nat \<Rightarrow> mb_area \<Rightarrow> mba_host \<Rightarrow> mba_host" where
  "MB_COMBIND_MBA p t h =
     (let h1 = upd_mba p (\<lambda>a. a\<lparr>mba_end := mba_end t, mba_pages := mba_pages a + mba_pages t,
                              mba_free := mba_free a + mba_free t, mba_max := mba_max a + mba_max t\<rparr>) h
      in h1\<lparr>mba_list := del_first (is_mba (mba_p t)) (mba_list h1), nr_mba := nr_mba h1 - 1\<rparr>)"

text \<open>
  The loop of \<^verbatim>\<open>mb_probe\<close>. Every turn consumes one answer of the environment (the slab
  object and the I/O functions); \<open>None\<close> is a loop that is still running when the answers
  are used up. \<open>bind\<close> is the pointer to the last area.
\<close>

definition probe_turn :: "int \<Rightarrow> nat option \<times> io_env \<Rightarrow> mba_host \<times> nat option \<Rightarrow> mba_host \<times> nat option" where
  "probe_turn total_kb ans st =
     (let (h, bind) = st; (mem, env) = ans;
          pages = min (u32 (total_kb * 1024 - tot_static_pages h * 4096) div 4096) (2 ^ MBA_MAX_ORDER)
      in case mb_alloc_mba h env pages mem of (h1, None) \<Rightarrow> (h1, bind)
         | (h1, Some p) \<Rightarrow>
           let h2 = upd_mba p (\<lambda>a. a\<lparr>mba_flags := mba_flags a OR MBAFLAG_STATIC, mba_tgid := MB_DEF_TGID\<rparr>) h1;
               h3 = h2\<lparr>tot_static_pages := tot_static_pages h2 + pages\<rparr>
           in case (find (is_mba p) (mba_list h3), bind \<bind> (\<lambda>q. find (is_mba q) (mba_list h3))) of
                (Some m, Some b) \<Rightarrow>
                  if mba_start b = mba_end m then (MB_COMBIND_MBA p b h3, Some p)
                  else if mba_end b = mba_start m then (MB_COMBIND_MBA (mba_p b) m h3, bind)
                  else (h3, Some p)
              | _ \<Rightarrow> (h3, Some p))"

fun probe_loop :: "int \<Rightarrow> (nat option \<times> io_env) list \<Rightarrow> mba_host \<times> nat option \<Rightarrow> (mba_host \<times> nat option) option" where
  "probe_loop total_kb answers st =
     (if u32 (tot_static_pages (fst st) * 4) < u32 total_kb
      then case answers of [] \<Rightarrow> None
           | ans # rest \<Rightarrow> probe_loop total_kb rest (probe_turn total_kb ans st)
      else Some st)"

declare probe_loop.simps [simp del]

definition mbah0 :: mba_host where
  "mbah0 = \<lparr>nr_mba = 0, tot_pages = 0, tot_static_pages = 0, tot_free_pages = 0,
            max_available_pages = 0, mba_list = []\<rparr>"

text \<open>The answers of the set-up calls of \<^verbatim>\<open>mb_probe\<close>: the character device, its
  registration, the host and the four slab caches.\<close>

record probe_env =
  cdev_alloc :: bool
  cdev_add :: int
  host_mem :: bool
  mba_cachep :: bool
  mb_cachep :: bool
  mbu_cachep :: bool
  mbti_cachep :: bool

text \<open>The pointer \<^verbatim>\<open>wmt_mbah\<close>: it keeps the address of the host that a failed set-up has freed.\<close>

datatype wmt_mbah = Null | Freed | Device mb_dev

text \<open>\<open>None\<close> when the loop does not end; otherwise the pointer and the return value.\<close>

definition mb_probe ::
    "wmt_mbah \<Rightarrow> int \<Rightarrow> probe_env \<Rightarrow> (nat option \<times> io_env) list \<Rightarrow> (wmt_mbah \<times> (errno + int)) option" where
  "mb_probe old total_kb env answers =
     (if old \<noteq> Null then Some (old, Inl EINVAL)
      else if \<not> cdev_alloc env then Some (old, Inl ENOMEM)
      else if cdev_add env \<noteq> 0 then Some (old, Inr (cdev_add env))
      else if \<not> host_mem env then Some (Null, Inl ENOMEM)
      else if \<not> mba_cachep env then Some (Freed, Inl ENOMEM)
      else if \<not> mb_cachep env then Some (Freed, Inl ENOMEM)
      else if \<not> mbu_cachep env then Some (Freed, Inl ENOMEM)
      else if \<not> mbti_cachep env then Some (Freed, Inl ENOMEM)
      else map_option (\<lambda>(h, _). (Device \<lparr>mbah = mb_update_mbah h, mbti_list = []\<rparr>, Inr 0))
             (probe_loop total_kb answers (mbah0, None)))"

text \<open>\<^verbatim>\<open>mb_remove\<close> frees the host and leaves the pointer.\<close>

definition mb_remove :: "wmt_mbah \<Rightarrow> wmt_mbah" where
  "mb_remove m = (if m = Null then Null else Freed)"

end
