(* ===== verification/MbRelease.thy ===== *)
theory MbRelease
  imports MbUserProps MbDev
begin

text \<open>
  Closing the device. The scan of \<^verbatim>\<open>mb_release\<close> with its restarts is compared with its
  effect on the set of blocks: every user of the task is gone, and so is every block that
  had only such users. The scan always ends.
\<close>

section \<open>One block\<close>

text \<open>A block without the users of a task.\<close>

definition still_there :: "mb_user list \<Rightarrow> nat option \<Rightarrow> nat option" where
  "still_there us c = (if \<exists>u \<in> set us. c = Some (mbu_p u) then c else None)"

definition strip :: "int \<Rightarrow> mb_struct \<Rightarrow> mb_struct" where
  "strip tg b =
     (let us = filter (\<lambda>u. mbu_tgid u \<noteq> tg) (mbu_list b)
      in b\<lparr>mbu_list := us, mb_count := int (length us), creator := still_there us (creator b)\<rparr>)"

text \<open>All users of the block, and at least one, belong to the task.\<close>

definition owned :: "int \<Rightarrow> mb_struct \<Rightarrow> bool" where
  "owned tg b \<longleftrightarrow> mbu_list b \<noteq> [] \<and> (\<forall>u \<in> set (mbu_list b). mbu_tgid u = tg)"

lemma strip_simps [simp]:
  "mb_p (strip tg b) = mb_p b" "mb_phys (strip tg b) = mb_phys b" "mb_size (strip tg b) = mb_size b"
  "same_block b (strip tg b)" "strip tg (strip tg b) = strip tg b" "\<not> owned tg (strip tg b)"
  "mbu_list (strip tg b) = filter (\<lambda>u. mbu_tgid u \<noteq> tg) (mbu_list b)"
  by (auto simp: strip_def same_block_def owned_def still_there_def Let_def filter_empty_conv)

lemma still_there_Some: "still_there us c = Some r \<longleftrightarrow> c = Some r \<and> (\<exists>u \<in> set us. mbu_p u = r)"
  by (auto simp: still_there_def)

lemma strip_creator: "creator (strip tg b) = still_there (mbu_list (strip tg b)) (creator b)"
  by (simp add: strip_def Let_def)

lemma mb_ok_strip:
  assumes "mb_ok a b" shows "mb_ok a (strip tg b)"
proof -
  have "mb_pages (strip tg b) = mb_pages b" by (simp add: mb_pages_def strip_def Let_def)
  moreover have "distinct (map mbu_p (filter (\<lambda>u. mbu_tgid u \<noteq> tg) (mbu_list b)))"
    using assms by (simp add: mb_ok_def distinct_map_filter)
  moreover have "creator_ok (strip tg b)"
  proof -
    have "\<exists>u \<in> set (mbu_list (strip tg b)). mbu_p u = r \<and> mbu_addr u = 0 \<and> mbu_size u = mb_size (strip tg b)"
      if r: "creator (strip tg b) = Some r" for r
    proof -
      from r obtain v where v: "v \<in> set (mbu_list b)" "mbu_tgid v \<noteq> tg" "mbu_p v = r" and c: "creator b = Some r"
        unfolding strip_creator still_there_Some by auto
      from c assms obtain u where u: "u \<in> set (mbu_list b)" "mbu_p u = r" "mbu_addr u = 0" "mbu_size u = mb_size b"
        by (auto simp: mb_ok_def creator_ok_def)
      then have "u = v" using v assms by (auto simp: mb_ok_def distinct_map inj_on_def)
      then show ?thesis using u v by auto
    qed
    then show ?thesis by (simp add: creator_ok_def)
  qed
  ultimately show ?thesis using assms by (simp add: mb_ok_def strip_def Let_def)
qed

lemma stop_user_ok:
  assumes "mb_ok a b" "u \<in> set (mbu_list b)"
  shows "mb_ok a (stop_user u b)"
proof (cases "creator b = Some (mbu_p u)")
  case True
  have "stop_user u b = (del_user (mbu_p u) b)\<lparr>creator := None\<rparr>"
    using True by (simp add: stop_user_def del_user_def)
  then show ?thesis using mb_ok_del_creator [OF assms] by simp
next
  case False
  then show ?thesis using mb_ok_del [OF assms] by (simp add: stop_user_def)
qed

lemma stop_user_list:
  assumes "mb_ok a b" "u \<in> set (mbu_list b)"
  shows "\<exists>xs ys. mbu_list b = xs @ u # ys \<and> mbu_list (stop_user u b) = xs @ ys"
  using del_user_list [OF assms] by (auto simp: stop_user_def del_user_def Let_def)

lemma strip_stop_user:
  assumes ok: "mb_ok a b" and u: "u \<in> set (mbu_list b)" "mbu_tgid u = tg"
  shows "strip tg (stop_user u b) = strip tg b"
proof -
  obtain xs ys where l: "mbu_list b = xs @ u # ys" "mbu_list (stop_user u b) = xs @ ys"
    using stop_user_list [OF ok u(1)] by blast
  have nu: "mbu_p u \<notin> mbu_p ` (set xs \<union> set ys)" using ok unfolding mb_ok_def l(1) by auto
  have f: "filter (\<lambda>u. mbu_tgid u \<noteq> tg) (mbu_list (stop_user u b)) = filter (\<lambda>u. mbu_tgid u \<noteq> tg) (mbu_list b)"
    using u(2) by (simp add: l)
  have c: "creator (stop_user u b) = (if creator b = Some (mbu_p u) then None else creator b)"
    by (simp add: stop_user_def)
  have k: "still_there (filter (\<lambda>u. mbu_tgid u \<noteq> tg) (mbu_list b)) (creator (stop_user u b)) =
      still_there (filter (\<lambda>u. mbu_tgid u \<noteq> tg) (mbu_list b)) (creator b)"
    unfolding c using nu u(2) unfolding still_there_def l(1) by (auto simp: image_iff)
  have "strip tg (stop_user u b) = b\<lparr>mbu_list := filter (\<lambda>u. mbu_tgid u \<noteq> tg) (mbu_list b),
      mb_count := int (length (filter (\<lambda>u. mbu_tgid u \<noteq> tg) (mbu_list b))),
      creator := still_there (filter (\<lambda>u. mbu_tgid u \<noteq> tg) (mbu_list b)) (creator (stop_user u b))\<rparr>"
    unfolding strip_def f Let_def by (simp add: stop_user_def del_user_def Let_def)
  then show ?thesis unfolding k by (simp add: strip_def Let_def)
qed

lemma rescan_mbu_spec:
  assumes "mb_ok a b"
  shows "rescan_mbu tg b = (strip tg b, owned tg b)"
  using assms
proof (induction tg b rule: rescan_mbu.induct)
  case (1 tg b)
  show ?case
  proof (cases "find (\<lambda>u. mbu_tgid u = tg) (mbu_list b)")
    case None
    then have no: "\<forall>u \<in> set (mbu_list b). mbu_tgid u \<noteq> tg" by (simp add: find_None_iff)
    then have "filter (\<lambda>u. mbu_tgid u \<noteq> tg) (mbu_list b) = mbu_list b" by simp
    moreover have "still_there (mbu_list b) (creator b) = creator b"
      using "1.prems" by (cases "creator b") (auto simp: still_there_def mb_ok_def creator_ok_def)
    moreover have "mb_count b = int (length (mbu_list b))" using "1.prems" by (simp add: mb_ok_def)
    ultimately have "strip tg b = b" by (simp add: strip_def)
    moreover have "\<not> owned tg b" using no by (auto simp: owned_def neq_Nil_conv)
    ultimately show ?thesis using None by (simp add: rescan_mbu.simps [of tg b])
  next
    case (Some u)
    then have u: "u \<in> set (mbu_list b)" "mbu_tgid u = tg" by (auto simp: find_Some_iff)
    define b1 where "b1 = stop_user u b"
    note ok1 = stop_user_ok [OF "1.prems" u(1), folded b1_def]
    obtain xs ys where l: "mbu_list b = xs @ u # ys" "mbu_list b1 = xs @ ys"
      using stop_user_list [OF "1.prems" u(1)] unfolding b1_def by blast
    have s: "strip tg b1 = strip tg b" using strip_stop_user [OF "1.prems" u] by (simp add: b1_def)
    have c: "mb_count b1 = int (length (xs @ ys))" using ok1 unfolding mb_ok_def l(2) by blast
    have rec: "rescan_mbu tg b = (if mb_count b1 \<noteq> 0 then rescan_mbu tg b1 else (b1, True))"
      using Some by (simp add: rescan_mbu.simps [of tg b] b1_def Let_def)
    show ?thesis
    proof (cases "mb_count b1 = 0")
      case True
      then have "length (xs @ ys) = 0" using c by linarith
      then have "xs @ ys = []" by (simp only: length_0_conv)
      then have "owned tg b" "mbu_list b1 = []" using u(2) by (simp_all add: owned_def l)
      moreover have "creator b1 = None" using ok1 \<open>mbu_list b1 = []\<close> by (cases "creator b1") (auto simp: mb_ok_def creator_ok_def)
      then have "strip tg b1 = b1" using \<open>mbu_list b1 = []\<close> True by (simp add: strip_def still_there_def)
      ultimately show ?thesis using rec True s by simp
    next
      case False
      then have "rescan_mbu tg b1 = (strip tg b1, owned tg b1)" using "1.IH" [OF Some b1_def] ok1 by simp
      moreover have "xs @ ys \<noteq> []" using False c by (metis length_0_conv of_nat_0)
      then have "owned tg b1 = owned tg b" unfolding owned_def l using u(2) by simp
      ultimately show ?thesis using rec False s by simp
    qed
  qed
qed

section \<open>One pass over the blocks\<close>

definition in_host :: "mba_host \<Rightarrow> nat \<times> mb_struct \<Rightarrow> bool" where
  "in_host h pb \<longleftrightarrow> (\<exists>a \<in> set (mba_list h). mba_p a = fst pb \<and> snd pb \<in> set (mb_list a))"

lemma in_host_all_blocks: "pb \<in> set (all_blocks h) \<longleftrightarrow> in_host h pb"
  by (cases pb) (auto simp: all_blocks_def in_host_def)

lemma all_blocks_live: "snd ` set (all_blocks h) = live h"
  by (force simp: all_blocks_def live_def)

lemma finite_live [simp]: "finite (live h)"
  by (simp add: live_def)

lemma distinct_concat_lists:
  assumes "distinct (map g xs)" "\<And>x. x \<in> set xs \<Longrightarrow> distinct (f x)"
    and "\<And>x y. x \<in> set xs \<Longrightarrow> y \<in> set xs \<Longrightarrow> g x \<noteq> g y \<Longrightarrow> set (f x) \<inter> set (f y) = {}"
  shows "distinct (concat (map f xs))"
  using assms
proof (induction xs)
  case (Cons x xs)
  have "set (f x) \<inter> set (f y) = {}" if "y \<in> set xs" for y
    using Cons.prems(1) that by (intro Cons.prems(3)) (auto simp: rev_image_eqI)
  then show ?case using Cons by auto
qed simp

lemma distinct_all_blocks:
  assumes ok: "host_ok h" shows "distinct (map snd (all_blocks h))"
proof -
  have "map snd (all_blocks h) = concat (map mb_list (mba_list h))"
    by (simp add: all_blocks_def map_concat comp_def)
  moreover have "distinct (concat (map mb_list (mba_list h)))"
  proof (rule distinct_concat_lists [where g = mba_p])
    show "distinct (map mba_p (mba_list h))" using ok by (simp add: host_ok_def areas_ok_def)
    show "distinct (mb_list a)" if "a \<in> set (mba_list h)" for a
      using host_okD(1) [OF ok that] by (simp add: mba_ok_def distinct_map)
    show "set (mb_list a) \<inter> set (mb_list a') = {}"
      if "a \<in> set (mba_list h)" "a' \<in> set (mba_list h)" "mba_p a \<noteq> mba_p a'" for a a'
      using block_area_unique [OF ok that(1) _ that(2)] that(3) by blast
  qed
  ultimately show ?thesis by simp
qed

lemma in_host_upd:
  assumes ok: "host_ok h" and ab: "a \<in> set (mba_list h)" "b \<in> set (mb_list a)" and x: "in_host h (p, c)" "c \<noteq> b"
  shows "in_host (upd_mb (mba_p a) (mb_p b) f h) (p, c)"
proof -
  let ?g = "\<lambda>a :: mb_area. a\<lparr>mb_list := upd_first (is_mb (mb_p b)) f (mb_list a)\<rparr>"
  obtain us vs where a: "mba_list h = us @ a # vs" "upd_first (is_mba (mba_p a)) ?g (mba_list h) = us @ ?g a # vs"
    using upd_first_split [OF host_okD(2) [OF ok ab(1)], of ?g] by blast
  obtain xs ys where b: "mb_list a = xs @ b # ys" "upd_first (is_mb (mb_p b)) f (mb_list a) = xs @ f b # ys"
    using upd_first_split [OF host_ok_mb(2) [OF ok ab], of f] by blast
  have "c \<in> set (mb_list (?g a))" if "c \<in> set (mb_list a)"
    using that x(2) by (simp add: b(2)) (simp add: b(1))
  then show ?thesis
    using x(1) unfolding in_host_def upd_mb_def upd_mba_simps a(2) unfolding a(1) by auto
qed

text \<open>
  What a pass over the blocks \<open>X\<close> did: the blocks \<open>D\<close> are stripped, the blocks \<open>B\<close> freed. A
  pass that frees nothing has seen all of \<open>X\<close>.
\<close>

definition pass_ok :: "int \<Rightarrow> mba_host \<Rightarrow> mb_struct set \<Rightarrow> mba_host \<times> bool \<Rightarrow> mb_struct set \<Rightarrow> mb_struct set \<Rightarrow> bool" where
  "pass_ok tg h X r D B \<longleftrightarrow> host_ok (fst r) \<and> live (fst r) = (live h - D - B) \<union> strip tg ` D \<and> D \<union> B \<subseteq> X \<and>
     (\<forall>b \<in> D. \<not> owned tg b) \<and> (\<forall>b \<in> B. owned tg b) \<and> (if snd r then B \<noteq> {} else B = {} \<and> D = X)"

lemma scan_blocks_spec:
  assumes "host_ok h" "\<And>pb. pb \<in> set pbs \<Longrightarrow> in_host h pb" "distinct (map snd pbs)"
  shows "\<exists>D B. pass_ok tg h (snd ` set pbs) (scan_blocks tg h pbs) D B"
  using assms
proof (induction pbs arbitrary: h)
  case Nil
  then show ?case by (simp add: pass_ok_def)
next
  case (Cons pb pbs)
  obtain p b where pb: "pb = (p, b)" by (cases pb)
  obtain a where a: "a \<in> set (mba_list h)" "b \<in> set (mb_list a)" "mba_p a = p"
    using Cons.prems(2) [of pb] by (auto simp: pb in_host_def)
  note bok = host_ok_mb [OF Cons.prems(1) a(1,2)]
  have bl: "b \<in> live h" using a by (auto simp: live_def)
  define h1 where "h1 = upd_mb p (mb_p b) (\<lambda>_. strip tg b) h"
  have h1: "host_ok h1"
    using host_ok_mb_upd [where f = "\<lambda>_. strip tg b", OF Cons.prems(1) a(1,2) mb_ok_strip [OF bok(1)]] by (simp add: h1_def a(3))
  have l1: "live h1 = insert (strip tg b) (live h - {b})"
    using live_upd_mb [OF Cons.prems(1) a(1,2), of "\<lambda>_. strip tg b"] by (simp add: h1_def a(3))
  have step: "scan_blocks tg h (pb # pbs) = (if owned tg b then (fst (mb_free_mb h1 p (mb_p b)), True) else scan_blocks tg h1 pbs)"
    using rescan_mbu_spec [OF bok(1), of tg] by (simp add: pb h1_def)
  show ?case
  proof (cases "owned tg b")
    case True
    obtain a1 where a1: "a1 \<in> set (mba_list h1)" "strip tg b \<in> set (mb_list a1)" "mba_p a1 = p"
      using upd_mb_mem [where f = "\<lambda>_. strip tg b", OF Cons.prems(1) a(1,2)] by (auto simp: h1_def a(3))
    have "mbu_list (strip tg b) = []" using True by (simp add: owned_def)
    then have "mb_count (strip tg b) = 0" using mb_ok_strip [OF bok(1), of tg] by (simp add: mb_ok_def)
    from live_free_mb [OF h1 a1(1,2) this] obtain h' where h': "mb_free_mb h1 p (mb_p b) = (h', Inr 0)" "host_ok h'"
      "live h' = live h1 - {strip tg b}" by (auto simp: a1(3))
    have "strip tg b \<notin> live h - {b}"
      using live_phys_inj [OF Cons.prems(1) _ bl, of "strip tg b"] by auto
    then have "live h' = live h - {b}" using h'(3) l1 by auto
    then have "pass_ok tg h (snd ` set (pb # pbs)) (scan_blocks tg h (pb # pbs)) {} {b}"
      using h' True unfolding pass_ok_def step by (simp add: pb)
    then show ?thesis by blast
  next
    case False
    have "in_host h1 x" if "x \<in> set pbs" for x
    proof -
      have "snd x \<noteq> b" using Cons.prems(3) that by (auto simp: pb)
      then show ?thesis using in_host_upd [OF Cons.prems(1) a(1,2), of "fst x" "snd x"] Cons.prems(2) [of x] that
        by (simp add: h1_def a(3))
    qed
    from Cons.IH [OF h1 this] Cons.prems(3) obtain D B where
      IH: "pass_ok tg h1 (snd ` set pbs) (scan_blocks tg h1 pbs) D B" by auto
    note D = IH [unfolded pass_ok_def]
    have bn: "b \<notin> D \<union> B" using D Cons.prems(3) by (auto simp: pb)
    have sub: "D \<union> B \<subseteq> live h"
    proof
      fix c assume "c \<in> D \<union> B"
      then obtain q where "(q, c) \<in> set pbs" using D by auto
      then show "c \<in> live h" using Cons.prems(2) [of "(q, c)"] by (auto simp: in_host_def live_def)
    qed
    have "strip tg b \<notin> D \<union> B"
    proof
      assume "strip tg b \<in> D \<union> B"
      then have "strip tg b = b" using live_phys_inj [OF Cons.prems(1) _ bl, of "strip tg b"] sub by auto
      with bn \<open>strip tg b \<in> D \<union> B\<close> show False by simp
    qed
    then have "live h1 - D - B \<union> strip tg ` D = (live h - insert b D - B) \<union> strip tg ` insert b D"
      unfolding l1 using bn by auto
    then have "pass_ok tg h (snd ` set (pb # pbs)) (scan_blocks tg h (pb # pbs)) (insert b D) B"
      using D False bn unfolding pass_ok_def step by (simp add: pb insert_commute subset_insertI2)
    then show ?thesis by blast
  qed
qed

section \<open>All passes\<close>

text \<open>What closing the device does to the blocks.\<close>

definition sweep :: "int \<Rightarrow> mb_struct set \<Rightarrow> mb_struct set" where
  "sweep tg L = strip tg ` {b \<in> L. \<not> owned tg b}"

lemma sweep_pass:
  assumes "\<forall>b \<in> D. \<not> owned tg b" "\<forall>b \<in> B. owned tg b" "D \<subseteq> L"
  shows "sweep tg ((L - D - B) \<union> strip tg ` D) = sweep tg L"
proof -
  have "{b \<in> (L - D - B) \<union> strip tg ` D. \<not> owned tg b} = ({b \<in> L. \<not> owned tg b} - D) \<union> strip tg ` D"
    using assms by auto
  then have "sweep tg ((L - D - B) \<union> strip tg ` D) = strip tg ` ({b \<in> L. \<not> owned tg b} - D) \<union> strip tg ` D"
    by (simp add: sweep_def image_Un image_image)
  also have "\<dots> = strip tg ` {b \<in> L. \<not> owned tg b}" using assms by blast
  finally show ?thesis by (simp add: sweep_def)
qed

lemma rescan_mba_spec:
  assumes "host_ok h"
  shows "\<exists>h'. rescan_mba tg h = Some h' \<and> host_ok h' \<and> live h' = sweep tg (live h)"
  using assms
proof (induction "card (live h)" arbitrary: h rule: less_induct)
  case less
  obtain D B where "pass_ok tg h (snd ` set (all_blocks h)) (scan_blocks tg h (all_blocks h)) D B"
    using scan_blocks_spec [OF less.prems _ distinct_all_blocks [OF less.prems]] in_host_all_blocks by blast
  moreover obtain h1 again where sc: "scan_blocks tg h (all_blocks h) = (h1, again)" by (cases "scan_blocks tg h (all_blocks h)")
  ultimately have p: "host_ok h1" "live h1 = (live h - D - B) \<union> strip tg ` D" "D \<union> B \<subseteq> live h"
    "\<forall>b \<in> D. \<not> owned tg b" "\<forall>b \<in> B. owned tg b" "if again then B \<noteq> {} else B = {} \<and> D = live h"
    by (auto simp: pass_ok_def all_blocks_live)
  have sw: "sweep tg (live h1) = sweep tg (live h)" unfolding p(2) using p(3-5) by (intro sweep_pass) auto
  have rec: "rescan_mba tg h = (if again then rescan_mba tg h1 else Some h1)"
    by (subst rescan_mba.simps) (simp add: sc)
  show ?case
  proof (cases again)
    case True
    have fin: "finite D" "finite (live h - D - B)" using p(3) finite_subset [of D "live h"] by auto
    have "card (live h1) \<le> card (live h - D - B) + card (strip tg ` D)" unfolding p(2) by (rule card_Un_le)
    also have "\<dots> \<le> card (live h - D - B) + card D" using card_image_le [OF fin(1)] by simp
    also have "\<dots> = card ((live h - D - B) \<union> D)" using fin by (intro card_Un_disjoint [symmetric]) auto
    also have "\<dots> < card (live h)"
    proof (rule psubset_card_mono)
      obtain b where "b \<in> B" using p(6) True by auto
      then have "b \<in> live h" "b \<notin> (live h - D - B) \<union> D" using p(3-5) by auto
      then show "(live h - D - B) \<union> D \<subset> live h" using p(3) by auto
    qed simp
    finally show ?thesis using less.hyps [OF _ p(1)] rec True sw by simp
  next
    case False
    then have "live h1 = strip tg ` live h" "\<forall>b \<in> live h. \<not> owned tg b" using p by auto
    then have "live h1 = sweep tg (live h)" unfolding sweep_def by auto
    then show ?thesis using rec False p(1) by simp
  qed
qed

section \<open>The totals of the host\<close>

lemma mb_update_mbah_id:
  assumes "host_ok h" shows "mb_update_mbah h = h"
proof -
  let ?f = "\<lambda>(free, mx) a. let nr_pages = zone_max (mba_start a) 0 (mb_list a) (mba_end a);
                mba_free = zone_sum (mba_start a) 0 (mb_list a) (mba_end a)
            in (free + mba_free, max mx nr_pages)"
  have step: "foldl ?f (n, m) as = (n + sum_list (map mba_free as), foldl (\<lambda>m a. max m (mba_max a)) m as)"
    if "\<forall>a \<in> set as. mba_ok a" for as n m
    using that
  proof (induction as arbitrary: n m)
    case (Cons a as)
    then have "mba_ok a" by simp
    then have "zone_sum (mba_start a) 0 (mb_list a) (mba_end a) = mba_free a"
      "zone_max (mba_start a) 0 (mb_list a) (mba_end a) = mba_max a"
      using zone_sum_gaps [OF mba_ok_bounds, of a 0] zone_max_gaps [OF mba_ok_bounds, of a 0] by (simp_all add: mba_ok_def)
    then show ?case using Cons by simp
  qed simp
  have "\<forall>a \<in> set (mba_list h). mba_ok a" using assms by (simp add: host_ok_def areas_ok_def)
  from step [OF this, of 0 0] show ?thesis
    using assms by (simp add: mb_update_mbah_def host_ok_def host_max_def)
qed

end
