(* ===== verification/MbIoctl.thy ===== *)
theory MbIoctl
  imports MbRelease
begin

text \<open>
  The commands of the character device on a consistent host: each of them keeps the
  invariant, \<^verbatim>\<open>mmap\<close> included, and \<^verbatim>\<open>MBIO_FORCE_RESET\<close> works only when there is nothing
  to reset.
\<close>

section \<open>The slab allocator\<close>

definition io_fresh :: "mba_host \<Rightarrow> io_call \<Rightarrow> bool" where
  "io_fresh h c \<longleftrightarrow> (\<forall>r. mbu_mem c = Some r \<longrightarrow> r \<notin> mbu_ids h) \<and> (\<forall>q. mb_mem c = Some q \<longrightarrow> q \<notin> mb_ids h)"

section \<open>Each command keeps the invariant\<close>

lemma add_user_ok:
  assumes "host_ok h" "a \<in> set (mba_list h)" "b \<in> set (mb_list a)" "mbu_p u \<notin> mbu_ids h"
  shows "host_ok (upd_mb (mba_p a) (mb_p b) (add_user u) h)"
proof -
  have "mbu_p u \<notin> mbu_p ` set (mbu_list b)" using assms(2-4) by (auto simp: mbu_ids_def live_def)
  from mb_ok_add [OF host_ok_mb(1) [OF assms(1-3)] this] show ?thesis
    by (intro host_ok_mb_upd [where f = "add_user u", OF assms(1-3)]) simp_all
qed

text \<open>A mapping is never the creator: its address is not 0.\<close>

lemma mapping_not_creator:
  assumes ok: "host_ok h" and f: "mb_find_mbu h val tg (MBUFIND_USER OR MBUFIND_MMAP) = Some (a, b, u)"
  shows "creator b \<noteq> Some (mbu_p u)"
proof -
  note u = find_user_of_kind [OF f, simplified]
  have "mbu_addr u \<noteq> 0" using u(4,6) by (simp add: mbu_flags)
  then show ?thesis
    using not_creator [OF host_ok_mb(1) [OF ok u(1,2)] _ u(3)] host_ok_mb(4) [OF ok u(1,2)] by (simp add: mb_pages_def)
qed

lemma unmap_ok:
  assumes ok: "host_ok h" and f: "mb_find_mbu h val tg (MBUFIND_USER OR MBUFIND_MMAP) = Some (a, b, u)"
  shows "host_ok (upd_mb (mba_p a) (mb_p b) (del_user (mbu_p u)) h)"
proof -
  note u = find_user_of_kind [OF f, simplified]
  show ?thesis
    using host_ok_mb_upd [where f = "del_user (mbu_p u)", OF ok u(1,2)
        mb_ok_del [OF host_ok_mb(1) [OF ok u(1,2)] u(3) mapping_not_creator [OF ok f]]] by simp
qed

lemma io_free_ok: "host_ok h \<Longrightarrow> host_ok (fst (io_free h tg val name))"
  using unmap_ok [of h val tg] mb_do_free_ok
  by (auto simp: io_free_def Let_def split: option.splits prod.splits) (metis fst_conv)+

lemma io_unmap_ok: "host_ok h \<Longrightarrow> host_ok (fst (io_unmap h tg val))"
  using unmap_ok [of h val tg] by (auto simp: io_unmap_def split: option.splits)

lemma io_get_by_phys_ok:
  assumes "host_ok h" "\<And>r. mem = Some r \<Longrightarrow> r \<notin> mbu_ids h"
  shows "host_ok (fst (io_get_by_phys h tg val name mem))"
  using assms add_user_ok [OF assms(1)] mb_find_mb_SomeD(1,2) [of h val MBFIND_PHYS]
  by (auto simp: io_get_by_phys_def Let_def split: option.splits)

lemma io_put_by_phys_ok:
  assumes ok: "host_ok h" shows "host_ok (fst (io_put_by_phys h tg val))"
proof (cases "mb_find_mbu h val tg (MBUFIND_PHYS OR MBUFIND_GETPUT)")
  case None
  then show ?thesis using ok by (simp add: io_put_by_phys_def)
next
  case (Some r)
  then obtain a b u where f: "mb_find_mbu h val tg (MBUFIND_PHYS OR MBUFIND_GETPUT) = Some (a, b, u)" by (cases r) auto
  note u = find_user_of_kind [OF f, simplified]
  have "mbu_size u = 0" using u(9) by (simp add: mbu_flags)
  then show ?thesis using f ok drop_user_ok [OF ok u(1-3)] by (auto simp: io_put_by_phys_def)
qed

section \<open>Resetting by force\<close>

lemma force_reset_spec:
  assumes "host_ok h"
  shows "if \<exists>b \<in> live h. mbu_list b \<noteq> [] then force_reset h = Some None
    else \<exists>h'. force_reset h = Some (Some h') \<and> host_ok h' \<and> live h' = {}"
  using assms
proof (induction "card (live h)" arbitrary: h rule: less_induct)
  case less
  show ?case
  proof (cases "all_blocks h")
    case Nil
    then have "live h = {}" using all_blocks_live [of h] by simp
    then show ?thesis using less.prems Nil by (simp add: force_reset.simps [of h] mb_update_mbah_id)
  next
    case (Cons pb pbs)
    obtain p b where pb: "pb = (p, b)" by (cases pb)
    have "in_host h (p, b)" using in_host_all_blocks [of "(p, b)" h] Cons pb by simp
    then obtain a where a: "a \<in> set (mba_list h)" "b \<in> set (mb_list a)" "mba_p a = p" by (auto simp: in_host_def)
    have bl: "b \<in> live h" using a by (auto simp: live_def)
    show ?thesis
    proof (cases "mbu_list b = []")
      case False
      then show ?thesis using bl Cons pb by (auto simp: force_reset.simps [of h])
    next
      case True
      note bok = host_ok_mb(1) [OF less.prems a(1,2)]
      have c: "mb_count b = 0" "creator b = None" using bok True by (auto simp: mb_ok_def creator_ok_def)
      define f where "f = (\<lambda>b :: mb_struct. b\<lparr>creator := None, mb_count := 0\<rparr>)"
      define h1 where "h1 = upd_mb p (mb_p b) f h"
      have fb: "f b = b" using c by (simp add: f_def)
      have h1: "host_ok h1" using host_ok_mb_upd [where f = f, OF less.prems a(1,2)] bok fb by (simp add: h1_def a(3) same_block_def)
      have l1: "live h1 = live h" using live_upd_mb [OF less.prems a(1,2), of f] fb bl a(3) by (auto simp: h1_def)
      obtain a1 where a1: "a1 \<in> set (mba_list h1)" "b \<in> set (mb_list a1)" "mba_p a1 = p"
        using upd_mb_mem [where f = f, OF less.prems a(1,2)] fb by (auto simp: h1_def a(3) same_block_def)
      from live_free_mb [OF h1 a1(1,2) c(1)] obtain h' where h': "mb_free_mb h1 p (mb_p b) = (h', Inr 0)" "host_ok h'"
        "live h' = live h - {b}" by (auto simp: a1(3) l1)
      have "force_reset h = force_reset h'" using Cons pb True h'(1) by (simp add: force_reset.simps [of h] h1_def f_def)
      moreover have "card (live h') < card (live h)" unfolding h'(3) using bl by (intro psubset_card_mono) auto
      moreover have "(\<exists>b \<in> live h'. mbu_list b \<noteq> []) = (\<exists>b \<in> live h. mbu_list b \<noteq> [])" using True by (auto simp: h'(3))
      ultimately show ?thesis using less.hyps [of h'] h'(2) by simp
    qed
  qed
qed

section \<open>The switch\<close>

lemma io_switch_ok:
  assumes ok: "host_ok h" and fresh: "io_fresh h c" and s: "io_switch h t cmd c = Some (h', ret, out)"
  shows "host_ok h'"
proof -
  let ?tg = "mbti_tgid t" and ?v = "user_value c" and ?n = "task_name t"
  have f: "\<And>r. mbu_mem c = Some r \<Longrightarrow> r \<notin> mbu_ids h" "\<And>q. mb_mem c = Some q \<Longrightarrow> q \<notin> mb_ids h"
    using fresh by (auto simp: io_fresh_def)
  have keeps: "host_ok (fst (mb_do_alloc h ?v ?tg (Some ?n) (mbu_mem c) (mb_mem c)))"
    "host_ok (fst (mb_do_get h ?v ?tg (Some ?n) (mbu_mem c)))" "host_ok (fst (io_get_by_phys h ?tg ?v ?n (mbu_mem c)))"
    using f by (intro mb_do_alloc_ok mb_do_get_ok io_get_by_phys_ok ok; simp)+
  note keeps = keeps io_free_ok [OF ok, of ?tg ?v ?n] io_unmap_ok [OF ok, of ?tg ?v]
    mb_do_put_ok [OF ok, of ?v ?tg "Some ?n"] io_put_by_phys_ok [OF ok, of ?tg ?v]
  have reset: "force_reset h = Some (Some h1) \<Longrightarrow> host_ok h1" for h1
    using force_reset_spec [OF ok] by (auto split: if_splits)
  show ?thesis
    using s keeps ok reset unfolding io_switch_def Let_def
    by (auto split: if_splits prod.splits option.splits list.splits simp del: split_paired_All)
qed

end
