(* ===== verification/MbTasks.thy ===== *)
theory MbTasks
  imports MbIoctl
begin

text \<open>
  Which tasks have users on the blocks: an operation on behalf of a task adds at most that
  task, and closing the device removes it.
\<close>

definition tgids :: "mba_host \<Rightarrow> int set" where
  "tgids h = (\<Union>b \<in> live h. mbu_tgid ` set (mbu_list b))"

lemma tgids_upd:
  assumes "host_ok h" "a \<in> set (mba_list h)" "b \<in> set (mb_list a)"
  shows "tgids (upd_mb (mba_p a) (mb_p b) f h) \<subseteq> mbu_tgid ` set (mbu_list (f b)) \<union> tgids h"
  unfolding tgids_def live_upd_mb [OF assms] by auto

lemma tgids_block: "a \<in> set (mba_list h) \<Longrightarrow> b \<in> set (mb_list a) \<Longrightarrow> mbu_tgid ` set (mbu_list b) \<subseteq> tgids h"
  by (auto simp: tgids_def live_def)

lemma tgids_add_user:
  assumes "host_ok h" "a \<in> set (mba_list h)" "b \<in> set (mb_list a)"
  shows "tgids (upd_mb (mba_p a) (mb_p b) (add_user u) h) \<subseteq> insert (mbu_tgid u) (tgids h)"
  using tgids_upd [OF assms, of "add_user u"] tgids_block [OF assms(2,3)] by (auto simp: add_user_def)

lemma tgids_del_user:
  assumes "host_ok h" "a \<in> set (mba_list h)" "b \<in> set (mb_list a)" "set (mbu_list (f b)) \<subseteq> set (mbu_list b)"
  shows "tgids (upd_mb (mba_p a) (mb_p b) f h) \<subseteq> tgids h"
proof -
  have "mbu_tgid ` set (mbu_list (f b)) \<subseteq> tgids h"
    using image_mono [OF assms(4), of mbu_tgid] tgids_block [OF assms(2,3)] by (rule order_trans)
  then show ?thesis using tgids_upd [OF assms(1-3), of f] by blast
qed

lemma del_user_subset: "set (mbu_list (del_user r b)) \<subseteq> set (mbu_list b)"
  using set_del_first_subset by (simp add: del_user_def)

lemma tgids_drop:
  assumes ok: "host_ok h" and ab: "a \<in> set (mba_list h)" "b \<in> set (mb_list a)"
    and new: "mb_ok a (f b)" "same_block b (f b)" "mb_count (f b) = mb_count b - 1" "set (mbu_list (f b)) \<subseteq> set (mbu_list b)"
  defines "h1 \<equiv> upd_mb (mba_p a) (mb_p b) f h"
  shows "tgids (if mb_count b - 1 \<noteq> 0 then h1 else fst (mb_free_mb h1 (mba_p a) (mb_p b))) \<subseteq> tgids h"
proof -
  have t1: "tgids h1 \<subseteq> tgids h" unfolding h1_def by (rule tgids_del_user [where f = f, OF ok ab new(4)])
  have h1: "host_ok h1" using host_ok_drop(1) [where f = f, OF ok ab new(1-3)] by (simp add: h1_def)
  obtain a1 where a1: "a1 \<in> set (mba_list h1)" "f b \<in> set (mb_list a1)" "mba_p a1 = mba_p a"
    using upd_mb_mem [where f = f, OF ok ab new(2)] unfolding h1_def by blast
  have "tgids (fst (mb_free_mb h1 (mba_p a) (mb_p b))) \<subseteq> tgids h1" if "mb_count b - 1 = 0"
    using live_free_mb [OF h1 a1(1,2)] that new(2,3) by (auto simp: a1(3) same_block_def tgids_def)
  then show ?thesis using t1 by auto
qed

lemma tgids_drop_user:
  assumes ok: "host_ok h" and ab: "a \<in> set (mba_list h)" "b \<in> set (mb_list a)" "u \<in> set (mbu_list b)"
    and u: "mbu_addr u \<noteq> 0 \<or> mbu_size u = 0"
  shows "tgids (drop_user h a b u) \<subseteq> tgids h"
proof -
  note bok = host_ok_mb [OF ok ab(1,2)]
  have "creator b \<noteq> Some (mbu_p u)" using not_creator [OF bok(1) _ ab(3) u] bok(4) by (simp add: mb_pages_def)
  from tgids_drop [where f = "del_user (mbu_p u)", OF ok ab(1,2) mb_ok_del [OF bok(1) ab(3) this]]
  show ?thesis using del_user_subset by (simp add: drop_user_def Let_def)
qed

lemma tgids_free:
  assumes ok: "host_ok h" shows "tgids (fst (mb_do_free h addr tg name)) \<subseteq> tgids h"
proof (cases "addr = 0 \<or> name = None \<or> mb_find_mbu h addr tg (MBUFIND_PHYS OR MBUFIND_CREATOR) = None")
  case True
  then show ?thesis by (auto simp: mb_do_free_def)
next
  case False
  then obtain a b u where f: "mb_find_mbu h addr tg (MBUFIND_PHYS OR MBUFIND_CREATOR) = Some (a, b, u)" by auto
  note c = find_creator [OF f]
  let ?f = "\<lambda>b. (del_user (mbu_p u) b)\<lparr>creator := None\<rparr>"
  have "fst (mb_do_free h addr tg name) = (let h1 = upd_mb (mba_p a) (mb_p b) ?f h in
      if mb_count b - 1 \<noteq> 0 then h1 else fst (mb_free_mb h1 (mba_p a) (mb_p b)))"
    using False f by (auto simp: mb_do_free_def Let_def)
  then show ?thesis
    using tgids_drop [where f = ?f, OF ok c(1,2) mb_ok_del_creator [OF host_ok_mb(1) [OF ok c(1,2)] c(3)]] del_user_subset
    by (simp add: Let_def)
qed

lemma tgids_put:
  assumes ok: "host_ok h" shows "tgids (fst (mb_do_put h addr tg name)) \<subseteq> tgids h"
proof -
  let ?st = "(if tg = MB_DEF_TGID then MBUFIND_PHYS else MBUFIND_USER) OR MBUFIND_GETPUT"
  show ?thesis
  proof (cases "mb_find_mbu h addr tg ?st")
    case None
    then show ?thesis by (auto simp: mb_do_put_def)
  next
    case (Some r)
    then obtain a b u where f: "mb_find_mbu h addr tg ?st = Some (a, b, u)" by (cases r) auto
    have "?st \<in> {MBUFIND_USER OR MBUFIND_ALL, MBUFIND_USER OR MBUFIND_MMAP, MBUFIND_PHYS OR MBUFIND_GETPUT,
               MBUFIND_USER OR MBUFIND_GETPUT}" "?st AND MBUFIND_GETPUT \<noteq> 0" by (simp_all add: mbu_flags)
    note u = find_user_of_kind [OF f this(1)] and this(2)
    then show ?thesis using f tgids_drop_user [OF ok u(1-3)] by (auto simp: mb_do_put_def)
  qed
qed

lemma tgids_put_by_phys:
  assumes ok: "host_ok h" shows "tgids (fst (io_put_by_phys h tg val)) \<subseteq> tgids h"
proof (cases "mb_find_mbu h val tg (MBUFIND_PHYS OR MBUFIND_GETPUT)")
  case None
  then show ?thesis by (simp add: io_put_by_phys_def)
next
  case (Some r)
  then obtain a b u where f: "mb_find_mbu h val tg (MBUFIND_PHYS OR MBUFIND_GETPUT) = Some (a, b, u)" by (cases r) auto
  note u = find_user_of_kind [OF f, simplified]
  have "mbu_size u = 0" using u(9) by (simp add: mbu_flags)
  then show ?thesis using f tgids_drop_user [OF ok u(1-3)] by (auto simp: io_put_by_phys_def)
qed

lemma tgids_get:
  assumes ok: "host_ok h" shows "tgids (fst (mb_do_get h addr tg name mem)) \<subseteq> insert tg (tgids h)"
proof -
  let ?mb = "if tg \<noteq> MB_DEF_TGID
             then map_option (\<lambda>(a, b, u). (a, b)) (mb_find_mbu h addr tg (MBUFIND_USER OR MBUFIND_MMAP))
             else mb_find_mb h addr MBFIND_PHYS"
  have ab: "a \<in> set (mba_list h) \<and> b \<in> set (mb_list a)" if "?mb = Some (a, b)" for a b
    using that find_user_of_kind(1,2) [of h addr tg "MBUFIND_USER OR MBUFIND_MMAP" a b] mb_find_mb_SomeD(1,2) [of h addr MBFIND_PHYS a b]
    by (auto split: if_splits)
  show ?thesis
  proof (cases "name = None \<or> addr = 0 \<or> mem = None \<or> ?mb = None")
    case True
    then show ?thesis by (auto simp: mb_do_get_def Let_def split: option.splits)
  next
    case False
    then obtain a b nm r where *: "?mb = Some (a, b)" "name = Some nm" "mem = Some r" "addr \<noteq> 0" by auto
    define u where "u = \<lparr>mbu_p = r, mbu_tgid = tg, mbu_addr = addr, mbu_size = 0, the_user = user_name nm\<rparr>"
    have "tgids (upd_mb (mba_p a) (mb_p b) (add_user u) h) \<subseteq> insert tg (tgids h)"
      using tgids_add_user [OF ok, of a b u] ab [OF *(1)] by (simp add: u_def)
    then show ?thesis unfolding mb_do_get_def *(2,3) option.case Let_def *(1) prod.case u_def [symmetric] using *(4) by simp
  qed
qed

lemma tgids_get_by_phys:
  assumes "host_ok h" shows "tgids (fst (io_get_by_phys h tg val name mem)) \<subseteq> insert tg (tgids h)"
proof -
  have "tgids (upd_mb (mba_p a) (mb_p b) (add_user u) h) \<subseteq> insert tg (tgids h)"
    if "mb_find_mb h val MBFIND_PHYS = Some (a, b)" "mbu_tgid u = tg" for a b u
    using tgids_add_user [OF assms, of a b u] mb_find_mb_SomeD(1,2) [OF that(1)] that(2) by simp
  then show ?thesis by (simp add: io_get_by_phys_def Let_def subset_insertI split: option.split)
qed

lemma tgids_alloc:
  assumes ok: "host_ok h" and q: "\<And>q. m2 = Some q \<Longrightarrow> q \<notin> mb_ids h"
  shows "tgids (fst (mb_do_alloc h sz tg name m1 m2)) \<subseteq> insert tg (tgids h)"
proof (cases "PAGE_ALIGN sz div 4096 = 0 \<or> PAGE_ALIGN sz div 4096 > max_available_pages h \<or> m1 = None \<or> name = None \<or> m2 = None")
  case True
  then have "mb_do_alloc h sz tg name m1 m2 = (h, 0)" using mb_do_alloc_fail mb_do_alloc_nomem [OF ok] by metis
  then show ?thesis by auto
next
  case False
  then obtain nm r q where *: "name = Some nm" "m1 = Some r" "m2 = Some q" by auto
  have "0 < PAGE_ALIGN sz div 4096" "PAGE_ALIGN sz div 4096 \<le> max_available_pages h" using False PAGE_pages_ge0 [of sz] by linarith+
  from mb_do_alloc_shape [OF ok refl this assms(2) [OF *(3)], of tg nm r] obtain h' b where
    "mb_do_alloc h sz tg (Some nm) (Some r) (Some q) = (h', mb_phys b)" "live h' = insert b (live h)"
    "mbu_list b = [\<lparr>mbu_p = r, mbu_tgid = tg, mbu_addr = 0, mbu_size = PAGE_ALIGN sz, the_user = user_name nm\<rparr>]" by blast
  then show ?thesis unfolding * tgids_def by auto
qed

lemma tgids_unmap:
  assumes "host_ok h" "mb_find_mbu h val tg (MBUFIND_USER OR MBUFIND_MMAP) = Some (a, b, u)"
  shows "tgids (upd_mb (mba_p a) (mb_p b) (del_user (mbu_p u)) h) \<subseteq> tgids h"
  using find_user_of_kind(1,2) [OF assms(2)] del_user_subset by (intro tgids_del_user [OF assms(1)]) auto

lemma tgids_io_free:
  assumes ok: "host_ok h" shows "tgids (fst (io_free h tg val name)) \<subseteq> tgids h"
proof (cases "mb_find_mbu h val tg (MBUFIND_USER OR MBUFIND_MMAP)")
  case None
  then show ?thesis using tgids_free [OF ok] by (auto simp: io_free_def split: prod.splits) (metis fst_conv subsetD)
next
  case (Some r)
  then obtain a b u where f: "mb_find_mbu h val tg (MBUFIND_USER OR MBUFIND_MMAP) = Some (a, b, u)" by (cases r) auto
  let ?h1 = "upd_mb (mba_p a) (mb_p b) (del_user (mbu_p u)) h"
  have "fst (io_free h tg val name) = fst (mb_do_free ?h1 (mb_phys b) tg (Some name))"
    by (simp add: io_free_def f split: prod.splits)
  then show ?thesis using tgids_free [OF unmap_ok [OF ok f]] tgids_unmap [OF ok f] by fastforce
qed

lemma tgids_io_switch:
  assumes ok: "host_ok h" and fresh: "io_fresh h c" and s: "io_switch h t cmd c = Some (h', ret, out)"
  shows "tgids h' \<subseteq> insert (mbti_tgid t) (tgids h)"
proof -
  let ?tg = "mbti_tgid t" and ?v = "user_value c" and ?n = "task_name t"
  have "tgids (fst (mb_do_alloc h ?v ?tg (Some ?n) (mbu_mem c) (mb_mem c))) \<subseteq> insert ?tg (tgids h)"
    using fresh by (intro tgids_alloc ok) (simp add: io_fresh_def)
  moreover have "tgids (fst (io_unmap h ?tg ?v)) \<subseteq> tgids h"
    using tgids_unmap [OF ok, of ?v ?tg] by (simp add: io_unmap_def split: option.split)
  moreover have "tgids h1 = {}" if "force_reset h = Some (Some h1)" for h1
    using force_reset_spec [OF ok] that by (auto simp: tgids_def split: if_splits)
  moreover note tgids_io_free [OF ok, of ?tg ?v ?n] tgids_get [OF ok, of ?v ?tg "Some ?n" "mbu_mem c"]
    tgids_put [OF ok, of ?v ?tg "Some ?n"] tgids_get_by_phys [OF ok, of ?tg ?v ?n "mbu_mem c"] tgids_put_by_phys [OF ok, of ?tg ?v]
  ultimately show ?thesis
    using s unfolding io_switch_def Let_def
    by (simp split: if_splits prod.splits option.splits list.splits) (auto simp del: split_paired_All)
qed

lemma tgids_sweep: "live h' = sweep tg (live h) \<Longrightarrow> tgids h' \<subseteq> tgids h - {tg}"
  by (auto simp: tgids_def sweep_def)

end
