(* ===== verification/MbSys.thy ===== *)
theory MbSys
  imports MbTasks
begin

text \<open>
  The driver as a state machine: tasks open and close files, issue commands and map
  blocks; clients in the kernel use the pool. The invariant \<open>sys_ok\<close> ties the open files
  to the task records and the task records to the users of the blocks.
\<close>

section \<open>States and steps\<close>

record mb_sys =
  dev :: mb_dev
  files :: "(nat \<times> nat) list"

definition nfiles :: "(nat \<times> nat) list \<Rightarrow> nat \<Rightarrow> nat" where
  "nfiles fs p = length (filter (\<lambda>x. snd x = p) fs)"

inductive mb_step :: "mb_sys \<Rightarrow> mb_sys \<Rightarrow> bool" where
  open_file: "f \<notin> fst ` set (files s) \<Longrightarrow> task_p cur \<noteq> 0 \<Longrightarrow>
    (\<And>p. mem = Some p \<Longrightarrow> p \<notin> mbti_p ` set (mbti_list (dev s))) \<Longrightarrow>
    mb_open (dev s) cur None mem = (d, priv, ret) \<Longrightarrow>
    mb_step s \<lparr>dev = d, files = (case priv of None \<Rightarrow> files s | Some p \<Rightarrow> (f, p) # files s)\<rparr>"
| close_file: "(f, p) \<in> set (files s) \<Longrightarrow> mb_release (dev s) (Some p) = Some (d, priv, ret) \<Longrightarrow>
    mb_step s \<lparr>dev = d, files = filter (\<lambda>x. fst x \<noteq> f) (files s)\<rparr>"
| ioctl: "(f, p) \<in> set (files s) \<Longrightarrow> io_fresh (mbah (dev s)) c \<Longrightarrow>
    mb_ioctl (dev s) (Some p) cmd c = Some (d, ret, out) \<Longrightarrow> mb_step s (s\<lparr>dev := d\<rparr>)"
| map: "(f, p) \<in> set (files s) \<Longrightarrow> (\<And>r. mem = Some r \<Longrightarrow> r \<notin> mbu_ids (mbah (dev s))) \<Longrightarrow>
    mb_mmap (dev s) (Some p) vma mem rf = Some (d, ret, m) \<Longrightarrow> mb_step s (s\<lparr>dev := d\<rparr>)"
| client: "pool_fresh (mbah (dev s)) [x] \<Longrightarrow>
    mb_step s (s\<lparr>dev := (dev s)\<lparr>mbah := pool_run (mbah (dev s)) [x]\<rparr>\<rparr>)"

section \<open>The invariant\<close>

definition task_ok :: "(nat \<times> nat) list \<Rightarrow> mb_task_info \<Rightarrow> bool" where
  "task_ok fs t \<longleftrightarrow> mbti_task t \<noteq> 0 \<and> 0 < mbti_count t \<and> mbti_count t = int (nfiles fs (mbti_p t))"

definition tasks_ok :: "mb_task_info list \<Rightarrow> (nat \<times> nat) list \<Rightarrow> bool" where
  "tasks_ok ts fs \<longleftrightarrow> distinct (map mbti_p ts) \<and> distinct (map mbti_tgid ts) \<and> distinct (map fst fs) \<and>
     (\<forall>t \<in> set ts. task_ok fs t) \<and>
     (\<forall>x \<in> set fs. snd x \<in> mbti_p ` set ts)"

definition sys_ok :: "mb_sys \<Rightarrow> bool" where
  "sys_ok s \<longleftrightarrow> host_ok (mbah (dev s)) \<and> tasks_ok (mbti_list (dev s)) (files s) \<and>
     tgids (mbah (dev s)) \<subseteq> insert MB_DEF_TGID (mbti_tgid ` set (mbti_list (dev s)))"

section \<open>Task records\<close>

lemma nfiles_Cons [simp]: "nfiles ((f, p) # fs) q = (if p = q then 1 else 0) + nfiles fs q"
  by (simp add: nfiles_def)

lemma nfiles_close:
  assumes "distinct (map fst fs)" "(f, p) \<in> set fs"
  shows "nfiles fs q = nfiles (filter (\<lambda>x. fst x \<noteq> f) fs) q + (if p = q then 1 else 0)"
  using assms
proof (induction fs)
  case (Cons x fs)
  obtain g r where x: "x = (g, r)" by (cases x)
  show ?case
  proof (cases "g = f")
    case True
    then have "f \<notin> fst ` set fs" using Cons.prems(1) by (auto simp: x)
    then have "filter (\<lambda>x. fst x \<noteq> f) fs = fs" "(f, p) \<notin> set fs" by (auto simp: filter_id_conv rev_image_eqI)
    with True Cons.prems(2) show ?thesis by (auto simp: x nfiles_def)
  next
    case False
    then show ?thesis using Cons by (auto simp: x nfiles_def)
  qed
qed simp

lemma nfiles_pos: "(f, p) \<in> set fs \<Longrightarrow> 0 < nfiles fs p"
  by (induction fs) (auto simp: nfiles_def)

lemma tasks_find:
  assumes "tasks_ok ts fs" "t \<in> set ts"
  shows "find (is_mbti (mbti_p t)) ts = Some t" "find (of_task (mbti_tgid t)) ts = Some t"
proof -
  show "find (is_mbti (mbti_p t)) ts = Some t"
    using find_distinct [of mbti_p ts t] assms by (simp add: tasks_ok_def is_mbti_def [abs_def])
  have "find (\<lambda>y. mbti_tgid y = mbti_tgid t) ts = Some t" using find_distinct [of mbti_tgid ts t] assms by (simp add: tasks_ok_def)
  moreover have "find (of_task (mbti_tgid t)) ts = find (\<lambda>y. mbti_tgid y = mbti_tgid t) ts"
    using assms(1) by (intro find_cong) (auto simp: tasks_ok_def task_ok_def of_task_def)
  ultimately show "find (of_task (mbti_tgid t)) ts = Some t" by simp
qed

lemma file_task:
  assumes "tasks_ok ts fs" "(f, p) \<in> set fs"
  shows "\<exists>t \<in> set ts. mbti_p t = p \<and> find (is_mbti p) ts = Some t"
  using assms tasks_find(1) [OF assms(1)] by (force simp: tasks_ok_def)

lemma open_tasks_ok:
  assumes ok: "tasks_ok (mbti_list d) fs" and f: "f \<notin> fst ` set fs" and t: "task_p cur \<noteq> 0"
    and fresh: "\<And>p. mem = Some p \<Longrightarrow> p \<notin> mbti_p ` set (mbti_list d)" and op: "mb_open d cur None mem = (d', priv, ret)"
  shows "tasks_ok (mbti_list d') (case priv of None \<Rightarrow> fs | Some p \<Rightarrow> (f, p) # fs) \<and> mbah d' = mbah d \<and>
    mbti_tgid ` set (mbti_list d) \<subseteq> mbti_tgid ` set (mbti_list d')"
proof (cases "find (of_task (tgid cur)) (mbti_list d)")
  case None
  have new: "tgid cur \<notin> mbti_tgid ` set (mbti_list d)"
    using None ok by (fastforce simp: find_None_iff of_task_def tasks_ok_def task_ok_def)
  show ?thesis
  proof (cases mem)
    case None
    with \<open>find _ _ = None\<close> ok op show ?thesis by (auto simp: mb_open_def)
  next
    case (Some p)
    have "nfiles fs p = 0" using ok fresh [OF Some] by (auto simp: tasks_ok_def nfiles_def filter_empty_conv)
    moreover have "mbti_p u \<noteq> p" if "u \<in> set (mbti_list d)" for u using fresh [OF Some] that by auto
    ultimately show ?thesis using \<open>find _ _ = None\<close> Some ok op f new t fresh [OF Some]
      by (fastforce simp: mb_open_def tasks_ok_def task_ok_def Let_def)
  qed
next
  case (Some u)
  define inc where "inc = (\<lambda>t. t\<lparr>mbti_count := mbti_count t + 1\<rparr> :: mb_task_info)"
  obtain us vs where s: "mbti_list d = us @ u # vs" "upd_first (of_task (tgid cur)) inc (mbti_list d) = us @ inc u # vs"
    using upd_first_split [OF Some, of inc] by blast
  have d': "d' = d\<lparr>mbti_list := us @ inc u # vs\<rparr>" "priv = Some (mbti_p u)"
    using op Some s(2) by (auto simp: mb_open_def inc_def)
  have ne: "mbti_p u \<noteq> mbti_p t" if "t \<in> set us \<union> set vs" for t using ok that unfolding tasks_ok_def s(1) by (auto simp: rev_image_eqI)
  have "task_ok ((f, mbti_p u) # fs) t" if "t \<in> set us \<union> set vs" for t
  proof -
    have "task_ok fs t" using ok that unfolding tasks_ok_def s(1) by simp
    then show ?thesis using ne [OF that] by (simp add: task_ok_def)
  qed
  moreover have "task_ok ((f, mbti_p u) # fs) (inc u)" using ok unfolding tasks_ok_def s(1) by (auto simp: task_ok_def inc_def)
  moreover have "mbti_p (inc u) = mbti_p u" "mbti_tgid (inc u) = mbti_tgid u" by (simp_all add: inc_def)
  ultimately show ?thesis using ok f unfolding d' tasks_ok_def s(1) by auto
qed

lemma release_tasks_ok:
  assumes ok: "tasks_ok (us @ t # vs) fs" and f: "(f, mbti_p t) \<in> set fs"
  shows "mbti_count t \<noteq> 1 \<Longrightarrow> tasks_ok (us @ t\<lparr>mbti_count := mbti_count t - 1\<rparr> # vs) (filter (\<lambda>x. fst x \<noteq> f) fs)"
    "mbti_count t = 1 \<Longrightarrow> tasks_ok (us @ vs) (filter (\<lambda>x. fst x \<noteq> f) fs)"
proof -
  let ?fs = "filter (\<lambda>x. fst x \<noteq> f) fs"
  have df: "distinct (map fst fs)" using ok by (simp add: tasks_ok_def)
  note n = nfiles_close [OF df f]
  have ne: "\<forall>u \<in> set us \<union> set vs. mbti_p u \<noteq> mbti_p t" using ok unfolding tasks_ok_def by (auto simp: rev_image_eqI)
  have d: "distinct (map fst ?fs)" using df by (simp add: distinct_map_filter)
  have ct: "mbti_count t = int (nfiles ?fs (mbti_p t)) + 1" "mbti_task t \<noteq> 0"
    using ok n [of "mbti_p t"] unfolding tasks_ok_def by (simp_all add: task_ok_def)
  have other: "\<forall>u \<in> set us \<union> set vs. task_ok ?fs u"
  proof
    fix u assume u: "u \<in> set us \<union> set vs"
    then have "task_ok fs u" using ok unfolding tasks_ok_def by auto
    then show "task_ok ?fs u" using ne u n [of "mbti_p u"] by (auto simp: task_ok_def)
  qed
  have files: "\<forall>x \<in> set ?fs. snd x \<in> mbti_p ` set (us @ t # vs)" using ok unfolding tasks_ok_def by auto
  show "tasks_ok (us @ t\<lparr>mbti_count := mbti_count t - 1\<rparr> # vs) ?fs" if "mbti_count t \<noteq> 1"
  proof -
    have "task_ok ?fs (t\<lparr>mbti_count := mbti_count t - 1\<rparr>)" using that ct by (simp add: task_ok_def)
    then show ?thesis using ok other d files unfolding tasks_ok_def by auto
  qed
  show "tasks_ok (us @ vs) ?fs" if "mbti_count t = 1"
  proof -
    have "nfiles ?fs (mbti_p t) = 0" using ct that by simp
    then have "\<forall>x \<in> set ?fs. snd x \<noteq> mbti_p t" using nfiles_pos [of "fst x" "mbti_p t" ?fs for x]
      by (metis less_numeral_extra(3) prod.collapse)
    then have "\<forall>x \<in> set ?fs. snd x \<in> mbti_p ` set (us @ vs)" using files by auto
    then show ?thesis using ok other d unfolding tasks_ok_def by auto
  qed
qed

text \<open>\<^verbatim>\<open>mb_release\<close> in a consistent state: the record of the file's task loses one opening; the
  last one sweeps the blocks and removes the record.\<close>

lemma mb_release_spec:
  assumes ok: "sys_ok s" and f: "(f, p) \<in> set (files s)"
  shows "\<exists>us t vs d priv. mbti_list (dev s) = us @ t # vs \<and> mbti_p t = p \<and>
    mb_release (dev s) (Some p) = Some (d, priv, Inr 0) \<and>
    (if mbti_count t \<noteq> 1 then d = (dev s)\<lparr>mbti_list := us @ t\<lparr>mbti_count := mbti_count t - 1\<rparr> # vs\<rparr>
     else mbti_list d = us @ vs \<and> host_ok (mbah d) \<and> live (mbah d) = sweep (mbti_tgid t) (live (mbah (dev s))))"
proof -
  let ?ts = "mbti_list (dev s)"
  have tok: "tasks_ok ?ts (files s)" and hok: "host_ok (mbah (dev s))" using ok by (auto simp: sys_ok_def)
  obtain t where t: "t \<in> set ?ts" "mbti_p t = p" "find (is_mbti p) ?ts = Some t" using file_task [OF tok f] by blast
  note ft = tasks_find(2) [OF tok t(1)]
  define dec where "dec = (\<lambda>t. t\<lparr>mbti_count := mbti_count t - 1\<rparr> :: mb_task_info)"
  obtain us vs where s: "?ts = us @ t # vs" "upd_first (of_task (mbti_tgid t)) dec ?ts = us @ dec t # vs"
    "\<forall>u \<in> set us. \<not> of_task (mbti_tgid t) u" "of_task (mbti_tgid t) t"
    using upd_first_split [OF ft, of dec] by blast
  have "of_task (mbti_tgid t) (dec t)" using s(4) by (simp add: of_task_def dec_def)
  then have del: "del_first (of_task (mbti_tgid t)) (us @ dec t # vs) = us @ vs" using s(3) by (induction us) auto
  obtain h where h: "rescan_mba (mbti_tgid t) (mbah (dev s)) = Some h" "host_ok h" "live h = sweep (mbti_tgid t) (live (mbah (dev s)))"
    using rescan_mba_spec [OF hok] by blast
  have "mb_release (dev s) (Some p) =
    (if mbti_count t \<noteq> 1 then Some ((dev s)\<lparr>mbti_list := us @ dec t # vs\<rparr>, Some p, Inr 0)
     else Some ((dev s)\<lparr>mbah := h, mbti_list := us @ vs\<rparr>, None, Inr 0))"
    using t(3) ft s(2) h(1) mb_update_mbah_id [OF h(2)] del unfolding mb_release_def Let_def dec_def [symmetric]
    by simp
  then show ?thesis using s(1) t(2) h unfolding dec_def by (cases "mbti_count t = 1") auto
qed

section \<open>Every step keeps the invariant\<close>

lemma sys_ok_host:
  assumes "sys_ok s" "host_ok h" "tgids h \<subseteq> insert MB_DEF_TGID (mbti_tgid ` set (mbti_list (dev s)))"
  shows "sys_ok (s\<lparr>dev := (dev s)\<lparr>mbah := h\<rparr>\<rparr>)"
  using assms by (simp add: sys_ok_def)

lemma close_ok:
  assumes ok: "sys_ok s" and f: "(f, p) \<in> set (files s)" and r: "mb_release (dev s) (Some p) = Some (d, priv, ret)"
  shows "sys_ok \<lparr>dev = d, files = filter (\<lambda>x. fst x \<noteq> f) (files s)\<rparr>"
proof -
  obtain us t vs where t: "mbti_list (dev s) = us @ t # vs" "mbti_p t = p"
    and d: "if mbti_count t \<noteq> 1 then d = (dev s)\<lparr>mbti_list := us @ t\<lparr>mbti_count := mbti_count t - 1\<rparr> # vs\<rparr>
     else mbti_list d = us @ vs \<and> host_ok (mbah d) \<and> live (mbah d) = sweep (mbti_tgid t) (live (mbah (dev s)))"
    using mb_release_spec [OF ok f] r by auto
  have tok: "tasks_ok (us @ t # vs) (files s)" using ok t(1) by (simp add: sys_ok_def)
  note rel = release_tasks_ok [OF tok f [folded t(2)]]
  show ?thesis
  proof (cases "mbti_count t = 1")
    case True
    have "tgids (mbah d) \<subseteq> tgids (mbah (dev s)) - {mbti_tgid t}" using d True by (intro tgids_sweep) simp
    also have "\<dots> \<subseteq> insert MB_DEF_TGID (mbti_tgid ` set (us @ vs))" using ok unfolding sys_ok_def t(1) by auto
    finally show ?thesis using d True rel(2) by (simp add: sys_ok_def)
  next
    case False
    then show ?thesis using d rel(1) ok unfolding sys_ok_def t(1) by simp
  qed
qed

text \<open>The user that \<^verbatim>\<open>mb_mmap\<close> adds to the block it maps.\<close>

definition mapping_user :: "mb_task_info \<Rightarrow> vm_area \<Rightarrow> nat \<Rightarrow> mb_user" where
  "mapping_user t vma r = \<lparr>mbu_p = r, mbu_tgid = mbti_tgid t, mbu_addr = vm_start vma,
     mbu_size = u32 (vm_end vma - vm_start vma), the_user = user_name (task_name t)\<rparr>"

lemma mapping_user_simps [simp]: "mbu_p (mapping_user t vma r) = r" "mbu_tgid (mapping_user t vma r) = mbti_tgid t"
  by (simp_all add: mapping_user_def)

lemma mmap_cases:
  assumes m: "mb_mmap d (Some p) vma mem rf = Some (d', ret, mp)" and ne: "d' \<noteq> d"
  shows "\<exists>t a b r. find (is_mbti p) (mbti_list d) = Some t \<and> mb_find_mb (mbah d) (u32 (vm_pgoff vma * 4096)) MBFIND_PHYS = Some (a, b) \<and>
    mem = Some r \<and> d' = d\<lparr>mbah := upd_mb (mba_p a) (mb_p b) (add_user (mapping_user t vma r)) (mbah d)\<rparr>"
proof -
  obtain t where t: "find (is_mbti p) (mbti_list d) = Some t"
    using m by (auto simp: mb_mmap_def split: option.splits)
  obtain r where r: "mem = Some r"
    using m ne t by (auto simp: mb_mmap_def Let_def split: option.splits if_splits list.splits)
  obtain a b where ab: "mb_find_mb (mbah d) (u32 (vm_pgoff vma * 4096)) MBFIND_PHYS = Some (a, b)"
    using m ne t r by (auto simp: mb_mmap_def Let_def split: option.splits if_splits list.splits)
  have "d' = d\<lparr>mbah := upd_mb (mba_p a) (mb_p b) (add_user (mapping_user t vma r)) (mbah d)\<rparr>"
    using m ne t r ab by (auto simp: mb_mmap_def mapping_user_def Let_def split: if_splits list.splits)
  with t r ab show ?thesis by blast
qed

lemma mmap_host:
  assumes ok: "host_ok (mbah d)" and fresh: "\<And>r. mem = Some r \<Longrightarrow> r \<notin> mbu_ids (mbah d)"
    and m: "mb_mmap d (Some p) vma mem rf = Some (d', ret, mp)"
  shows "d' = d \<or> (\<exists>t \<in> set (mbti_list d). host_ok (mbah d') \<and> d' = d\<lparr>mbah := mbah d'\<rparr> \<and>
    tgids (mbah d') \<subseteq> insert (mbti_tgid t) (tgids (mbah d)))"
proof (cases "d' = d")
  case False
  obtain t a b r where t: "find (is_mbti p) (mbti_list d) = Some t"
    and ab: "mb_find_mb (mbah d) (u32 (vm_pgoff vma * 4096)) MBFIND_PHYS = Some (a, b)" and r: "mem = Some r"
    and d': "d' = d\<lparr>mbah := upd_mb (mba_p a) (mb_p b) (add_user (mapping_user t vma r)) (mbah d)\<rparr>"
    using mmap_cases [OF m False] by blast
  have tm: "t \<in> set (mbti_list d)" using t by (metis find_Some_iff nth_mem)
  note abm = mb_find_mb_SomeD(1,2) [OF ab]
  have "host_ok (mbah d')" using add_user_ok [OF ok abm, of "mapping_user t vma r"] fresh [OF r] by (simp add: d')
  moreover have "tgids (mbah d') \<subseteq> insert (mbti_tgid t) (tgids (mbah d))"
    using tgids_add_user [OF ok abm, of "mapping_user t vma r"] by (simp add: d')
  ultimately show ?thesis using tm d' by auto
qed simp

lemma ioctl_host:
  assumes ok: "host_ok (mbah d)" and fresh: "io_fresh (mbah d) c" and m: "mb_ioctl d (Some p) cmd c = Some (d', ret, out)"
  shows "d' = d \<or> (\<exists>t \<in> set (mbti_list d). host_ok (mbah d') \<and> d' = d\<lparr>mbah := mbah d'\<rparr> \<and>
    tgids (mbah d') \<subseteq> insert (mbti_tgid t) (tgids (mbah d)))"
proof (cases "d' = d")
  case False
  then obtain t h where t: "find (is_mbti p) (mbti_list d) = Some t" and h: "io_switch (mbah d) t cmd c = Some (h, ret, out)"
    and d': "d' = d\<lparr>mbah := h\<rparr>"
    using m by (auto simp: mb_ioctl_def split: if_splits option.splits)
  have tm: "t \<in> set (mbti_list d)" using t by (metis find_Some_iff nth_mem)
  show ?thesis using io_switch_ok [OF ok fresh h] tgids_io_switch [OF ok fresh h] tm d' by auto
qed simp

lemma sys_ok_task:
  assumes ok: "sys_ok s" and d: "d = dev s \<or> (\<exists>t \<in> set (mbti_list (dev s)). host_ok (mbah d) \<and>
    d = (dev s)\<lparr>mbah := mbah d\<rparr> \<and> tgids (mbah d) \<subseteq> insert (mbti_tgid t) (tgids (mbah (dev s))))"
  shows "sys_ok (s\<lparr>dev := d\<rparr>)"
proof (cases "d = dev s")
  case True
  then show ?thesis using ok by simp
next
  case False
  then obtain t where t: "t \<in> set (mbti_list (dev s))" "host_ok (mbah d)" "d = (dev s)\<lparr>mbah := mbah d\<rparr>"
    "tgids (mbah d) \<subseteq> insert (mbti_tgid t) (tgids (mbah (dev s)))" using d by blast
  have "sys_ok (s\<lparr>dev := (dev s)\<lparr>mbah := mbah d\<rparr>\<rparr>)" using t ok by (intro sys_ok_host) (auto simp: sys_ok_def)
  then show ?thesis using t(3) by simp
qed

lemma mb_step_ok:
  assumes "mb_step s s'" "sys_ok s"
  shows "sys_ok s'"
  using assms
proof (induction rule: mb_step.induct)
  case (open_file f s cur mem d priv ret)
  have "tasks_ok (mbti_list (dev s)) (files s)" using open_file.prems by (simp add: sys_ok_def)
  note o = open_tasks_ok [OF this open_file.hyps]
  then have "insert MB_DEF_TGID (mbti_tgid ` set (mbti_list (dev s))) \<subseteq> insert MB_DEF_TGID (mbti_tgid ` set (mbti_list d))" by blast
  then have "tgids (mbah (dev s)) \<subseteq> insert MB_DEF_TGID (mbti_tgid ` set (mbti_list d))"
    using open_file.prems unfolding sys_ok_def by (meson order_trans)
  with o open_file.prems show ?case by (simp add: sys_ok_def)
next
  case (close_file f p s d priv ret)
  then show ?case by (intro close_ok)
next
  case (ioctl f p s c cmd d ret out)
  have "host_ok (mbah (dev s))" using ioctl.prems by (simp add: sys_ok_def)
  from sys_ok_task [OF ioctl.prems ioctl_host [OF this ioctl.hyps(2,3)]] show ?case .
next
  case (map f p s mem vma rf d ret m)
  have "host_ok (mbah (dev s))" using map.prems by (simp add: sys_ok_def)
  from sys_ok_task [OF map.prems mmap_host [OF this map.hyps(2,3)]] show ?case .
next
  case (client s x)
  have ok: "host_ok (mbah (dev s))" using client.prems by (simp add: sys_ok_def)
  have fresh: "op_mem slab_fresh (mbah (dev s)) x" using client.hyps by (simp add: pool_fresh_def)
  have "host_ok (pool_run (mbah (dev s)) [x])" using pool.step_inv [OF ok fresh] by (simp add: pool_run_def)
  moreover have "tgids (pool_run (mbah (dev s)) [x]) \<subseteq> insert MB_DEF_TGID (tgids (mbah (dev s)))"
  proof (cases x)
    case (OpAlloc n m)
    then show ?thesis using tgids_alloc [OF ok, of "snd m" n MB_DEF_TGID] fresh
      by (simp add: pool_run_def mb_alloc_def slab_fresh_def)
  next
    case (OpFree q)
    then show ?thesis using tgids_free [OF ok, of q MB_DEF_TGID] by (auto simp: pool_run_def mb_free_def)
  next
    case (OpGet q m)
    then show ?thesis using tgids_get [OF ok, of q MB_DEF_TGID] by (simp add: pool_run_def mb_get_def)
  next
    case (OpPut q)
    then show ?thesis using tgids_put [OF ok, of q MB_DEF_TGID] by (auto simp: pool_run_def mb_put_def)
  qed
  ultimately show ?case using client.prems by (intro sys_ok_host) (auto simp: sys_ok_def)
qed

end
