(* ===== verification/MbDevProps.thy ===== *)
theory MbDevProps
  imports MbSys
begin

text \<open>
  The properties of the memory block device. The concrete states are reached from a device
  with one static area of 16 MB: a task opens the device, allocates a block, maps it, gives
  up its creator's reference and unmaps the block.
\<close>

definition call1 :: "int \<Rightarrow> nat \<Rightarrow> io_call" where
  "call1 v i = \<lparr>access_ok = True, user_value = v, mbu_mem = Some i, mb_mem = Some i, copy_faults = False\<rparr>"

definition task1 :: task_struct where "task1 = \<lparr>task_p = 1, tgid = 100, comm = ''player''\<rparr>"

definition sys0 :: mb_sys where "sys0 = \<lparr>dev = \<lparr>mbah = mb_host1, mbti_list = []\<rparr>, files = []\<rparr>"

definition sys1 :: mb_sys where
  "sys1 = \<lparr>dev = fst (mb_open (dev sys0) task1 None (Some 5)), files = [(3, 5)]\<rparr>"

definition sys2 :: mb_sys where
  "sys2 = sys1\<lparr>dev := fst (the (mb_ioctl (dev sys1) (Some 5) MBIO_MALLOC (call1 8000 1)))\<rparr>"

definition vma1 :: vm_area where "vma1 = \<lparr>vm_start = 0x40000000, vm_end = 0x40002000, vm_pgoff = 0x1F000\<rparr>"

definition sys3 :: mb_sys where
  "sys3 = sys2\<lparr>dev := fst (the (mb_mmap (dev sys2) (Some 5) vma1 (Some 2) False))\<rparr>"

definition sys4 :: mb_sys where
  "sys4 = sys3\<lparr>dev := fst (the (mb_ioctl (dev sys3) (Some 5) MBIO_FREE (call1 0x1F000000 3)))\<rparr>"

section \<open>The concrete run\<close>

lemma sys0_ok: "sys_ok sys0"
  by (simp add: sys_ok_def sys0_def mb_host1_ok tasks_ok_def tgids_def live_def) (simp add: mb_host1_def)

lemma step01: "mb_step sys0 sys1"
proof -
  have o: "mb_open (dev sys0) task1 None (Some 5) = (dev sys1, Some 5, Inr 0)" by code_simp
  have "mb_step sys0 \<lparr>dev = dev sys1, files = (case Some 5 of None \<Rightarrow> files sys0 | Some p \<Rightarrow> (3, p) # files sys0)\<rparr>"
    by (rule open_file [OF _ _ _ o]) (simp_all add: sys0_def task1_def)
  then show ?thesis by (simp add: sys1_def sys0_def)
qed

lemma sys_files: "files sys1 = [(3, 5)]" "files sys2 = [(3, 5)]" "files sys3 = [(3, 5)]" "files sys4 = [(3, 5)]"
  by (simp_all add: sys1_def sys2_def sys3_def sys4_def)

lemma sys_upd: "sys1\<lparr>dev := dev sys2\<rparr> = sys2" "sys2\<lparr>dev := dev sys3\<rparr> = sys3" "sys3\<lparr>dev := dev sys4\<rparr> = sys4"
  by (simp_all add: sys2_def sys3_def sys4_def)

lemma fresh1: "io_fresh (mbah (dev sys1)) (call1 v i)"
proof -
  have "mbah (dev sys1) = mb_host1" by (simp add: sys1_def sys0_def mb_open_def Let_def)
  then show ?thesis by (simp add: io_fresh_def host1_ids)
qed

lemma step12: "mb_step sys1 sys2"
proof -
  have "mb_ioctl (dev sys1) (Some 5) MBIO_MALLOC (call1 8000 1) = Some (dev sys2, Inr 0, PutUser 0x1F000000)" by code_simp
  from ioctl [OF _ fresh1 this, of 3] show ?thesis by (simp add: sys_files sys_upd)
qed

lemma ids2: "mbu_ids (mbah (dev sys2)) = {1}" "mbu_ids (mbah (dev sys3)) = {1, 2}" "mb_ids (mbah (dev sys3)) = {1}"
  unfolding mbu_ids_def mb_ids_def live_concat [symmetric] by code_simp+

lemma mmap2: "mb_mmap (dev sys2) (Some 5) vma1 (Some 2) False = Some (dev sys3, Inr 0, Some (0x40000000, 0x1F000, 0x2000))"
  by code_simp

lemma step23: "mb_step sys2 sys3"
  using map [OF _ _ mmap2, of 3] by (simp add: ids2 sys_files sys_upd)

lemma step34: "mb_step sys3 sys4"
proof -
  have "mb_ioctl (dev sys3) (Some 5) MBIO_FREE (call1 0x1F000000 3) = Some (dev sys4, Inr 0, PutUser 0x1F000000)" by code_simp
  from ioctl [OF _ _ this, of 3] show ?thesis by (simp add: io_fresh_def ids2 call1_def sys_files sys_upd)
qed

lemma sys_run: "mb_step\<^sup>*\<^sup>* sys0 sys2" "mb_step\<^sup>*\<^sup>* sys0 sys3" "mb_step\<^sup>*\<^sup>* sys0 sys4"
  using step01 step12 step23 step34 by (meson rtranclp.rtrancl_into_rtrancl rtranclp.rtrancl_refl)+

lemma reach_ok: "mb_step\<^sup>*\<^sup>* s s' \<Longrightarrow> sys_ok s \<Longrightarrow> sys_ok s'"
  by (induction rule: rtranclp_induct) (auto intro: mb_step_ok)

lemma sys_oks: "sys_ok sys2" "sys_ok sys3" "sys_ok sys4"
  using sys_run reach_ok sys0_ok by blast+

section \<open>Invariant and safety\<close>

text \<open>
  C1. Every run of the device keeps its invariant: whatever files are opened and closed,
  whatever commands, mappings and kernel clients come in between, the blocks stay
  consistent, each task record counts the open files of its task, and every user of a
  block belongs to the kernel or to a task that has the device open, so that no task
  leaves references behind.
\<close>

theorem mb_sys_invariant:
  assumes "sys_ok s" "mb_step\<^sup>*\<^sup>* s s'"
  shows "sys_ok s'"
  using assms(2,1) by (induction rule: rtranclp_induct) (auto intro: mb_step_ok)

theorem mb_sys_invariant_witness: "sys_ok sys4 \<and> tgids (mbah (dev sys4)) = {100}"
proof -
  have "tgids (mbah (dev sys4)) = {100}" unfolding tgids_def live_concat [symmetric] by code_simp
  then show ?thesis using mb_sys_invariant [OF sys0_ok sys_run(3)] by simp
qed

text \<open>
  C23. No operation on an open file goes through a dangling task pointer, and closing a file
  always ends: in a consistent state \<^verbatim>\<open>mb_release\<close> returns 0, and every command but
  \<^verbatim>\<open>MBIO_FORCE_RESET\<close> and every mapping of a non-empty range returns.
\<close>

theorem mb_file_ops_return:
  assumes ok: "sys_ok s" and f: "(f, p) \<in> set (files s)"
    and vma: "0 \<le> vm_pgoff vma" "vm_start vma < vm_end vma" "vm_end vma - vm_start vma < 4294967296"
  shows "(\<exists>d priv. mb_release (dev s) (Some p) = Some (d, priv, Inr 0)) \<and>
    (cmd \<noteq> MBIO_FORCE_RESET \<longrightarrow> mb_ioctl (dev s) (Some p) cmd c \<noteq> None) \<and>
    mb_mmap (dev s) (Some p) vma mem rf \<noteq> None"
proof (intro conjI impI)
  show "\<exists>d priv. mb_release (dev s) (Some p) = Some (d, priv, Inr 0)" using mb_release_spec [OF ok f] by blast
  obtain t where t: "find (is_mbti p) (mbti_list (dev s)) = Some t"
    using file_task [OF _ f] ok by (auto simp: sys_ok_def)
  show "mb_ioctl (dev s) (Some p) cmd c \<noteq> None" if "cmd \<noteq> MBIO_FORCE_RESET"
  proof -
    have "io_switch (mbah (dev s)) t cmd c \<noteq> None"
      using that unfolding io_switch_def Let_def split_beta by (simp del: split_paired_Ex)
    then show ?thesis using t by (auto simp: mb_ioctl_def)
  qed
  show "mb_mmap (dev s) (Some p) vma mem rf \<noteq> None"
  proof (cases "mba_list (mbah (dev s)) = [] \<and> vm_pgoff vma \<le> tot_static_pages (mbah (dev s))")
    case True
    then have st: "tot_static_pages (mbah (dev s)) = 0" using ok by (simp add: sys_ok_def host_ok_def areas_ok_def)
    then have "vm_pgoff vma = 0" using True vma(1) by simp
    moreover have "0 < u32 (vm_end vma - vm_start vma)" using vma by (simp add: u32_id)
    ultimately show ?thesis using t st by (simp add: mb_mmap_def Let_def)
  next
    case False
    then show ?thesis using t by (auto simp: mb_mmap_def Let_def split: option.splits list.splits)
  qed
qed

theorem mb_file_ops_return_witness:
  "(\<exists>d priv. mb_release (dev sys3) (Some 5) = Some (d, priv, Inr 0)) \<and>
   mb_ioctl (dev sys3) (Some 5) MBIO_UNMAP (call1 0x40000000 1) \<noteq> None \<and> mb_mmap (dev sys3) (Some 5) vma1 None False \<noteq> None"
proof -
  have "MBIO_UNMAP \<noteq> MBIO_FORCE_RESET" by code_simp
  then show ?thesis
    using mb_file_ops_return [OF sys_oks(2), of 3 5 vma1 MBIO_UNMAP "call1 0x40000000 1" None False]
    by (simp add: sys_files vma1_def)
qed

text \<open>
  C5. When a task closes its last file, \<^verbatim>\<open>mb_release\<close> ends, forgets the task, removes its
  users from every block, frees exactly the blocks whose users all belonged to the task
  and leaves every other user of every other block in place.
\<close>

theorem mb_release_sweeps:
  assumes ok: "sys_ok s" and f: "(f, p) \<in> set (files s)" and last: "nfiles (files s) p = 1"
  shows "\<exists>t d priv. find (is_mbti p) (mbti_list (dev s)) = Some t \<and>
    mb_release (dev s) (Some p) = Some (d, priv, Inr 0) \<and>
    mbti_list d = del_first (is_mbti p) (mbti_list (dev s)) \<and>
    live (mbah d) = strip (mbti_tgid t) ` {b \<in> live (mbah (dev s)). \<not> owned (mbti_tgid t) b} \<and>
    mbti_tgid t \<notin> tgids (mbah d)"
proof -
  have tok: "tasks_ok (mbti_list (dev s)) (files s)" using ok by (simp add: sys_ok_def)
  obtain us t vs d priv where t: "mbti_list (dev s) = us @ t # vs" "mbti_p t = p"
    and r: "mb_release (dev s) (Some p) = Some (d, priv, Inr 0)"
    and d: "if mbti_count t \<noteq> 1 then d = (dev s)\<lparr>mbti_list := us @ t\<lparr>mbti_count := mbti_count t - 1\<rparr> # vs\<rparr>
     else mbti_list d = us @ vs \<and> host_ok (mbah d) \<and> live (mbah d) = sweep (mbti_tgid t) (live (mbah (dev s)))"
    using mb_release_spec [OF ok f] by blast
  have "task_ok (files s) t" using tok unfolding tasks_ok_def t(1) by simp
  then have "mbti_count t = 1" using last t(2) by (simp add: task_ok_def)
  then have d': "mbti_list d = us @ vs" "live (mbah d) = sweep (mbti_tgid t) (live (mbah (dev s)))" using d by auto
  have ft: "find (is_mbti p) (mbti_list (dev s)) = Some t" using tasks_find(1) [OF tok, of t] by (simp add: t)
  have "\<forall>u \<in> set us. \<not> is_mbti p u" using tok t(2) unfolding tasks_ok_def t(1) by (auto simp: is_mbti_def rev_image_eqI)
  then have "del_first (is_mbti p) (us @ t # vs) = us @ vs" using t(2) by (induction us) (auto simp: is_mbti_def)
  then show ?thesis using r ft d' tgids_sweep [OF d'(2)] by (auto simp: t(1) sweep_def)
qed

theorem mb_release_sweeps_witness:
  "\<exists>d priv. mb_release (dev sys3) (Some 5) = Some (d, priv, Inr 0) \<and> mbti_list d = [] \<and> 100 \<notin> tgids (mbah d)"
proof -
  have "nfiles (files sys3) 5 = 1" "(3, 5) \<in> set (files sys3)" by (simp_all add: sys_files nfiles_def)
  from mb_release_sweeps [OF sys_oks(2) this(2,1)] obtain t d priv where
    "find (is_mbti 5) (mbti_list (dev sys3)) = Some t" "mb_release (dev sys3) (Some 5) = Some (d, priv, Inr 0)"
    "mbti_list d = del_first (is_mbti 5) (mbti_list (dev sys3))" "mbti_tgid t \<notin> tgids (mbah d)" by blast
  moreover have "map_option mbti_tgid (find (is_mbti 5) (mbti_list (dev sys3))) = Some 100"
    "del_first (is_mbti 5) (mbti_list (dev sys3)) = []" by code_simp+
  ultimately show ?thesis by simp
qed

text \<open>
  C30. \<^verbatim>\<open>mb_update_mbah\<close>, which recomputes the totals of the host from the blocks, computes
  exactly what the incremental updates of allocation and release have cached.
\<close>

theorem mb_update_mbah_exact:
  assumes "host_ok h"
  shows "mb_update_mbah h = h"
  by (rule mb_update_mbah_id [OF assms])

theorem mb_update_mbah_exact_witness: "mb_update_mbah mb_host2 = mb_host2"
  by (rule mb_update_mbah_exact [OF host2_ok])

text \<open>
  C19. A mapping never leaves the driver's memory: with a single area of static memory below
  1 GB, a successful \<^verbatim>\<open>mb_mmap\<close> maps the requested length at the requested user address,
  inside the area; a mapping by the address of a block stays inside that block, and the
  block gets a user that keeps it alive.
\<close>

theorem mb_mmap_contained:
  assumes ok: "host_ok (mbah d)" and a: "mba_list (mbah d) = [a]" "is_static a" "mba_end a \<le> 0x40000"
    and vma: "0 \<le> vm_pgoff vma" "vm_pgoff vma < 0x100000" "0 \<le> vm_start vma" "vm_start vma < vm_end vma" "vm_end vma \<le> 0xC0000000"
    and m: "mb_mmap d (Some p) vma mem rf = Some (d', Inr 0, Some (v, pfn, len))"
  shows "v = vm_start vma \<and> len = vm_end vma - vm_start vma \<and>
    mba_phys a \<le> pfn * 4096 \<and> pfn * 4096 + len \<le> mba_phys a + mba_pages a * 4096 \<and>
    (vm_pgoff vma > mba_pages a \<longrightarrow> pfn = vm_pgoff vma \<and>
      (\<exists>b u. b \<in> live (mbah d') \<and> mb_phys b \<le> pfn * 4096 \<and> pfn * 4096 + len \<le> mb_phys b + mb_size b \<and>
        u \<in> set (mbu_list b) \<and> mbu_addr u = v \<and> mbu_size u = len))"
proof -
  let ?h = "mbah d"
  have aok: "mba_ok a" "area_ok a" using ok a(1) by (auto simp: host_ok_def areas_ok_def mba_ok_def)
  have st: "tot_static_pages ?h = mba_pages a" using ok a by (simp add: host_ok_def areas_ok_def)
  have bd: "0 < mba_start a" "mba_end a = mba_start a + mba_pages a" "mba_phys a = mba_start a * 4096" using aok(2) by (auto simp: area_ok_def)
  define ln where "ln = vm_end vma - vm_start vma"
  have len: "u32 (vm_end vma - vm_start vma) = ln" "0 < ln" "ln \<le> 0xC0000000" using vma by (auto simp: u32_id ln_def)
  have off: "u32 (vm_pgoff vma * 4096) = vm_pgoff vma * 4096" using vma by (simp add: u32_id)
  obtain t where t: "find (is_mbti p) (mbti_list d) = Some t" using m by (auto simp: mb_mmap_def split: option.splits)
  show ?thesis
  proof (cases "vm_pgoff vma \<le> mba_pages a")
    case True
    have "u32 (ln + vm_pgoff vma * 4096) = ln + vm_pgoff vma * 4096" using True len(2,3) bd a(3) vma(1) by (intro u32_id) auto
    moreover have "u32 (mba_pages a * 4096) = mba_pages a * 4096" using bd a(3) aok(2) by (intro u32_id) (auto simp: area_ok_def)
    moreover have "u32 (vm_pgoff vma + mba_start a) = vm_pgoff vma + mba_start a" using True bd a(3) vma by (intro u32_id) auto
    ultimately have "v = vm_start vma" "len = ln" "pfn = vm_pgoff vma + mba_start a" "ln + vm_pgoff vma * 4096 \<le> mba_pages a * 4096"
      using m t True unfolding mb_mmap_def Let_def st len off by (auto simp: a(1) bd(3) split: if_splits)
    then show ?thesis using True bd vma by (auto simp: ln_def)
  next
    case False
    obtain r x b where r: "mem = Some r" and f: "mb_find_mb ?h (vm_pgoff vma * 4096) MBFIND_PHYS = Some (x, b)"
      using m t False unfolding mb_mmap_def Let_def st len off by (auto split: option.splits if_splits)
    have ab: "x \<in> set (mba_list ?h)" "b \<in> set (mb_list x)" and in_b: "mb_phys b \<le> vm_pgoff vma * 4096" "vm_pgoff vma * 4096 < mb_phys b + mb_size b"
      using mb_find_mb_SomeD [OF f] mb_hit_exact(1) [OF ok] by auto
    have xa: "x = a" using ab(1) a(1) by simp
    have bl: "b \<in> live ?h" using ab by (auto simp: live_def)
    note lb = live_bounds [OF ok bl] and hb = host_ok_mb(3-7) [OF ok ab]
    have be: "mb_end b \<le> mba_end a" "mba_start a \<le> mb_start b" using host_ok_mb [OF ok ab] xa by auto
    have ext: "mb_phys b + mb_size b = mb_end b * 4096" using lb(2,4) by (simp add: mb_pages_def)
    have "u32 (ln + vm_pgoff vma * 4096) = ln + vm_pgoff vma * 4096"
      using len(2,3) in_b ext be a(3) vma(1) by (intro u32_id) auto
    moreover have "PAGE_ALIGN (mb_phys b + mb_size b) = mb_phys b + mb_size b"
      unfolding ext PAGE_ALIGN_def and_not_4095 using be a(3) lb(3,4) bd by (simp add: u32_id mb_pages_def)
    ultimately have res: "v = vm_start vma" "len = ln" "pfn = vm_pgoff vma" "ln + vm_pgoff vma * 4096 \<le> mb_phys b + mb_size b"
      and d': "d' = d\<lparr>mbah := upd_mb (mba_p x) (mb_p b) (add_user (mapping_user t vma r)) ?h\<rparr>"
      using m t r f False unfolding mb_mmap_def Let_def st len off by (auto simp: mapping_user_def len split: if_splits)
    let ?b = "add_user (mapping_user t vma r) b"
    have "?b \<in> live (mbah d')" using live_upd_mb [OF ok ab, of "add_user (mapping_user t vma r)"] by (simp add: d')
    moreover have "mb_phys ?b = mb_phys b" "mb_size ?b = mb_size b" "mapping_user t vma r \<in> set (mbu_list ?b)"
      by (simp_all add: add_user_def)
    moreover have "mbu_addr (mapping_user t vma r) = v" "mbu_size (mapping_user t vma r) = len"
      using res len by (simp_all add: mapping_user_def)
    moreover have "mba_phys a \<le> mb_phys b" "mb_phys b + mb_size b \<le> mba_phys a + mba_pages a * 4096"
      using be bd ext lb(4) by auto
    ultimately show ?thesis using res in_b by (auto simp: ln_def)
  qed
qed

theorem mb_mmap_contained_witness:
  "\<exists>b u. b \<in> live (mbah (dev sys3)) \<and> mb_phys b \<le> 0x1F000000 \<and> 0x1F002000 \<le> mb_phys b + mb_size b \<and>
     u \<in> set (mbu_list b) \<and> mbu_addr u = 0x40000000"
proof -
  let ?h = "mbah (dev sys2)"
  let ?a = "hd (mba_list ?h)"
  have a: "length (mba_list ?h) = 1" "is_static ?a" "mba_end ?a \<le> 0x40000" "mba_pages ?a < 0x1F000" by code_simp+
  have "mba_list ?h = [?a]" using a(1) by (cases "mba_list ?h") auto
  from mb_mmap_contained [OF _ this a(2,3) _ _ _ _ _ mmap2] sys_oks(1) a(4) show ?thesis
    by (simp add: sys_ok_def vma1_def) blast
qed

end
