(* ===== verification/MbFaults.thy ===== *)
theory MbFaults
  imports MbDevProps
begin

text \<open>
  What the device does wrong: a block whose last reference is a mapping is never freed, a
  task can drop the reference of the task that allocated a block, and the command that
  resets the driver by force works only when no block has a user.
\<close>

section \<open>A block that stays\<close>

lemma view_sweep_unused:
  assumes ok: "host_ok h" "host_ok h'" and l: "live h' = sweep tg (live h)" and b: "b \<in> live h" "mbu_list b = []"
  shows "mb_view h' (mb_phys b) = Some (mb_size b, 0)"
proof -
  have "\<not> owned tg b" using b(2) by (simp add: owned_def)
  then have "strip tg b \<in> live h'" using b(1) l by (auto simp: sweep_def)
  moreover have "mb_count (strip tg b) = 0" using b(2) by (simp add: strip_def)
  ultimately show ?thesis unfolding mb_view_iff [OF ok(2)] by (intro bexI [of _ "strip tg b"]) auto
qed

text \<open>
  \<^verbatim>\<open>MBIO_UNMAP\<close> of the only reference to a block (its creator's reference has been given
  up with \<^verbatim>\<open>MBIO_FREE\<close> while it was mapped) leaves the block allocated with a use count of 0,
  and closing the device, by this task or any other, does not free it either.
\<close>

theorem mb_unmap_leaks:
  assumes ok: "host_ok h" and f: "mb_find_mbu h x tg (MBUFIND_USER OR MBUFIND_MMAP) = Some (a, b, u)" and one: "mb_count b = 1"
  shows "\<exists>h'. io_unmap h tg x = (h', Inr 0, PutUser (mbu_size u)) \<and> mb_view h' (mb_phys b) = Some (mb_size b, 0) \<and>
    (\<forall>tg2. \<exists>h''. rescan_mba tg2 h' = Some h'' \<and> mb_view h'' (mb_phys b) = Some (mb_size b, 0))"
proof -
  let ?h = "upd_mb (mba_p a) (mb_p b) (del_user (mbu_p u)) h" and ?b = "del_user (mbu_p u) b"
  note ab = find_user_of_kind(1-3) [OF f, simplified]
  note h1 = unmap_ok [OF ok f]
  have bl: "?b \<in> live ?h" using live_upd_mb [OF ok ab(1,2)] by simp
  have c: "mb_count ?b = 0" using one by simp
  then have e: "mbu_list ?b = []" using live_bounds(6) [OF h1 bl] by simp
  have "mb_view ?h (mb_phys b) = Some (mb_size b, 0)"
    unfolding mb_view_iff [OF h1] using bl c by (intro bexI [of _ ?b]) auto
  moreover have "\<exists>h''. rescan_mba tg2 ?h = Some h'' \<and> mb_view h'' (mb_phys b) = Some (mb_size b, 0)" for tg2
    using rescan_mba_spec [OF h1, of tg2] view_sweep_unused [OF h1 _ _ bl e] by auto
  ultimately show ?thesis using f by (simp add: io_unmap_def)
qed

theorem mb_unmap_leaks_witness:
  "\<exists>h'. io_unmap (mbah (dev sys4)) 100 0x40000000 = (h', Inr 0, PutUser 0x2000) \<and> mb_view h' 0x1F000000 = Some (0x2000, 0) \<and>
     (\<exists>h''. rescan_mba 100 h' = Some h'' \<and> mb_view h'' 0x1F000000 = Some (0x2000, 0))"
proof -
  let ?h = "mbah (dev sys4)"
  have "map_option (\<lambda>(a, b, u). (mb_phys b, mb_size b, mb_count b, mbu_size u))
      (mb_find_mbu ?h 0x40000000 100 (MBUFIND_USER OR MBUFIND_MMAP)) = Some (0x1F000000, 0x2000, 1, 0x2000)" by code_simp
  then obtain a b u where "mb_find_mbu ?h 0x40000000 100 (MBUFIND_USER OR MBUFIND_MMAP) = Some (a, b, u)"
    "mb_phys b = 0x1F000000" "mb_size b = 0x2000" "mb_count b = 1" "mbu_size u = 0x2000" by auto
  then show ?thesis using mb_unmap_leaks [of ?h "0x40000000" 100 a b u] sys_oks(3) by (auto simp: sys_ok_def)
qed

section \<open>A reference that somebody else drops\<close>

text \<open>
  The owner test of \<^verbatim>\<open>mb_do_free\<close> is not one: any task with a user on a block (a mapping
  or a reference) can free it by its physical address, and what goes is the reference of
  the task that allocated the block; the caller's own stays.
\<close>

theorem mb_free_by_other_task:
  assumes ok: "host_ok h" and ab: "a \<in> set (mba_list h)" "b \<in> set (mb_list a)"
    and u: "u \<in> set (mbu_list b)" "c \<in> set (mbu_list b)" "creator b = Some (mbu_p c)" "mbu_tgid c \<noteq> mbu_tgid u"
  shows "\<exists>h' b'. mb_do_free h (mb_phys b) (mbu_tgid u) (Some nm) = (h', Inr 0) \<and> host_ok h' \<and> b' \<in> live h' \<and>
    mb_phys b' = mb_phys b \<and> mb_count b' = mb_count b - 1 \<and> creator b' = None \<and> u \<in> set (mbu_list b') \<and> c \<notin> set (mbu_list b')"
proof -
  let ?tg = "mbu_tgid u" and ?st = "MBUFIND_PHYS OR MBUFIND_CREATOR"
  note bok = host_ok_mb(1) [OF ok ab]
  have d: "distinct (map mbu_p (mbu_list b))" using bok by (simp add: mb_ok_def)
  have fc: "find (is_mbu (mbu_p c)) (mbu_list b) = Some c" by (rule find_mbu [OF d u(2)])
  have all: "mbu_match (mb_phys b) ?tg ?st b x \<noteq> None \<Longrightarrow> mbu_match (mb_phys b) ?tg ?st b x = Some (Some c)" for x
    using u(3) fc by (simp add: mbu_match_def mbu_flags split: if_splits)
  have "mbu_match (mb_phys b) ?tg ?st b u \<noteq> None" by (simp add: mbu_match_def mbu_flags)
  from first_some_hit [where f = "mbu_match (mb_phys b) ?tg ?st b", OF u(1) this] obtain y where
    "mbu_match (mb_phys b) ?tg ?st b y \<noteq> None"
    "first_some (mbu_match (mb_phys b) ?tg ?st b) (mbu_list b) = mbu_match (mb_phys b) ?tg ?st b y" by blast
  then have "first_some (mbu_match (mb_phys b) ?tg ?st b) (mbu_list b) = Some (Some c)" using all [of y] by simp
  then have f: "mb_find_mbu h (mb_phys b) ?tg ?st = Some (a, b, c)"
    using mb_find_mbu_phys [OF ok ab, of ?st ?tg] by (simp add: mbu_flags)
  let ?f = "\<lambda>b. (del_user (mbu_p c) b)\<lparr>creator := None\<rparr>" and ?h = "upd_mb (mba_p a) (mb_p b) (\<lambda>b. (del_user (mbu_p c) b)\<lparr>creator := None\<rparr>) h"
  have uc: "u \<noteq> c" using u(4) by auto
  obtain xs ys where l: "mbu_list b = xs @ c # ys" "mbu_list (del_user (mbu_p c) b) = xs @ ys"
    using del_user_list [OF bok u(2)] by blast
  have ulist: "u \<in> set (xs @ ys)" "c \<notin> set (xs @ ys)" using u(1) uc d unfolding l(1) by (auto simp: rev_image_eqI)
  have "0 < length (xs @ ys)" using ulist(1) by (rule length_pos_if_in_set)
  moreover have "length (mbu_list b) = Suc (length (xs @ ys))" by (simp add: l(1))
  ultimately have "2 \<le> length (mbu_list b)" by linarith
  then have "mb_count b - 1 \<noteq> 0" using bok by (simp add: mb_ok_def)
  moreover have "b \<in> live h" using ab by (auto simp: live_def)
  then have "mb_phys b \<noteq> 0" using live_bounds(1) [OF ok] by fastforce
  ultimately have "mb_do_free h (mb_phys b) ?tg (Some nm) = (?h, Inr 0)" using f by (simp add: mb_do_free_def Let_def)
  moreover have "host_ok ?h" using host_ok_mb_upd [where f = ?f, OF ok ab mb_ok_del_creator [OF bok u(2)]] by simp
  moreover have "?f b \<in> live ?h" using live_upd_mb [OF ok ab, of ?f] by simp
  moreover have "mb_phys (?f b) = mb_phys b" "mb_count (?f b) = mb_count b - 1" "creator (?f b) = None"
    "u \<in> set (mbu_list (?f b))" "c \<notin> set (mbu_list (?f b))" using ulist by (simp_all add: l(2))
  ultimately show ?thesis by blast
qed

text \<open>The kernel allocates a block, a task takes a reference to it.\<close>

definition mb_host3 :: mba_host where
  "mb_host3 = fst (io_get_by_phys mb_host2 100 0x1F000000 ''player'' (Some 7))"

lemma host3_ok: "host_ok mb_host3"
  unfolding mb_host3_def by (rule io_get_by_phys_ok [OF host2_ok]) (simp add: host2_ids)

theorem mb_free_by_other_task_witness: "\<exists>h'. mb_do_free mb_host3 0x1F000000 100 (Some ''player'') = (h', Inr 0) \<and> host_ok h'"
proof -
  let ?a = "hd (mba_list mb_host3)"
  let ?b = "hd (mb_list ?a)"
  let ?c = "mbu_list ?b ! 0" and ?u = "mbu_list ?b ! 1"
  have v: "length (mba_list mb_host3) = 1" "length (mb_list ?a) = 1" "length (mbu_list ?b) = 2" "creator ?b = Some (mbu_p ?c)"
    "mbu_tgid ?c = 0" "mbu_tgid ?u = 100" "mb_phys ?b = 0x1F000000" by code_simp+
  have "?a \<in> set (mba_list mb_host3)" using v(1) by (intro hd_in_set) auto
  moreover have "?b \<in> set (mb_list ?a)" using v(2) by (intro hd_in_set) auto
  moreover have "?u \<in> set (mbu_list ?b)" "?c \<in> set (mbu_list ?b)" using v(3) by (auto intro: nth_mem)
  ultimately show ?thesis using mb_free_by_other_task [OF host3_ok, of ?a ?b ?u ?c "''player''"] v(4-7) by auto
qed

section \<open>The reset that cannot reset\<close>

text \<open>
  \<^verbatim>\<open>MBIO_FORCE_RESET\<close> reads a freed list entry as soon as one block has a user; only when
  no block has a user does it return, with every block freed.
\<close>

theorem mb_force_reset_only_unused:
  assumes "host_ok h"
  shows "((\<exists>b \<in> live h. mbu_list b \<noteq> []) \<longrightarrow> force_reset h = Some None) \<and>
    ((\<forall>b \<in> live h. mbu_list b = []) \<longrightarrow> (\<exists>h'. force_reset h = Some (Some h') \<and> host_ok h' \<and> live h' = {}))"
  using force_reset_spec [OF assms] by (auto split: if_splits)

theorem mb_force_reset_only_unused_witness: "force_reset mb_host2 = Some None \<and> (\<exists>h'. force_reset mb_host1 = Some (Some h'))"
proof -
  have "\<exists>b \<in> live mb_host2. mbu_list b \<noteq> []" unfolding live_concat [symmetric] by code_simp
  moreover have "live mb_host1 = {}" by (simp add: live_def mb_host1_def)
  ultimately show ?thesis
    using mb_force_reset_only_unused [OF host2_ok] mb_force_reset_only_unused [OF mb_host1_ok] by auto
qed

end
