(* ===== verification/MbProbe.thy ===== *)
theory MbProbe
  imports MbFaults
begin

text \<open>
  Setting up the driver: \<^verbatim>\<open>get_order\<close>, the reservation loop of \<^verbatim>\<open>mb_probe\<close>, and the
  translation between physical and kernel addresses.
\<close>

section \<open>The order of a size\<close>

lemma order_loop_Suc: "s div 2 \<noteq> 0 \<Longrightarrow> order_loop s = Suc (order_loop (s div 2))"
  by (subst order_loop.simps) simp

lemma order_loop_0: "s div 2 = 0 \<Longrightarrow> order_loop s = 0"
  by (subst order_loop.simps) simp

lemma order_loop_less: "s < 2 * 2 ^ order_loop s"
proof (induction s rule: order_loop.induct)
  case (1 s)
  show ?case
  proof (cases "s div 2 = 0")
    case True
    then show ?thesis by (simp add: order_loop_0)
  next
    case False
    have "s \<le> 2 * (s div 2) + 1" by presburger
    moreover have "s div 2 + 1 \<le> 2 * 2 ^ order_loop (s div 2)" using "1.IH" [OF False] by simp
    ultimately show ?thesis unfolding order_loop_Suc [OF False] power_Suc by linarith
  qed
qed

lemma order_loop_le: "0 < order_loop s \<Longrightarrow> 2 ^ order_loop s \<le> s"
proof (induction s rule: order_loop.induct)
  case (1 s)
  have nz: "s div 2 \<noteq> 0" using "1.prems" order_loop_0 [of s] by auto
  have "2 ^ order_loop (s div 2) \<le> s div 2"
    using "1.IH" [OF nz] nz by (cases "0 < order_loop (s div 2)") auto
  then show ?case unfolding order_loop_Suc [OF nz] power_Suc by linarith
qed

text \<open>
  \<^verbatim>\<open>get_order\<close> returns the smallest order whose block of pages holds the size: the size
  fits into \<open>2 ^ order\<close> pages and, unless the order is 0, does not fit into half of them.
\<close>

theorem get_order_least:
  assumes "0 < sz" "sz < 4294967296"
  shows "sz \<le> 4096 * 2 ^ get_order sz \<and> (0 < get_order sz \<longrightarrow> 4096 * 2 ^ (get_order sz - 1) < sz)"
proof -
  let ?s = "nat ((sz - 1) div 2048)"
  have g: "get_order sz = order_loop ?s" using assms by (simp add: get_order_def u32_id)
  have s: "int ?s = (sz - 1) div 2048" using assms by simp
  have "int ?s < 2 * 2 ^ order_loop ?s" 
  proof -
    have "int ?s < int (2 * 2 ^ order_loop ?s)" using order_loop_less [of ?s] by (simp only: of_nat_less_iff)
    then show ?thesis by (simp only: of_nat_mult of_nat_power of_nat_numeral)
  qed
  then have "sz - 1 < 2048 * (2 * 2 ^ order_loop ?s)" using s by linarith
  moreover have "4096 * 2 ^ (get_order sz - 1) < sz" if "0 < get_order sz"
  proof -
    have "2 ^ order_loop ?s \<le> int ?s" 
    proof -
      have "int (2 ^ order_loop ?s) \<le> int ?s" using order_loop_le [of ?s] that unfolding g by (simp only: of_nat_le_iff)
      then show ?thesis by (simp only: of_nat_power of_nat_numeral)
    qed
    then have "2048 * 2 ^ order_loop ?s \<le> sz - 1" using s by linarith
    moreover have "(2 :: int) ^ order_loop ?s = 2 * 2 ^ (order_loop ?s - 1)" using that g by (cases "order_loop ?s") auto
    ultimately show ?thesis using g by simp
  qed
  ultimately show ?thesis using g by auto
qed

theorem get_order_least_witness: "get_order 0x1F000000 = 17 \<and> 0x1F000000 \<le> (4096 * 2 ^ get_order 0x1F000000 :: int)"
proof -
  have "get_order 0x1F000000 = 17" by (simp add: get_order_def u32_def order_loop.simps)
  then show ?thesis using get_order_least [of "0x1F000000"] by simp
qed

section \<open>Probing\<close>


definition env1 :: io_env where
  "env1 = \<lparr>num_physpages = 0x1F000, check_region = \<lambda>_ _. False, request_mem_region = \<lambda>_ _. True, ioremap = \<lambda>_ _. 0xE0000000\<rparr>"

definition pe1 :: probe_env where
  "pe1 = \<lparr>cdev_alloc = True, cdev_add = 0, host_mem = True, mba_cachep = True, mb_cachep = True, mbu_cachep = True, mbti_cachep = True\<rparr>"


text \<open>
  The reservation loop does not give up: as long as the reservation fails (no memory for
  the area record, or the I/O functions refuse), \<^verbatim>\<open>mb_probe\<close> tries again, for any number of
  failures, with the lock of the driver held.
\<close>

theorem mb_probe_spins:
  assumes kb: "0 < u32 kb" and prep: "cdev_alloc pe" "cdev_add pe = 0" "host_mem pe" "mba_cachep pe" "mb_cachep pe" "mbu_cachep pe" "mbti_cachep pe"
    and fails: "\<forall>(mem, env) \<in> set answers. mem = None \<or> (\<forall>n. mb_alloc_pages env n = None)"
  shows "mb_probe Null kb pe answers = None"
proof -
  have fail: "mb_alloc_mba mbah0 env n mem = (mbah0, None)" if "mem = None \<or> (\<forall>n. mb_alloc_pages env n = None)" for mem env n
    using that by (auto simp: mb_alloc_mba_def split: option.split)
  have s0: "tot_static_pages mbah0 = 0" by (simp add: mbah0_def)
  have "probe_loop kb answers (mbah0, None) = None" using fails
  proof (induction answers)
    case Nil
    show ?case using kb s0 by (subst probe_loop.simps) simp
  next
    case (Cons ans rest)
    obtain mem env where ans: "ans = (mem, env)" by (cases ans)
    have "probe_turn kb ans (mbah0, None) = (mbah0, None)"
      using fail [of mem env] Cons.prems by (simp add: probe_turn_def ans Let_def)
    then show ?case using Cons kb s0 by (subst probe_loop.simps) simp
  qed
  then show ?thesis using prep by (simp add: mb_probe_def)
qed

theorem mb_probe_spins_witness: "mb_probe Null 16384 pe1 (replicate 1000 (None, env1)) = None"
  by (rule mb_probe_spins) (simp_all add: u32_def pe1_def)

section \<open>Addresses\<close>

lemma mb_find_mb_virt:
  assumes ok: "host_ok h" and ab: "a \<in> set (mba_list h)" "b \<in> set (mb_list a)"
    and addr: "mb_virt b \<le> v" "v < mb_virt b + mb_size b"
  shows "mb_find_mb h v MBFIND_VIRT = Some (a, b)"
proof -
  note bb = host_ok_mb [OF ok ab]
  have aok: "mba_ok a" "area_ok a" using host_okD(1) [OF ok ab(1)] by (auto simp: mba_ok_def)
  have va: "mba_virt a \<le> v" "v < mba_virt a + mba_pages a * 4096"
    using bb(3-8) addr aok(2) by (auto simp: area_ok_def mb_pages_def)
  have nz: "v \<noteq> 0" using va(1) aok(2) by (auto simp: area_ok_def)
  have hit: "mb_hit v MBFIND_VIRT b" using addr by (simp add: mb_hit_exact(2) [OF ok ab])
  have only: "c = b" if c: "c \<in> set (mb_list a)" "mb_hit v MBFIND_VIRT c" for c
  proof (rule ccontr)
    assume "c \<noteq> b"
    note cb = host_ok_mb [OF ok ab(1) c(1)]
    have "mb_end c \<le> mb_start b \<or> mb_end b \<le> mb_start c"
      using live_disjoint [OF ok, of c b] \<open>c \<noteq> b\<close> c(1) ab by (auto simp: live_def)
    then show False using c(2) addr bb cb by (auto simp: mb_hit_exact(2) [OF ok ab(1) c(1)] mb_pages_def)
  qed
  have "find (mb_hit v MBFIND_VIRT) (mb_list a) = Some b"
  proof (cases "find (mb_hit v MBFIND_VIRT) (mb_list a)")
    case None
    then show ?thesis using ab(2) hit by (simp add: find_None_iff)
  next
    case (Some c)
    then show ?thesis using only [of c] by (auto simp: find_Some_iff)
  qed
  then have ha: "mba_hit v MBFIND_VIRT a = Some (a, b)"
    using va area_ends(2) [OF ok ab(1)] by (simp add: mba_hit_def MBFIND_VIRT_def MBFIND_PHYS_def)
  have "first_some (mba_hit v MBFIND_VIRT) (mba_list h) = Some (a, b)"
  proof (rule first_some_unique [where f = "mba_hit v MBFIND_VIRT", OF ab(1) ha])
    fix x assume x: "x \<in> set (mba_list h)" "mba_hit v MBFIND_VIRT x \<noteq> None"
    have "mba_virt x \<le> v" "v \<le> mba_virt x + mba_pages x * 4096"
      using x(2) area_ends(2) [OF ok x(1)] by (auto simp: mba_hit_def MBFIND_VIRT_def MBFIND_PHYS_def Let_def split: if_splits)
    then have "\<not> apart a x" using va by (auto simp: apart_def)
    then have "mba_p x = mba_p a" using ok ab(1) x(1) unfolding host_ok_def areas_ok_def by metis
    then have "x = a" using ok ab(1) x(1) by (auto simp: host_ok_def areas_ok_def distinct_map inj_on_def)
    then show "mba_hit v MBFIND_VIRT x = Some (a, b)" using ha by simp
  qed
  then show ?thesis using nz by (simp add: mb_find_mb_def MBFIND_VIRT_def MBFIND_PHYS_def)
qed

text \<open>
  C35. Inside a block the translations between physical and kernel addresses are inverse to
  each other.
\<close>

theorem mb_phys_virt_roundtrip:
  assumes ok: "host_ok h" and b: "b \<in> live h" and x: "0 \<le> i" "i < mb_size b"
  shows "mb_do_virt_to_phys h (mb_do_phys_to_virt h (mb_phys b + i)) = mb_phys b + i \<and>
    mb_do_phys_to_virt h (mb_do_virt_to_phys h (mb_virt b + i)) = mb_virt b + i"
proof -
  obtain a where ab: "a \<in> set (mba_list h)" "b \<in> set (mb_list a)" using b by (auto simp: live_def)
  have p: "mb_find_mb h (mb_phys b + i) MBFIND_PHYS = Some (a, b)" using x by (intro mb_find_mb_complete [OF ok ab]) auto
  have v: "mb_find_mb h (mb_virt b + i) MBFIND_VIRT = Some (a, b)" using x by (intro mb_find_mb_virt [OF ok ab]) auto
  show ?thesis using p v by (simp add: mb_do_virt_to_phys_def mb_do_phys_to_virt_def)
qed

theorem mb_phys_virt_roundtrip_witness: "mb_do_virt_to_phys mb_host2 (mb_do_phys_to_virt mb_host2 0x1F000010) = 0x1F000010"
proof -
  have "map (\<lambda>b. (mb_phys b, mb_size b)) (concat (map mb_list (mba_list mb_host2))) = [(0x1F000000, 8192)]" by code_simp
  then obtain b where "concat (map mb_list (mba_list mb_host2)) = [b]" "mb_phys b = 0x1F000000" "mb_size b = 8192" by auto
  moreover from this(1) have "b \<in> live mb_host2" unfolding live_concat [symmetric] by simp
  ultimately show ?thesis using mb_phys_virt_roundtrip [OF host2_ok, of b 16] by simp
qed

end
