(* ===== verification/MbPrdt.thy ===== *)
theory MbPrdt
  imports MbDev
begin

text \<open>
  Descriptor tables for DMA, \<^verbatim>\<open>user_to_prdt\<close> of \<^verbatim>\<open>memblock.c\<close>: the physical pages behind a range of
  user memory are written to a table of address and length, neighbouring pages merged into one
  entry, the last entry marked by its bit \<^verbatim>\<open>EDT\<close>. There are three methods: a walk over the page
  tables (the default), one call of \<^verbatim>\<open>get_user_pages\<close> for all pages, and one call per page.

  The table of the caller is a list; an access outside of it, through a null pointer, a \<^verbatim>\<open>BUG_ON\<close>
  and a loop that does not end are the result \<open>None\<close>. The memory map of the task is an argument.
\<close>

section \<open>Data\<close>

record prdt_struct =
  prd_addr :: int
  prd_size :: int
  reserve :: int
  EDT :: bool

record vm_area_io = vm_area +
  vm_io :: bool

text \<open>
  The memory of the calling task. \<open>pte\<close> is what the page table holds for a page: whether the
  frame is valid, and its physical address. \<open>get_user_pages a n\<close> are the physical addresses of the
  pages that the call for \<open>n\<close> pages from \<open>a\<close> on obtained, empty when it failed.
\<close>

record user_mm =
  find_vma :: "int \<Rightarrow> vm_area_io option"
  pte :: "int \<Rightarrow> bool \<times> int"
  get_user_pages :: "int \<Rightarrow> int \<Rightarrow> int list"

definition u16 :: "int \<Rightarrow> int" where "u16 x = x mod 65536"

text \<open>Writing to an entry of the table.\<close>

definition upd_prd :: "nat \<Rightarrow> (prdt_struct \<Rightarrow> prdt_struct) \<Rightarrow> prdt_struct list \<Rightarrow> prdt_struct list option" where
  "upd_prd k f tbl = (if k < length tbl then Some (tbl[k := f (tbl ! k)]) else None)"

section \<open>The walk over the page tables\<close>

text \<open>The variables of \<^verbatim>\<open>__user_to_prdt\<close>; \<open>w_k\<close> is the index of \<^verbatim>\<open>next\<close>, and \<^verbatim>\<open>prev\<close> is the entry
  before it.\<close>

record prd_walk =
  w_from :: int
  w_offset :: int
  w_size :: int
  w_items :: int
  w_tbl :: "prdt_struct list"
  w_k :: nat

datatype prd_exit = Finished prd_walk | Fault prd_walk

text \<open>Merging with the previous entry, or a new one; the flag says that the table is full.\<close>

definition prd_put :: "int \<Rightarrow> int \<Rightarrow> prd_walk \<Rightarrow> (prd_walk \<times> bool) option" where
  "prd_put phys n w =
     (let prev = w_tbl w ! (w_k w - 1) in
      if w_k w > 0 \<and> prd_size prev \<le> 65536 - 2 * 4096 \<and> u32 (prd_addr prev + prd_size prev) = phys then
        map_option (\<lambda>t. (w\<lparr>w_tbl := t\<rparr>, False))
          (upd_prd (w_k w - 1) (\<lambda>p. p\<lparr>prd_size := u16 (prd_size p + n)\<rparr>) (w_tbl w))
      else
        let full = (w_items w - 1 = 0) in
        map_option (\<lambda>t. (w\<lparr>w_tbl := t, w_k := Suc (w_k w), w_items := w_items w - 1\<rparr>, full))
          (upd_prd (w_k w) (\<lambda>p. p\<lparr>prd_addr := u32 (phys + w_offset w), prd_size := u16 n,
                                  EDT := (full \<or> EDT p)\<rparr>) (w_tbl w)))"

text \<open>The body of the innermost loop: one page.\<close>

definition pte_turn :: "user_mm \<Rightarrow> prd_walk \<Rightarrow> (prd_exit + prd_walk) option" where
  "pte_turn mm w =
     (let (valid, phys) = pte mm (w_from w); from1 = u32 (w_from w + 4096) in
      if w_offset w < 4096 then
        if \<not> valid then Some (Inl (Fault w))
        else let n = min (w_size w) (4096 - w_offset w) in
          (case prd_put phys n w of None \<Rightarrow> None
           | Some (w1, full) \<Rightarrow>
             if full then Some (Inl (Fault w1))
             else let size1 = w_size w - n in
               (case upd_prd (w_k w1 - 1) (\<lambda>p. p\<lparr>reserve := 0, EDT := (size1 = 0)\<rparr>) (w_tbl w1) of None \<Rightarrow> None
                | Some t \<Rightarrow>
                  let w2 = w1\<lparr>w_tbl := t, w_size := size1\<rparr> in
                  if size1 = 0 then Some (Inl (Finished w2))
                  else Some (Inr (w2\<lparr>w_offset := 0, w_from := from1\<rparr>))))
      else Some (Inr (w\<lparr>w_offset := w_offset w - 4096, w_from := from1\<rparr>)))"

text \<open>\<^verbatim>\<open>do { ... } while (from && (from < end))\<close>, the shape of the three nested loops.\<close>

partial_function (option) walk_to ::
    "(prd_walk \<Rightarrow> (prd_exit + prd_walk) option) \<Rightarrow> int \<Rightarrow> prd_walk \<Rightarrow> (prd_exit + prd_walk) option" where
  "walk_to body ed w =
     (case body w of None \<Rightarrow> None
      | Some (Inl x) \<Rightarrow> Some (Inl x)
      | Some (Inr w1) \<Rightarrow> if w_from w1 \<noteq> 0 \<and> w_from w1 < ed then walk_to body ed w1 else Some (Inr w1))"

text \<open>\<^verbatim>\<open>(from + PMD_SIZE) & PMD_MASK\<close>; \<^verbatim>\<open>PGDIR_SIZE\<close> is the same 2 megabytes.\<close>

definition pmd_next :: "int \<Rightarrow> int" where
  "pmd_next from = u32 (from + 0x200000) div 0x200000 * 0x200000"

definition pte_loop :: "user_mm \<Rightarrow> int \<Rightarrow> prd_walk \<Rightarrow> (prd_exit + prd_walk) option" where
  "pte_loop mm = walk_to (pte_turn mm)"

definition pmd_loop :: "user_mm \<Rightarrow> int \<Rightarrow> prd_walk \<Rightarrow> (prd_exit + prd_walk) option" where
  "pmd_loop mm pmd_end = walk_to (\<lambda>w. pte_loop mm (min (pmd_next (w_from w)) pmd_end) w) pmd_end"

definition pgd_loop :: "user_mm \<Rightarrow> int \<Rightarrow> prd_walk \<Rightarrow> (prd_exit + prd_walk) option" where
  "pgd_loop mm ed = walk_to (\<lambda>w. pmd_loop mm (min (pmd_next (w_from w)) ed) w) ed"

text \<open>\<^verbatim>\<open>while (size > 0)\<close>, over the areas of the task.\<close>

partial_function (option) vma_loop :: "user_mm \<Rightarrow> int \<Rightarrow> prd_walk \<Rightarrow> prd_exit option" where
  "vma_loop mm user w =
     (if w_size w \<le> 0 then Some (Finished w)
      else case find_vma mm user of
        None \<Rightarrow> map_option (\<lambda>t. Fault (w\<lparr>w_tbl := t\<rparr>)) (upd_prd (w_k w) (\<lambda>p. p\<lparr>EDT := True\<rparr>) (w_tbl w))
      | Some v \<Rightarrow>
          (case pgd_loop mm (PAGE_ALIGN (vm_end v)) (w\<lparr>w_from := vm_start v, w_offset := u32 (user - vm_start v)\<rparr>) of
             None \<Rightarrow> None
           | Some (Inl x) \<Rightarrow> Some x
           | Some (Inr w1) \<Rightarrow> vma_loop mm (w_from w1) w1))"

text \<open>The loop behind the label \<^verbatim>\<open>finished\<close>: the ranges that are flushed from the caches.\<close>

fun prd_flush :: "prdt_struct list \<Rightarrow> (int \<times> int) list option" where
  "prd_flush [] = None"
| "prd_flush (p # ps) =
     (let r = (prd_addr p, u32 (prd_addr p + prd_size p))
      in if EDT p then Some [r] else map_option (Cons r) (prd_flush ps))"

text \<open>The results of the three methods: the table, the return value, and what was flushed.\<close>

definition user_to_prdt0 ::
    "user_mm \<Rightarrow> int \<Rightarrow> int \<Rightarrow> prdt_struct list option \<Rightarrow> int \<Rightarrow>
     (prdt_struct list option \<times> (errno + int) \<times> (int \<times> int) list) option" where
  "user_to_prdt0 mm user sz next items =
     (case next of None \<Rightarrow> Some (None, Inl EINVAL, [])
      | Some tbl \<Rightarrow>
        if sz div 4096 + 2 > items then Some (next, Inl EINVAL, [])
        else case vma_loop mm user \<lparr>w_from = 0, w_offset = 0, w_size = sz, w_items = items, w_tbl = tbl, w_k = 0\<rparr> of
          None \<Rightarrow> None
        | Some (Fault w) \<Rightarrow> Some (Some (w_tbl w), Inl EFAULT, [])
        | Some (Finished w) \<Rightarrow> map_option (\<lambda>fl. (Some (w_tbl w), Inr 0, fl)) (prd_flush (w_tbl w)))"

section \<open>The methods with \<^verbatim>\<open>get_user_pages\<close>\<close>

text \<open>One page of user memory: a new entry, or more of the entry at \<^verbatim>\<open>next\<close>.\<close>

definition prd_add ::
    "int \<Rightarrow> int \<Rightarrow> int \<Rightarrow> prdt_struct list \<times> nat \<Rightarrow> (prdt_struct list \<times> nat) option" where
  "prd_add pg_idx phys pg_size st =
     (let (tbl, k) = st; p = tbl ! k in
      if k \<ge> length tbl then None
      else if u32 (prd_addr p + prd_size p) \<noteq> phys \<or> prd_size p + pg_size \<ge> 65536 \<or> pg_idx = 0 then
        (case (if pg_idx \<noteq> 0 then map_option (\<lambda>t. (t, Suc k)) (upd_prd k (\<lambda>p. p\<lparr>EDT := False\<rparr>) tbl)
               else Some (tbl, k)) of None \<Rightarrow> None
         | Some (t, k1) \<Rightarrow>
             map_option (\<lambda>t1. (t1, k1))
               (upd_prd k1 (\<lambda>_. \<lparr>prd_addr = phys, prd_size = u16 pg_size, reserve = 0, EDT = True\<rparr>) t))
      else map_option (\<lambda>t. (t, k))
             (upd_prd k (\<lambda>p. p\<lparr>prd_size := u16 (prd_size p + pg_size), EDT := True\<rparr>) tbl))"

text \<open>The kernel's own memory, mapped to the task, is refused with \<^verbatim>\<open>BUG_ON(1)\<close>.\<close>

definition io_mapped :: "user_mm \<Rightarrow> int \<Rightarrow> bool" where
  "io_mapped mm user \<longleftrightarrow> (case find_vma mm user of None \<Rightarrow> False | Some v \<Rightarrow> vm_io v \<and> vm_pgoff v \<noteq> 0)"

text \<open>The loop of \<^verbatim>\<open>__user_to_prdt1\<close>. The entries of \<^verbatim>\<open>pg_user\<close> behind those that were obtained are
  null pointers.\<close>

function prdt1_loop ::
    "int list \<Rightarrow> nat \<Rightarrow> int \<Rightarrow> int \<Rightarrow> prdt_struct list \<times> nat \<Rightarrow> (prdt_struct list \<times> nat) option" where
  "prdt1_loop pg_user pg_idx ptr sz st =
     (if sz \<le> 0 then Some st
      else if pg_idx \<ge> length pg_user then None
      else let pg_size = min sz (4096 - ptr mod 4096) in
        (case prd_add (int pg_idx) (pg_user ! pg_idx + ptr mod 4096) pg_size st of None \<Rightarrow> None
         | Some st1 \<Rightarrow> prdt1_loop pg_user (Suc pg_idx) (ptr + pg_size) (sz - pg_size) st1))"
  by pat_completeness auto
termination
  by (relation "measure (\<lambda>(pg_user, pg_idx, ptr, sz, st). length pg_user - pg_idx)") auto

declare prdt1_loop.simps [simp del]

definition user_to_prdt1 ::
    "user_mm \<Rightarrow> int \<Rightarrow> int \<Rightarrow> prdt_struct list option \<Rightarrow> int \<Rightarrow>
     (prdt_struct list option \<times> (errno + int) \<times> (int \<times> int) list) option" where
  "user_to_prdt1 mm user sz next items =
     (let nr_pages = u32 (sz + 4095) div 4096 in
      if io_mapped mm user then None
      else case next of None \<Rightarrow> Some (None, Inl EINVAL, [])
      | Some tbl \<Rightarrow>
        if sz div 4096 + 2 > items \<or> nr_pages > 2560 then Some (next, Inl EINVAL, [])
        else let pg_user = get_user_pages mm user nr_pages in
          (case (if pg_user = [] then Some (tbl, 0) else prdt1_loop pg_user 0 user sz (tbl, 0)) of None \<Rightarrow> None
           | Some (t, k) \<Rightarrow>
               map_option (\<lambda>t1. (Some t1, Inr (if pg_user = [] then sz else 0), []))
                 (upd_prd k (\<lambda>p. p\<lparr>EDT := True\<rparr>) t)))"

text \<open>The loop of \<^verbatim>\<open>__user_to_prdt2\<close>, which asks for one page a turn.\<close>

function prdt2_loop ::
    "user_mm \<Rightarrow> nat \<Rightarrow> int \<Rightarrow> int \<Rightarrow> prdt_struct list \<times> nat \<Rightarrow> (prdt_struct list \<times> (errno + int)) option" where
  "prdt2_loop mm pg_idx ptr sz st =
     (if sz \<le> 0 then Some (fst st, Inr 0)
      else let pg_size = min sz (4096 - ptr mod 4096) in
        (case get_user_pages mm ptr 1 of
           [page] \<Rightarrow>
             (case prd_add (int pg_idx) (page + ptr mod 4096) pg_size st of None \<Rightarrow> None
              | Some st1 \<Rightarrow> prdt2_loop mm (Suc pg_idx) (ptr + pg_size) (sz - pg_size) st1)
         | _ \<Rightarrow> map_option (\<lambda>t. (t, Inl EFAULT)) (upd_prd (snd st) (\<lambda>p. p\<lparr>EDT := True\<rparr>) (fst st))))"
  by pat_completeness auto
termination
proof (relation "measure (\<lambda>(mm, pg_idx, ptr, sz, st). nat sz)", goal_cases)
  case (2 mm pg_idx ptr sz st pg_size)
  have "ptr mod 4096 < 4096" by simp
  then have "0 < pg_size" using 2(1, 2) by (simp add: min_def)
  then show ?case using 2(1) by simp
qed simp

declare prdt2_loop.simps [simp del]

definition user_to_prdt2 ::
    "user_mm \<Rightarrow> int \<Rightarrow> int \<Rightarrow> prdt_struct list option \<Rightarrow> int \<Rightarrow>
     (prdt_struct list option \<times> (errno + int) \<times> (int \<times> int) list) option" where
  "user_to_prdt2 mm user sz next items =
     (if io_mapped mm user then None
      else case next of None \<Rightarrow> Some (None, Inl EINVAL, [])
      | Some tbl \<Rightarrow>
        if sz div 4096 + 2 > items then Some (next, Inl EINVAL, [])
        else map_option (\<lambda>(t, ret). (Some t, ret, [])) (prdt2_loop mm 0 user sz (tbl, 0)))"

text \<open>\<open>meth\<close> is the variable \<^verbatim>\<open>USR2PRDT_METHOD\<close>.\<close>

definition user_to_prdt ::
    "int \<Rightarrow> user_mm \<Rightarrow> int \<Rightarrow> int \<Rightarrow> prdt_struct list option \<Rightarrow> int \<Rightarrow>
     (prdt_struct list option \<times> (errno + int) \<times> (int \<times> int) list) option" where
  "user_to_prdt meth mm user sz next items =
     (if meth = 1 then user_to_prdt1 mm user sz next items
      else if meth = 2 then user_to_prdt2 mm user sz next items
      else user_to_prdt0 mm user sz next items)"

text \<open>The kernel address of a user address, 0 when there is none.\<close>

definition user_to_virt :: "user_mm \<Rightarrow> int \<Rightarrow> int" where
  "user_to_virt mm user =
     (case find_vma mm user of
        Some v \<Rightarrow>
          if vm_io v \<and> vm_pgoff v \<noteq> 0 then va (u32 (u32 (vm_pgoff v * 4096) + (user - vm_start v)))
          else (case get_user_pages mm user 1 of [page] \<Rightarrow> u32 (va page + user mod 4096) | _ \<Rightarrow> 0)
      | None \<Rightarrow> (case get_user_pages mm user 1 of [page] \<Rightarrow> u32 (va page + user mod 4096) | _ \<Rightarrow> 0))"

end
