(* ===== verification/MbPrdtProps.thy ===== *)
theory MbPrdtProps
  imports MbPrdt MbAlloc
begin

text \<open>
  What \<^verbatim>\<open>user_to_prdt\<close> writes: the entries of the table, one after the other, are the physical
  addresses of the bytes of the user memory in their order.
\<close>

section \<open>Tables\<close>

text \<open>The addresses that a table describes, and those behind a range of user memory when \<open>pm\<close> is the
  physical address of each page.\<close>

definition prd_bytes :: "prdt_struct list \<Rightarrow> int list" where
  "prd_bytes ps = concat (map (\<lambda>p. [prd_addr p .. prd_addr p + prd_size p - 1]) ps)"

definition phys_at :: "(int \<Rightarrow> int) \<Rightarrow> int \<Rightarrow> int" where
  "phys_at pm a = pm (a div 4096 * 4096) + a mod 4096"

definition user_bytes :: "(int \<Rightarrow> int) \<Rightarrow> int \<Rightarrow> int \<Rightarrow> int list" where
  "user_bytes pm u n = map (phys_at pm) [u .. u + n - 1]"

lemma upto_append: "i \<le> j \<Longrightarrow> j \<le> k \<Longrightarrow> [i .. j - 1] @ [j .. k - 1] = [i .. k - (1 :: int)]"
proof (cases "j < k")
  case True
  then show "i \<le> j \<Longrightarrow> ?thesis" using upto_split1 [of i j "k - 1"] by simp
qed simp

lemma upto_map_add: "map ((+) c) [i .. j] = [c + i .. c + (j :: int)]"
proof (induction i j rule: upto.induct)
  case (1 i j)
  show ?case
  proof (cases "i \<le> j")
    case True
    then have "map ((+) c) [i .. j] = (c + i) # [c + (i + 1) .. c + j]" using 1 by (simp add: upto_rec1)
    also have "\<dots> = [c + i .. c + j]" using True by (simp add: upto_rec1 [of "c + i"] add.assoc)
    finally show ?thesis .
  qed simp
qed

lemma user_bytes_append: "0 \<le> m \<Longrightarrow> 0 \<le> n \<Longrightarrow> user_bytes pm u m @ user_bytes pm (u + m) n = user_bytes pm u (m + n)"
  using upto_append [of u "u + m" "u + m + n"] by (simp add: user_bytes_def map_append [symmetric] add.assoc del: map_append)

text \<open>The bytes of one page are consecutive.\<close>

lemma user_bytes_page:
  assumes "0 < n" "u mod 4096 + n \<le> 4096"
  shows "user_bytes pm u n = [phys_at pm u .. phys_at pm u + n - 1]"
proof -
  have eq: "phys_at pm a = (phys_at pm u - u) + a" if "a \<in> set [u .. u + n - 1]" for a
  proof -
    have r: "u \<le> a" "a < u + n" using that by auto
    have "a div 4096 = (u mod 4096 + (a - u)) div 4096 + u div 4096"
      using div_mult_self2 [of 4096 "u mod 4096 + (a - u)" "u div 4096"] by (simp add: mult.commute [of 4096])
    then have "a div 4096 = u div 4096" using r assms div_pos_pos_trivial [of "u mod 4096 + (a - u)" 4096] by simp
    moreover have "a mod 4096 = u mod 4096 + (a - u)" using calculation by (simp add: minus_div_mult_eq_mod [symmetric])
    ultimately show ?thesis by (simp add: phys_at_def)
  qed
  have "user_bytes pm u n = map ((+) (phys_at pm u - u)) [u .. u + n - 1]"
    unfolding user_bytes_def by (rule map_cong [OF refl]) (rule eq)
  also have "\<dots> = [phys_at pm u - u + u .. phys_at pm u - u + (u + n - 1)]" by (rule upto_map_add)
  finally show ?thesis by (simp add: add_diff_eq)
qed

text \<open>The entries written so far, for the bytes \<open>bs\<close>; the rest of the table is as it was.\<close>

definition prds_ok :: "prdt_struct list \<Rightarrow> int list \<Rightarrow> bool" where
  "prds_ok ps bs \<longleftrightarrow> prd_bytes ps = bs \<and> (\<forall>p \<in> set (butlast ps). \<not> EDT p) \<and>
     (\<forall>p \<in> set ps. 0 < prd_size p \<and> prd_size p < 65536 \<and> 0 \<le> prd_addr p \<and> prd_addr p + prd_size p < 4294967296)"

definition prd_tbl :: "prdt_struct list \<Rightarrow> prdt_struct list \<Rightarrow> prdt_struct list" where
  "prd_tbl tbl0 ps = ps @ drop (length ps) tbl0"

lemma prd_tbl_Nil [simp]: "prd_tbl tbl0 [] = tbl0"
  by (simp add: prd_tbl_def)

lemma prds_ok_Nil [simp]: "prds_ok [] []"
  by (simp add: prds_ok_def prd_bytes_def)

lemma prd_bytes_snoc: "prd_bytes (ps @ [q]) = prd_bytes ps @ [prd_addr q .. prd_addr q + prd_size q - 1]"
  by (simp add: prd_bytes_def)

lemma length_prd_tbl [simp]: "length ps \<le> length tbl0 \<Longrightarrow> length (prd_tbl tbl0 ps) = length tbl0"
  by (simp add: prd_tbl_def)

lemma upd_prd_new:
  assumes "length ps < length tbl0"
  shows "upd_prd (length ps) f (prd_tbl tbl0 ps) = Some (prd_tbl tbl0 (ps @ [f (tbl0 ! length ps)]))"
  using assms by (simp add: upd_prd_def prd_tbl_def Cons_nth_drop_Suc [symmetric])

lemma upd_prd_last: "upd_prd (length qs) f (prd_tbl tbl0 (qs @ [p])) = Some (prd_tbl tbl0 (qs @ [f p]))"
  by (simp add: upd_prd_def prd_tbl_def)

lemma nth_prd_tbl_last [simp]: "prd_tbl tbl0 (qs @ [p]) ! length qs = p"
  by (simp add: prd_tbl_def)

lemma prds_ok_grow:
  assumes "prds_ok (qs @ [p]) bs" "prd_addr q = prd_addr p" "prd_size q = prd_size p + n" "0 < n" "prd_size q < 65536"
    "prd_addr p + prd_size p + n < 4294967296"
  shows "prds_ok (qs @ [q]) (bs @ [prd_addr p + prd_size p .. prd_addr p + prd_size p + n - 1])"
  using assms upto_append [of "prd_addr p" "prd_addr p + prd_size p" "prd_addr p + prd_size p + n"]
  by (auto simp: prds_ok_def prd_bytes_snoc add.assoc)

lemma prds_ok_new:
  assumes "prds_ok ps bs" "\<forall>p \<in> set ps. \<not> EDT p" "0 < prd_size q" "prd_size q < 65536" "0 \<le> prd_addr q"
    "prd_addr q + prd_size q < 4294967296"
  shows "prds_ok (ps @ [q]) (bs @ [prd_addr q .. prd_addr q + prd_size q - 1])"
  using assms by (auto simp: prds_ok_def prd_bytes_snoc)

lemma prds_ok_flags:
  assumes "prds_ok (qs @ [p]) bs" "prd_addr q = prd_addr p" "prd_size q = prd_size p"
  shows "prds_ok (qs @ [q]) bs"
  using assms by (auto simp: prds_ok_def prd_bytes_snoc)

lemma prd_flush_tbl:
  assumes "ps \<noteq> []" "prds_ok ps bs" "EDT (last ps)"
  shows "prd_flush (prd_tbl tbl0 ps) = Some (map (\<lambda>p. (prd_addr p, prd_addr p + prd_size p)) ps)"
proof -
  have "prd_flush (ps @ xs) = Some (map (\<lambda>p. (prd_addr p, prd_addr p + prd_size p)) ps)" for xs
    using assms
  proof (induction ps arbitrary: bs)
    case (Cons p ps)
    have u: "u32 (prd_addr p + prd_size p) = prd_addr p + prd_size p" using Cons.prems(2) by (auto simp: prds_ok_def cint)
    show ?case
    proof (cases "ps = []")
      case False
      then have "prds_ok ps (prd_bytes ps)" "\<not> EDT p" using Cons.prems(2) by (auto simp: prds_ok_def)
      with Cons.IH [OF False] Cons.prems(3) False u show ?thesis by (simp add: Let_def)
    qed (use Cons.prems u in \<open>simp add: Let_def\<close>)
  qed simp
  then show ?thesis by (simp add: prd_tbl_def)
qed

section \<open>The memory of the task\<close>

text \<open>The range of user memory is mapped: every byte lies in an area of the task below the kernel's
  addresses, and the page table and \<^verbatim>\<open>get_user_pages\<close> answer with the pages of \<open>pm\<close>.\<close>

definition user_page :: "user_mm \<Rightarrow> (int \<Rightarrow> int) \<Rightarrow> int \<Rightarrow> bool" where
  "user_page mm pm a \<longleftrightarrow>
     (let pg = a div 4096 * 4096 in
      pte mm pg = (True, pm pg) \<and> get_user_pages mm a 1 = [pm pg] \<and> 0 \<le> pm pg \<and> pm pg + 4096 < 4294967296)"

definition user_area :: "user_mm \<Rightarrow> int \<Rightarrow> bool" where
  "user_area mm a \<longleftrightarrow>
     (case find_vma mm a of None \<Rightarrow> False
      | Some v \<Rightarrow> 0 \<le> vm_start v \<and> vm_start v \<le> a \<and> a < vm_end v \<and> vm_end v \<le> 0xC0000000 \<and>
          vm_start v mod 4096 = 0 \<and> vm_end v mod 4096 = 0)"

definition user_mapped :: "user_mm \<Rightarrow> (int \<Rightarrow> int) \<Rightarrow> int \<Rightarrow> int \<Rightarrow> bool" where
  "user_mapped mm pm user sz \<longleftrightarrow>
     (\<forall>a. user \<le> a \<and> a < user + sz \<longrightarrow> user_page mm pm a \<and> user_area mm a) \<and> \<not> io_mapped mm user \<and>
     (let n = (sz + 4095) div 4096 in get_user_pages mm user n = map (\<lambda>i. pm ((user div 4096 + i) * 4096)) [0 .. n - 1])"

lemma phys_at_bounds:
  assumes "user_page mm pm a" "n \<le> 4096 - a mod 4096"
  shows "0 \<le> phys_at pm a" "phys_at pm a + n < 4294967296"
  using assms by (auto simp: user_page_def phys_at_def Let_def)

lemma aligned_next: "x mod 4096 = 0 \<Longrightarrow> y mod 4096 = 0 \<Longrightarrow> x < y \<Longrightarrow> x + 4096 \<le> (y :: int)"
proof -
  assume a: "x mod 4096 = 0" "y mod 4096 = 0" "x < y"
  obtain i j where "x = 4096 * i" "y = 4096 * j" using a(1, 2) by (meson dvd_def mod_0_imp_dvd)
  moreover have "i + 1 \<le> j" using a(3) calculation by simp
  ultimately show ?thesis by linarith
qed

text \<open>How many pages a range touches.\<close>

lemma pages_bound:
  assumes "0 \<le> t" "user \<le> u" "u < user + t"
  shows "u div 4096 - user div 4096 \<le> t div 4096 + (1 :: int)"
proof -
  have "u div 4096 \<le> (user + t) div 4096" using assms by (intro zdiv_mono1) auto
  also have "\<dots> = user div 4096 + t div 4096 + (user mod 4096 + t mod 4096) div 4096" by (rule div_add1_eq)
  also have "(user mod 4096 + t mod 4096) div 4096 \<le> 1"
    using pos_mod_bound [of 4096 user] pos_mod_bound [of 4096 t] by linarith
  finally show ?thesis by simp
qed

section \<open>The walk\<close>

text \<open>The state of the walk inside an area that ends at \<open>e\<close>: the next byte is \<open>w_offset\<close> behind
  \<open>w_from\<close>, and what is before it is in the table.\<close>

definition walk_at ::
    "(int \<Rightarrow> int) \<Rightarrow> int \<Rightarrow> int \<Rightarrow> int \<Rightarrow> prdt_struct list \<Rightarrow> int \<Rightarrow> prd_walk \<Rightarrow> bool" where
  "walk_at pm user sz items tbl0 u w \<longleftrightarrow>
     (\<exists>ps. w_tbl w = prd_tbl tbl0 ps \<and> w_k w = length ps \<and> w_items w = items - int (length ps) \<and>
        prds_ok ps (user_bytes pm user (u - user)) \<and> (\<forall>p \<in> set ps. \<not> EDT p) \<and>
        int (length ps) \<le> u div 4096 - user div 4096) \<and>
     w_size w = user + sz - u \<and> user \<le> u \<and> u < user + sz \<and> (u = user \<or> u mod 4096 = 0)"

definition walk_inv ::
    "(int \<Rightarrow> int) \<Rightarrow> int \<Rightarrow> int \<Rightarrow> int \<Rightarrow> prdt_struct list \<Rightarrow> int \<Rightarrow> prd_walk \<Rightarrow> bool" where
  "walk_inv pm user sz items tbl0 e w \<longleftrightarrow>
     walk_at pm user sz items tbl0 (w_from w + w_offset w) w \<and> 0 \<le> w_from w \<and> w_from w mod 4096 = 0 \<and>
     0 \<le> w_offset w \<and> w_from w + w_offset w \<le> e"

definition walk_done ::
    "(int \<Rightarrow> int) \<Rightarrow> int \<Rightarrow> int \<Rightarrow> int \<Rightarrow> prdt_struct list \<Rightarrow> prdt_struct list \<Rightarrow> bool" where
  "walk_done pm user sz items tbl0 tbl \<longleftrightarrow>
     (\<exists>ps. tbl = prd_tbl tbl0 ps \<and> ps \<noteq> [] \<and> int (length ps) \<le> items \<and> EDT (last ps) \<and>
        prds_ok ps (user_bytes pm user sz))"

text \<open>The table after one more piece of \<open>n\<close> bytes.\<close>

lemma prd_put_step:
  assumes w: "w_tbl w = prd_tbl tbl0 ps" "w_k w = length ps" "w_items w = items - int (length ps)"
    and ps: "prds_ok ps bs" "\<forall>p \<in> set ps. \<not> EDT p"
    and n: "0 < n" "n \<le> 4096" and off: "0 \<le> w_offset w" "0 \<le> phys" "phys + w_offset w + n < 4294967296"
    and tail: "w_offset w \<noteq> 0 \<Longrightarrow> ps = []"
    and room: "int (length ps) + 1 < items" "items \<le> int (length tbl0)"
  shows "\<exists>qs p. prd_put phys n w = Some (w\<lparr>w_tbl := prd_tbl tbl0 (qs @ [p]), w_k := Suc (length qs),
      w_items := items - int (Suc (length qs))\<rparr>, False) \<and>
    prds_ok (qs @ [p]) (bs @ [phys + w_offset w .. phys + w_offset w + n - 1]) \<and>
    (\<forall>p \<in> set qs. \<not> EDT p) \<and> length qs \<le> length ps"
proof -
  let ?prev = "w_tbl w ! (w_k w - 1)"
  show ?thesis
  proof (cases "w_k w > 0 \<and> prd_size ?prev \<le> 65536 - 2 * 4096 \<and> u32 (prd_addr ?prev + prd_size ?prev) = phys")
    case True
    then obtain qs p where ps': "ps = qs @ [p]" using w(2) by (cases ps rule: rev_cases) auto
    then have prev: "?prev = p" by (simp add: w)
    have b: "0 < prd_size p" "0 \<le> prd_addr p" "prd_addr p + prd_size p < 4294967296" using ps(1) ps' by (auto simp: prds_ok_def)
    then have e: "prd_addr p + prd_size p = phys" using True prev by (simp add: cint)
    have o: "w_offset w = 0" using tail ps' by auto
    have z: "u16 (prd_size p + n) = prd_size p + n" "prd_size p + n < 65536" using True prev b n by (auto simp: u16_def)
    let ?q = "p\<lparr>prd_size := u16 (prd_size p + n)\<rparr>"
    have "prds_ok (qs @ [?q]) (bs @ [phys .. phys + n - 1])"
      using prds_ok_grow [OF ps(1) [unfolded ps'], of ?q n] z n e off(3) o by simp
    moreover have "prd_put phys n w = Some (w\<lparr>w_tbl := prd_tbl tbl0 (qs @ [?q]), w_k := Suc (length qs),
        w_items := items - int (Suc (length qs))\<rparr>, False)"
      using True w by (simp add: prd_put_def Let_def ps' upd_prd_last)
    ultimately show ?thesis using ps' ps(2) o by (intro exI [of _ qs] exI [of _ ?q]) simp
  next
    case False
    let ?q = "(tbl0 ! length ps)\<lparr>prd_addr := u32 (phys + w_offset w), prd_size := u16 n, EDT := (False \<or> EDT (tbl0 ! length ps))\<rparr>"
    have lt: "length ps < length tbl0" using room by linarith
    have z: "u16 n = n" "u32 (phys + w_offset w) = phys + w_offset w" using n off by (simp_all add: u16_def cint)
    have "prds_ok (ps @ [?q]) (bs @ [phys + w_offset w .. phys + w_offset w + n - 1])"
      using prds_ok_new [OF ps, of ?q] z n off by simp
    moreover have "prd_put phys n w = Some (w\<lparr>w_tbl := prd_tbl tbl0 (ps @ [?q]), w_k := Suc (length ps),
        w_items := items - int (Suc (length ps))\<rparr>, False)"
    proof -
      have "\<not> items - int (length ps) - 1 = 0" using room by simp
      then show ?thesis using False upd_prd_new [OF lt] by (auto simp: prd_put_def Let_def w)
    qed
    ultimately show ?thesis using ps(2) by blast
  qed
qed

text \<open>One page.\<close>

lemma pte_turn_step:
  assumes mp: "user_mapped mm pm user sz" and items: "sz div 4096 + 3 \<le> items" "items \<le> int (length tbl0)"
    and inv: "walk_inv pm user sz items tbl0 e w" and e: "w_from w + 4096 \<le> e" "e \<le> 0xC0000000"
  shows "(\<exists>w'. pte_turn mm w = Some (Inl (Finished w')) \<and> walk_done pm user sz items tbl0 (w_tbl w')) \<or>
    (\<exists>w'. pte_turn mm w = Some (Inr w') \<and> walk_inv pm user sz items tbl0 e w' \<and> w_from w' = w_from w + 4096)"
proof -
  define u where "u = w_from w + w_offset w"
  have at: "walk_at pm user sz items tbl0 u w" and w0: "0 \<le> w_from w" "w_from w mod 4096 = 0" "0 \<le> w_offset w" "u \<le> e"
    using inv by (simp_all add: walk_inv_def u_def)
  obtain ps where ps: "w_tbl w = prd_tbl tbl0 ps" "w_k w = length ps" "w_items w = items - int (length ps)"
      "prds_ok ps (user_bytes pm user (u - user))" "\<forall>p \<in> set ps. \<not> EDT p" "int (length ps) \<le> u div 4096 - user div 4096"
    using at unfolding walk_at_def by blast
  have w: "w_size w = user + sz - u" "user \<le> u" "u < user + sz" "0 \<le> w_from w" "w_from w mod 4096 = 0" "0 \<le> w_offset w" "u \<le> e"
      "u = user \<or> u mod 4096 = 0"
    using at w0 unfolding walk_at_def by simp_all
  have f: "u32 (w_from w + 4096) = w_from w + 4096" using w e by (simp add: cint)
  have fm: "(w_from w + 4096) mod 4096 = 0" using w(5) by simp
  show ?thesis
  proof (cases "w_offset w < 4096")
    case False
    let ?w = "w\<lparr>w_offset := w_offset w - 4096, w_from := w_from w + 4096\<rparr>"
    have "pte_turn mm w = Some (Inr ?w)" using False f by (simp add: pte_turn_def Let_def split: prod.splits)
    moreover have "walk_inv pm user sz items tbl0 e ?w"
      using inv False fm w(4) by (simp add: walk_inv_def walk_at_def)
    ultimately show ?thesis by auto
  next
    case True
    have ud: "u div 4096 * 4096 = w_from w" "u mod 4096 = w_offset w"
    proof -
      obtain i where i: "w_from w = 4096 * i" using w(5) by (meson dvd_def mod_0_imp_dvd)
      then show "u mod 4096 = w_offset w" using True w(6) by (simp add: u_def)
      then show "u div 4096 * 4096 = w_from w" using minus_mod_eq_div_mult [of u 4096] by (simp add: u_def)
    qed
    have pg: "user_page mm pm u" using mp w(2, 3) by (simp add: user_mapped_def)
    define phys where "phys = pm (w_from w)"
    have pte: "pte mm (w_from w) = (True, phys)" and ph: "0 \<le> phys" "phys + 4096 < 4294967296"
      using pg by (simp_all add: user_page_def Let_def ud phys_def)
    define n where "n = min (w_size w) (4096 - w_offset w)"
    have n: "0 < n" "n \<le> 4096" "n \<le> 4096 - w_offset w" "n \<le> user + sz - u" using True w by (auto simp: n_def)
    have "sz \<ge> 0" using w by linarith
    then have room: "int (length ps) + 1 < items" using pages_bound [of sz user u] ps(6) w items by linarith
    have tail: "ps = []" if "w_offset w \<noteq> 0" using w(8) ud that ps(6) by auto
    obtain qs p where put: "prd_put phys n w = Some (w\<lparr>w_tbl := prd_tbl tbl0 (qs @ [p]), w_k := Suc (length qs),
        w_items := items - int (Suc (length qs))\<rparr>, False)"
      and qs: "prds_ok (qs @ [p]) (user_bytes pm user (u - user) @ [phys + w_offset w .. phys + w_offset w + n - 1])"
        "\<forall>p \<in> set qs. \<not> EDT p" "length qs \<le> length ps"
      using prd_put_step [OF ps(1-5) n(1, 2) w(6) ph(1) _ tail room items(2)] ph n by force
    have ub: "user_bytes pm user (u - user) @ [phys + w_offset w .. phys + w_offset w + n - 1] = user_bytes pm user (u + n - user)"
      using user_bytes_page [of n u pm] user_bytes_append [of "u - user" n pm user] n w ud by (simp add: phys_at_def phys_def algebra_simps)
    define q where "q = p\<lparr>reserve := 0, EDT := (w_size w - n = 0)\<rparr>"
    have q: "prds_ok (qs @ [q]) (user_bytes pm user (u + n - user))"
      using prds_ok_flags [OF qs(1) [unfolded ub], of q] by (simp add: q_def)
    define w2 where "w2 = w\<lparr>w_tbl := prd_tbl tbl0 (qs @ [q]), w_k := Suc (length qs),
        w_items := items - int (Suc (length qs)), w_size := w_size w - n\<rparr>"
    have turn: "pte_turn mm w = (if w_size w - n = 0 then Some (Inl (Finished w2))
        else Some (Inr (w2\<lparr>w_offset := 0, w_from := w_from w + 4096\<rparr>)))"
      using True put by (simp add: pte_turn_def pte f Let_def n_def [symmetric] upd_prd_last q_def w2_def)
    show ?thesis
    proof (cases "w_size w - n = 0")
      case fin: True
      then have "u + n - user = sz" using w(1) by simp
      then have "walk_done pm user sz items tbl0 (w_tbl w2)"
        using q qs(3) room fin unfolding walk_done_def by (intro exI [of _ "qs @ [q]"]) (simp add: w2_def q_def)
      then show ?thesis using turn fin by simp
    next
      case more: False
      then have un: "u + n = w_from w + 4096" using n(4) w(1) by (auto simp: n_def u_def min_def split: if_splits)
      have "int (Suc (length qs)) \<le> (w_from w + 4096) div 4096 - user div 4096"
        using qs(3) ps(6) ud(1) by simp
      then have "walk_at pm user sz items tbl0 (w_from w + 4096) w2"
        using q qs(2) more n w un unfolding walk_at_def
        by (intro conjI exI [of _ "qs @ [q]"]) (auto simp: w2_def q_def fm)
      then have "walk_inv pm user sz items tbl0 e (w2\<lparr>w_offset := 0, w_from := w_from w + 4096\<rparr>)"
        using e w(4) fm by (simp add: walk_inv_def walk_at_def)
      then show ?thesis using turn more by simp
    qed
  qed
qed

text \<open>A loop whose every turn advances and keeps an invariant runs to its end or finishes.\<close>

definition walk_ok ::
    "(prd_walk \<Rightarrow> bool) \<Rightarrow> (prdt_struct list \<Rightarrow> bool) \<Rightarrow> (prd_exit + prd_walk) option \<Rightarrow> (int \<Rightarrow> bool) \<Rightarrow> bool" where
  "walk_ok I Q r F \<longleftrightarrow>
     (\<exists>w. r = Some (Inl (Finished w)) \<and> Q (w_tbl w)) \<or> (\<exists>w. r = Some (Inr w) \<and> I w \<and> F (w_from w))"

lemma walk_to_rule:
  assumes step: "\<And>w. I w \<Longrightarrow> w_from w < ed \<Longrightarrow> walk_ok I Q (body w) (\<lambda>f. w_from w < f \<and> f \<le> ed)"
    and I0: "\<And>w. I w \<Longrightarrow> 0 \<le> w_from w"
    and w: "I w" "w_from w < ed"
  shows "walk_ok I Q (walk_to body ed w) (\<lambda>f. f = ed)"
  using w
proof (induction "nat (ed - w_from w)" arbitrary: w rule: less_induct)
  case less
  from step [OF less.prems] consider (fin) w' where "body w = Some (Inl (Finished w'))" "Q (w_tbl w')"
    | (go) w' where "body w = Some (Inr w')" "I w'" "w_from w < w_from w'" "w_from w' \<le> ed"
    unfolding walk_ok_def by blast
  then show ?case
  proof cases
    case fin
    then show ?thesis by (simp add: walk_to.simps [of body ed w] walk_ok_def)
  next
    case go
    then have nz: "w_from w' \<noteq> 0" using I0 [OF less.prems(1)] by simp
    show ?thesis
    proof (cases "w_from w' < ed")
      case True
      then show ?thesis using less.hyps [of w'] go nz by (simp add: walk_to.simps [of body ed w])
    next
      case False
      then show ?thesis using go by (simp add: walk_to.simps [of body ed w] walk_ok_def)
    qed
  qed
qed

lemma pmd_next_bounds:
  assumes "0 \<le> f" "f < 0xC0000000"
  shows "f < pmd_next f" "pmd_next f mod 4096 = 0"
proof -
  have u: "u32 (f + 0x200000) = f + 0x200000" using assms by (simp add: cint)
  have "f + 0x200000 < pmd_next f + 0x200000"
    unfolding pmd_next_def u using div_mult_mod_eq [of "f + 0x200000" "0x200000"] pos_mod_bound [of "0x200000" "f + 0x200000"] by linarith
  then show "f < pmd_next f" by simp
  have "pmd_next f = (f + 0x200000) div 0x200000 * 512 * 4096" by (simp add: pmd_next_def u)
  then show "pmd_next f mod 4096 = 0" by (simp only: mod_mult_self2_is_0)
qed

text \<open>The three nested loops together run over the pages up to the end of the area.\<close>

lemma pgd_loop_runs:
  assumes mp: "user_mapped mm pm user sz" and items: "sz div 4096 + 3 \<le> items" "items \<le> int (length tbl0)"
    and inv: "walk_inv pm user sz items tbl0 e w" and e: "w_from w < e" "e \<le> 0xC0000000" "e mod 4096 = 0"
  shows "walk_ok (walk_inv pm user sz items tbl0 e) (walk_done pm user sz items tbl0) (pgd_loop mm e w) (\<lambda>f. f = e)"
proof -
  let ?I = "walk_inv pm user sz items tbl0 e" and ?Q = "walk_done pm user sz items tbl0"
  have I0: "0 \<le> w_from v" "w_from v mod 4096 = 0" if "?I v" for v using that by (simp_all add: walk_inv_def)
  have pte: "walk_ok ?I ?Q (pte_loop mm d v) (\<lambda>f. f = d)" if "?I v" "w_from v < d" "d \<le> e" "d mod 4096 = 0" for v d
    unfolding pte_loop_def
  proof (rule walk_to_rule [where I = ?I])
    fix x assume x: "?I x" "w_from x < d"
    have "w_from x + 4096 \<le> d" using aligned_next [OF I0(2) [OF x(1)] that(4) x(2)] .
    with pte_turn_step [OF mp items x(1) _ e(2)] that(3)
    show "walk_ok ?I ?Q (pte_turn mm x) (\<lambda>f. w_from x < f \<and> f \<le> d)" unfolding walk_ok_def by fastforce
  qed (use that I0 in simp_all)
  have nx: "w_from v < min (pmd_next (w_from v)) d \<and> min (pmd_next (w_from v)) d \<le> d \<and> min (pmd_next (w_from v)) d mod 4096 = 0"
    if "?I v" "w_from v < d" "d \<le> e" "d mod 4096 = 0" for v d
    using pmd_next_bounds [OF I0(1) [OF that(1)]] that e(2) by (simp add: min_def)
  have level: "walk_ok ?I ?Q (walk_to (\<lambda>v. lp (min (pmd_next (w_from v)) d) v) d v) (\<lambda>f. f = d)"
    if lp: "\<And>v c. ?I v \<Longrightarrow> w_from v < c \<Longrightarrow> c \<le> e \<Longrightarrow> c mod 4096 = 0 \<Longrightarrow> walk_ok ?I ?Q (lp c v) (\<lambda>f. f = c)"
      and v: "?I v" "w_from v < d" "d \<le> e" "d mod 4096 = 0" for lp v d
  proof (rule walk_to_rule [where I = ?I])
    fix x assume x: "?I x" "w_from x < d"
    note n = nx [OF x v(3, 4)]
    have "walk_ok ?I ?Q (lp (min (pmd_next (w_from x)) d) x) (\<lambda>f. f = min (pmd_next (w_from x)) d)"
      using lp [OF x(1)] n v(3) by simp
    with n show "walk_ok ?I ?Q (lp (min (pmd_next (w_from x)) d) x) (\<lambda>f. w_from x < f \<and> f \<le> d)"
      unfolding walk_ok_def by fastforce
  qed (use v I0 in simp_all)
  have pmd: "walk_ok ?I ?Q (pmd_loop mm d v) (\<lambda>f. f = d)" if "?I v" "w_from v < d" "d \<le> e" "d mod 4096 = 0" for v d
    unfolding pmd_loop_def by (rule level [OF pte that])
  show ?thesis unfolding pgd_loop_def by (rule level [OF pmd inv e(1) order.refl e(3)])
qed

lemma PAGE_ALIGN_aligned:
  assumes "0 \<le> x" "x \<le> 0xC0000000" "x mod 4096 = 0"
  shows "PAGE_ALIGN x = x"
proof (rule ccontr)
  assume ne: "PAGE_ALIGN x \<noteq> x"
  have b: "x \<le> PAGE_ALIGN x" "PAGE_ALIGN x < x + 4096" using PAGE_ALIGN_spec(4) [of x] assms by simp_all
  then show False using aligned_next [OF assms(3) PAGE_ALIGN_spec(1) [of x]] ne by linarith
qed

lemma vma_loop_runs:
  assumes mp: "user_mapped mm pm user sz" and items: "sz div 4096 + 3 \<le> items" "items \<le> int (length tbl0)"
    and w: "walk_at pm user sz items tbl0 u w"
  shows "\<exists>w'. vma_loop mm u w = Some (Finished w') \<and> walk_done pm user sz items tbl0 (w_tbl w')"
  using w
proof (induction "nat (user + sz - u)" arbitrary: u w rule: less_induct)
  case less
  let ?I = "walk_inv pm user sz items tbl0"
  have u: "user \<le> u" "u < user + sz" "w_size w > 0" using less.prems by (auto simp: walk_at_def)
  then have "user_area mm u" using mp by (simp add: user_mapped_def)
  then obtain v where v: "find_vma mm u = Some v" "0 \<le> vm_start v" "vm_start v \<le> u" "u < vm_end v" "vm_end v \<le> 0xC0000000"
      "vm_start v mod 4096 = 0" "vm_end v mod 4096 = 0"
    by (auto simp: user_area_def split: option.splits)
  let ?w = "w\<lparr>w_from := vm_start v, w_offset := u - vm_start v\<rparr>"
  have o: "u32 (u - vm_start v) = u - vm_start v" "PAGE_ALIGN (vm_end v) = vm_end v"
    using v by (simp_all add: cint PAGE_ALIGN_aligned)
  have "?I (vm_end v) ?w" using less.prems v by (simp add: walk_inv_def walk_at_def)
  from pgd_loop_runs [OF mp items this _ v(5, 7)] v(3, 4)
  consider (fin) w' where "pgd_loop mm (vm_end v) ?w = Some (Inl (Finished w'))" "walk_done pm user sz items tbl0 (w_tbl w')"
    | (go) w' where "pgd_loop mm (vm_end v) ?w = Some (Inr w')" "?I (vm_end v) w'" "w_from w' = vm_end v"
    by (auto simp: walk_ok_def)
  then show ?case
  proof cases
    case fin
    then show ?thesis using u(3) v(1) o by (simp add: vma_loop.simps [of mm u w])
  next
    case go
    have "w_offset w' = 0" using go(2, 3) by (simp add: walk_inv_def)
    then have at: "walk_at pm user sz items tbl0 (vm_end v) w'" using go(2, 3) by (simp add: walk_inv_def)
    then have "vm_end v < user + sz" by (simp add: walk_at_def)
    then have "\<exists>x. vma_loop mm (vm_end v) w' = Some (Finished x) \<and> walk_done pm user sz items tbl0 (w_tbl x)"
      using less.hyps [OF _ at] v(4) by simp
    then show ?thesis using u(3) v(1) o go by (simp add: vma_loop.simps [of mm u w])
  qed
qed

section \<open>The methods with \<^verbatim>\<open>get_user_pages\<close>\<close>

lemma prd_add_step:
  assumes ps: "prds_ok ps bs" and n: "0 < n" "n \<le> 4096" and ph: "0 \<le> phys" "phys + n < 4294967296"
    and room: "length ps < length tbl0" and idx: "idx = 0 \<longleftrightarrow> ps = []"
  shows "\<exists>qs p. prd_add (int idx) phys n (prd_tbl tbl0 ps, length ps - 1) = Some (prd_tbl tbl0 (qs @ [p]), length qs) \<and>
    prds_ok (qs @ [p]) (bs @ [phys .. phys + n - 1]) \<and> EDT p \<and> length qs \<le> length ps"
proof (cases ps rule: rev_cases)
  case Nil
  let ?p = "\<lparr>prd_addr = phys, prd_size = u16 n, reserve = 0, EDT = True\<rparr>"
  have z: "u16 n = n" using n by (simp add: u16_def)
  have "prd_add (int idx) phys n (prd_tbl tbl0 ps, length ps - 1) = Some (prd_tbl tbl0 ([] @ [?p]), length [])"
    using Nil idx room upd_prd_new [of "[]" tbl0] by (simp add: prd_add_def Let_def)
  moreover have "prds_ok ([] @ [?p]) (bs @ [phys .. phys + n - 1])"
    using prds_ok_new [of "[]" bs ?p] ps Nil n ph z by simp
  ultimately show ?thesis by (intro exI [of _ "[]"] exI [of _ ?p]) simp
next
  case (snoc qs p)
  have i: "int idx \<noteq> 0" using idx snoc by simp
  have k: "length qs < length (prd_tbl tbl0 (qs @ [p]))" by (simp add: prd_tbl_def)
  have b: "0 < prd_size p" "0 \<le> prd_addr p" "prd_addr p + prd_size p < 4294967296" using ps snoc by (auto simp: prds_ok_def)
  then have u: "u32 (prd_addr p + prd_size p) = prd_addr p + prd_size p" by (simp add: cint)
  show ?thesis
  proof (cases "prd_addr p + prd_size p \<noteq> phys \<or> prd_size p + n \<ge> 65536")
    case True
    let ?p = "p\<lparr>EDT := False\<rparr>" and ?q = "\<lparr>prd_addr = phys, prd_size = u16 n, reserve = 0, EDT = True\<rparr>"
    have z: "u16 n = n" using n by (simp add: u16_def)
    have "prds_ok (qs @ [?p]) bs" using prds_ok_flags [OF ps [unfolded snoc], of ?p] by simp
    moreover have "\<forall>x \<in> set (qs @ [?p]). \<not> EDT x" using ps snoc by (auto simp: prds_ok_def)
    ultimately have "prds_ok ((qs @ [?p]) @ [?q]) (bs @ [phys .. phys + n - 1])"
      using prds_ok_new [of "qs @ [?p]" bs ?q] n ph z by simp
    moreover have "prd_add (int idx) phys n (prd_tbl tbl0 ps, length ps - 1) =
        Some (prd_tbl tbl0 ((qs @ [?p]) @ [?q]), length (qs @ [?p]))"
      using True i k u room upd_prd_new [of "qs @ [?p]" tbl0] by (auto simp: snoc prd_add_def Let_def upd_prd_last)
    ultimately show ?thesis by (intro exI [of _ "qs @ [?p]"] exI [of _ ?q]) (simp add: snoc)
  next
    case False
    let ?q = "p\<lparr>prd_size := u16 (prd_size p + n), EDT := True\<rparr>"
    have z: "u16 (prd_size p + n) = prd_size p + n" using False b n by (simp add: u16_def)
    have "prds_ok (qs @ [?q]) (bs @ [phys .. phys + n - 1])"
      using prds_ok_grow [OF ps [unfolded snoc], of ?q n] False n ph z by simp
    moreover have "prd_add (int idx) phys n (prd_tbl tbl0 ps, length ps - 1) = Some (prd_tbl tbl0 (qs @ [?q]), length qs)"
      using False i k u by (simp add: snoc prd_add_def Let_def upd_prd_last)
    ultimately show ?thesis by (intro exI [of _ qs] exI [of _ ?q]) (simp add: snoc)
  qed
qed

text \<open>The state of the two loops before the byte \<open>u\<close>, with \<open>idx\<close> pages done.\<close>

definition chunk_inv ::
    "(int \<Rightarrow> int) \<Rightarrow> int \<Rightarrow> int \<Rightarrow> prdt_struct list \<Rightarrow> int \<Rightarrow> nat \<Rightarrow> prdt_struct list \<times> nat \<Rightarrow> bool" where
  "chunk_inv pm user sz tbl0 u idx st \<longleftrightarrow>
     (\<exists>ps. st = (prd_tbl tbl0 ps, length ps - 1) \<and> prds_ok ps (user_bytes pm user (u - user)) \<and>
        length ps \<le> idx \<and> (idx = 0 \<longleftrightarrow> ps = []) \<and> (ps \<noteq> [] \<longrightarrow> EDT (last ps))) \<and>
     int idx \<le> sz div 4096 + 2 \<and> user \<le> u \<and> u \<le> user + sz \<and> (idx = 0 \<longrightarrow> u = user) \<and>
     (u < user + sz \<longrightarrow> int idx = u div 4096 - user div 4096)"

lemma chunk_step:
  assumes inv: "chunk_inv pm user sz tbl0 u idx st" and u: "u < user + sz" and pg: "user_page mm pm u"
    and n: "n = min (user + sz - u) (4096 - u mod 4096)" and room: "sz div 4096 + 3 \<le> int (length tbl0)"
  shows "\<exists>st'. prd_add (int idx) (phys_at pm u) n st = Some st' \<and> chunk_inv pm user sz tbl0 (u + n) (Suc idx) st'"
proof -
  obtain ps where ps: "st = (prd_tbl tbl0 ps, length ps - 1)" "prds_ok ps (user_bytes pm user (u - user))" "length ps \<le> idx"
      "idx = 0 \<longleftrightarrow> ps = []"
    using inv unfolding chunk_inv_def by blast
  have i: "user \<le> u" "int idx = u div 4096 - user div 4096" using inv u by (simp_all add: chunk_inv_def)
  have m: "u mod 4096 < 4096" "0 \<le> u mod 4096" by simp_all
  then have nb: "0 < n" "n \<le> 4096" "n \<le> 4096 - u mod 4096" "u + n \<le> user + sz" using u n by auto
  have idx: "int (Suc idx) \<le> sz div 4096 + 2" using pages_bound [of sz user u] i u by linarith
  obtain qs p where add: "prd_add (int idx) (phys_at pm u) n st = Some (prd_tbl tbl0 (qs @ [p]), length qs)"
    and q: "prds_ok (qs @ [p]) (user_bytes pm user (u - user) @ [phys_at pm u .. phys_at pm u + n - 1])" "EDT p" "length qs \<le> length ps"
    using prd_add_step [OF ps(2) nb(1, 2) phys_at_bounds [OF pg nb(3)] _ ps(4)] idx ps(1, 3) room by force
  have ub: "user_bytes pm user (u - user) @ [phys_at pm u .. phys_at pm u + n - 1] = user_bytes pm user (u + n - user)"
    using user_bytes_page [of n u pm] user_bytes_append [of "u - user" n pm user] nb i by (simp add: algebra_simps)
  have "int (Suc idx) = (u + n) div 4096 - user div 4096" if "u + n < user + sz"
  proof -
    have "u + n = (u div 4096 + 1) * 4096" using that n minus_mod_eq_div_mult [of u 4096] by (simp add: min_def split: if_splits)
    then have "(u + n) div 4096 = u div 4096 + 1" by simp
    then show ?thesis using i(2) by simp
  qed
  then have "chunk_inv pm user sz tbl0 (u + n) (Suc idx) (prd_tbl tbl0 (qs @ [p]), length qs)"
    unfolding chunk_inv_def using q ps(3) idx i nb ub by (intro conjI exI [of _ "qs @ [p]"]) auto
  then show ?thesis using add by blast
qed

lemma chunk_done:
  assumes inv: "chunk_inv pm user sz tbl0 (user + sz) idx st" and sz: "0 < sz" and items: "sz div 4096 + 3 \<le> items"
  shows "walk_done pm user sz items tbl0 (fst st)"
    and "\<exists>t. upd_prd (snd st) (\<lambda>p. p\<lparr>EDT := True\<rparr>) (fst st) = Some t \<and> walk_done pm user sz items tbl0 t"
proof -
  obtain ps where ps: "st = (prd_tbl tbl0 ps, length ps - 1)" "prds_ok ps (user_bytes pm user sz)" "length ps \<le> idx"
      "idx = 0 \<longleftrightarrow> ps = []" "ps \<noteq> [] \<longrightarrow> EDT (last ps)"
    using inv unfolding chunk_inv_def by auto
  have "idx \<noteq> 0" and le: "int (length ps) \<le> items" using inv sz ps(3) items by (auto simp: chunk_inv_def)
  then obtain qs p where q: "ps = qs @ [p]" using ps(4) by (cases ps rule: rev_cases) auto
  show "walk_done pm user sz items tbl0 (fst st)" using ps q le unfolding walk_done_def by auto
  have "p\<lparr>EDT := True\<rparr> = p" using ps(5) q by (cases p) simp
  then have "upd_prd (snd st) (\<lambda>p. p\<lparr>EDT := True\<rparr>) (fst st) = Some (fst st)" using ps(1) q upd_prd_last [of qs _ tbl0 p] by simp
  then show "\<exists>t. upd_prd (snd st) (\<lambda>p. p\<lparr>EDT := True\<rparr>) (fst st) = Some t \<and> walk_done pm user sz items tbl0 t"
    using \<open>walk_done pm user sz items tbl0 (fst st)\<close> by simp
qed

lemma prdt2_runs:
  assumes mp: "user_mapped mm pm user sz" and sz: "0 < sz" and items: "sz div 4096 + 3 \<le> items" "items \<le> int (length tbl0)"
    and inv: "chunk_inv pm user sz tbl0 u idx st"
  shows "\<exists>t. prdt2_loop mm idx u (user + sz - u) st = Some (t, Inr 0) \<and> walk_done pm user sz items tbl0 t"
  using inv
proof (induction "nat (user + sz - u)" arbitrary: u idx st rule: less_induct)
  case less
  have u: "user \<le> u" "u \<le> user + sz" using less.prems by (simp_all add: chunk_inv_def)
  show ?case
  proof (cases "u = user + sz")
    case True
    then show ?thesis using chunk_done(1) [of pm user sz tbl0 idx st, OF _ sz items(1)] less.prems by (simp add: prdt2_loop.simps)
  next
    case False
    then have lt: "u < user + sz" using u by simp
    have pg: "user_page mm pm u" using mp u lt by (simp add: user_mapped_def)
    then have gup: "get_user_pages mm u 1 = [pm (u div 4096 * 4096)]" by (simp add: user_page_def Let_def)
    define n where "n = min (user + sz - u) (4096 - u mod 4096)"
    have n: "0 < n" using lt pos_mod_bound [of 4096 u] by (simp add: n_def)
    obtain st' where st': "prd_add (int idx) (phys_at pm u) n st = Some st'" "chunk_inv pm user sz tbl0 (u + n) (Suc idx) st'"
      using chunk_step [OF less.prems lt pg n_def] items by auto
    have "\<exists>t. prdt2_loop mm (Suc idx) (u + n) (user + sz - (u + n)) st' = Some (t, Inr 0) \<and> walk_done pm user sz items tbl0 t"
      using less.hyps [OF _ st'(2)] n lt by simp
    moreover have "prdt2_loop mm idx u (user + sz - u) st = prdt2_loop mm (Suc idx) (u + n) (user + sz - (u + n)) st'"
      using lt st'(1) by (subst prdt2_loop.simps) (simp add: gup n_def [symmetric] phys_at_def diff_diff_eq Let_def)
    ultimately show ?thesis by simp
  qed
qed

lemma prdt1_runs:
  assumes mp: "user_mapped mm pm user sz" and items: "sz div 4096 + 3 \<le> items" "items \<le> int (length tbl0)"
    and pgs: "pgs = map (\<lambda>i. pm ((user div 4096 + i) * 4096)) [0 .. m - 1]" and m: "user mod 4096 + sz \<le> 4096 * m"
    and inv: "chunk_inv pm user sz tbl0 u idx st"
  shows "\<exists>st' idx'. prdt1_loop pgs idx u (user + sz - u) st = Some st' \<and> chunk_inv pm user sz tbl0 (user + sz) idx' st'"
  using inv
proof (induction "nat (user + sz - u)" arbitrary: u idx st rule: less_induct)
  case less
  have u: "user \<le> u" "u \<le> user + sz" using less.prems by (simp_all add: chunk_inv_def)
  show ?case
  proof (cases "u = user + sz")
    case True
    then show ?thesis using less.prems by (auto simp: prdt1_loop.simps)
  next
    case False
    then have lt: "u < user + sz" using u by simp
    have pg: "user_page mm pm u" using mp u lt by (simp add: user_mapped_def)
    have i: "int idx = u div 4096 - user div 4096" using less.prems lt by (simp add: chunk_inv_def)
    have "4096 * int idx < 4096 * m"
      using i m lt div_mult_mod_eq [of u 4096] div_mult_mod_eq [of user 4096] pos_mod_sign [of 4096 u] by linarith
    then have lm: "int idx < m" by simp
    have idx: "idx < length pgs" using lm by (simp add: pgs)
    have "pgs ! idx = pm ((user div 4096 + int idx) * 4096)" using idx lm nth_upto [of 0 idx "m - 1"] by (simp only: pgs length_map nth_map) simp
    moreover have "user div 4096 + int idx = u div 4096" using i by simp
    ultimately have idx2: "pgs ! idx = pm (u div 4096 * 4096)" by (simp only:)
    define n where "n = min (user + sz - u) (4096 - u mod 4096)"
    have n: "0 < n" using lt pos_mod_bound [of 4096 u] by (simp add: n_def)
    obtain st' where st': "prd_add (int idx) (phys_at pm u) n st = Some st'" "chunk_inv pm user sz tbl0 (u + n) (Suc idx) st'"
      using chunk_step [OF less.prems lt pg n_def] items by auto
    have "\<exists>st'' idx'. prdt1_loop pgs (Suc idx) (u + n) (user + sz - (u + n)) st' = Some st'' \<and> chunk_inv pm user sz tbl0 (user + sz) idx' st''"
      using less.hyps [OF _ st'(2)] n lt by simp
    moreover have "prdt1_loop pgs idx u (user + sz - u) st = prdt1_loop pgs (Suc idx) (u + n) (user + sz - (u + n)) st'"
      using lt st'(1) idx idx2 by (subst prdt1_loop.simps) (simp add: n_def [symmetric] phys_at_def diff_diff_eq Let_def)
    ultimately show ?thesis by simp
  qed
qed

section \<open>The properties\<close>

lemma few_pages: "sz \<le> 2560 * 4096 \<Longrightarrow> \<not> (sz + 4095) div 4096 > (2560 :: int)"
  using zdiv_mono1 [of "sz + 4095" "2560 * 4096 + 4095" 4096] by simp

lemma chunk_inv_start: "0 < sz \<Longrightarrow> chunk_inv pm user sz tbl0 user 0 (tbl0, 0)"
  unfolding chunk_inv_def by (intro conjI exI [of _ "[]"]) (simp_all add: user_bytes_def div_int_pos_iff)

lemma user_to_prdt_done:
  assumes mp: "user_mapped mm pm user sz" "0 < sz" and items: "sz div 4096 + 3 \<le> items" "items \<le> int (length tbl)"
    and one: "meth = 1 \<Longrightarrow> user mod 4096 = 0 \<and> sz \<le> 2560 * 4096"
  shows "\<exists>t fl. user_to_prdt meth mm user sz (Some tbl) items = Some (Some t, Inr 0, fl) \<and> walk_done pm user sz items tbl t \<and>
    (meth \<noteq> 1 \<and> meth \<noteq> 2 \<longrightarrow> prd_flush t = Some fl)"
proof -
  have g: "\<not> sz div 4096 + 2 > items" and io: "\<not> io_mapped mm user" using items mp(1) by (simp_all add: user_mapped_def)
  note st = chunk_inv_start [OF mp(2), of pm user tbl]
  consider (m1) "meth = 1" | (m2) "meth = 2" | (m0) "meth \<noteq> 1" "meth \<noteq> 2" by blast
  then show ?thesis
  proof cases
    case m1
    define m where "m = (sz + 4095) div 4096"
    have m: "u32 (sz + 4095) div 4096 = m" "\<not> m > 2560" using one [OF m1] mp(2) few_pages [of sz] by (simp_all add: m_def cint)
    have gup: "get_user_pages mm user m = map (\<lambda>i. pm ((user div 4096 + i) * 4096)) [0 .. m - 1]"
      using mp(1) by (simp add: user_mapped_def m_def Let_def)
    have "sz \<le> 4096 * m" using div_mult_mod_eq [of "sz + 4095" 4096] pos_mod_bound [of 4096 "sz + 4095"] unfolding m_def by linarith
    then have cov: "user mod 4096 + sz \<le> 4096 * m" and "0 < m" using one [OF m1] mp(2) by simp_all
    then have ne: "get_user_pages mm user m \<noteq> []" by (simp add: gup)
    obtain s k idx where r: "prdt1_loop (get_user_pages mm user m) 0 user sz (tbl, 0) = Some (s, k)"
        "chunk_inv pm user sz tbl (user + sz) idx (s, k)"
      using prdt1_runs [OF mp(1) items gup cov st] by auto
    then show ?thesis using chunk_done(2) [OF r(2) mp(2) items(1)] m m1 g io ne by (auto simp: user_to_prdt_def user_to_prdt1_def Let_def)
  next
    case m2
    then show ?thesis using prdt2_runs [OF mp items st] g io by (auto simp: user_to_prdt_def user_to_prdt2_def)
  next
    case m0
    let ?w = "\<lparr>w_from = 0, w_offset = 0, w_size = sz, w_items = items, w_tbl = tbl, w_k = 0\<rparr>"
    have "walk_at pm user sz items tbl user ?w"
      unfolding walk_at_def using mp(2) by (intro conjI exI [of _ "[]"]) (simp_all add: user_bytes_def)
    then obtain w where w: "vma_loop mm user ?w = Some (Finished w)" "walk_done pm user sz items tbl (w_tbl w)"
      using vma_loop_runs [OF mp(1) items] by blast
    then obtain ps where ps: "w_tbl w = prd_tbl tbl ps" "ps \<noteq> []" "EDT (last ps)" "prds_ok ps (user_bytes pm user sz)"
      unfolding walk_done_def by blast
    show ?thesis using prd_flush_tbl [OF ps(2, 4, 3), of tbl, folded ps(1)] w m0 g by (simp add: user_to_prdt_def user_to_prdt0_def)
  qed
qed

text \<open>C12. For user memory that is mapped, \<^verbatim>\<open>user_to_prdt\<close> succeeds with each of its methods (the one
  that gets all pages at once only from a page boundary on), stays inside the table, and writes entries
  whose addresses, one after the other, are the physical addresses of the bytes of the user memory. No
  entry is empty or has 64 kilobytes, exactly the last is marked as the end, the rest of the table is
  as it was, and the default method flushes exactly the ranges of the entries from the caches.\<close>

theorem user_to_prdt_exact:
  assumes mp: "user_mapped mm pm user sz" "0 < sz" and items: "sz div 4096 + 3 \<le> items" "items \<le> int (length tbl)"
    and one: "meth = 1 \<Longrightarrow> user mod 4096 = 0 \<and> sz \<le> 2560 * 4096"
  shows "\<exists>ps fl. user_to_prdt meth mm user sz (Some tbl) items = Some (Some (ps @ drop (length ps) tbl), Inr 0, fl) \<and>
    prd_bytes ps = user_bytes pm user sz \<and> ps \<noteq> [] \<and> int (length ps) \<le> items \<and>
    (\<forall>p \<in> set ps. 0 < prd_size p \<and> prd_size p < 65536) \<and> (\<forall>p \<in> set (butlast ps). \<not> EDT p) \<and> EDT (last ps) \<and>
    (meth \<noteq> 1 \<and> meth \<noteq> 2 \<longrightarrow> fl = map (\<lambda>p. (prd_addr p, prd_addr p + prd_size p)) ps)"
proof -
  obtain t fl where t: "user_to_prdt meth mm user sz (Some tbl) items = Some (Some t, Inr 0, fl)" "walk_done pm user sz items tbl t"
      "meth \<noteq> 1 \<and> meth \<noteq> 2 \<longrightarrow> prd_flush t = Some fl"
    using user_to_prdt_done [OF mp items one] by blast
  obtain ps where ps: "t = prd_tbl tbl ps" "ps \<noteq> []" "int (length ps) \<le> items" "EDT (last ps)" "prds_ok ps (user_bytes pm user sz)"
    using t(2) unfolding walk_done_def by blast
  have "meth \<noteq> 1 \<and> meth \<noteq> 2 \<longrightarrow> fl = map (\<lambda>p. (prd_addr p, prd_addr p + prd_size p)) ps"
    using t(3) prd_flush_tbl [OF ps(2, 5, 4), of tbl] ps(1) by auto
  then show ?thesis using t(1) ps unfolding prds_ok_def prd_tbl_def by (intro exI [of _ ps] exI [of _ fl]) simp
qed

lemma prdt1_short:
  assumes "4096 * (int (length pgs) - int idx) - ptr mod 4096 < s" "0 < s"
  shows "prdt1_loop pgs idx ptr s st = None"
  using assms
proof (induction "length pgs - idx" arbitrary: idx ptr s st)
  case 0
  then show ?case by (simp add: prdt1_loop.simps [of pgs idx])
next
  case (Suc k)
  then have lt: "idx < length pgs" and k: "k = length pgs - Suc idx" by simp_all
  define n where "n = 4096 - ptr mod 4096"
  have "1 \<le> int (length pgs) - int idx" using lt by simp
  then have big: "n < s" using Suc.prems(1) by (simp add: n_def)
  have "ptr + n = (ptr div 4096 + 1) * 4096" using minus_mod_eq_div_mult [of ptr 4096] by (simp add: n_def)
  then have al: "(ptr + n) mod 4096 = 0" by (simp only: mod_mult_self2_is_0)
  have "prdt1_loop pgs (Suc idx) (ptr + n) (s - n) x = None" for x
    using Suc.hyps(1) [OF k, of "ptr + n" "s - n" x] Suc.prems(1) big al by (simp add: n_def algebra_simps)
  moreover have "min s (4096 - ptr mod 4096) = n" using big by (simp add: n_def)
  ultimately show ?case using lt Suc.prems(2) by (subst prdt1_loop.simps) (simp add: Let_def split: option.splits)
qed

text \<open>The method that gets all pages at once asks for as many pages as the length alone needs. When the
  range does not start at a page boundary and its last bytes lie on one more page, the entry of that page is
  a null pointer, which is dereferenced.\<close>

theorem user_to_prdt_null_page:
  assumes "\<not> io_mapped mm user" "0 < sz" "sz \<le> 2560 * 4096" "sz div 4096 + 2 \<le> items"
    and pgs: "pgs = get_user_pages mm user ((sz + 4095) div 4096)" "pgs \<noteq> []" "int (length pgs) \<le> (sz + 4095) div 4096"
    and over: "4096 * ((sz + 4095) div 4096) < user mod 4096 + sz"
  shows "user_to_prdt 1 mm user sz (Some tbl) items = None"
proof -
  have m: "u32 (sz + 4095) = sz + 4095" "\<not> (sz + 4095) div 4096 > 2560" using assms(2, 3) few_pages [of sz] by (simp_all add: cint)
  have "prdt1_loop pgs 0 user sz (tbl, 0) = None"
    using prdt1_short [of pgs 0 user sz] pgs(3) over assms(2) by simp
  then show ?thesis using assms(1, 4) m pgs(2) by (simp add: user_to_prdt_def user_to_prdt1_def pgs(1) [symmetric] Let_def)
qed

section \<open>A task with three pages\<close>

definition pm1 :: "int \<Rightarrow> int" where
  "pm1 p = (if p = 0xA000 then 0x30000 else p + 0x8000)"

definition mm1 :: user_mm where
  "mm1 = \<lparr>find_vma = (\<lambda>_. Some \<lparr>vm_start = 0x8000, vm_end = 0xB000, vm_pgoff = 0, vm_io = False\<rparr>),
          pte = (\<lambda>p. (True, pm1 p)),
          get_user_pages = (\<lambda>a n. map (\<lambda>i. pm1 ((a div 4096 + i) * 4096)) [0 .. n - 1])\<rparr>"

definition tbl1 :: "prdt_struct list" where
  "tbl1 = replicate 5 \<lparr>prd_addr = 0, prd_size = 0, reserve = 0, EDT = False\<rparr>"

lemma mm1_mapped:
  assumes "0x8000 \<le> user" "user + sz \<le> 0xB000"
  shows "user_mapped mm1 pm1 user sz"
proof -
  have "0 \<le> pm1 (a div 4096 * 4096) \<and> pm1 (a div 4096 * 4096) + 4096 < 4294967296" if "0x8000 \<le> a" "a < 0xB000" for a
    using that div_mult_mod_eq [of a 4096] pos_mod_bound [of 4096 a] pos_mod_sign [of 4096 a] unfolding pm1_def by (smt (verit))
  then show ?thesis
    using assms by (auto simp: user_mapped_def user_page_def user_area_def io_mapped_def mm1_def Let_def)
qed

theorem user_to_prdt_exact_witness:
  "\<exists>ps fl. user_to_prdt 0 mm1 0x8FF0 0x1020 (Some tbl1) 5 = Some (Some (ps @ drop (length ps) tbl1), Inr 0, fl) \<and>
    prd_bytes ps = user_bytes pm1 0x8FF0 0x1020 \<and> EDT (last ps)"
proof -
  have "user_mapped mm1 pm1 0x8FF0 0x1020" by (rule mm1_mapped) simp_all
  from user_to_prdt_exact [OF this, where items = 5 and tbl = tbl1 and meth = 0] show ?thesis by (auto simp: tbl1_def)
qed

theorem user_to_prdt_null_page_witness:
  "user_to_prdt 1 mm1 0x8FFF 2 (Some []) 5 = None"
proof -
  have e: "get_user_pages mm1 0x8FFF ((2 + 4095) div 4096) = [pm1 0x8000]" by (simp add: mm1_def)
  show ?thesis
    by (rule user_to_prdt_null_page [where pgs = "[pm1 0x8000]"]) (simp_all only: e, simp_all add: io_mapped_def mm1_def)
qed

end
