(* ===== verification/WmtEnv.thy ===== *)
theory WmtEnv
  imports CPrelude
begin

text \<open>
  The U-Boot environment in flash, \<^verbatim>\<open>drivers/mtd/wmt_env.c\<close>: two copies of a block of
  \<^verbatim>\<open>name=value\<close> strings, each with a CRC and a flag that marks the active one.

  A byte is an \<^typ>\<open>int\<close> from 0 to 255 and a C string the list of its bytes without the
  terminating zero. The copy in RAM (\<^verbatim>\<open>env_ptr\<close>) is a record of CRC, flag and data bytes; an
  access outside of an array is the result \<open>None\<close>. The SPI flash is the list of its bytes:
  erasing sets bytes to \<^verbatim>\<open>0xFF\<close>, programming clears bits.
\<close>

section \<open>The checksum\<close>

definition sf_crc_table :: "int list" where
  "sf_crc_table = [
    0x00000000, 0x77073096, 0xee0e612c, 0x990951ba, 0x076dc419, 0x706af48f,
    0xe963a535, 0x9e6495a3, 0x0edb8832, 0x79dcb8a4, 0xe0d5e91e, 0x97d2d988,
    0x09b64c2b, 0x7eb17cbd, 0xe7b82d07, 0x90bf1d91, 0x1db71064, 0x6ab020f2,
    0xf3b97148, 0x84be41de, 0x1adad47d, 0x6ddde4eb, 0xf4d4b551, 0x83d385c7,
    0x136c9856, 0x646ba8c0, 0xfd62f97a, 0x8a65c9ec, 0x14015c4f, 0x63066cd9,
    0xfa0f3d63, 0x8d080df5, 0x3b6e20c8, 0x4c69105e, 0xd56041e4, 0xa2677172,
    0x3c03e4d1, 0x4b04d447, 0xd20d85fd, 0xa50ab56b, 0x35b5a8fa, 0x42b2986c,
    0xdbbbc9d6, 0xacbcf940, 0x32d86ce3, 0x45df5c75, 0xdcd60dcf, 0xabd13d59,
    0x26d930ac, 0x51de003a, 0xc8d75180, 0xbfd06116, 0x21b4f4b5, 0x56b3c423,
    0xcfba9599, 0xb8bda50f, 0x2802b89e, 0x5f058808, 0xc60cd9b2, 0xb10be924,
    0x2f6f7c87, 0x58684c11, 0xc1611dab, 0xb6662d3d, 0x76dc4190, 0x01db7106,
    0x98d220bc, 0xefd5102a, 0x71b18589, 0x06b6b51f, 0x9fbfe4a5, 0xe8b8d433,
    0x7807c9a2, 0x0f00f934, 0x9609a88e, 0xe10e9818, 0x7f6a0dbb, 0x086d3d2d,
    0x91646c97, 0xe6635c01, 0x6b6b51f4, 0x1c6c6162, 0x856530d8, 0xf262004e,
    0x6c0695ed, 0x1b01a57b, 0x8208f4c1, 0xf50fc457, 0x65b0d9c6, 0x12b7e950,
    0x8bbeb8ea, 0xfcb9887c, 0x62dd1ddf, 0x15da2d49, 0x8cd37cf3, 0xfbd44c65,
    0x4db26158, 0x3ab551ce, 0xa3bc0074, 0xd4bb30e2, 0x4adfa541, 0x3dd895d7,
    0xa4d1c46d, 0xd3d6f4fb, 0x4369e96a, 0x346ed9fc, 0xad678846, 0xda60b8d0,
    0x44042d73, 0x33031de5, 0xaa0a4c5f, 0xdd0d7cc9, 0x5005713c, 0x270241aa,
    0xbe0b1010, 0xc90c2086, 0x5768b525, 0x206f85b3, 0xb966d409, 0xce61e49f,
    0x5edef90e, 0x29d9c998, 0xb0d09822, 0xc7d7a8b4, 0x59b33d17, 0x2eb40d81,
    0xb7bd5c3b, 0xc0ba6cad, 0xedb88320, 0x9abfb3b6, 0x03b6e20c, 0x74b1d29a,
    0xead54739, 0x9dd277af, 0x04db2615, 0x73dc1683, 0xe3630b12, 0x94643b84,
    0x0d6d6a3e, 0x7a6a5aa8, 0xe40ecf0b, 0x9309ff9d, 0x0a00ae27, 0x7d079eb1,
    0xf00f9344, 0x8708a3d2, 0x1e01f268, 0x6906c2fe, 0xf762575d, 0x806567cb,
    0x196c3671, 0x6e6b06e7, 0xfed41b76, 0x89d32be0, 0x10da7a5a, 0x67dd4acc,
    0xf9b9df6f, 0x8ebeeff9, 0x17b7be43, 0x60b08ed5, 0xd6d6a3e8, 0xa1d1937e,
    0x38d8c2c4, 0x4fdff252, 0xd1bb67f1, 0xa6bc5767, 0x3fb506dd, 0x48b2364b,
    0xd80d2bda, 0xaf0a1b4c, 0x36034af6, 0x41047a60, 0xdf60efc3, 0xa867df55,
    0x316e8eef, 0x4669be79, 0xcb61b38c, 0xbc66831a, 0x256fd2a0, 0x5268e236,
    0xcc0c7795, 0xbb0b4703, 0x220216b9, 0x5505262f, 0xc5ba3bbe, 0xb2bd0b28,
    0x2bb45a92, 0x5cb36a04, 0xc2d7ffa7, 0xb5d0cf31, 0x2cd99e8b, 0x5bdeae1d,
    0x9b64c2b0, 0xec63f226, 0x756aa39c, 0x026d930a, 0x9c0906a9, 0xeb0e363f,
    0x72076785, 0x05005713, 0x95bf4a82, 0xe2b87a14, 0x7bb12bae, 0x0cb61b38,
    0x92d28e9b, 0xe5d5be0d, 0x7cdcefb7, 0x0bdbdf21, 0x86d3d2d4, 0xf1d4e242,
    0x68ddb3f8, 0x1fda836e, 0x81be16cd, 0xf6b9265b, 0x6fb077e1, 0x18b74777,
    0x88085ae6, 0xff0f6a70, 0x66063bca, 0x11010b5c, 0x8f659eff, 0xf862ae69,
    0x616bffd3, 0x166ccf45, 0xa00ae278, 0xd70dd2ee, 0x4e048354, 0x3903b3c2,
    0xa7672661, 0xd06016f7, 0x4969474d, 0x3e6e77db, 0xaed16a4a, 0xd9d65adc,
    0x40df0b66, 0x37d83bf0, 0xa9bcae53, 0xdebb9ec5, 0x47b2cf7f, 0x30b5ffe9,
    0xbdbdf21c, 0xcabac28a, 0x53b39330, 0x24b4a3a6, 0xbad03605, 0xcdd70693,
    0x54de5729, 0x23d967bf, 0xb3667a2e, 0xc4614ab8, 0x5d681b02, 0x2a6f2b94,
    0xb40bbe37, 0xc30c8ea1, 0x5a05df1b, 0x2d02ef8d]"

definition DO1 :: "int \<Rightarrow> int \<Rightarrow> int" where
  "DO1 crc b = sf_crc_table ! nat ((crc XOR b) AND 0xFF) XOR drop_bit 8 crc"

definition DO8 :: "int \<Rightarrow> int list \<Rightarrow> int" where
  "DO8 crc bs = DO1 (DO1 (DO1 (DO1 (DO1 (DO1 (DO1 (DO1 crc (bs ! 0)) (bs ! 1)) (bs ! 2)) (bs ! 3)) (bs ! 4)) (bs ! 5)) (bs ! 6)) (bs ! 7)"

text \<open>The two loops of \<^verbatim>\<open>env_crc32\<close>: eight bytes at a time, then one by one.\<close>

fun crc_rest :: "int \<Rightarrow> int list \<Rightarrow> int" where
  "crc_rest crc [] = crc"
| "crc_rest crc (b # bs) = crc_rest (DO1 crc b) bs"

function crc_loop :: "int \<Rightarrow> int list \<Rightarrow> int" where
  "crc_loop crc buf = (if length buf \<ge> 8 then crc_loop (DO8 crc buf) (drop 8 buf) else crc_rest crc buf)"
  by pat_completeness auto
termination
  by (relation "measure (\<lambda>(crc, buf). length buf)") auto

declare crc_loop.simps [simp del]

text \<open>\<open>nand\<close> is the strap test \<^verbatim>\<open>(val & 6) == 2\<close>: a copy in NAND flash has no flag byte.\<close>

definition env_crc32 :: "nat \<Rightarrow> bool \<Rightarrow> int list \<Rightarrow> int" where
  "env_crc32 env_max nand buf =
     (let len = (if nand then env_max - 4 else env_max - 5)
      in crc_loop (0 XOR 0xFFFFFFFF) (take len buf) XOR 0xFFFFFFFF)"

section \<open>Reading the strings\<close>

definition env_get_char :: "int list \<Rightarrow> nat \<Rightarrow> int option" where
  "env_get_char d i = (if i < length d then Some (d ! i) else None)"

text \<open>\<^verbatim>\<open>for (nxt = j; env_get_char(nxt) != 0; ++nxt);\<close>\<close>

function find_nul :: "int list \<Rightarrow> nat \<Rightarrow> nat option" where
  "find_nul d i = (case env_get_char d i of None \<Rightarrow> None
     | Some c \<Rightarrow> if c = 0 then Some i else find_nul d (Suc i))"
  by pat_completeness auto
termination
  by (relation "measure (\<lambda>(d, i). length d - i)") (auto simp: env_get_char_def split: if_splits)

declare find_nul.simps [simp del]

text \<open>\<open>envmatch d s1 p i2\<close>: the name is read at position \<open>p\<close>, its terminating zero included.
  \<open>Some (Some k)\<close> is a match with the value at \<open>k\<close>, \<open>Some None\<close> the result \<^verbatim>\<open>-1\<close>.\<close>

function envmatch :: "int list \<Rightarrow> int list \<Rightarrow> nat \<Rightarrow> nat \<Rightarrow> nat option option" where
  "envmatch d s1 p i2 =
     (case (env_get_char (s1 @ [0]) p, env_get_char d i2) of
        (Some a, Some b) \<Rightarrow>
          if a = b then (if a = 61 then Some (Some (Suc i2)) else envmatch d s1 (Suc p) (Suc i2))
          else if a = 0 \<and> b = 61 then Some (Some (Suc i2)) else Some None
      | _ \<Rightarrow> None)"
  by pat_completeness auto
termination
  by (relation "measure (\<lambda>(d, s1, p, i2). length d - i2)") (auto simp: env_get_char_def split: if_splits)

declare envmatch.simps [simp del]

lemma find_nul_bound: "find_nul d i = Some n \<Longrightarrow> i \<le> n \<and> n < length d"
proof (induction d i rule: find_nul.induct)
  case (1 d i)
  show ?case
  proof (cases "env_get_char d i")
    case None
    with "1.prems" show ?thesis by (simp add: find_nul.simps [of d i])
  next
    case (Some c)
    then have "i < length d" by (simp add: env_get_char_def split: if_splits)
    with "1" Some show ?thesis by (cases "c = 0") (auto simp: find_nul.simps [of d i])
  qed
qed

text \<open>The search loop that \<^verbatim>\<open>wmt_getsyspara\<close> and \<^verbatim>\<open>wmt_setsyspara\<close> share: the start and the end of
  the matching entry and the position of its value.\<close>

function env_search :: "int list \<Rightarrow> int list \<Rightarrow> nat \<Rightarrow> (nat \<times> nat \<times> nat) option option" where
  "env_search d name j =
     (case env_get_char d j of None \<Rightarrow> None
      | Some c \<Rightarrow>
        if c = 0 then Some None
        else case find_nul d j of None \<Rightarrow> None
        | Some nxt \<Rightarrow>
          (case envmatch d name 0 j of None \<Rightarrow> None
           | Some None \<Rightarrow> env_search d name (Suc nxt)
           | Some (Some k) \<Rightarrow> Some (Some (j, nxt, k))))"
  by pat_completeness auto
termination
  by (relation "measure (\<lambda>(d, name, j). length d - j)") (auto dest: find_nul_bound)

declare env_search.simps [simp del]

text \<open>The value search of \<^verbatim>\<open>wmt_getsyspara\<close>: \<open>k < 0\<close> or not, and the bytes stored in
  \<^verbatim>\<open>varval\<close>, the terminating zero included.\<close>

definition env_lookup :: "int list \<Rightarrow> int list \<Rightarrow> (bool \<times> int list) option" where
  "env_lookup d name =
     (case env_search d name 0 of None \<Rightarrow> None
      | Some None \<Rightarrow> Some (False, [0])
      | Some (Some (j, nxt, k)) \<Rightarrow> Some (True, take (nxt - k) (drop k d) @ [0]))"

section \<open>Changing the strings\<close>

definition put_char :: "int list \<Rightarrow> nat \<Rightarrow> int \<Rightarrow> int list option" where
  "put_char d i c = (if i < length d then Some (d[i := c]) else None)"

text \<open>The loop that closes the gap of a deleted entry; the result carries the last \<^verbatim>\<open>env\<close>.\<close>

function del_move :: "int list \<Rightarrow> nat \<Rightarrow> nat \<Rightarrow> (int list \<times> nat) option" where
  "del_move d env nxt =
     (case env_get_char d nxt of None \<Rightarrow> None
      | Some c \<Rightarrow>
        (case put_char d env c of None \<Rightarrow> None
         | Some d1 \<Rightarrow>
           (case env_get_char d1 (Suc nxt) of None \<Rightarrow> None
            | Some c1 \<Rightarrow> if c = 0 \<and> c1 = 0 then Some (d1, env) else del_move d1 (Suc env) (Suc nxt))))"
  by pat_completeness auto
termination
  by (relation "measure (\<lambda>(d, env, nxt). length d - nxt)")
     (auto simp: env_get_char_def put_char_def split: if_splits)

declare del_move.simps [simp del]

definition env_delete :: "int list \<Rightarrow> nat \<Rightarrow> nat \<Rightarrow> int list option" where
  "env_delete d env nxt =
     (case env_get_char d (Suc nxt) of None \<Rightarrow> None
      | Some c \<Rightarrow>
        (case (if c = 0 then (if env > 0 then Some (d, env - 1)
                              else map_option (\<lambda>d1. (d1, env)) (put_char d env 0))
               else del_move d env (Suc nxt)) of
           None \<Rightarrow> None
         | Some (d1, env1) \<Rightarrow> put_char d1 (Suc env1) 0))"

text \<open>\<^verbatim>\<open>for (env = env_data; *env || *(env+1); ++env);\<close>\<close>

function find_end :: "int list \<Rightarrow> nat \<Rightarrow> nat option" where
  "find_end d i =
     (case env_get_char d i of None \<Rightarrow> None
      | Some c \<Rightarrow>
        if c \<noteq> 0 then find_end d (Suc i)
        else case env_get_char d (Suc i) of None \<Rightarrow> None
        | Some c1 \<Rightarrow> if c1 \<noteq> 0 then find_end d (Suc i) else Some i)"
  by pat_completeness auto
termination
  by (relation "measure (\<lambda>(d, i). length d - i)") (auto simp: env_get_char_def split: if_splits)

declare find_end.simps [simp del]

fun put_string :: "int list \<Rightarrow> nat \<Rightarrow> int list \<Rightarrow> int list option" where
  "put_string d i [] = Some d"
| "put_string d i (c # cs) = (case put_char d i c of None \<Rightarrow> None | Some d1 \<Rightarrow> put_string d1 (Suc i) cs)"

text \<open>Appending a definition at the end; \<open>Some None\<close> is the overflow error.\<close>

definition env_append :: "nat \<Rightarrow> int list \<Rightarrow> int list \<Rightarrow> int list \<Rightarrow> int list option option" where
  "env_append env_max d name val =
     (case find_end d 0 of None \<Rightarrow> None
      | Some e0 \<Rightarrow>
        let e = (if e0 > 0 then Suc e0 else e0); len = length name + 2 + length val
        in if int len > int env_max - int e then Some None
           else map_option Some (put_string d e (name @ [61] @ val @ [0, 0])))"

definition baudrate_table :: "int list" where
  "baudrate_table = [9600, 19200, 38400, 57600, 115200]"

text \<open>\<^verbatim>\<open>simple_strtoul(varval, NULL, 10)\<close> on 32 bits.\<close>

definition simple_strtoul10 :: "int list \<Rightarrow> int" where
  "simple_strtoul10 s = foldl (\<lambda>n c. u32 (n * 10 + (c - 48))) 0 (takeWhile (\<lambda>c. 48 \<le> c \<and> c \<le> 57) s)"

definition baud_name :: "int list" where "baud_name = [98, 97, 117, 100, 114, 97, 116, 101]"

text \<open>
  The part of \<^verbatim>\<open>wmt_setsyspara\<close> that edits the data: the new data and, as a flag, whether the
  change is to be written back with \<^verbatim>\<open>env_update\<close>; without write-back the call fails.
\<close>

definition env_edit :: "nat \<Rightarrow> int list \<Rightarrow> int list \<Rightarrow> int list option \<Rightarrow> (int list \<times> bool) option" where
  "env_edit env_max d name varval =
     (case env_search d name 0 of None \<Rightarrow> None
      | Some old \<Rightarrow>
        if old \<noteq> None \<and> name = baud_name \<and> varval = None then None
        else if old \<noteq> None \<and> name = baud_name \<and> s32 (simple_strtoul10 (the varval)) \<notin> set baudrate_table
        then Some (d, False)
        else case (case old of None \<Rightarrow> Some d | Some (env, nxt, k) \<Rightarrow> env_delete d env nxt) of
          None \<Rightarrow> None
        | Some d1 \<Rightarrow>
            if varval = None \<or> varval = Some [] then Some (d1, old \<noteq> None)
            else case env_append env_max d1 name (the varval) of
              None \<Rightarrow> None
            | Some None \<Rightarrow> Some (d1, False)
            | Some (Some d2) \<Rightarrow> Some (d2, True))"

end
