(* ===== verification/WmtSf.thy ===== *)
theory WmtSf
  imports CPrelude
begin

text \<open>
  The SPI flash driver, \<^verbatim>\<open>drivers/mtd/devices/wmt_sf.c\<close>, with its table of chips
  \<^verbatim>\<open>wmt_sf_ids.c\<close>.

  The window that the controller maps at \<^verbatim>\<open>MTDSF_PHY_ADDR\<close> is a list of bytes. The chip is the
  hardware: erasing a sector sets its bytes to \<^verbatim>\<open>0xFF\<close>, storing into the window clears the bits
  that are zero in the stored byte. The k-th read of a status register, and of the error
  register next to it, is \<open>hw_sr chip k\<close>; a sector whose erase failed holds what
  \<open>hw_torn\<close> leaves of it. \<open>None\<close> is an access through a null pointer.

  Records of this state are extensible: a NAND chip of the same board keeps its state in the
  extension, which nothing here reads or writes.
\<close>

section \<open>State\<close>

record wmt_flash_info_t =
  fl_id :: int
  fl_phy :: int
  fl_val :: int
  fl_total :: int

record sfreg_t =
  CHIP_SEL_0_CFG :: int
  CHIP_SEL_1_CFG :: int
  SPI_INTF_CFG :: int
  SPI_RD_WR_CTR :: int
  SPI_WR_EN_CTR :: int
  SPI_ER_CTR :: int
  SPI_ER_START_ADDR :: int
  SPI_PROG_CMD_CTR :: int
  SPI_PROG_CMD_WBF0 :: int
  SPI_PROG_CMD_WBF1 :: int

record sf =
  sfreg :: sfreg_t
  PMCEU :: int
  MTDSF_PHY_ADDR :: int
  g_sf_force_size :: int
  g_sf_info0 :: wmt_flash_info_t
  g_sf_info1 :: wmt_flash_info_t
  reg_sf :: bool
  sf_mem :: "int list"
  sf_polls :: nat
  hw_sr :: "nat \<Rightarrow> nat \<Rightarrow> int \<times> int"
  hw_torn :: "int list \<Rightarrow> int list"

definition FLASH_UNKNOW :: int where "FLASH_UNKNOW = 0xFFFFFFFF"
definition SF_CLOCK_EN :: int where "SF_CLOCK_EN = 0x0800000"
definition MTDSF_TOTAL_SIZE :: int where "MTDSF_TOTAL_SIZE = 16 * 1024 * 1024"
definition MTDSF_ERASE_SIZE :: nat where "MTDSF_ERASE_SIZE = 64 * 1024"
definition ERR_OK :: int where "ERR_OK = 0"
definition ERR_TIMOUT :: int where "ERR_TIMOUT = 0x11"
definition ERR_PROG_ERROR :: int where "ERR_PROG_ERROR = 0x22"

definition clock_on :: "'n sf_scheme \<Rightarrow> 'n sf_scheme" where
  "clock_on s = s\<lparr>PMCEU := PMCEU s OR SF_CLOCK_EN\<rparr>"

definition clock_off :: "'n sf_scheme \<Rightarrow> 'n sf_scheme" where
  "clock_off s = s\<lparr>PMCEU := PMCEU s AND (SF_CLOCK_EN XOR 0xFFFFFFFF)\<rparr>"

definition set_wr_en :: "int \<Rightarrow> 'n sf_scheme \<Rightarrow> 'n sf_scheme" where
  "set_wr_en v s = s\<lparr>sfreg := (sfreg s)\<lparr>SPI_WR_EN_CTR := v\<rparr>\<rparr>"

section \<open>Finding the chips\<close>

definition SF_IDALL :: "int \<Rightarrow> int \<Rightarrow> int" where
  "SF_IDALL x y = push_bit 16 x OR y"

text \<open>The table ends with an entry whose id is 0.\<close>

definition sf_ids :: "(int \<times> int) list" where
  "sf_ids = [
    (SF_IDALL 0x1C 0x2015, 2*1024), (SF_IDALL 0x1C 0x2017, 8*1024), (SF_IDALL 0x1C 0x3113, 512),
    (SF_IDALL 0x1C 0x3115, 2*1024), (SF_IDALL 0x1C 0x3017, 8*1024),
    (SF_IDALL 0x20 0x2015, 2*1024), (SF_IDALL 0x20 0x2017, 8*1024),
    (SF_IDALL 0xC2 0x2010, 64), (SF_IDALL 0xC2 0x2015, 2*1024), (SF_IDALL 0xC2 0x2016, 4*1024),
    (SF_IDALL 0xC2 0x2017, 8*1024), (SF_IDALL 0xC2 0x2415, 2*1024), (SF_IDALL 0xC2 0x5E16, 4*1024),
    (SF_IDALL 0xC2 0x2018, 16*1024),
    (SF_IDALL 0x01 0x0214, 2*1024), (SF_IDALL 0x01 0x0216, 8*1024),
    (SF_IDALL 0xBF 0x2541, 2*1024),
    (SF_IDALL 0xEF 0x3015, 2*1024), (SF_IDALL 0xEF 0x3016, 4*1024), (SF_IDALL 0xEF 0x3017, 8*1024),
    (SF_IDALL 0xEF 0x4018, 16*1024), (SF_IDALL 0x1F 0x4401, 512), (0, 0)]"

text \<open>An id that is not in the table is taken for the second entry.\<close>

definition get_sf_info :: "wmt_flash_info_t \<Rightarrow> wmt_flash_info_t \<times> int" where
  "get_sf_info info =
     (if fl_id info = FLASH_UNKNOW then (info, -1)
      else case find (\<lambda>(i, _). i = fl_id info) (takeWhile (\<lambda>(i, _). i \<noteq> 0) sf_ids) of
        Some (_, kb) \<Rightarrow> (info\<lparr>fl_total := u32 (kb * 1024)\<rparr>, 0)
      | None \<Rightarrow> (info\<lparr>fl_id := fst (sf_ids ! 1), fl_total := u32 (snd (sf_ids ! 1) * 1024)\<rparr>, 0))"

text \<open>\<^verbatim>\<open>while (size) { size >>= 1; cnt++; }\<close>\<close>

function size_bits :: "int \<Rightarrow> int \<Rightarrow> int" where
  "size_bits sz cnt = (if sz \<le> 0 then cnt else size_bits (drop_bit 1 sz) (u32 (cnt + 1)))"
  by pat_completeness auto
termination
  by (relation "measure (\<lambda>(sz, cnt). nat sz)") (auto simp: drop_bit_eq_div)

declare size_bits.simps [simp del]

definition wmt_sfc_ccr :: "wmt_flash_info_t \<Rightarrow> wmt_flash_info_t" where
  "wmt_sfc_ccr info =
     (let cnt = u32 (push_bit 8 (u32 (size_bits (fl_total info) 0 - 16)))
      in info\<lparr>fl_val := fl_phy info OR cnt\<rparr>)"

text \<open>\<open>strap\<close> is \<^verbatim>\<open>GPIO_STRAP_STATUS_VAL\<close>, \<open>id0\<close> and \<open>id1\<close> what the two status registers read as.\<close>

definition wmt_sfc_init :: "int \<Rightarrow> int \<Rightarrow> int \<Rightarrow> 'n sf_scheme \<Rightarrow> 'n sf_scheme \<times> int" where
  "wmt_sfc_init strap id0 id1 s =
     (let boot = (strap AND 0x6 = 0);
          top = (if boot then 0xFFFFFFFF else 0xEFFFFFFF);
          none = \<lparr>fl_id = FLASH_UNKNOW, fl_phy = 0, fl_val = 0, fl_total = 0\<rparr>;
          r0 = (sfreg s)\<lparr>SPI_RD_WR_CTR := 0x01, SPI_INTF_CFG := 0x00030000,
                         CHIP_SEL_0_CFG := (if boot then 0xFF800800 else 0xEF800800)\<rparr>;
          i0 = fst (get_sf_info (none\<lparr>fl_id := id0\<rparr>));
          i1 = fst (get_sf_info (none\<lparr>fl_id := id1\<rparr>));
          s1 = s\<lparr>sfreg := r0, MTDSF_PHY_ADDR := top, g_sf_info0 := i0, g_sf_info1 := i1\<rparr>
      in if fl_id i0 = FLASH_UNKNOW then (s1, -1)
         else let j0 = i0\<lparr>fl_phy := u32 (top - fl_total i0 + 1)\<rparr>; s2 = s1\<lparr>g_sf_info0 := j0\<rparr> in
         if fl_phy j0 AND 0xFFFF \<noteq> 0 then (s2, -1)
         else let k0 = wmt_sfc_ccr j0;
                  s3 = s2\<lparr>g_sf_info0 := k0, sfreg := (sfreg s2)\<lparr>CHIP_SEL_0_CFG := fl_val k0\<rparr>\<rparr>;
                  s4 = (if fl_id i1 = FLASH_UNKNOW then s3
                        else let phy1 = u32 (fl_phy k0 - fl_total i1);
                                 j1 = i1\<lparr>fl_phy := phy1 AND (u32 (fl_total i1 - 1) XOR 0xFFFFFFFF)\<rparr>;
                                 k1 = wmt_sfc_ccr j1
                             in s3\<lparr>g_sf_info1 := k1, sfreg := (sfreg s3)\<lparr>CHIP_SEL_1_CFG := fl_val k1\<rparr>\<rparr>);
                  win = (if g_sf_force_size s \<noteq> 0 then u32 (g_sf_force_size s * 1024 * 1024) else MTDSF_TOTAL_SIZE)
              in (s4\<lparr>MTDSF_PHY_ADDR := u32 (top - win + 1)\<rparr>, 0))"

section \<open>Waiting for the chip\<close>

definition flash_error :: "int \<Rightarrow> int" where
  "flash_error code =
     (if code AND 0x80000000 \<noteq> 0 then ERR_TIMOUT
      else if code AND 0x20 \<noteq> 0 then ERR_PROG_ERROR
      else if code AND 0x10 \<noteq> 0 then ERR_PROG_ERROR
      else if code AND 0x8 \<noteq> 0 then ERR_PROG_ERROR
      else if code AND 0x4 \<noteq> 0 then ERR_PROG_ERROR
      else if code AND 0x2 \<noteq> 0 then ERR_PROG_ERROR
      else if code AND 0x1 \<noteq> 0 then ERR_PROG_ERROR
      else ERR_OK)"

text \<open>The loop that \<^verbatim>\<open>spi_read_status\<close>, the erase and the write share. It leaves the loop with
  \<^verbatim>\<open>timeout\<close> at 0 when the chip stays busy.\<close>

function sf_poll :: "nat \<Rightarrow> 'n sf_scheme \<Rightarrow> int \<Rightarrow> 'n sf_scheme \<times> int" where
  "sf_poll chip s timeout =
     (let (sr, er) = hw_sr s chip (sf_polls s); s1 = s\<lparr>sf_polls := Suc (sf_polls s)\<rparr>; rc = flash_error er in
      if sr AND 1 = 0 then (s1, ERR_OK)
      else if rc \<noteq> ERR_OK then (s1, rc)
      else if timeout \<le> 1 then (s1, ERR_TIMOUT)
      else sf_poll chip s1 (timeout - 1))"
  by pat_completeness auto
termination
  by (relation "measure (\<lambda>(chip, s, timeout). nat timeout)") auto

declare sf_poll.simps [simp del]

definition POLL_MAX :: int where "POLL_MAX = 0x30000000"

definition spi_read_status :: "nat \<Rightarrow> 'n sf_scheme \<Rightarrow> ('n sf_scheme \<times> int) option" where
  "spi_read_status chip s = (if reg_sf s then Some (sf_poll chip s POLL_MAX) else None)"

text \<open>Which of the two chips an offset in the window belongs to.\<close>

definition chip_of :: "'n sf_scheme \<Rightarrow> nat \<Rightarrow> nat" where
  "chip_of s off = (if int off + MTDSF_PHY_ADDR s \<ge> fl_phy (g_sf_info0 s) then 0 else 1)"

section \<open>Erase\<close>

definition sector_of :: "nat \<Rightarrow> nat" where
  "sector_of addr = addr div MTDSF_ERASE_SIZE * MTDSF_ERASE_SIZE"

definition fill_area :: "int list \<Rightarrow> nat \<Rightarrow> int list \<Rightarrow> int list" where
  "fill_area mem off bs = take off mem @ take (length mem - off) bs @ drop (off + length bs) mem"

definition sector_bytes :: "int list \<Rightarrow> nat \<Rightarrow> int list" where
  "sector_bytes mem off = take MTDSF_ERASE_SIZE (drop off mem)"

definition spi_flash_sector_erase :: "nat \<Rightarrow> 'n sf_scheme \<Rightarrow> 'n sf_scheme \<times> int" where
  "spi_flash_sector_erase addr s =
     (let s0 = clock_on s;
          chip = (if u32 (int addr + MTDSF_PHY_ADDR s) \<ge> fl_phy (g_sf_info0 s) then 0 else 1);
          sec = sector_of addr;
          s1 = s0\<lparr>sfreg := (sfreg s0)\<lparr>SPI_WR_EN_CTR := (if chip = 0 then 1 else 2),
                                     SPI_ER_START_ADDR := u32 (int sec + MTDSF_PHY_ADDR s),
                                     SPI_ER_CTR := 0x8000\<rparr>\<rparr>;
          (s2, rc) = sf_poll chip s1 POLL_MAX
      in if rc = ERR_OK then
           (set_wr_en 0 (s2\<lparr>sf_mem := fill_area (sf_mem s2) sec (replicate MTDSF_ERASE_SIZE 0xFF)\<rparr>), ERR_OK)
         else (s2\<lparr>sf_mem := fill_area (sf_mem s2) sec (take MTDSF_ERASE_SIZE (hw_torn s (sector_bytes (sf_mem s2) sec)))\<rparr>, rc))"

text \<open>\<^verbatim>\<open>mtd->erase\<close> at \<^verbatim>\<open>instr->addr\<close> for \<^verbatim>\<open>instr->len\<close> bytes; the length is not looked at.\<close>

definition sf_erase :: "'n sf_scheme \<Rightarrow> nat \<Rightarrow> nat \<Rightarrow> ('n sf_scheme \<times> int) option" where
  "sf_erase s addr len =
     (let (s1, ret) = spi_flash_sector_erase addr (clock_on s)
      in Some (if ret \<noteq> ERR_OK then (s1, -22) else (clock_off s1, 0)))"

section \<open>Read and write\<close>

definition sf_bytes :: "'n sf_scheme \<Rightarrow> nat \<Rightarrow> nat \<Rightarrow> int list" where
  "sf_bytes s off len = take len (drop off (sf_mem s))"

text \<open>\<^verbatim>\<open>mtd->read\<close>: the new state, the return value and what the buffer then holds.\<close>

definition sf_read ::
    "nat \<Rightarrow> 'n sf_scheme \<Rightarrow> nat \<Rightarrow> nat \<Rightarrow> int list \<Rightarrow> ('n sf_scheme \<times> int \<times> int list) option" where
  "sf_read mtdsize s from len buf =
     (case spi_read_status (chip_of s from) (clock_on s) of None \<Rightarrow> None
      | Some (s1, _) \<Rightarrow>
          if from + len > mtdsize then Some (s1, -22, buf)
          else Some (clock_off s1, 0, sf_bytes s1 from len @ drop len buf))"

definition program :: "int list \<Rightarrow> nat \<Rightarrow> int list \<Rightarrow> int list" where
  "program mem off bs = fill_area mem off (map2 (AND) (drop off mem) bs)"

text \<open>
  The three loops of \<^verbatim>\<open>spi_flash_sector_write\<close>: \<open>first\<close> bytes a turn as long as that many are
  left, and in the second and third loop one more when there is one. The result is the state,
  the error and the number of bytes stored and left.
\<close>

function wr_loop ::
    "nat \<Rightarrow> bool \<Rightarrow> nat \<Rightarrow> int list \<Rightarrow> 'n sf_scheme \<Rightarrow> nat \<Rightarrow> nat \<Rightarrow> 'n sf_scheme \<times> int \<times> nat \<times> nat" where
  "wr_loop first extra to buf s i len =
     (if first = 0 \<or> len < first then (s, ERR_OK, i, len)
      else let n = first + (if extra \<and> first < len then 1 else 0);
               s1 = s\<lparr>sf_mem := program (sf_mem s) (to + i) (take n (drop i buf))\<rparr>;
               (s2, rc) = sf_poll 0 s1 POLL_MAX
           in if rc \<noteq> ERR_OK then (s2, rc, i + n, len - n)
              else wr_loop first extra to buf s2 (i + n) (len - n))"
  by pat_completeness auto
termination
  by (relation "measure (\<lambda>(first, extra, to, buf, s, i, len). len)") auto

declare wr_loop.simps [simp del]

text \<open>The result on success is the number of bytes, on failure an error code that is itself a
  small positive number.\<close>

definition spi_flash_sector_write ::
    "'n sf_scheme \<Rightarrow> nat \<Rightarrow> nat \<Rightarrow> int list \<Rightarrow> ('n sf_scheme \<times> int) option" where
  "spi_flash_sector_write s to len buf =
     (case spi_read_status (chip_of s to) (clock_on s) of None \<Rightarrow> None
      | Some (s0, _) \<Rightarrow>
        let s1 = set_wr_en 3 s0; (s2, rc2, i2, l2) = wr_loop 8 False to buf s1 0 len in
        if rc2 \<noteq> ERR_OK then Some (s2, rc2)
        else let (s3, rc3, i3, l3) = wr_loop 4 True to buf s2 i2 l2 in
        if rc3 \<noteq> ERR_OK then Some (s3, rc3)
        else let (s4, rc4, i4, l4) = wr_loop 1 True to buf s3 i3 l3 in
        if rc4 \<noteq> ERR_OK then Some (s4, rc4)
        else Some (clock_off (set_wr_en 0 s4), int i4))"

text \<open>\<^verbatim>\<open>mtd->write\<close>: the result of the sector write goes to \<^verbatim>\<open>*retlen\<close>, an error code included.\<close>

definition sf_write ::
    "nat \<Rightarrow> 'n sf_scheme \<Rightarrow> nat \<Rightarrow> nat \<Rightarrow> int list \<Rightarrow> ('n sf_scheme \<times> int \<times> int) option" where
  "sf_write mtdsize s to len buf =
     (if to + len > mtdsize then Some (s, -22, 0)
      else case spi_flash_sector_write s to len buf of None \<Rightarrow> None
      | Some (s1, ret) \<Rightarrow> Some (s1, 0, ret))"

definition config_sf_reg :: "'n sf_scheme \<Rightarrow> 'n sf_scheme" where
  "config_sf_reg s =
     (let r0 = sfreg s;
          r1 = (if fl_val (g_sf_info0 s) \<noteq> 0 then r0\<lparr>CHIP_SEL_0_CFG := fl_val (g_sf_info0 s)\<rparr> else r0);
          r2 = (if fl_val (g_sf_info1 s) \<noteq> 0 then r1\<lparr>CHIP_SEL_1_CFG := fl_val (g_sf_info1 s)\<rparr> else r1)
      in s\<lparr>sfreg := r2\<lparr>SPI_INTF_CFG := 0x00030000\<rparr>\<rparr>)"

text \<open>
  \<^verbatim>\<open>wmt_sf_suspend\<close> and \<^verbatim>\<open>wmt_sf_resume\<close>. \<open>done1\<close> and \<open>done2\<close>: whether the controller ever
  clears the run bit of the two commands; when it does not, the wait never ends.
\<close>

definition wmt_sf_suspend :: "int \<Rightarrow> 'n sf_scheme \<Rightarrow> ('n sf_scheme \<times> int) option" where
  "wmt_sf_suspend strap s =
     (if strap AND 0x6 = 0 then map_option (\<lambda>(s1, _). (s1, 0)) (spi_read_status 0 (clock_on s))
      else Some (s, 0))"

definition wmt_sf_resume :: "bool \<Rightarrow> bool \<Rightarrow> 'n sf_scheme \<Rightarrow> ('n sf_scheme \<times> int) option" where
  "wmt_sf_resume done1 done2 s =
     (let s1 = config_sf_reg (clock_on s) in
      if fl_id (g_sf_info0 s1) = SF_IDALL 0x1F 0x4401 then
        if \<not> done1 \<or> \<not> done2 then None
        else let r = sfreg s1 in
          Some (clock_off (s1\<lparr>sfreg := r\<lparr>SPI_PROG_CMD_WBF0 := 0x01, SPI_PROG_CMD_WBF1 := 0x00, SPI_PROG_CMD_CTR := 0,
                                       SPI_INTF_CFG := (SPI_INTF_CFG r OR 0x40) AND (0x40 XOR 0xFFFFFFFF)\<rparr>\<rparr>), 0)
      else Some (clock_off s1, 0))"

end
