(* ===== verification/MtdPart.thy ===== *)
theory MtdPart
  imports WmtSf
begin

text \<open>
  MTD partitions, \<^verbatim>\<open>drivers/mtd/mtdpart.c\<close>: a partition is a device of its own whose methods add
  the offset of the partition and call the method of the master.

  \<open>mtd_info\<close> is the structure with its method pointers; \<open>'f\<close> is the state of the flash
  that the methods work on. Offsets and sizes are \<^verbatim>\<open>uint64_t\<close>, as naturals below \<open>2 ^ 64\<close> with the
  wrap-around of sums and differences written out where the code relies on it.
\<close>

section \<open>Devices\<close>

datatype mtd_oob_mode = MTD_OOB_PLACE | MTD_OOB_AUTO | MTD_OOB_RAW

record mtd_oob_ops =
  ops_mode :: mtd_oob_mode
  ops_len :: nat
  ops_ooblen :: nat
  ops_ooboffs :: nat
  ops_datbuf :: "int list option"
  ops_oobbuf :: "int list option"

text \<open>The methods that a device may lack, which then are null pointers.\<close>

record 'f mtd_methods =
  op_point :: "('f \<Rightarrow> nat \<Rightarrow> nat \<Rightarrow> 'f \<times> int \<times> nat) option"
  op_unpoint :: "('f \<Rightarrow> nat \<Rightarrow> nat \<Rightarrow> 'f) option"
  op_get_unmapped_area :: "('f \<Rightarrow> nat \<Rightarrow> nat \<Rightarrow> nat \<Rightarrow> nat) option"
  op_panic_write :: "('f \<Rightarrow> nat \<Rightarrow> nat \<Rightarrow> int list \<Rightarrow> ('f \<times> int \<times> int) option) option"
  op_read_oob :: "('f \<Rightarrow> nat \<Rightarrow> mtd_oob_ops \<Rightarrow> 'f \<times> int \<times> mtd_oob_ops) option"
  op_write_oob :: "('f \<Rightarrow> nat \<Rightarrow> mtd_oob_ops \<Rightarrow> 'f \<times> int \<times> mtd_oob_ops) option"
  op_get_fact_prot_info :: "('f \<Rightarrow> nat \<Rightarrow> int \<times> int list) option"
  op_read_fact_prot_reg :: "('f \<Rightarrow> nat \<Rightarrow> nat \<Rightarrow> 'f \<times> int \<times> int list) option"
  op_get_user_prot_info :: "('f \<Rightarrow> nat \<Rightarrow> int \<times> int list) option"
  op_read_user_prot_reg :: "('f \<Rightarrow> nat \<Rightarrow> nat \<Rightarrow> 'f \<times> int \<times> int list) option"
  op_write_user_prot_reg :: "('f \<Rightarrow> nat \<Rightarrow> nat \<Rightarrow> int list \<Rightarrow> 'f \<times> int \<times> int) option"
  op_lock_user_prot_reg :: "('f \<Rightarrow> nat \<Rightarrow> nat \<Rightarrow> 'f \<times> int) option"
  op_writev :: "('f \<Rightarrow> int list list \<Rightarrow> nat \<Rightarrow> 'f \<times> int \<times> int) option"
  op_sync :: "('f \<Rightarrow> 'f) option"
  op_lock :: "('f \<Rightarrow> nat \<Rightarrow> nat \<Rightarrow> 'f \<times> int) option"
  op_unlock :: "('f \<Rightarrow> nat \<Rightarrow> nat \<Rightarrow> 'f \<times> int) option"
  op_is_locked :: "('f \<Rightarrow> nat \<Rightarrow> nat \<Rightarrow> 'f \<times> int) option"
  op_suspend :: "('f \<Rightarrow> 'f \<times> int) option"
  op_resume :: "('f \<Rightarrow> 'f) option"
  op_block_markbad :: "('f \<Rightarrow> nat \<Rightarrow> 'f \<times> int) option"

text \<open>\<open>mtd_class\<close>: whether \<^verbatim>\<open>dev.class\<close> is set, which registration does.\<close>

record 'f mtd_info =
  mtd_type :: nat
  mtd_flags :: int
  mtd_size :: nat
  mtd_erasesize :: nat
  mtd_writesize :: nat
  mtd_oobsize :: nat
  mtd_oobavail :: nat
  mtd_name :: string
  mtd_index :: nat
  mtd_eraseregions :: "(nat \<times> nat) list"
  mtd_erase :: "'f \<Rightarrow> nat \<Rightarrow> nat \<Rightarrow> ('f \<times> int) option"
  mtd_read :: "'f \<Rightarrow> nat \<Rightarrow> nat \<Rightarrow> int list \<Rightarrow> ('f \<times> int \<times> int list) option"
  mtd_write :: "'f \<Rightarrow> nat \<Rightarrow> nat \<Rightarrow> int list \<Rightarrow> ('f \<times> int \<times> int) option"
  mtd_block_isbad :: "('f \<Rightarrow> nat \<Rightarrow> int) option"
  mtd_ops :: "'f mtd_methods"
  mtd_badblocks :: nat
  mtd_class :: bool

record 'f mtd_part =
  pt_mtd :: "'f mtd_info"
  pt_offset :: nat

record mtd_partition =
  pn_name :: string
  pn_size :: nat
  pn_offset :: nat
  pn_mask_flags :: int

definition MTD_RAM :: nat where "MTD_RAM = 1"
definition MTD_ROM :: nat where "MTD_ROM = 2"
definition MTD_NORFLASH :: nat where "MTD_NORFLASH = 3"
definition MTD_POWERUP_LOCK :: int where "MTD_POWERUP_LOCK = 0x2000"
definition MTD_WRITEABLE :: int where "MTD_WRITEABLE = 0x400"
definition MTD_CAP_NORFLASH :: int where "MTD_CAP_NORFLASH = 0xC00"
definition MTDPART_OFS_APPEND :: nat where "MTDPART_OFS_APPEND = 2 ^ 64 - 1"
definition MTDPART_OFS_NXTBLK :: nat where "MTDPART_OFS_NXTBLK = 2 ^ 64 - 2"
definition MTDPART_SIZ_FULL :: nat where "MTDPART_SIZ_FULL = 0"
definition EINVAL_ret :: int where "EINVAL_ret = -22"
definition EROFS_ret :: int where "EROFS_ret = -30"

definition add64 :: "nat \<Rightarrow> nat \<Rightarrow> nat" where "add64 a b = (a + b) mod 2 ^ 64"
definition sub64 :: "nat \<Rightarrow> nat \<Rightarrow> nat" where "sub64 a b = (a + 2 ^ 64 - b) mod 2 ^ 64"

definition writeable :: "int \<Rightarrow> bool" where "writeable flags \<longleftrightarrow> flags AND MTD_WRITEABLE \<noteq> 0"

section \<open>Methods of a partition\<close>

text \<open>The part of a request that lies in the partition.\<close>

definition clip :: "nat \<Rightarrow> nat \<Rightarrow> nat \<Rightarrow> nat" where
  "clip mtdsize from len = (if from \<ge> mtdsize then 0 else if from + len > mtdsize then mtdsize - from else len)"

definition part_read ::
    "'f mtd_info \<Rightarrow> nat \<Rightarrow> nat \<Rightarrow> 'f \<Rightarrow> nat \<Rightarrow> nat \<Rightarrow> int list \<Rightarrow> ('f \<times> int \<times> int list) option" where
  "part_read master offset mtdsize f from len buf =
     mtd_read master f (from + offset) (clip mtdsize from len) buf"

definition part_point :: "('f \<Rightarrow> nat \<Rightarrow> nat \<Rightarrow> 'r) \<Rightarrow> nat \<Rightarrow> nat \<Rightarrow> 'f \<Rightarrow> nat \<Rightarrow> nat \<Rightarrow> 'r" where
  "part_point point offset mtdsize f from len = point f (from + offset) (clip mtdsize from len)"

definition part_unpoint :: "('f \<Rightarrow> nat \<Rightarrow> nat \<Rightarrow> 'r) \<Rightarrow> nat \<Rightarrow> 'f \<Rightarrow> nat \<Rightarrow> nat \<Rightarrow> 'r" where
  "part_unpoint unpoint offset f from len = unpoint f (from + offset) len"

text \<open>The offset of the mapping is an \<^verbatim>\<open>unsigned long\<close>.\<close>

definition part_get_unmapped_area ::
    "('f \<Rightarrow> nat \<Rightarrow> nat \<Rightarrow> nat \<Rightarrow> nat) \<Rightarrow> nat \<Rightarrow> 'f \<Rightarrow> nat \<Rightarrow> nat \<Rightarrow> nat \<Rightarrow> nat" where
  "part_get_unmapped_area area offset f len offs flags = area f len ((offs + offset) mod 2 ^ 32) flags"

text \<open>
  The test on the out-of-band bytes: those of the pages from \<open>from\<close> to the end of the partition, on
  32 bits.
\<close>

definition mtd_div_by_ws :: "nat \<Rightarrow> nat \<Rightarrow> nat" where
  "mtd_div_by_ws sz writesize = sz div writesize mod 2 ^ 32"

definition oob_exceeds :: "'f mtd_info \<Rightarrow> nat \<Rightarrow> nat \<Rightarrow> mtd_oob_ops \<Rightarrow> bool" where
  "oob_exceeds master mtdsize from ops \<longleftrightarrow>
     (let len = (if ops_mode ops = MTD_OOB_AUTO then mtd_oobavail master else mtd_oobsize master);
          pages = (mtd_div_by_ws mtdsize (mtd_writesize master) + 2 ^ 32 - mtd_div_by_ws from (mtd_writesize master)) mod 2 ^ 32
      in (ops_ooboffs ops + ops_ooblen ops) mod 2 ^ 32 > pages * len mod 2 ^ 32)"

definition part_read_oob ::
    "('f \<Rightarrow> nat \<Rightarrow> mtd_oob_ops \<Rightarrow> 'f \<times> int \<times> mtd_oob_ops) \<Rightarrow> 'f mtd_info \<Rightarrow> nat \<Rightarrow> nat \<Rightarrow>
     'f \<Rightarrow> nat \<Rightarrow> mtd_oob_ops \<Rightarrow> 'f \<times> int \<times> mtd_oob_ops" where
  "part_read_oob read_oob master offset mtdsize f from ops =
     (if from \<ge> mtdsize then (f, EINVAL_ret, ops)
      else if ops_datbuf ops \<noteq> None \<and> from + ops_len ops > mtdsize then (f, EINVAL_ret, ops)
      else if ops_oobbuf ops \<noteq> None \<and> oob_exceeds master mtdsize from ops then (f, EINVAL_ret, ops)
      else read_oob f (from + offset) ops)"

text \<open>The protection registers belong to the chip; their addresses are passed on.\<close>

definition part_read_user_prot_reg :: "('f \<Rightarrow> nat \<Rightarrow> nat \<Rightarrow> 'r) \<Rightarrow> 'f \<Rightarrow> nat \<Rightarrow> nat \<Rightarrow> 'r" where
  "part_read_user_prot_reg rd f from len = rd f from len"

definition part_get_user_prot_info :: "('f \<Rightarrow> nat \<Rightarrow> 'r) \<Rightarrow> 'f \<Rightarrow> nat \<Rightarrow> 'r" where
  "part_get_user_prot_info gt f len = gt f len"

definition part_read_fact_prot_reg :: "('f \<Rightarrow> nat \<Rightarrow> nat \<Rightarrow> 'r) \<Rightarrow> 'f \<Rightarrow> nat \<Rightarrow> nat \<Rightarrow> 'r" where
  "part_read_fact_prot_reg rd f from len = rd f from len"

definition part_get_fact_prot_info :: "('f \<Rightarrow> nat \<Rightarrow> 'r) \<Rightarrow> 'f \<Rightarrow> nat \<Rightarrow> 'r" where
  "part_get_fact_prot_info gt f len = gt f len"

definition part_write ::
    "'f mtd_info \<Rightarrow> nat \<Rightarrow> nat \<Rightarrow> int \<Rightarrow> 'f \<Rightarrow> nat \<Rightarrow> nat \<Rightarrow> int list \<Rightarrow> ('f \<times> int \<times> int) option" where
  "part_write master offset mtdsize flags f to len buf =
     (if \<not> writeable flags then Some (f, EROFS_ret, 0)
      else mtd_write master f (to + offset) (clip mtdsize to len) buf)"

definition part_panic_write ::
    "('f \<Rightarrow> nat \<Rightarrow> nat \<Rightarrow> int list \<Rightarrow> ('f \<times> int \<times> int) option) \<Rightarrow> nat \<Rightarrow> nat \<Rightarrow> int \<Rightarrow>
     'f \<Rightarrow> nat \<Rightarrow> nat \<Rightarrow> int list \<Rightarrow> ('f \<times> int \<times> int) option" where
  "part_panic_write panic_write offset mtdsize flags f to len buf =
     (if \<not> writeable flags then Some (f, EROFS_ret, 0)
      else panic_write f (to + offset) (clip mtdsize to len) buf)"

definition part_write_oob ::
    "('f \<Rightarrow> nat \<Rightarrow> mtd_oob_ops \<Rightarrow> 'f \<times> int \<times> mtd_oob_ops) \<Rightarrow> nat \<Rightarrow> nat \<Rightarrow> int \<Rightarrow>
     'f \<Rightarrow> nat \<Rightarrow> mtd_oob_ops \<Rightarrow> 'f \<times> int \<times> mtd_oob_ops" where
  "part_write_oob write_oob offset mtdsize flags f to ops =
     (if \<not> writeable flags then (f, EROFS_ret, ops)
      else if to \<ge> mtdsize then (f, EINVAL_ret, ops)
      else if ops_datbuf ops \<noteq> None \<and> to + ops_len ops > mtdsize then (f, EINVAL_ret, ops)
      else write_oob f (to + offset) ops)"

definition part_write_user_prot_reg :: "('f \<Rightarrow> nat \<Rightarrow> nat \<Rightarrow> int list \<Rightarrow> 'r) \<Rightarrow> 'f \<Rightarrow> nat \<Rightarrow> nat \<Rightarrow> int list \<Rightarrow> 'r" where
  "part_write_user_prot_reg wr f from len buf = wr f from len buf"

definition part_lock_user_prot_reg :: "('f \<Rightarrow> nat \<Rightarrow> nat \<Rightarrow> 'r) \<Rightarrow> 'f \<Rightarrow> nat \<Rightarrow> nat \<Rightarrow> 'r" where
  "part_lock_user_prot_reg lk f from len = lk f from len"

definition part_writev ::
    "('f \<Rightarrow> int list list \<Rightarrow> nat \<Rightarrow> 'f \<times> int \<times> int) \<Rightarrow> nat \<Rightarrow> int \<Rightarrow> 'f \<Rightarrow> int list list \<Rightarrow> nat \<Rightarrow> 'f \<times> int \<times> int" where
  "part_writev writev offset flags f vecs to =
     (if \<not> writeable flags then (f, EROFS_ret, 0) else writev f vecs (to + offset))"

definition part_erase ::
    "'f mtd_info \<Rightarrow> nat \<Rightarrow> nat \<Rightarrow> int \<Rightarrow> 'f \<Rightarrow> nat \<Rightarrow> nat \<Rightarrow> ('f \<times> int) option" where
  "part_erase master offset mtdsize flags f addr len =
     (if \<not> writeable flags then Some (f, EROFS_ret)
      else if addr \<ge> mtdsize then Some (f, EINVAL_ret)
      else mtd_erase master f (addr + offset) len)"

text \<open>
  When an erase is complete, the driver gives the request back: the addresses in it become again relative
  to the partition. \<open>part\<close> is the offset if the device of the request is a partition. The result is what the callback of the
  request sees.
\<close>

record erase_info =
  ei_addr :: nat
  ei_fail_addr :: nat

definition MTD_FAIL_ADDR_UNKNOWN :: nat where "MTD_FAIL_ADDR_UNKNOWN = 2 ^ 64 - 1"

definition mtd_erase_callback :: "nat option \<Rightarrow> erase_info \<Rightarrow> erase_info" where
  "mtd_erase_callback part instr =
     (case part of
        None \<Rightarrow> instr
      | Some offset \<Rightarrow>
          let i1 = (if ei_fail_addr instr \<noteq> MTD_FAIL_ADDR_UNKNOWN
                    then instr\<lparr>ei_fail_addr := sub64 (ei_fail_addr instr) offset\<rparr> else instr)
          in i1\<lparr>ei_addr := sub64 (ei_addr i1) offset\<rparr>)"

text \<open>The sums of the lock methods are taken on 64 bits.\<close>

definition part_lock :: "('f \<Rightarrow> nat \<Rightarrow> nat \<Rightarrow> 'f \<times> int) \<Rightarrow> nat \<Rightarrow> nat \<Rightarrow> 'f \<Rightarrow> nat \<Rightarrow> nat \<Rightarrow> 'f \<times> int" where
  "part_lock lock offset mtdsize f ofs len =
     (if add64 len ofs > mtdsize then (f, EINVAL_ret) else lock f (add64 ofs offset) len)"

definition part_unlock :: "('f \<Rightarrow> nat \<Rightarrow> nat \<Rightarrow> 'f \<times> int) \<Rightarrow> nat \<Rightarrow> nat \<Rightarrow> 'f \<Rightarrow> nat \<Rightarrow> nat \<Rightarrow> 'f \<times> int" where
  "part_unlock unlock offset mtdsize f ofs len =
     (if add64 len ofs > mtdsize then (f, EINVAL_ret) else unlock f (add64 ofs offset) len)"

definition part_is_locked :: "('f \<Rightarrow> nat \<Rightarrow> nat \<Rightarrow> 'f \<times> int) \<Rightarrow> nat \<Rightarrow> nat \<Rightarrow> 'f \<Rightarrow> nat \<Rightarrow> nat \<Rightarrow> 'f \<times> int" where
  "part_is_locked is_locked offset mtdsize f ofs len =
     (if add64 len ofs > mtdsize then (f, EINVAL_ret) else is_locked f (add64 ofs offset) len)"

definition part_sync :: "('f \<Rightarrow> 'f) \<Rightarrow> 'f \<Rightarrow> 'f" where "part_sync sync f = sync f"

definition part_suspend :: "('f \<Rightarrow> 'f \<times> int) \<Rightarrow> 'f \<Rightarrow> 'f \<times> int" where "part_suspend suspend f = suspend f"

definition part_resume :: "('f \<Rightarrow> 'f) \<Rightarrow> 'f \<Rightarrow> 'f" where "part_resume resume f = resume f"

definition part_block_isbad :: "('f \<Rightarrow> nat \<Rightarrow> int) \<Rightarrow> nat \<Rightarrow> nat \<Rightarrow> 'f \<Rightarrow> nat \<Rightarrow> int" where
  "part_block_isbad isbad offset mtdsize f ofs =
     (if ofs \<ge> mtdsize then EINVAL_ret else isbad f (ofs + offset))"

definition part_block_markbad :: "('f \<Rightarrow> nat \<Rightarrow> 'f \<times> int) \<Rightarrow> nat \<Rightarrow> nat \<Rightarrow> int \<Rightarrow> 'f \<Rightarrow> nat \<Rightarrow> 'f \<times> int" where
  "part_block_markbad markbad offset mtdsize flags f ofs =
     (if \<not> writeable flags then (f, EROFS_ret)
      else if ofs \<ge> mtdsize then (f, EINVAL_ret)
      else markbad f (ofs + offset))"

section \<open>Creating partitions\<close>

text \<open>
  Division by the erase size. For a registered device the code shifts and masks instead when the
  size is a power of two, which is the same. A division by 0 yields 0 and remainder 0 on this
  processor (\<^verbatim>\<open>arch/arm/lib/div64.S\<close>).
\<close>

definition mtd_mod_by_eb :: "nat \<Rightarrow> nat \<Rightarrow> nat" where
  "mtd_mod_by_eb sz erasesize = (if erasesize = 0 then 0 else sz mod erasesize)"

definition mtd_div_by_eb :: "nat \<Rightarrow> nat \<Rightarrow> nat" where
  "mtd_div_by_eb sz erasesize = sz div erasesize mod 2 ^ 32"

text \<open>The offset that a description asks for. The next erase block is computed on 32 bits.\<close>

definition part_offset :: "'f mtd_info \<Rightarrow> mtd_partition \<Rightarrow> nat \<Rightarrow> nat" where
  "part_offset master part cur_offset =
     (let o1 = (if pn_offset part = MTDPART_OFS_APPEND then cur_offset else pn_offset part) in
      if o1 = MTDPART_OFS_NXTBLK then
        (if mtd_mod_by_eb cur_offset (mtd_erasesize master) \<noteq> 0
         then (mtd_div_by_eb cur_offset (mtd_erasesize master) + 1) * mtd_erasesize master mod 2 ^ 32
         else cur_offset)
      else o1)"

text \<open>The erase size of a partition of a device with several: the biggest of the regions that
  it meets. \<open>behind\<close> counts the regions that start at the offset or before it.\<close>

definition region_erasesize :: "(nat \<times> nat) list \<Rightarrow> nat \<Rightarrow> nat \<Rightarrow> nat" where
  "region_erasesize regions offset ed =
     (let behind = length (takeWhile (\<lambda>(ro, _). ro \<le> offset) regions);
          met = takeWhile (\<lambda>(ro, _). ro < ed) (drop (behind - 1) regions)
      in foldl (\<lambda>es (_, re). if es < re then re else es) 0 met)"

text \<open>
  Offset, size, erase size and flags of a partition. \<open>None\<close> is the \<^verbatim>\<open>BUG_ON\<close> for an erase size of 0.
  A partition that starts behind the end of the master is left with nothing.
\<close>

definition part_geometry :: "'f mtd_info \<Rightarrow> mtd_partition \<Rightarrow> nat \<Rightarrow> (nat \<times> nat \<times> nat \<times> int) option" where
  "part_geometry master part cur_offset =
     (let offset0 = part_offset master part cur_offset;
          size0 = (if pn_size part = MTDPART_SIZ_FULL then sub64 (mtd_size master) offset0 else pn_size part);
          flags0 = mtd_flags master AND (pn_mask_flags part XOR 0xFFFFFFFF)
      in if offset0 \<ge> mtd_size master then Some (0, 0, 0, flags0)
         else
           let size1 = (if add64 offset0 size0 > mtd_size master then mtd_size master - offset0 else size0);
               regions = mtd_eraseregions master;
               es = (if length regions > 1 then region_erasesize regions offset0 (add64 offset0 size1) else mtd_erasesize master);
               flags1 = (if writeable flags0 \<and> mtd_mod_by_eb offset0 es \<noteq> 0 then flags0 AND (MTD_WRITEABLE XOR 0xFFFFFFFF) else flags0);
               flags2 = (if writeable flags1 \<and> mtd_mod_by_eb size1 es \<noteq> 0 then flags1 AND (MTD_WRITEABLE XOR 0xFFFFFFFF) else flags1)
           in if length regions > 1 \<and> es = 0 then None else Some (offset0, size1, es, flags2))"

text \<open>The count of the bad blocks of a partition; with an erase size of 0 it does not end.\<close>

partial_function (option) badblock_loop :: "(nat \<Rightarrow> int) \<Rightarrow> nat \<Rightarrow> nat \<Rightarrow> nat \<Rightarrow> nat \<Rightarrow> nat \<Rightarrow> nat option" where
  "badblock_loop isbad offset mtdsize es offs bad =
     (if offs < mtdsize then badblock_loop isbad offset mtdsize es (add64 offs es) (if isbad (add64 offs offset) \<noteq> 0 then bad + 1 else bad)
      else Some bad)"

definition count_badblocks :: "'f mtd_info \<Rightarrow> 'f \<Rightarrow> nat \<Rightarrow> nat \<Rightarrow> nat \<Rightarrow> nat option" where
  "count_badblocks master f offset psize es =
     (case mtd_block_isbad master of None \<Rightarrow> Some 0 | Some isbad \<Rightarrow> badblock_loop (isbad f) offset psize es 0 0)"

definition part_ops :: "'f mtd_info \<Rightarrow> int \<Rightarrow> nat \<Rightarrow> nat \<Rightarrow> int \<Rightarrow> 'f mtd_methods" where
  "part_ops master partno offset psize flags =
     (let m = mtd_ops master;
          xip = op_point m \<noteq> None \<and> op_unpoint m \<noteq> None;
          pm = partno = 0 \<and> \<not> mtd_class master \<and> op_suspend m \<noteq> None \<and> op_resume m \<noteq> None
      in \<lparr>op_point = (if xip then map_option (\<lambda>g. part_point g offset psize) (op_point m) else None),
          op_unpoint = (if xip then map_option (\<lambda>g. part_unpoint g offset) (op_unpoint m) else None),
          op_get_unmapped_area = map_option (\<lambda>g. part_get_unmapped_area g offset) (op_get_unmapped_area m),
          op_panic_write = map_option (\<lambda>g. part_panic_write g offset psize flags) (op_panic_write m),
          op_read_oob = map_option (\<lambda>g. part_read_oob g master offset psize) (op_read_oob m),
          op_write_oob = map_option (\<lambda>g. part_write_oob g offset psize flags) (op_write_oob m),
          op_get_fact_prot_info = map_option part_get_fact_prot_info (op_get_fact_prot_info m),
          op_read_fact_prot_reg = map_option part_read_fact_prot_reg (op_read_fact_prot_reg m),
          op_get_user_prot_info = map_option part_get_user_prot_info (op_get_user_prot_info m),
          op_read_user_prot_reg = map_option part_read_user_prot_reg (op_read_user_prot_reg m),
          op_write_user_prot_reg = map_option part_write_user_prot_reg (op_write_user_prot_reg m),
          op_lock_user_prot_reg = map_option part_lock_user_prot_reg (op_lock_user_prot_reg m),
          op_writev = map_option (\<lambda>g. part_writev g offset flags) (op_writev m),
          op_sync = map_option part_sync (op_sync m),
          op_lock = map_option (\<lambda>g. part_lock g offset psize) (op_lock m),
          op_unlock = map_option (\<lambda>g. part_unlock g offset psize) (op_unlock m),
          op_is_locked = map_option (\<lambda>g. part_is_locked g offset psize) (op_is_locked m),
          op_suspend = (if pm then map_option part_suspend (op_suspend m) else None),
          op_resume = (if pm then map_option part_resume (op_resume m) else None),
          op_block_markbad = map_option (\<lambda>g. part_block_markbad g offset psize flags) (op_block_markbad m)\<rparr>)"

text \<open>
  \<^verbatim>\<open>allocate_partition\<close> for a master whose chip is in state \<open>f\<close>. \<open>Inl\<close> is the failure of the
  allocator, \<open>None\<close> a \<^verbatim>\<open>BUG_ON\<close> or the endless count. The device has no number until it is
  registered.
\<close>

definition part_info ::
    "'f mtd_info \<Rightarrow> string \<Rightarrow> int \<Rightarrow> nat \<Rightarrow> nat \<Rightarrow> nat \<Rightarrow> int \<Rightarrow> nat \<Rightarrow> 'f mtd_info" where
  "part_info master name partno offset psize es flags bad =
     \<lparr>mtd_type = mtd_type master, mtd_flags = flags, mtd_size = psize, mtd_erasesize = es, mtd_writesize = mtd_writesize master,
      mtd_oobsize = mtd_oobsize master, mtd_oobavail = mtd_oobavail master, mtd_name = name, mtd_index = 0, mtd_eraseregions = [],
      mtd_erase = part_erase master offset psize flags,
      mtd_read = part_read master offset psize,
      mtd_write = part_write master offset psize flags,
      mtd_block_isbad = map_option (\<lambda>b. part_block_isbad b offset psize) (mtd_block_isbad master),
      mtd_ops = part_ops master partno offset psize flags, mtd_badblocks = bad, mtd_class = False\<rparr>"

definition allocate_partition ::
    "'f \<Rightarrow> bool \<Rightarrow> 'f mtd_info \<Rightarrow> mtd_partition \<Rightarrow> int \<Rightarrow> nat \<Rightarrow> (int + 'f mtd_part) option" where
  "allocate_partition f alloc_ok master part partno cur_offset =
     (if \<not> alloc_ok then Some (Inl (eret ENOMEM))
      else do {
        (offset, psize, es, flags) \<leftarrow> part_geometry master part cur_offset;
        bad \<leftarrow> count_badblocks master f offset psize es;
        Some (Inr \<lparr>pt_mtd = part_info master (pn_name part) partno offset psize es flags bad, pt_offset = offset\<rparr>)
      })"

section \<open>The device of the SPI flash\<close>

definition no_ops :: "'f mtd_methods" where
  "no_ops = \<lparr>op_point = None, op_unpoint = None, op_get_unmapped_area = None, op_panic_write = None, op_read_oob = None,
     op_write_oob = None, op_get_fact_prot_info = None, op_read_fact_prot_reg = None, op_get_user_prot_info = None,
     op_read_user_prot_reg = None, op_write_user_prot_reg = None, op_lock_user_prot_reg = None, op_writev = None, op_sync = None,
     op_lock = None, op_unlock = None, op_is_locked = None, op_suspend = None, op_resume = None, op_block_markbad = None\<rparr>"

definition boot_partitions :: "mtd_partition list" where
  "boot_partitions =
    [\<lparr>pn_name = ''filesystem-SF'', pn_size = 0x00D00000, pn_offset = 0x00000000, pn_mask_flags = 0\<rparr>,
     \<lparr>pn_name = ''kernel-SF'', pn_size = 0x00280000, pn_offset = 0x00D00000, pn_mask_flags = 0\<rparr>,
     \<lparr>pn_name = ''u-boot-SF'', pn_size = 0x00050000, pn_offset = 0x00F80000, pn_mask_flags = 0\<rparr>,
     \<lparr>pn_name = ''u-boot env. cfg. 1-SF'', pn_size = 0x00010000, pn_offset = 0x00FD0000, pn_mask_flags = 0\<rparr>,
     \<lparr>pn_name = ''u-boot env. cfg. 2-SF'', pn_size = 0x00010000, pn_offset = 0x00FE0000, pn_mask_flags = 0\<rparr>,
     \<lparr>pn_name = ''w-load-SF'', pn_size = 0x00010000, pn_offset = 0x00FF0000, pn_mask_flags = 0\<rparr>]"

text \<open>What \<^verbatim>\<open>mtdsf_init_device\<close> sets of the zeroed structure.\<close>

definition mtdsf_device :: "nat \<Rightarrow> 'n sf_scheme mtd_info" where
  "mtdsf_device mtdsize =
     \<lparr>mtd_type = MTD_NORFLASH, mtd_flags = MTD_CAP_NORFLASH, mtd_size = mtdsize, mtd_erasesize = MTDSF_ERASE_SIZE,
      mtd_writesize = 1, mtd_oobsize = 0, mtd_oobavail = 0, mtd_name = ''mtdsf device'', mtd_index = 0, mtd_eraseregions = [],
      mtd_erase = sf_erase, mtd_read = sf_read mtdsize, mtd_write = sf_write mtdsize, mtd_block_isbad = None,
      mtd_ops = no_ops, mtd_badblocks = 0, mtd_class = False\<rparr>"

end
