(* ===== verification/WmtEnvFlash.thy ===== *)
theory WmtEnvFlash
  imports WmtEnv MtdPart
begin

text \<open>
  The copies of the environment in flash: loading one at start-up
  (\<^verbatim>\<open>read_env_before_mtd_init\<close>, \<^verbatim>\<open>read_env_after_mtd_init\<close>, \<^verbatim>\<open>env_init\<close>), writing a changed one
  back (\<^verbatim>\<open>env_update\<close>) and the two exported functions. The configuration is that of
  \<^verbatim>\<open>Android_defconfig\<close>: the SPI flash driver is built in, the NOR driver is not.

  The buffer in RAM is the list of its bytes, which \<^verbatim>\<open>env_ptr\<close> and \<^verbatim>\<open>env_ptr_nand\<close> both point
  to. The record \<open>board\<close> holds what comes from outside: the boot strap, the chip ids, the
  devices that \<^verbatim>\<open>get_mtd_device_nm\<close> finds, the memory that \<^verbatim>\<open>kmalloc\<close> returns, whether
  \<^verbatim>\<open>ioremap\<close> works, and the bytes read where no chip answers. \<open>None\<close> as a result is an access
  outside of an array or through a null pointer.
\<close>

section \<open>State\<close>

record 'n env_state =
  env_ptr :: "int list option"
  ENV_MAX_SIZE :: nat
  env_valid :: nat
  env_invalid :: nat
  env_valid_offs :: nat
  env_invalid_offs :: nat
  nand_block :: nat
  mtd_init :: bool
  mtd_table0 :: "'n sf_scheme mtd_info option"
  mtd_table1 :: "'n sf_scheme mtd_info option"
  readed :: bool
  lock_count :: nat
  flash :: "'n sf_scheme"

record 'n board =
  strap :: int
  chip_id0 :: int
  chip_id1 :: int
  dev_env1 :: "'n sf_scheme mtd_info option"
  dev_env2 :: "'n sf_scheme mtd_info option"
  kmalloc_buf :: "int list option"
  ioremap_ok :: bool
  stack_offset :: "nat \<times> nat"
  no_chip :: "int list"
  interrupted :: bool

definition ENV_INVALID :: nat where "ENV_INVALID = 0xFF"
definition NAND_ENV_BLK_LENGTH :: nat where "NAND_ENV_BLK_LENGTH = 9"
definition NOR_ENV_MAX_SIZE :: nat where "NOR_ENV_MAX_SIZE = 64 * 1024"
definition SF_UBOOT_ENV1 :: string where "SF_UBOOT_ENV1 = ''u-boot env. cfg. 1-SF''"
definition SF_UBOOT_ENV2 :: string where "SF_UBOOT_ENV2 = ''u-boot env. cfg. 2-SF''"

text \<open>\<^verbatim>\<open>(val & 6) == 2\<close>, and \<^verbatim>\<open>(val >> 1) & 3\<close> as the source spells it elsewhere.\<close>

definition nand_boot :: "'n board \<Rightarrow> bool" where "nand_boot bd \<longleftrightarrow> strap bd AND 6 = 2"
definition boot_val :: "'n board \<Rightarrow> int" where "boot_val bd = drop_bit 1 (strap bd) AND 3"

text \<open>The structures \<^verbatim>\<open>env_t\<close> and \<^verbatim>\<open>env_t_nand\<close> over the bytes of the buffer.\<close>

definition env_crc :: "int list \<Rightarrow> int" where
  "env_crc b = b ! 0 + 256 * b ! 1 + 65536 * b ! 2 + 16777216 * b ! 3"

definition env_flags :: "int list \<Rightarrow> int" where "env_flags b = b ! 4"

definition data_offs :: "bool \<Rightarrow> nat" where "data_offs nand = (if nand then 4 else 5)"

definition env_data :: "bool \<Rightarrow> int list \<Rightarrow> int list" where "env_data nand b = drop (data_offs nand) b"

definition set_crc :: "int \<Rightarrow> int list \<Rightarrow> int list" where
  "set_crc x b = [x mod 256, x div 256 mod 256, x div 65536 mod 256, x div 16777216 mod 256] @ drop 4 b"

definition set_data :: "bool \<Rightarrow> int list \<Rightarrow> int list \<Rightarrow> int list" where
  "set_data nand d b = take (data_offs nand) b @ d"

definition env_crc_ok :: "nat \<Rightarrow> bool \<Rightarrow> int list \<Rightarrow> bool" where
  "env_crc_ok env_max nand b \<longleftrightarrow> env_crc b = env_crc32 env_max nand (env_data nand b)"

text \<open>\<^verbatim>\<open>mtd_table[i]\<close>: \<open>None\<close> outside of the array, \<open>Some None\<close> a null pointer.\<close>

definition mtd_slot :: "'n env_state \<Rightarrow> nat \<Rightarrow> 'n sf_scheme mtd_info option option" where
  "mtd_slot st i = (if i = 0 then Some (mtd_table0 st) else if i = 1 then Some (mtd_table1 st) else None)"

definition mtd_at :: "'n env_state \<Rightarrow> nat \<Rightarrow> 'n sf_scheme mtd_info option" where
  "mtd_at st i = (case mtd_slot st i of None \<Rightarrow> None | Some m \<Rightarrow> m)"

text \<open>\<^verbatim>\<open>mtd->read(mtd, offs, ENV_MAX_SIZE, &retvarlen, env_ptr)\<close>\<close>

definition env_fetch :: "'n sf_scheme mtd_info \<Rightarrow> nat \<Rightarrow> 'n env_state \<Rightarrow> ('n env_state \<times> int) option" where
  "env_fetch m offs st =
     (case env_ptr st of None \<Rightarrow> None
      | Some b0 \<Rightarrow>
        (case mtd_read m (flash st) offs (ENV_MAX_SIZE st) b0 of None \<Rightarrow> None
         | Some (f, ret, b) \<Rightarrow> Some (st\<lparr>flash := f, env_ptr := Some b\<rparr>, ret)))"

section \<open>Finding a valid copy\<close>

text \<open>
  One turn of the loop of \<^verbatim>\<open>read_env_before_mtd_init\<close>: \<open>Inl\<close> is a return. The 16 megabytes
  below \<^verbatim>\<open>0x100000000\<close> are mapped; \<open>sfc_err\<close> is the result of \<^verbatim>\<open>wmt_sfc_init\<close>, which the
  source does not look at.
\<close>

definition early_bytes :: "'n board \<Rightarrow> int \<Rightarrow> 'n sf_scheme \<Rightarrow> nat \<Rightarrow> nat \<Rightarrow> int list" where
  "early_bytes bd sfc_err f offs len =
     (if sfc_err \<noteq> 0 then take len (no_chip bd)
      else sf_bytes f (nat (0xFF000000 + int offs - MTDSF_PHY_ADDR f)) len)"

definition before_turn ::
    "'n board \<Rightarrow> int \<Rightarrow> nat \<times> nat \<Rightarrow> nat \<times> nat \<Rightarrow> 'n env_state \<Rightarrow> nat \<Rightarrow> ('n env_state \<times> int) option + 'n env_state" where
  "before_turn bd sfc_err uenv offset st i =
     (let env = (if i = 0 then fst uenv else snd uenv); offs = (if i = 0 then fst offset else snd offset) in
      if mtd_table0 st = None \<and> env \<noteq> ENV_INVALID then
        if \<not> ioremap_ok bd then Inl (Some (st, 1))
        else case env_ptr st of None \<Rightarrow> Inl None
        | Some b0 \<Rightarrow>
          let b = early_bytes bd sfc_err (flash st) offs (ENV_MAX_SIZE st) @ drop (ENV_MAX_SIZE st) b0;
              st1 = st\<lparr>env_ptr := Some b\<rparr>
          in if env_flags b = 1 \<and> env_crc_ok (ENV_MAX_SIZE st) (nand_boot bd) b then
               Inl (Some (st1\<lparr>env_valid := env, env_valid_offs := offs,
                              env_invalid := (if env = fst uenv then snd uenv else fst uenv),
                              env_invalid_offs := (if env = fst uenv then snd offset else fst offset),
                              readed := True\<rparr>, 0))
             else Inr st1
      else if mtd_table0 st = None \<or> env = ENV_INVALID then Inl (Some (st, 1))
      else Inr st)"

definition read_env_before_mtd_init ::
    "'n board \<Rightarrow> nat \<times> nat \<Rightarrow> nat \<times> nat \<Rightarrow> 'n env_state \<Rightarrow> ('n env_state \<times> int) option" where
  "read_env_before_mtd_init bd uenv offset st =
     (if readed st then Some (st, 0)
      else
        let (f, sfc_err) = (if mtd_table0 st = None \<and> fst uenv \<noteq> ENV_INVALID
                            then wmt_sfc_init (strap bd) (chip_id0 bd) (chip_id1 bd) (flash st) else (flash st, 0))
        in case foldl_until (before_turn bd sfc_err uenv offset) (st\<lparr>flash := f\<rparr>) [0, 1] of
             Inl r \<Rightarrow> r
           | Inr st1 \<Rightarrow> Some (st1, 1))"

text \<open>One turn of the loop of \<^verbatim>\<open>read_env_after_mtd_init\<close>.\<close>

definition after_turn :: "'n board \<Rightarrow> 'n env_state \<Rightarrow> nat \<Rightarrow> ('n env_state \<times> int) option + 'n env_state" where
  "after_turn bd st i =
     (case mtd_at st i of None \<Rightarrow> Inl None
      | Some m \<Rightarrow>
        (case env_fetch m 0 st of None \<Rightarrow> Inl None
         | Some (st1, ret) \<Rightarrow>
           if ret \<noteq> 0 then Inl (Some (st1, 1))
           else let b = the (env_ptr st1) in
             if env_crc_ok (ENV_MAX_SIZE st) (nand_boot bd) b then
               if env_flags b = 1 then
                 Inl (Some (st1\<lparr>env_valid := i, env_invalid := (if i = 0 then 1 else 0)\<rparr>, 0))
               else let st2 = (if env_flags b = 0 then st1\<lparr>env_invalid := i\<rparr> else st1) in
                 if env_valid st2 \<noteq> 0xFF \<and> env_invalid st2 \<noteq> 0xFF then Inl (Some (st2, 0)) else Inr st2
             else Inr st1))"

definition read_env_after_mtd_init :: "'n board \<Rightarrow> 'n env_state \<Rightarrow> ('n env_state \<times> int) option" where
  "read_env_after_mtd_init bd st =
     (case foldl_until (after_turn bd) (st\<lparr>env_valid := 0xFF, env_invalid := 0xFF\<rparr>) [0, 1] of
        Inl r \<Rightarrow> r
      | Inr st1 \<Rightarrow>
          if env_valid st1 = 0xFF \<and> env_invalid st1 \<noteq> 0xFF then
            (case mtd_at st1 (env_invalid st1) of None \<Rightarrow> None
             | Some m \<Rightarrow>
               (case env_fetch m 0 st1 of None \<Rightarrow> None
                | Some (st2, ret) \<Rightarrow>
                  if ret \<noteq> 0 then Some (st2, 1)
                  else Some (st2\<lparr>env_valid := (if env_invalid st1 = 0 then 0 else 1),
                                 env_invalid := (if env_invalid st1 = 0 then 1 else 0)\<rparr>, 0)))
          else Some (st1, 1))"

text \<open>The search of \<^verbatim>\<open>env_init\<close> in the blocks of a NAND partition. The inner loop skips bad
  blocks; at the ninth block it jumps back before it resets the offset.\<close>

function nand_skip :: "(nat \<Rightarrow> bool) \<Rightarrow> nat \<Rightarrow> nat \<Rightarrow> nat \<Rightarrow> nat \<times> nat" where
  "nand_skip isbad es offs blk_cnt =
     (if offs < NAND_ENV_BLK_LENGTH * es \<and> isbad offs
      then if Suc blk_cnt = NAND_ENV_BLK_LENGTH then nand_skip isbad es offs (Suc blk_cnt)
           else nand_skip isbad es (offs + es) (Suc blk_cnt)
      else (offs, blk_cnt))"
  by pat_completeness auto
termination
  by (relation "measures [\<lambda>(isbad, es, offs, blk_cnt). NAND_ENV_BLK_LENGTH * es - offs, \<lambda>(isbad, es, offs, blk_cnt). 9 - blk_cnt]")
     (auto simp: NAND_ENV_BLK_LENGTH_def)

declare nand_skip.simps [simp del]

lemma nand_skip_le: "nand_skip isbad es offs cnt = (offs1, cnt1) \<Longrightarrow> cnt \<le> cnt1"
proof (induction isbad es offs cnt rule: nand_skip.induct)
  case (1 isbad es offs cnt)
  then show ?case by (subst (asm) (3) nand_skip.simps) (auto split: if_splits)
qed

function nand_scan ::
    "'n sf_scheme mtd_info \<Rightarrow> ('n sf_scheme \<Rightarrow> nat \<Rightarrow> int) \<Rightarrow> 'n env_state \<Rightarrow> nat \<Rightarrow> nat \<Rightarrow> ('n env_state \<times> int) option" where
  "nand_scan m isbad st offs0 cnt0 =
     (case nand_skip (\<lambda>offs. isbad (flash st) offs \<noteq> 0) (mtd_erasesize m) offs0 cnt0 of (offs, cnt) \<Rightarrow>
      if cnt \<ge> NAND_ENV_BLK_LENGTH * 2 then Some (st, 1)
      else case env_fetch m offs st of None \<Rightarrow> None
      | Some (st1, ret) \<Rightarrow>
        if ret \<noteq> 0 then Some (st1, 1)
        else if env_crc (the (env_ptr st1)) = 0xFFFFFFFF \<and> cnt < NAND_ENV_BLK_LENGTH then
          nand_scan m isbad st1 (if Suc cnt = NAND_ENV_BLK_LENGTH then 0 else offs + mtd_erasesize m) (Suc cnt)
        else if env_crc_ok (ENV_MAX_SIZE st) True (the (env_ptr st1)) then
          Some (st1\<lparr>env_valid := mtd_index m, nand_block := cnt mod NAND_ENV_BLK_LENGTH\<rparr>, 0)
        else if Suc cnt < NAND_ENV_BLK_LENGTH * 2 then
          nand_scan m isbad st1 (if Suc cnt = NAND_ENV_BLK_LENGTH then 0 else offs + mtd_erasesize m) (Suc cnt)
        else Some (st1, 1))"
  by pat_completeness auto
termination
proof (relation "measure (\<lambda>(m, isbad, st, offs, cnt). 18 - cnt)", goal_cases)
  case 1
  show ?case by simp
qed (auto simp: NAND_ENV_BLK_LENGTH_def dest!: sym [of "(_, _)" "nand_skip _ _ _ _"] nand_skip_le)

declare nand_scan.simps [simp del]

text \<open>The loop over the partition table before the MTD driver is up: index and offset of the
  two partitions, until two were found.\<close>

fun find_parts ::
    "mtd_partition list \<Rightarrow> nat \<Rightarrow> nat \<Rightarrow> (nat \<times> nat) \<Rightarrow> (nat \<times> nat) \<Rightarrow> ((nat \<times> nat) \<times> (nat \<times> nat)) option" where
  "find_parts [] i count p1 p2 = (if i \<ge> 32 then Some (p1, p2) else None)"
| "find_parts (p # ps) i count p1 p2 =
     (if i \<ge> 32 then Some (p1, p2)
      else if pn_name p = SF_UBOOT_ENV1 then
        (if Suc count = 2 then Some ((i, pn_offset p), p2) else find_parts ps (Suc i) (Suc count) (i, pn_offset p) p2)
      else if pn_name p = SF_UBOOT_ENV2 then
        (if Suc count = 2 then Some (p1, (i, pn_offset p)) else find_parts ps (Suc i) (Suc count) p1 (i, pn_offset p))
      else find_parts ps (Suc i) count p1 p2)"

text \<open>The head of \<^verbatim>\<open>env_init\<close>: the devices or, without them, the places in the SPI flash.\<close>

definition env_locate ::
    "'n board \<Rightarrow> 'n env_state \<Rightarrow> ('n env_state \<times> (nat \<times> nat) \<times> (nat \<times> nat)) option" where
  "env_locate bd st =
     (case dev_env1 bd of
        None \<Rightarrow>
          (if boot_val bd = 0 then
             (case find_parts boot_partitions 0 0 (ENV_INVALID, fst (stack_offset bd)) (ENV_INVALID, snd (stack_offset bd)) of
                None \<Rightarrow> None
              | Some ((env1, offs1), (env2, offs2)) \<Rightarrow> Some (st, (env1, env2), (offs1, offs2)))
           else Some (st, (ENV_INVALID, ENV_INVALID), stack_offset bd))
      | Some m1 \<Rightarrow>
          let st1 = st\<lparr>mtd_init := True, mtd_table0 := Some m1\<rparr>;
              st2 = (case dev_env2 bd of None \<Rightarrow> st1 | Some m2 \<Rightarrow> st1\<lparr>mtd_table1 := Some m2\<rparr>);
              env2 = (case dev_env2 bd of None \<Rightarrow> ENV_INVALID | Some m2 \<Rightarrow> mtd_index m2)
          in if mtd_table1 st2 = None then None else Some (st2, (mtd_index m1, env2), stack_offset bd))"

definition env_init :: "'n board \<Rightarrow> 'n env_state \<Rightarrow> ('n env_state \<times> int) option" where
  "env_init bd st0 =
     (case env_locate bd (st0\<lparr>ENV_MAX_SIZE := NOR_ENV_MAX_SIZE\<rparr>) of None \<Rightarrow> None
      | Some (st, uenv, offset) \<Rightarrow>
        if boot_val bd = 1 then
          (case mtd_table0 st of None \<Rightarrow> Some (st, 1)
           | Some m \<Rightarrow>
             if fst uenv = ENV_INVALID then Some (st, 1)
             else (case mtd_block_isbad m of None \<Rightarrow> None | Some isbad \<Rightarrow> nand_scan m isbad st 0 0))
        else if boot_val bd = 0 \<or> boot_val bd = 2 then
          (if mtd_table0 st = None then read_env_before_mtd_init bd uenv offset st
           else read_env_after_mtd_init bd st)
        else Some (st, 1))"

section \<open>Writing back\<close>

text \<open>The search of \<^verbatim>\<open>env_update\<close> for a good NAND block behind the one in use. \<open>Some (Some offs, chk)\<close>
  is a good block at \<open>offs\<close>; the loop does not end when the erase size is 0.\<close>

function nand_good :: "(nat \<Rightarrow> bool) \<Rightarrow> nat \<Rightarrow> nat \<Rightarrow> nat \<Rightarrow> nat \<Rightarrow> (nat option \<times> nat) option" where
  "nand_good isbad es mtdsize chk offs =
     (if chk \<ge> mtdsize then Some (None, chk)
      else if \<not> isbad offs then Some (Some offs, chk + es)
      else if es = 0 then None
      else nand_good isbad es mtdsize (chk + es) (if offs + es \<ge> mtdsize then 0 else offs + es))"
  by pat_completeness auto
termination
  by (relation "measure (\<lambda>(isbad, es, mtdsize, chk, offs). mtdsize - chk)") auto

declare nand_good.simps [simp del]

definition env_update_nand :: "int list \<Rightarrow> 'n env_state \<Rightarrow> ('n env_state \<times> int) option" where
  "env_update_nand b st =
     (case mtd_at st (env_valid st) of None \<Rightarrow> None
      | Some m \<Rightarrow>
        (case mtd_block_isbad m of None \<Rightarrow> None
         | Some isbad \<Rightarrow>
           let es = mtd_erasesize m; orig = nand_block st; offs0 = (orig + 1) * es;
               offs = (if offs0 \<ge> mtd_size m then 0 else offs0)
           in case nand_good (\<lambda>o'. isbad (flash st) o' \<noteq> 0) es (mtd_size m) 0 offs of
                None \<Rightarrow> None
              | Some (None, chk) \<Rightarrow> Some (st, 1)
              | Some (Some blk, chk) \<Rightarrow>
                if chk \<ge> mtd_size m then Some (st, 1)
                else (case mtd_erase m (flash st) blk es of None \<Rightarrow> None
                      | Some (f1, ret1) \<Rightarrow>
                        if ret1 \<noteq> 0 then Some (st\<lparr>flash := f1\<rparr>, 1)
                        else (case mtd_write m f1 blk (ENV_MAX_SIZE st) b of None \<Rightarrow> None
                              | Some (f2, ret2, _) \<Rightarrow>
                                if ret2 \<noteq> 0 then Some (st\<lparr>flash := f2\<rparr>, 1)
                                else let st1 = st\<lparr>flash := f2, nand_block := blk div es\<rparr> in
                                  (case mtd_erase m f2 (orig * es) es of None \<Rightarrow> None
                                   | Some (f3, ret3) \<Rightarrow> Some (st1\<lparr>flash := f3\<rparr>, if ret3 \<noteq> 0 then 1 else 0))))))"

definition swap_env :: "'n env_state \<Rightarrow> 'n env_state" where
  "swap_env st = st\<lparr>env_valid := env_invalid st, env_invalid := env_valid st,
                    env_valid_offs := env_invalid_offs st, env_invalid_offs := env_valid_offs st\<rparr>"

text \<open>SPI boot before the MTD driver is up. The results of the two writes are not looked at.\<close>

definition env_update_early :: "'n board \<Rightarrow> int list \<Rightarrow> 'n env_state \<Rightarrow> ('n env_state \<times> int) option" where
  "env_update_early bd b st =
     (if \<not> ioremap_ok bd then Some (st, 1)
      else let (f1, ret) = spi_flash_sector_erase (env_invalid_offs st) (flash st) in
        if ret \<noteq> ERR_OK then Some (st\<lparr>flash := f1\<rparr>, 1)
        else case spi_flash_sector_write f1 (env_invalid_offs st) (ENV_MAX_SIZE st) b of None \<Rightarrow> None
        | Some (f2, _) \<Rightarrow>
          (case spi_flash_sector_write f2 (env_valid_offs st + 4) 1 [0] of None \<Rightarrow> None
           | Some (f3, _) \<Rightarrow> Some (swap_env (st\<lparr>flash := f3\<rparr>), 0)))"

text \<open>After the MTD driver is up: erase the spare copy, write the new one there, clear the flag of
  the old one. \<open>spare\<close> and \<open>live\<close> are \<^verbatim>\<open>mtd_table[env_invalid]\<close> and \<^verbatim>\<open>mtd_table[env_valid]\<close>.\<close>

definition env_update_mtd :: "'n sf_scheme mtd_info \<Rightarrow> int list \<Rightarrow> 'n env_state \<Rightarrow> ('n env_state \<times> int) option" where
  "env_update_mtd spare b st =
     (case mtd_erase spare (flash st) 0 (mtd_size spare) of None \<Rightarrow> None
      | Some (f1, ret1) \<Rightarrow>
        if ret1 \<noteq> 0 then Some (st\<lparr>flash := f1\<rparr>, 1)
        else let b1 = (if env_flags b = 0 then b[4 := 1] else b); st1 = st\<lparr>env_ptr := Some b1\<rparr> in
          (case mtd_write spare f1 0 (ENV_MAX_SIZE st) b1 of None \<Rightarrow> None
           | Some (f2, ret2, _) \<Rightarrow>
             if ret2 \<noteq> 0 then Some (st1\<lparr>flash := f2\<rparr>, 1)
             else case mtd_at st (env_valid st) of None \<Rightarrow> None
             | Some live \<Rightarrow>
               (case mtd_write live f2 4 1 [0] of None \<Rightarrow> None
                | Some (f3, ret3, _) \<Rightarrow>
                  if ret3 \<noteq> 0 then Some (st1\<lparr>flash := f3\<rparr>, 1)
                  else Some (swap_env (st1\<lparr>flash := f3\<rparr>), 0))))"

text \<open>
  \<^verbatim>\<open>env_update\<close>. The pointer \<^verbatim>\<open>mtd_table[env_invalid]\<close> is read first, whatever the boot device;
  the array has two entries, but \<^verbatim>\<open>env_invalid\<close> stays \<^verbatim>\<open>0xFF\<close> after NAND boot and is a partition
  number before the MTD driver is up.
\<close>

definition env_update :: "'n board \<Rightarrow> 'n env_state \<Rightarrow> ('n env_state \<times> int) option" where
  "env_update bd st0 =
     (case env_ptr st0 of None \<Rightarrow> None
      | Some b0 \<Rightarrow>
        let b = set_crc (env_crc32 (ENV_MAX_SIZE st0) (nand_boot bd) (env_data (nand_boot bd) b0)) b0;
            st = st0\<lparr>env_ptr := Some b\<rparr>
        in case mtd_slot st (env_invalid st) of None \<Rightarrow> None
           | Some slot \<Rightarrow>
             if boot_val bd = 1 then env_update_nand b st
             else case slot of
               Some spare \<Rightarrow> env_update_mtd spare b st
             | None \<Rightarrow>
                 if boot_val bd \<noteq> 2 then env_update_early bd b st
                 else if \<not> ioremap_ok bd then Some (st, 1) else None)"

section \<open>The exported functions\<close>

text \<open>The beginning of both: the buffer in RAM and, until the MTD driver is up, \<^verbatim>\<open>env_init\<close>.\<close>

definition env_ready :: "'n board \<Rightarrow> 'n env_state \<Rightarrow> ('n env_state \<times> bool) option" where
  "env_ready bd st =
     (if env_ptr st \<noteq> None \<and> mtd_init st then Some (st, True)
      else
        let st1 = (if env_ptr st = None then st\<lparr>env_ptr := kmalloc_buf bd, nand_block := 0\<rparr> else st) in
        if env_ptr st1 = None then Some (st, False)
        else map_option (\<lambda>(st2, ret). (st2, ret = 0)) (env_init bd st1))"

text \<open>\<^verbatim>\<open>down_interruptible\<close> takes the semaphore unless a signal comes first; its result is only
  printed, and \<^verbatim>\<open>up\<close> at the end gives back one more.\<close>

definition lock :: "'n board \<Rightarrow> 'n env_state \<Rightarrow> 'n env_state" where
  "lock bd st = (if interrupted bd then st else st\<lparr>lock_count := lock_count st - 1\<rparr>)"

definition unlock :: "'n env_state \<Rightarrow> 'n env_state" where
  "unlock st = st\<lparr>lock_count := Suc (lock_count st)\<rparr>"

text \<open>\<^verbatim>\<open>wmt_getsyspara\<close>: new state, return value, the bytes stored at \<^verbatim>\<open>varval\<close> and \<^verbatim>\<open>*varlen\<close>.\<close>

definition wmt_getsyspara ::
    "'n board \<Rightarrow> 'n env_state \<Rightarrow> int list \<Rightarrow> int \<Rightarrow> ('n env_state \<times> int \<times> int list \<times> int) option" where
  "wmt_getsyspara bd st0 varname varlen =
     (case env_ready bd (lock bd st0) of None \<Rightarrow> None
      | Some (st, ok) \<Rightarrow>
        if \<not> ok then Some (unlock st, 1, [], varlen)
        else case env_ptr st of None \<Rightarrow> None
        | Some b \<Rightarrow>
          (case env_lookup (env_data (nand_boot bd) b) varname of None \<Rightarrow> None
           | Some (found, out) \<Rightarrow>
             let i = int (length out) - 1 in
             if i > varlen then Some (unlock st, 1, out, i)
             else Some (unlock st, if found then 0 else 1, out, varlen)))"

definition wmt_setsyspara ::
    "'n board \<Rightarrow> 'n env_state \<Rightarrow> int list \<Rightarrow> int list option \<Rightarrow> ('n env_state \<times> int) option" where
  "wmt_setsyspara bd st0 varname varval =
     (case env_ready bd (lock bd st0) of None \<Rightarrow> None
      | Some (st, ok) \<Rightarrow>
        if \<not> ok then Some (unlock st, 1)
        else case env_ptr st of None \<Rightarrow> None
        | Some b \<Rightarrow>
          (case env_edit (ENV_MAX_SIZE st) (env_data (nand_boot bd) b) varname varval of None \<Rightarrow> None
           | Some (d, wb) \<Rightarrow>
             let st1 = st\<lparr>env_ptr := Some (set_data (nand_boot bd) d b)\<rparr> in
             if \<not> wb then Some (unlock st1, 1)
             else map_option (\<lambda>(st2, ret). (unlock st2, if ret \<noteq> 0 then 1 else 0)) (env_update bd st1)))"

end
