(* ===== verification/WmtEnvCrc.thy ===== *)
theory WmtEnvCrc
  imports WmtEnv
begin

text \<open>The table-driven checksum of \<^verbatim>\<open>wmt_env.c\<close> computes CRC-32, one bit at a time.\<close>

section \<open>CRC-32\<close>

text \<open>The register shifts right; a bit that falls out adds the reversed polynomial.\<close>

definition crc_step :: "int \<Rightarrow> int" where
  "crc_step x = drop_bit 1 x XOR (if bit x 0 then 0xEDB88320 else 0)"

definition crc_byte :: "int \<Rightarrow> int \<Rightarrow> int" where
  "crc_byte crc b = (crc_step ^^ 8) (crc XOR b)"

definition crc32 :: "int list \<Rightarrow> int" where
  "crc32 bs = foldl crc_byte 0xFFFFFFFF bs XOR 0xFFFFFFFF"

definition is_bytes :: "int list \<Rightarrow> bool" where
  "is_bytes bs \<longleftrightarrow> (\<forall>b \<in> set bs. 0 \<le> b \<and> b < 256)"

section \<open>The step is linear\<close>

lemma crc_step_xor: "crc_step (x XOR y) = crc_step x XOR crc_step y"
  by (rule bit_eqI) (auto simp: crc_step_def bit_simps)

lemma crc_steps_xor: "(crc_step ^^ n) (x XOR y) = (crc_step ^^ n) x XOR (crc_step ^^ n) y"
  by (induction n) (simp_all add: crc_step_xor)

lemma crc_step_double: "crc_step (2 * x) = x"
  by (simp add: crc_step_def drop_bit_eq_div bit_0)

lemma crc_steps_push: "(crc_step ^^ n) (push_bit n x) = x"
proof (induction n)
  case (Suc n)
  have "(crc_step ^^ Suc n) (push_bit (Suc n) x) = (crc_step ^^ n) (crc_step (2 * push_bit n x))"
    by (simp only: funpow_Suc_right o_apply push_bit_Suc push_bit_double mult.commute)
  with Suc show ?case by (simp add: crc_step_double)
qed simp

text \<open>The low byte and the rest of a value.\<close>

lemma and_FF: "(y :: int) AND 0xFF = take_bit 8 y"
  by (simp add: take_bit_eq_mask mask_eq_exp_minus_1)

lemma xor_split: "(y :: int) = (y AND 0xFF) XOR push_bit 8 (drop_bit 8 y)"
  unfolding and_FF by (rule bit_eqI) (auto simp: bit_simps)

definition crc8 :: "int \<Rightarrow> int" where
  "crc8 x = crc_step (crc_step (crc_step (crc_step (crc_step (crc_step (crc_step (crc_step x)))))))"

lemma crc_steps8: "crc_step ^^ 8 = crc8"
  by (rule ext) (simp add: crc8_def numeral_eq_Suc)

lemma table_all: "map crc8 [0..255] = sf_crc_table"
  by code_simp

lemma table_nth: "0 \<le> k \<Longrightarrow> k < 256 \<Longrightarrow> sf_crc_table ! nat k = (crc_step ^^ 8) k"
proof -
  assume k: "0 \<le> k" "k < 256"
  then have "nat k < length [0..255]" by simp
  then have "map crc8 [0..255] ! nat k = crc8 ([0..255] ! nat k)"
    by (rule nth_map)
  with k show ?thesis by (simp add: table_all crc_steps8 nth_upto)
qed

lemma DO1_crc_byte:
  assumes "0 \<le> b" "b < 256"
  shows "DO1 crc b = crc_byte crc b"
proof -
  let ?y = "crc XOR b"
  have low: "0 \<le> ?y AND 0xFF" "?y AND 0xFF < 256"
    by (simp_all add: and_FF take_bit_eq_mod)
  have "drop_bit 8 b = 0" using assms by (simp add: drop_bit_eq_div)
  then have high: "drop_bit 8 ?y = drop_bit 8 crc" by simp
  have "crc_byte crc b = (crc_step ^^ 8) ((?y AND 0xFF) XOR push_bit 8 (drop_bit 8 ?y))"
    unfolding crc_byte_def using xor_split [of ?y] by metis
  also have "\<dots> = (crc_step ^^ 8) (?y AND 0xFF) XOR drop_bit 8 crc"
    by (simp only: crc_steps_xor crc_steps_push high)
  finally show ?thesis using low by (simp only: DO1_def table_nth)
qed

section \<open>The loops\<close>

lemma crc_rest_foldl: "crc_rest crc bs = foldl DO1 crc bs"
  by (induction bs arbitrary: crc) simp_all

lemma DO8_foldl: "8 \<le> length bs \<Longrightarrow> DO8 crc bs = foldl DO1 crc (take 8 bs)"
proof -
  assume "8 \<le> length bs"
  then have "take 8 bs = map (\<lambda>i. bs ! i) [0..<8]"
    by (intro nth_equalityI) auto
  then show ?thesis by (simp add: DO8_def upt_rec [of _ 8] numeral_eq_Suc)
qed

lemma crc_loop_foldl: "crc_loop crc buf = foldl DO1 crc buf"
proof (induction crc buf rule: crc_loop.induct)
  case (1 crc buf)
  show ?case
  proof (cases "8 \<le> length buf")
    case True
    then have "crc_loop crc buf = foldl DO1 (foldl DO1 crc (take 8 buf)) (drop 8 buf)"
      using 1 by (simp add: crc_loop.simps [of crc buf] DO8_foldl)
    then show ?thesis by (metis append_take_drop_id foldl_append)
  qed (simp add: crc_loop.simps [of crc buf] crc_rest_foldl)
qed

lemma foldl_DO1: "is_bytes bs \<Longrightarrow> foldl DO1 crc bs = foldl crc_byte crc bs"
  by (induction bs arbitrary: crc) (auto simp: is_bytes_def DO1_crc_byte)

lemma is_bytes_take [simp]: "is_bytes bs \<Longrightarrow> is_bytes (take n bs)"
  by (auto simp: is_bytes_def dest: in_set_takeD)

section \<open>Properties\<close>

text \<open>C9. On every buffer of bytes, the checksum that the driver computes with its table, eight
  bytes a turn and then one by one, is the CRC-32 of the data area: all of the copy but the
  checksum and, except for NAND, the flag.\<close>

theorem env_crc32_is_crc32:
  assumes "is_bytes buf"
  shows "env_crc32 env_max nand buf = crc32 (take (env_max - (if nand then 4 else 5)) buf)"
  using assms by (simp add: env_crc32_def crc32_def crc_loop_foldl foldl_DO1 Let_def)

text \<open>The check value of the standard: the CRC-32 of the digits 1 to 9.\<close>

theorem env_crc32_is_crc32_witness:
  "is_bytes [49, 50, 51, 52, 53, 54, 55, 56, 57] \<and>
   env_crc32 14 False [49, 50, 51, 52, 53, 54, 55, 56, 57] = 0xCBF43926"
proof
  show "is_bytes [49, 50, 51, 52, 53, 54, 55, 56, 57]" by (simp add: is_bytes_def)
  then have "env_crc32 14 False [49, 50, 51, 52, 53, 54, 55, 56, 57] = crc32 [49, 50, 51, 52, 53, 54, 55, 56, 57]"
    using env_crc32_is_crc32 [of "[49, 50, 51, 52, 53, 54, 55, 56, 57]" 14 False] by simp
  also have "\<dots> = 0xCBF43926" by code_simp
  finally show "env_crc32 14 False [49, 50, 51, 52, 53, 54, 55, 56, 57] = 0xCBF43926" .
qed

end
