(* ===== verification/WmtSfProps.thy ===== *)
theory WmtSfProps
  imports MtdPart
begin

text \<open>What the SPI flash driver does to the bytes of the chip, whatever the status registers
  answer.\<close>

section \<open>Areas of the window\<close>

lemma length_fill_area [simp]: "length (fill_area mem off bs) = length mem"
  by (simp add: fill_area_def)

lemma nth_fill_area:
  assumes "k < length mem"
  shows "fill_area mem off bs ! k = (if off \<le> k \<and> k < off + length bs then bs ! (k - off) else mem ! k)"
proof (cases "off \<le> k")
  case True
  have "off + min (length mem - off) (length bs) = min (length mem) (off + length bs)" using True assms by simp
  with True assms show ?thesis
    by (auto simp: fill_area_def nth_append min_def)
next
  case False
  with assms show ?thesis by (simp add: fill_area_def nth_append)
qed

lemma length_program [simp]: "length (program mem off bs) = length mem"
  by (simp add: program_def)

lemma nth_program:
  assumes "k < length mem"
  shows "program mem off bs ! k = (if off \<le> k \<and> k < off + length bs then mem ! k AND bs ! (k - off) else mem ! k)"
proof -
  have l: "length (map2 (AND) (drop off mem) bs) = min (length mem - off) (length bs)" by simp
  have "map2 (AND) (drop off mem) bs ! (k - off) = mem ! k AND bs ! (k - off)" if "off \<le> k" "k < off + length bs"
    using that assms by (subst nth_map) (simp_all add: less_diff_conv2)
  with assms show ?thesis unfolding program_def by (subst nth_fill_area) (auto simp: l)
qed

lemma program_Nil [simp]: "program mem off [] = mem"
  by (rule nth_equalityI) (simp_all add: nth_program)

lemma program_append:
  "program (program mem off xs) (off + length xs) ys = program mem off (xs @ ys)"
  by (rule nth_equalityI) (auto simp: nth_program nth_append)

lemma take_fill_area: "off + len \<le> o' \<Longrightarrow> take len (drop off (fill_area mem o' bs)) = take len (drop off mem)"
  by (rule nth_equalityI) (auto simp: nth_fill_area)

lemma take_fill_area2: "o' + length bs \<le> off \<Longrightarrow> take len (drop off (fill_area mem o' bs)) = take len (drop off mem)"
  by (rule nth_equalityI) (auto simp: nth_fill_area)

lemma take_fill_area_eq:
  "off + length bs \<le> length mem \<Longrightarrow> len = length bs \<Longrightarrow> take len (drop off (fill_area mem off bs)) = bs"
  by (rule nth_equalityI) (auto simp: nth_fill_area)

text \<open>Programming inside of a partition, seen from the partition and from another one.\<close>

lemma take_program_in:
  "to + length bs \<le> len \<Longrightarrow> off + len \<le> length mem \<Longrightarrow>
   take len (drop off (program mem (to + off) bs)) = program (take len (drop off mem)) to bs"
proof (rule nth_equalityI)
  assume a: "to + length bs \<le> len" "off + len \<le> length mem"
  show "length (take len (drop off (program mem (to + off) bs))) = length (program (take len (drop off mem)) to bs)"
    by simp
  fix k assume "k < length (take len (drop off (program mem (to + off) bs)))"
  with a have k: "k < len" "off + k < length mem" by simp_all
  have "off + k - (to + off) = k - to" by simp
  with a k show "take len (drop off (program mem (to + off) bs)) ! k = program (take len (drop off mem)) to bs ! k"
    by (simp add: nth_program)
qed

lemma take_program_out:
  "to + length bs \<le> off \<or> off + len \<le> to \<Longrightarrow>
   take len (drop off (program mem to bs)) = take len (drop off mem)"
  by (rule nth_equalityI) (auto simp: nth_program)

section \<open>Frames\<close>

text \<open>Everything but the bytes and the counter of status reads.\<close>

definition sf_frame :: "'n sf_scheme \<Rightarrow> 'n sf_scheme \<Rightarrow> bool" where
  "sf_frame s s' \<longleftrightarrow> reg_sf s' = reg_sf s \<and> MTDSF_PHY_ADDR s' = MTDSF_PHY_ADDR s \<and> hw_sr s' = hw_sr s \<and>
     hw_torn s' = hw_torn s \<and> g_sf_info0 s' = g_sf_info0 s \<and> g_sf_info1 s' = g_sf_info1 s"

lemma sf_frame_refl [simp]: "sf_frame s s"
  by (simp add: sf_frame_def)

lemma sf_frame_trans: "sf_frame s t \<Longrightarrow> sf_frame t u \<Longrightarrow> sf_frame s u"
  by (simp add: sf_frame_def)

lemma sf_clock_simps [simp]:
  "sf_frame s (clock_on t) = sf_frame s t" "sf_frame s (clock_off t) = sf_frame s t"
  "sf_frame s (set_wr_en v t) = sf_frame s t"
  "sf_frame (clock_on s) t = sf_frame s t" "sf_frame (clock_off s) t = sf_frame s t"
  "sf_frame (set_wr_en v s) t = sf_frame s t"
  "sf_mem (clock_on s) = sf_mem s" "sf_mem (clock_off s) = sf_mem s" "sf_mem (set_wr_en v s) = sf_mem s"
  "reg_sf (clock_on s) = reg_sf s" "hw_sr (clock_on s) = hw_sr s" "hw_sr (set_wr_en v s) = hw_sr s"
  by (simp_all add: clock_on_def clock_off_def set_wr_en_def sf_frame_def)

lemma sf_frame_upd [simp]:
  "sf_frame s (t\<lparr>sf_mem := m\<rparr>) = sf_frame s t" "sf_frame s (t\<lparr>sfreg := r\<rparr>) = sf_frame s t"
  "sf_frame (t\<lparr>sf_mem := m\<rparr>) s = sf_frame t s" "sf_frame (t\<lparr>sfreg := r\<rparr>) s = sf_frame t s"
  by (simp_all add: sf_frame_def)

lemma sf_poll_frame: "sf_poll chip s t = (s', rc) \<Longrightarrow> sf_frame s s' \<and> sf_mem s' = sf_mem s"
proof (induction chip s t rule: sf_poll.induct)
  case (1 chip s timeout)
  obtain sr er where h: "hw_sr s chip (sf_polls s) = (sr, er)" by force
  show ?case
  proof (cases "sr AND 1 = 0 \<or> flash_error er \<noteq> ERR_OK \<or> timeout \<le> 1")
    case True
    with "1.prems" h show ?thesis
      by (auto simp: sf_poll.simps [of chip s] Let_def sf_frame_def split: if_splits)
  next
    case False
    then have "sf_poll chip s timeout = sf_poll chip (s\<lparr>sf_polls := Suc (sf_polls s)\<rparr>) (timeout - 1)"
      using h by (simp add: sf_poll.simps [of chip s timeout] Let_def)
    then have "sf_frame (s\<lparr>sf_polls := Suc (sf_polls s)\<rparr>) s' \<and> sf_mem s' = sf_mem (s\<lparr>sf_polls := Suc (sf_polls s)\<rparr>)"
      using "1.IH" [OF h [symmetric] refl refl] False "1.prems" by auto
    then show ?thesis by (simp add: sf_frame_def)
  qed
qed

text \<open>
  A chip that works: whenever the driver starts to poll, the chip is busy for less than the number of
  reads that the driver allows it and reports no error until then.
\<close>

definition sf_ready :: "'n sf_scheme \<Rightarrow> bool" where
  "sf_ready s \<longleftrightarrow> (\<forall>chip k. \<exists>j. int j < POLL_MAX \<and> fst (hw_sr s chip (k + j)) AND 1 = 0
     \<and> (\<forall>i < j. flash_error (snd (hw_sr s chip (k + i))) = ERR_OK))"

lemma sf_ready_frame: "sf_frame s t \<Longrightarrow> sf_ready t = sf_ready s"
  by (simp add: sf_ready_def sf_frame_def)

lemma sf_poll_within:
  "int j < t \<Longrightarrow> fst (hw_sr s chip (sf_polls s + j)) AND 1 = 0 \<Longrightarrow>
   (\<And>i. i < j \<Longrightarrow> flash_error (snd (hw_sr s chip (sf_polls s + i))) = ERR_OK) \<Longrightarrow> snd (sf_poll chip s t) = ERR_OK"
proof (induction j arbitrary: s t)
  case 0
  then show ?case by (simp add: sf_poll.simps [of chip s t] Let_def split_beta)
next
  case (Suc j)
  have e: "flash_error (snd (hw_sr s chip (sf_polls s))) = ERR_OK" using Suc.prems(3) [of 0] by simp
  have "snd (sf_poll chip (s\<lparr>sf_polls := Suc (sf_polls s)\<rparr>) (t - 1)) = ERR_OK"
    using Suc.prems(1,2) Suc.prems(3) [of "Suc i" for i] by (intro Suc.IH) auto
  then show ?case using e Suc.prems(1) by (simp add: sf_poll.simps [of chip s t] Let_def split_beta)
qed

lemma sf_poll_ready: "sf_ready s \<Longrightarrow> snd (sf_poll chip s POLL_MAX) = ERR_OK"
proof -
  assume "sf_ready s"
  then obtain j where "int j < POLL_MAX" "fst (hw_sr s chip (sf_polls s + j)) AND 1 = 0"
    "\<And>i. i < j \<Longrightarrow> flash_error (snd (hw_sr s chip (sf_polls s + i))) = ERR_OK" unfolding sf_ready_def by blast
  then show ?thesis by (rule sf_poll_within)
qed

text \<open>Such as one that is busy at every first read.\<close>

lemma alternating_ready: "hw_sr s = (\<lambda>_ k. (if even k then 1 else 0, 0)) \<Longrightarrow> sf_ready s"
proof -
  assume h: "hw_sr s = (\<lambda>_ k. (if even k then 1 else 0, 0))"
  show ?thesis unfolding sf_ready_def
  proof (intro allI)
    fix chip k
    show "\<exists>j. int j < POLL_MAX \<and> fst (hw_sr s chip (k + j)) AND 1 = 0 \<and> (\<forall>i < j. flash_error (snd (hw_sr s chip (k + i))) = ERR_OK)"
      by (rule exI [of _ "if even k then 1 else 0"]) (simp add: h POLL_MAX_def flash_error_def ERR_OK_def)
  qed
qed

section \<open>The writing loops\<close>

lemma wr_loop_spec:
  assumes "wr_loop first extra to buf s i len = (s', rc, i', len')" "i + len \<le> length buf" "0 < first"
  shows "\<exists>k \<le> len. i' = i + k \<and> len' = len - k \<and> sf_frame s s' \<and>
           sf_mem s' = program (sf_mem s) (to + i) (take k (drop i buf)) \<and>
           (rc = ERR_OK \<longrightarrow> len' < first) \<and> (sf_ready s \<longrightarrow> rc = ERR_OK)"
  using assms
proof (induction first extra to buf s i len rule: wr_loop.induct)
  case (1 first extra to buf s i len)
  show ?case
  proof (cases "len < first")
    case True
    with "1.prems" show ?thesis by (auto simp: wr_loop.simps [of first])
  next
    case False
    define n where "n = first + (if extra \<and> first < len then 1 else 0)"
    have n: "0 < n" "n \<le> len" using False "1.prems"(3) by (auto simp: n_def)
    define s1 where "s1 = s\<lparr>sf_mem := program (sf_mem s) (to + i) (take n (drop i buf))\<rparr>"
    obtain s2 rc2 where p: "sf_poll 0 s1 POLL_MAX = (s2, rc2)" by force
    have f: "sf_frame s s2" "sf_mem s2 = sf_mem s1" using sf_poll_frame [OF p] by (auto simp: s1_def)
    have r: "sf_ready s \<longrightarrow> rc2 = ERR_OK"
      using sf_poll_ready [of s1 0] p by (auto simp: s1_def sf_ready_def)
    have w: "wr_loop first extra to buf s i len =
        (if rc2 \<noteq> ERR_OK then (s2, rc2, i + n, len - n) else wr_loop first extra to buf s2 (i + n) (len - n))"
      using False "1.prems"(3) p by (simp add: wr_loop.simps [of first extra to buf s i len] n_def s1_def Let_def)
    show ?thesis
    proof (cases "rc2 = ERR_OK")
      case False
      with w "1.prems"(1) n f r show ?thesis by (intro exI [of _ n]) (auto simp: s1_def)
    next
      case True
      have c: "\<not> (first = 0 \<or> len < first)" using False "1.prems"(3) by simp
      have "\<exists>k \<le> len - n. i' = (i + n) + k \<and> len' = (len - n) - k \<and> sf_frame s2 s' \<and>
           sf_mem s' = program (sf_mem s2) (to + (i + n)) (take k (drop (i + n) buf)) \<and>
           (rc = ERR_OK \<longrightarrow> len' < first) \<and> (sf_ready s2 \<longrightarrow> rc = ERR_OK)"
        using "1.IH" [OF c n_def s1_def p [symmetric] refl] True w "1.prems" n by simp
      then obtain k where k: "k \<le> len - n" "i' = i + n + k" "len' = len - n - k" "sf_frame s2 s'"
          "sf_mem s' = program (sf_mem s2) (to + (i + n)) (take k (drop (i + n) buf))"
          "rc = ERR_OK \<longrightarrow> len' < first" "sf_ready s2 \<longrightarrow> rc = ERR_OK" by blast
      have "length (take n (drop i buf)) = n" using n(2) "1.prems"(2) by simp
      moreover have "take (n + k) (drop i buf) = take n (drop i buf) @ take k (drop (i + n) buf)"
        using take_add [of n k "drop i buf"] by (simp add: add.commute)
      ultimately have "sf_mem s' = program (sf_mem s) (to + i) (take (n + k) (drop i buf))"
        using k(5) f(2) program_append [of "sf_mem s" "to + i" "take n (drop i buf)" "take k (drop (i + n) buf)"]
        by (simp add: s1_def add.assoc)
      moreover have "sf_ready s \<longrightarrow> rc = ERR_OK" using k(7) f(1) by (simp add: sf_ready_frame)
      ultimately show ?thesis
        using k n sf_frame_trans [OF f(1) k(4)] by (intro exI [of _ "n + k"]) auto
    qed
  qed
qed

text \<open>A write stores a beginning of the buffer, all of it when the chip works.\<close>

lemma spi_flash_sector_write_spec:
  assumes "reg_sf s" "len \<le> length buf"
  shows "\<exists>s' ret k. spi_flash_sector_write s to len buf = Some (s', ret) \<and> k \<le> len \<and> sf_frame s s' \<and>
           sf_mem s' = program (sf_mem s) to (take k buf) \<and> (sf_ready s \<longrightarrow> k = len \<and> ret = int len)"
proof -
  obtain s0 rc0 where p0: "sf_poll (chip_of s to) (clock_on s) POLL_MAX = (s0, rc0)" by force
  then have r0: "spi_read_status (chip_of s to) (clock_on s) = Some (s0, rc0)"
    using assms(1) by (simp add: spi_read_status_def)
  have f0: "sf_frame s s0" "sf_mem s0 = sf_mem s" using sf_poll_frame [OF p0] by auto
  define s1 where "s1 = set_wr_en 3 s0"
  have f1: "sf_frame s s1" "sf_mem s1 = sf_mem s" using f0 by (auto simp: s1_def)
  obtain s2 rc2 i2 l2 where w2: "wr_loop 8 False to buf s1 0 len = (s2, rc2, i2, l2)" by (metis prod_cases4)
  obtain s3 rc3 i3 l3 where w3: "wr_loop 4 True to buf s2 i2 l2 = (s3, rc3, i3, l3)" by (metis prod_cases4)
  obtain s4 rc4 i4 l4 where w4: "wr_loop 1 True to buf s3 i3 l3 = (s4, rc4, i4, l4)" by (metis prod_cases4)
  have stores: "\<exists>k' \<le> len. i' = k' \<and> l' = len - k' \<and> sf_frame s t' \<and> sf_mem t' = program (sf_mem s) to (take k' buf) \<and>
      (rc = ERR_OK \<longrightarrow> l' < first) \<and> (sf_ready s \<longrightarrow> rc = ERR_OK)"
    if w: "wr_loop first extra to buf t i l = (t', rc, i', l')" "0 < first" "i \<le> len" "l = len - i" "sf_frame s t"
      "sf_mem t = program (sf_mem s) to (take i buf)"
    for first extra t i l t' rc i' l'
  proof -
    obtain k where k: "k \<le> l" "i' = i + k" "l' = l - k" "sf_frame t t'"
        "sf_mem t' = program (sf_mem t) (to + i) (take k (drop i buf))"
        "rc = ERR_OK \<longrightarrow> l' < first" "sf_ready t \<longrightarrow> rc = ERR_OK"
      using wr_loop_spec [OF w(1)] w assms(2) by auto
    have "length (take i buf) = i" using w(3) assms(2) by simp
    then have "sf_mem t' = program (sf_mem s) to (take (i + k) buf)"
      using program_append [of "sf_mem s" to "take i buf" "take k (drop i buf)"] k(5) w(6) by (simp add: take_add)
    then show ?thesis using k w sf_frame_trans [OF w(5) k(4)] sf_ready_frame [OF w(5)] by auto
  qed
  from stores [OF w2, of] f1 have k2: "i2 \<le> len" "l2 = len - i2" "sf_frame s s2"
      "sf_mem s2 = program (sf_mem s) to (take i2 buf)" "sf_ready s \<longrightarrow> rc2 = ERR_OK" by auto
  from stores [OF w3 _ k2(1,2,3,4)] have k3: "i3 \<le> len" "l3 = len - i3" "sf_frame s s3"
      "sf_mem s3 = program (sf_mem s) to (take i3 buf)" "sf_ready s \<longrightarrow> rc3 = ERR_OK" by auto
  from stores [OF w4 _ k3(1,2,3,4)] have k4: "i4 \<le> len" "l4 = len - i4" "sf_frame s s4"
      "sf_mem s4 = program (sf_mem s) to (take i4 buf)" "sf_ready s \<longrightarrow> rc4 = ERR_OK" "rc4 = ERR_OK \<longrightarrow> l4 < 1" by auto
  have run: "spi_flash_sector_write s to len buf =
      (if rc2 \<noteq> ERR_OK then Some (s2, rc2) else if rc3 \<noteq> ERR_OK then Some (s3, rc3)
       else if rc4 \<noteq> ERR_OK then Some (s4, rc4) else Some (clock_off (set_wr_en 0 s4), int i4))"
    by (simp add: spi_flash_sector_write_def r0 s1_def [symmetric] w2 w3 w4 Let_def del: One_nat_def)
  consider "rc2 \<noteq> ERR_OK" | "rc2 = ERR_OK" "rc3 \<noteq> ERR_OK" | "rc2 = ERR_OK" "rc3 = ERR_OK" "rc4 \<noteq> ERR_OK"
    | "rc2 = ERR_OK" "rc3 = ERR_OK" "rc4 = ERR_OK" by blast
  then show ?thesis
  proof cases
    case 1 with run k2 show ?thesis by auto
  next
    case 2 with run k3 show ?thesis by auto
  next
    case 3 with run k4 show ?thesis by auto
  next
    case 4 with run k4 show ?thesis by auto
  qed
qed

end
