(* ===== verification/WmtEnvCopies.thy ===== *)
theory WmtEnvCopies
  imports WmtEnvFlash WmtEnvCrc WmtSfProps
begin

text \<open>
  The checksum field of a copy of the environment: every checksum fits into it, and reading it
  gives what was stored.
\<close>

section \<open>Checksums of a copy\<close>

definition in32 :: "int \<Rightarrow> bool" where "in32 x \<longleftrightarrow> take_bit 32 x = x"

lemma in32_iff: "in32 x \<longleftrightarrow> 0 \<le> x \<and> x < 4294967296"
  by (simp add: in32_def take_bit_int_eq_self_iff)

lemma in32_xor: "in32 x \<Longrightarrow> in32 y \<Longrightarrow> in32 (x XOR y)"
  by (simp add: in32_def)

lemma in32_step: "in32 x \<Longrightarrow> in32 (crc_step x)"
proof -
  assume "in32 x"
  then have "in32 (drop_bit 1 x)" by (auto simp: in32_iff drop_bit_eq_div)
  moreover have "in32 (if bit x 0 then 0xEDB88320 else 0)" by (simp add: in32_iff)
  ultimately show ?thesis unfolding crc_step_def by (rule in32_xor)
qed

lemma in32_steps: "in32 x \<Longrightarrow> in32 ((crc_step ^^ n) x)"
  by (induction n) (simp_all add: in32_step)

lemma in32_crc: "in32 x \<Longrightarrow> is_bytes bs \<Longrightarrow> in32 (foldl crc_byte x bs)"
proof (induction bs arbitrary: x)
  case (Cons b bs)
  then have "in32 b" by (simp add: is_bytes_def in32_iff)
  with Cons have "in32 (crc_byte x b)" by (simp add: crc_byte_def in32_xor in32_steps)
  with Cons show ?case by (simp add: is_bytes_def)
qed simp

lemma in32_env_crc32: "is_bytes d \<Longrightarrow> in32 (env_crc32 env_max nand d)"
  by (auto simp: env_crc32_def crc_loop_foldl foldl_DO1 Let_def in32_iff [of "0xFFFFFFFF"] intro!: in32_xor in32_crc)

lemma base256:
  "x = 256 * y + a \<Longrightarrow> y = 256 * z + b \<Longrightarrow> z = 256 * w + c \<Longrightarrow> a + 256 * b + 65536 * c + 16777216 * w = (x :: int)"
  by simp

lemma env_crc_set_crc: "in32 x \<Longrightarrow> env_crc (set_crc x b) = x"
proof -
  assume "in32 x"
  then have x: "0 \<le> x" "x < 4294967296" by (simp_all add: in32_iff)
  have z: "x div 65536 = x div 256 div 256" using zdiv_zmult2_eq [of 256 x 256] by simp
  have w: "x div 16777216 = x div 256 div 256 div 256" using zdiv_zmult2_eq [of 256 "x div 256" 256] zdiv_zmult2_eq [of 65536 x 256] z
    by simp
  define q where "q = x div 16777216"
  have "q \<le> 4294967295 div 16777216" unfolding q_def by (rule zdiv_mono1) (use x in simp_all)
  moreover have "0 div 16777216 \<le> q" unfolding q_def by (rule zdiv_mono1) (use x in simp_all)
  ultimately have "q mod 256 = q" by simp
  then have m: "x div 16777216 mod 256 = x div 16777216" by (simp only: q_def)
  have "env_crc (set_crc x b) = x mod 256 + 256 * (x div 256 mod 256) + 65536 * (x div 65536 mod 256) + 16777216 * (x div 16777216 mod 256)"
    by (simp add: env_crc_def set_crc_def)
  also have "\<dots> = x mod 256 + 256 * (x div 256 mod 256) + 65536 * (x div 256 div 256 mod 256) + 16777216 * (x div 256 div 256 div 256)"
    by (simp only: m) (simp only: z w)
  also have "\<dots> = x"
    by (rule base256 [of x "x div 256" _ "x div 256 div 256" _ "x div 256 div 256 div 256"]) simp_all
  finally show ?thesis .
qed

end
