(* ===== verification/WmtEnvReload.thy ===== *)
theory WmtEnvReload
  imports WmtEnvCopies
begin

text \<open>
  What \<^verbatim>\<open>wmt_env.c\<close> relies on of the two devices that hold its copies, and what follows from it
  about loading a copy and about writing one back.
\<close>

section \<open>Copies\<close>

definition live :: "int list \<Rightarrow> bool" where
  "live c \<longleftrightarrow> env_crc_ok (length c) False c \<and> env_flags c = 1"

definition stale :: "int list \<Rightarrow> bool" where
  "stale c \<longleftrightarrow> env_crc_ok (length c) False c \<and> env_flags c = 0"

text \<open>The copy that a start-up takes: a live one, the first rather than the second; else one that
  is marked as replaced, the second rather than the first.\<close>

definition pick :: "int list \<Rightarrow> int list \<Rightarrow> nat option" where
  "pick c0 c1 = (if live c0 then Some 0 else if live c1 then Some 1
     else if stale c1 then Some 1 else if stale c0 then Some 0 else None)"

lemma pick_less: "pick c0 c1 = Some i \<Longrightarrow> i < 2"
  by (auto simp: pick_def split: if_splits)

section \<open>The interface\<close>

text \<open>
  \<open>copy i\<close> is the contents of device \<open>i\<close>. A write that reports success has stored a
  beginning of the buffer; a \<open>sound\<close> flash stores all of it.
\<close>

locale env_devices =
  fixes dev :: "nat \<Rightarrow> 'n sf_scheme mtd_info"
    and copy :: "nat \<Rightarrow> 'n sf_scheme \<Rightarrow> int list"
    and inv :: "'n sf_scheme \<Rightarrow> bool"
    and sound :: "'n sf_scheme \<Rightarrow> bool"
    and sz :: nat
  assumes sz: "8 \<le> sz"
    and dev_size: "i < 2 \<Longrightarrow> mtd_size (dev i) = sz"
    and copy_length: "inv f \<Longrightarrow> i < 2 \<Longrightarrow> length (copy i f) = sz"
    and read_copy: "inv f \<Longrightarrow> i < 2 \<Longrightarrow> length b = sz \<Longrightarrow>
        \<exists>f'. mtd_read (dev i) f 0 sz b = Some (f', 0, copy i f) \<and> inv f' \<and> copy 0 f' = copy 0 f \<and> copy 1 f' = copy 1 f \<and>
             (sound f \<longrightarrow> sound f')"
    and write_copy: "inv f \<Longrightarrow> i < 2 \<Longrightarrow> j < 2 \<Longrightarrow> i \<noteq> j \<Longrightarrow> to + len \<le> sz \<Longrightarrow> len \<le> length b \<Longrightarrow>
        \<exists>f' ret k. mtd_write (dev i) f to len b = Some (f', 0, ret) \<and> inv f' \<and> k \<le> len \<and>
             copy i f' = program (copy i f) to (take k b) \<and> copy j f' = copy j f \<and> (sound f \<longrightarrow> k = len \<and> sound f')"
    and erase_copy: "inv f \<Longrightarrow> i < 2 \<Longrightarrow> j < 2 \<Longrightarrow> i \<noteq> j \<Longrightarrow>
        \<exists>f' ret. mtd_erase (dev i) f 0 sz = Some (f', ret) \<and> inv f' \<and> copy j f' = copy j f \<and>
             (ret = 0 \<longrightarrow> copy i f' = replicate sz 0xFF) \<and> (sound f \<longrightarrow> ret = 0 \<and> sound f')"
begin

text \<open>A state whose tables hold the two devices and whose buffer is there.\<close>

definition attached :: "'n env_state \<Rightarrow> bool" where
  "attached st \<longleftrightarrow> mtd_table0 st = Some (dev 0) \<and> mtd_table1 st = Some (dev 1) \<and> ENV_MAX_SIZE st = sz \<and>
     inv (flash st) \<and> (\<exists>b. env_ptr st = Some b \<and> length b = sz)"

lemma attached_at: "attached st \<Longrightarrow> i < 2 \<Longrightarrow> mtd_at st i = Some (dev i)"
  by (auto simp: attached_def mtd_at_def mtd_slot_def less_2_cases_iff)

lemma fetch:
  assumes "attached st" "i < 2"
  shows "\<exists>f'. env_fetch (dev i) 0 st = Some (st\<lparr>flash := f', env_ptr := Some (copy i (flash st))\<rparr>, 0) \<and>
     inv f' \<and> copy 0 f' = copy 0 (flash st) \<and> copy 1 f' = copy 1 (flash st) \<and> (sound (flash st) \<longrightarrow> sound f')"
proof -
  obtain b where b: "env_ptr st = Some b" "length b = sz" "inv (flash st)" "ENV_MAX_SIZE st = sz"
    using assms(1) by (auto simp: attached_def)
  with read_copy [OF b(3) assms(2) b(2)] show ?thesis by (auto simp: env_fetch_def)
qed

lemma attached_fetch:
  assumes "attached st" "i < 2" "inv f'"
  shows "attached (st\<lparr>flash := f', env_ptr := Some (copy i (flash st))\<rparr>)"
  using assms copy_length by (auto simp: attached_def)

text \<open>One turn of the loop, by the state of the copy.\<close>

lemma turn:
  assumes "attached st" "i < 2" "\<not> nand_boot bd" "env_valid st = 0xFF"
  defines "c \<equiv> copy i (flash st)"
  shows "\<exists>f'. inv f' \<and> copy 0 f' = copy 0 (flash st) \<and> copy 1 f' = copy 1 (flash st) \<and> (sound (flash st) \<longrightarrow> sound f') \<and>
     after_turn bd st i =
      (let st1 = st\<lparr>flash := f', env_ptr := Some c\<rparr> in
       if live c then Inl (Some (st1\<lparr>env_valid := i, env_invalid := 1 - i\<rparr>, 0))
       else if stale c then Inr (st1\<lparr>env_invalid := i\<rparr>) else Inr st1)"
proof -
  obtain f' where f: "env_fetch (dev i) 0 st = Some (st\<lparr>flash := f', env_ptr := Some c\<rparr>, 0)"
      "inv f'" "copy 0 f' = copy 0 (flash st)" "copy 1 f' = copy 1 (flash st)" "sound (flash st) \<longrightarrow> sound f'"
    using fetch [OF assms(1,2)] unfolding c_def by blast
  have l: "length c = sz" "ENV_MAX_SIZE st = sz" using assms(1,2) copy_length by (auto simp: attached_def c_def)
  have i: "(if i = 0 then 1 else 0) = 1 - i" using assms(2) by auto
  have "after_turn bd st i =
      (let st1 = st\<lparr>flash := f', env_ptr := Some c\<rparr> in
       if live c then Inl (Some (st1\<lparr>env_valid := i, env_invalid := 1 - i\<rparr>, 0))
       else if stale c then Inr (st1\<lparr>env_invalid := i\<rparr>) else Inr st1)"
    using assms(3,4) attached_at [OF assms(1,2)]
    by (simp add: after_turn_def f(1) live_def stale_def l Let_def i)
  with f(2-5) show ?thesis by blast
qed

text \<open>\<^verbatim>\<open>read_env_after_mtd_init\<close> takes the copy that \<^const>\<open>pick\<close> says.\<close>

lemma reload:
  assumes "attached st" "\<not> nand_boot bd"
  defines "c \<equiv> \<lambda>i. copy i (flash st)"
  shows "\<exists>st' ret. read_env_after_mtd_init bd st = Some (st', ret) \<and> attached st' \<and> mtd_init st' = mtd_init st \<and>
     copy 0 (flash st') = c 0 \<and> copy 1 (flash st') = c 1 \<and> (sound (flash st) \<longrightarrow> sound (flash st')) \<and>
     (case pick (c 0) (c 1) of None \<Rightarrow> ret = 1 \<and> env_ptr st' = Some (c 1)
      | Some i \<Rightarrow> ret = 0 \<and> env_ptr st' = Some (c i) \<and> env_valid st' = i \<and> env_invalid st' = 1 - i)"
proof -
  define st0 where "st0 = st\<lparr>env_valid := 0xFF, env_invalid := 0xFF\<rparr>"
  have n01: "(0 :: nat) < 2" "(1 :: nat) < 2" by simp_all
  have a0: "attached st0" "flash st0 = flash st" "env_valid st0 = 0xFF" using assms(1) by (auto simp: st0_def attached_def)
  obtain f1 where f1: "inv f1" "copy 0 f1 = c 0" "copy 1 f1 = c 1" "sound (flash st) \<longrightarrow> sound f1"
    and t0: "after_turn bd st0 0 = (let st1 = st0\<lparr>flash := f1, env_ptr := Some (c 0)\<rparr> in
       if live (c 0) then Inl (Some (st1\<lparr>env_valid := 0, env_invalid := 1 - 0\<rparr>, 0))
       else if stale (c 0) then Inr (st1\<lparr>env_invalid := 0\<rparr>) else Inr st1)"
    using turn [OF a0(1) n01(1) assms(2) a0(3)] unfolding c_def a0(2) by blast
  define st1 where "st1 = st0\<lparr>flash := f1, env_ptr := Some (c 0)\<rparr>"
  define st2 where "st2 = (if stale (c 0) then st1\<lparr>env_invalid := 0\<rparr> else st1)"
  have a1: "attached st1" using attached_fetch [OF a0(1) _ f1(1), of 0] a0(2) by (simp add: st1_def c_def)
  then have a2: "attached st2" "flash st2 = f1" "env_valid st2 = 0xFF"
    by (auto simp: st2_def st1_def st0_def attached_def)
  obtain f2 where f2: "inv f2" "copy 0 f2 = c 0" "copy 1 f2 = c 1" "sound (flash st) \<longrightarrow> sound f2"
    and t1: "after_turn bd st2 1 = (let st3 = st2\<lparr>flash := f2, env_ptr := Some (c 1)\<rparr> in
       if live (c 1) then Inl (Some (st3\<lparr>env_valid := 1, env_invalid := 1 - 1\<rparr>, 0))
       else if stale (c 1) then Inr (st3\<lparr>env_invalid := 1\<rparr>) else Inr st3)"
    using turn [OF a2(1) n01(2) assms(2) a2(3)] f1(4) unfolding a2(2) f1(2,3) by blast
  define st3 where "st3 = st2\<lparr>flash := f2, env_ptr := Some (c 1)\<rparr>"
  define st4 where "st4 = (if stale (c 1) then st3\<lparr>env_invalid := 1\<rparr> else st3)"
  have a3: "attached st3" using attached_fetch [OF a2(1) _ f2(1), of 1] a2(2) f1 by (simp add: st3_def)
  then have a4: "attached st4" "flash st4 = f2" "env_valid st4 = 0xFF"
    by (auto simp: st4_def st3_def attached_def a2)
  have fin: "attached st4" "mtd_init st4 = mtd_init st" "mtd_init st3 = mtd_init st" "mtd_init st1 = mtd_init st"
    using a4 by (simp_all add: st4_def st3_def st2_def st1_def st0_def)
  have loop: "foldl_until (after_turn bd) st0 [0, 1] =
      (if live (c 0) then Inl (Some (st1\<lparr>env_valid := 0, env_invalid := 1\<rparr>, 0))
       else if live (c 1) then Inl (Some (st3\<lparr>env_valid := 1, env_invalid := 0\<rparr>, 0)) else Inr st4)"
  proof -
    have "after_turn bd st0 0 = (if live (c 0) then Inl (Some (st1\<lparr>env_valid := 0, env_invalid := 1\<rparr>, 0)) else Inr st2)"
      using t0 by (simp add: Let_def st1_def st2_def)
    moreover have "after_turn bd st2 1 = (if live (c 1) then Inl (Some (st3\<lparr>env_valid := 1, env_invalid := 0\<rparr>, 0)) else Inr st4)"
      using t1 by (simp add: Let_def st3_def st4_def)
    ultimately show ?thesis by (simp del: One_nat_def)
  qed
  consider "live (c 0)" | "\<not> live (c 0)" "live (c 1)" | "\<not> live (c 0)" "\<not> live (c 1)" by blast
  then show ?thesis
  proof cases
    case 1
    then have "read_env_after_mtd_init bd st = Some (st1\<lparr>env_valid := 0, env_invalid := 1\<rparr>, 0)"
      using loop by (simp add: read_env_after_mtd_init_def st0_def)
    moreover have "attached (st1\<lparr>env_valid := 0, env_invalid := 1\<rparr>)" using a1 by (simp add: attached_def)
    ultimately show ?thesis using 1 f1 fin by (simp add: pick_def) (simp add: st1_def)
  next
    case 2
    then have "read_env_after_mtd_init bd st = Some (st3\<lparr>env_valid := 1, env_invalid := 0\<rparr>, 0)"
      using loop by (simp add: read_env_after_mtd_init_def st0_def)
    moreover have "attached (st3\<lparr>env_valid := 1, env_invalid := 0\<rparr>)" using a3 by (simp add: attached_def)
    ultimately show ?thesis using 2 f2 fin by (simp add: pick_def) (simp add: st3_def)
  next
    case 3
    have inv4: "env_invalid st4 = (if stale (c 1) then 1 else if stale (c 0) then 0 else 0xFF)"
      by (simp add: st4_def st3_def st2_def st1_def st0_def)
    show ?thesis
    proof (cases "stale (c 0) \<or> stale (c 1)")
      case False
      then have "read_env_after_mtd_init bd st = Some (st4, 1)"
        using loop 3 inv4 a4(3) by (simp add: read_env_after_mtd_init_def st0_def)
      moreover have "env_ptr st4 = Some (c 1)" by (simp add: st4_def st3_def)
      ultimately show ?thesis using False 3 fin a4 f2 by (simp add: pick_def)
    next
      case True
      define i where "i = env_invalid st4"
      have i: "i < 2" "pick (c 0) (c 1) = Some i" "i \<noteq> 0xFF" using True 3 inv4 by (auto simp: i_def pick_def)
      obtain f' where f': "env_fetch (dev i) 0 st4 = Some (st4\<lparr>flash := f', env_ptr := Some (copy i f2)\<rparr>, 0)"
          "inv f'" "copy 0 f' = c 0" "copy 1 f' = c 1" "sound (flash st) \<longrightarrow> sound f'"
        using fetch [OF a4(1) i(1)] a4(2) f2 by auto
      have ci: "copy i f2 = c i" using i(1) f2 by (auto simp: less_2_cases_iff)
      let ?s = "st4\<lparr>flash := f', env_ptr := Some (c i)\<rparr>"
      have "read_env_after_mtd_init bd st =
          Some (?s\<lparr>env_valid := (if i = 0 then 0 else 1), env_invalid := (if i = 0 then 1 else 0)\<rparr>, 0)"
        using loop 3 i a4(3) f'(1) ci attached_at [OF a4(1) i(1)]
        by (simp add: read_env_after_mtd_init_def st0_def [symmetric] i_def [symmetric])
      moreover have "attached (?s\<lparr>env_valid := (if i = 0 then 0 else 1), env_invalid := (if i = 0 then 1 else 0)\<rparr>)"
        using attached_fetch [OF a4(1) i(1) f'(2)] a4(2) ci by (simp add: attached_def)
      moreover have "(if i = 0 then 0 else 1) = i" "(if i = 0 then 1 else 0) = 1 - i" using i(1) by auto
      ultimately show ?thesis using i f' fin by simp
    qed
  qed
qed

end

end
