(* ===== verification/WmtEnvUpdate.thy ===== *)
theory WmtEnvUpdate
  imports WmtEnvReload
begin

text \<open>Writing the environment back: which copies the flash holds afterwards, also when an
  operation of the flash failed.\<close>

section \<open>Flags and checksums\<close>

lemma boot_val_nand: "boot_val bd = 1 \<longleftrightarrow> nand_boot bd"
proof -
  have "strap bd AND 6 = push_bit 1 (drop_bit 1 (strap bd) AND 3)"
  proof (rule bit_eqI)
    fix n
    have six: "(6 :: int) = push_bit 1 3" by simp
    show "bit (strap bd AND 6) n = bit (push_bit 1 (drop_bit 1 (strap bd) AND 3)) n"
      unfolding six by (cases n) (simp_all only: bit_simps, auto)
  qed
  then show ?thesis by (auto simp: boot_val_def nand_boot_def push_bit_eq_mult)
qed

text \<open>What \<^verbatim>\<open>env_update\<close> makes of the buffer before it writes it.\<close>

definition sealed :: "int list \<Rightarrow> int list" where
  "sealed b = (let b1 = set_crc (env_crc32 (length b) False (env_data False b)) b
               in if env_flags b1 = 0 then b1[4 := 1] else b1)"

lemma length_set_crc [simp]: "4 \<le> length b \<Longrightarrow> length (set_crc x b) = length b"
  by (simp add: set_crc_def)

lemma length_sealed [simp]: "8 \<le> length b \<Longrightarrow> length (sealed b) = length b"
  by (simp add: sealed_def Let_def)

lemma flags_set_crc [simp]: "8 \<le> length b \<Longrightarrow> env_flags (set_crc x b) = env_flags b"
  by (simp add: env_flags_def set_crc_def nth_append)

lemma data_set_crc [simp]: "8 \<le> length b \<Longrightarrow> env_data False (set_crc x b) = env_data False b"
  by (simp add: env_data_def data_offs_def set_crc_def)

lemma data_flag [simp]: "env_data False (b[4 := v]) = env_data False b"
  by (simp add: env_data_def data_offs_def drop_update_cancel)

lemma crc_flag [simp]: "env_crc (b[4 := v]) = env_crc b"
  by (simp add: env_crc_def)

lemma data_sealed [simp]: "8 \<le> length b \<Longrightarrow> env_data False (sealed b) = env_data False b"
  by (simp add: sealed_def Let_def)

lemma is_bytes_data: "is_bytes b \<Longrightarrow> is_bytes (env_data nand b)"
  by (auto simp: is_bytes_def env_data_def dest: in_set_dropD)

lemma is_bytes_update: "is_bytes b \<Longrightarrow> 0 \<le> v \<Longrightarrow> v < 256 \<Longrightarrow> is_bytes (b[i := v])"
  by (auto simp: is_bytes_def dest!: set_update_subset_insert [THEN subsetD])

lemma is_bytes_set_crc: "is_bytes b \<Longrightarrow> is_bytes (set_crc x b)"
  by (auto simp: is_bytes_def set_crc_def dest: in_set_dropD)

lemma is_bytes_sealed: "is_bytes b \<Longrightarrow> is_bytes (sealed b)"
  by (simp add: sealed_def Let_def is_bytes_update is_bytes_set_crc)

lemma sealed_live:
  assumes "is_bytes b" "8 \<le> length b" "env_flags b = 0 \<or> env_flags b = 1"
  shows "live (sealed b)"
proof -
  have c: "in32 (env_crc32 (length b) False (env_data False b))"
    by (intro in32_env_crc32 is_bytes_data assms(1))
  have f: "env_flags (sealed b) = 1"
  proof (cases "env_flags b = 0")
    case True
    then have "sealed b = (set_crc (env_crc32 (length b) False (env_data False b)) b)[4 := 1]"
      using assms(2) by (simp add: sealed_def Let_def)
    then show ?thesis using assms(2) by (simp add: env_flags_def)
  next
    case False
    then show ?thesis using assms(2,3) by (auto simp: sealed_def Let_def)
  qed
  have "env_crc (sealed b) = env_crc32 (length b) False (env_data False b)"
    using env_crc_set_crc [OF c] by (simp add: sealed_def Let_def)
  then show ?thesis using assms(2) f by (simp add: live_def env_crc_ok_def)
qed

text \<open>Programming an erased area, and programming the flag.\<close>

lemma and_FF_byte: "0 \<le> x \<Longrightarrow> x < 256 \<Longrightarrow> (0xFF :: int) AND x = x"
  by (subst and.commute) (simp add: and_FF take_bit_int_eq_self_iff)

lemma program_erased: "is_bytes b \<Longrightarrow> length b = n \<Longrightarrow> program (replicate n 0xFF) 0 b = b"
  by (rule nth_equalityI) (auto simp: nth_program is_bytes_def and_FF_byte)

lemma program_flag: "8 \<le> length c \<Longrightarrow> program c 4 [0] = c[4 := 0]"
  by (rule nth_equalityI) (auto simp: nth_program nth_list_update)

lemma program_flag_part: "8 \<le> length c \<Longrightarrow> k \<le> 1 \<Longrightarrow> program c 4 (take k [0]) = c \<or> program c 4 (take k [0]) = c[4 := 0]"
  by (cases k) (simp_all add: program_flag)

lemma flag_stays_valid:
  assumes "live c \<or> stale c" "c' = c \<or> c' = c[4 := 0]" "8 \<le> length c"
  shows "(live c' \<or> stale c') \<and> env_data False c' = env_data False c"
  using assms by (auto simp: live_def stale_def env_crc_ok_def) (simp_all add: env_flags_def)

text \<open>A start-up finds one of two copies when one of them is valid and the other is either one
  that is wanted or none at all.\<close>

lemma pick_survives:
  assumes "i < 2" "live (c i) \<or> stale (c i)" "live (c (1 - i)) \<or> \<not> stale (c (1 - i))"
  shows "\<exists>j. pick (c 0) (c 1) = Some j \<and> (j = i \<or> j = 1 - i \<and> live (c (1 - i)))"
  using assms by (auto simp: pick_def less_2_cases_iff)

section \<open>The update\<close>

context env_devices
begin

lemma update:
  assumes "attached st" "\<not> nand_boot bd" "i < 2" "env_valid st = i" "env_invalid st = 1 - i"
    and "env_ptr st = Some b" "is_bytes b"
  shows "\<exists>st' ret. env_update bd st = Some (st', ret) \<and> attached st' \<and> mtd_init st' = mtd_init st \<and>
     (copy i (flash st') = copy i (flash st) \<or> ret = 0 \<and> copy i (flash st') = (copy i (flash st))[4 := 0]) \<and>
     (sound (flash st) \<longrightarrow> ret = 0 \<and> sound (flash st') \<and> env_ptr st' = Some (sealed b) \<and>
        env_valid st' = 1 - i \<and> env_invalid st' = i \<and>
        copy (1 - i) (flash st') = sealed b \<and> copy i (flash st') = (copy i (flash st))[4 := 0])"
proof -
  let ?f = "flash st" and ?j = "1 - i"
  have st: "mtd_table0 st = Some (dev 0)" "mtd_table1 st = Some (dev 1)" "ENV_MAX_SIZE st = sz" "inv ?f" "length b = sz"
    using assms(1,6) by (auto simp: attached_def)
  have ij: "?j < 2" "?j \<noteq> i" "i \<noteq> ?j" using assms(3) by (auto simp: less_2_cases_iff)
  have lc: "length (copy i ?f) = sz" by (rule copy_length [OF st(4) assms(3)])
  define b1 where "b1 = set_crc (env_crc32 sz False (env_data False b)) b"
  define st1 where "st1 = st\<lparr>env_ptr := Some b1\<rparr>"
  have sb: "(if env_flags b1 = 0 then b1[4 := 1] else b1) = sealed b"
    using st(5) by (simp add: sealed_def b1_def Let_def)
  have slot: "mtd_slot st1 ?j = Some (Some (dev ?j))"
    using st assms(3) by (auto simp: mtd_slot_def st1_def less_2_cases_iff)
  have at: "mtd_at st1 i = Some (dev i)"
    using st assms(3) by (auto simp: mtd_at_def mtd_slot_def st1_def less_2_cases_iff)
  have up: "env_update bd st = env_update_mtd (dev ?j) b1 st1"
    using assms(2,5,6) slot st(3) unfolding env_update_def
    by (simp add: boot_val_nand Let_def b1_def [symmetric] st1_def [symmetric])
  obtain f1 ret1 where e: "mtd_erase (dev ?j) ?f 0 sz = Some (f1, ret1)" "inv f1" "copy i f1 = copy i ?f"
      "ret1 = 0 \<longrightarrow> copy ?j f1 = replicate sz 0xFF" "sound ?f \<longrightarrow> ret1 = 0 \<and> sound f1"
    using erase_copy [OF st(4) ij(1) assms(3) ij(2)] by blast
  have l8: "8 \<le> length b" using sz st(5) by simp
  obtain f2 ret2 k where w: "mtd_write (dev ?j) f1 0 sz (sealed b) = Some (f2, 0, ret2)" "inv f2" "k \<le> sz"
      "copy ?j f2 = program (copy ?j f1) 0 (take k (sealed b))" "copy i f2 = copy i f1" "sound f1 \<longrightarrow> k = sz \<and> sound f2"
    using write_copy [OF e(2) ij(1) assms(3) ij(2), of 0 sz "sealed b"] st(5) l8 by auto
  obtain f3 ret3 k' where v: "mtd_write (dev i) f2 4 1 [0] = Some (f3, 0, ret3)" "inv f3" "k' \<le> 1"
      "copy i f3 = program (copy i f2) 4 (take k' [0])" "copy ?j f3 = copy ?j f2" "sound f2 \<longrightarrow> k' = 1 \<and> sound f3"
    using write_copy [OF w(2) assms(3) ij(1) ij(3), of 4 1 "[0]"] sz by auto
  have run: "env_update_mtd (dev ?j) b1 st1 =
      (if ret1 \<noteq> 0 then Some (st1\<lparr>flash := f1\<rparr>, 1)
       else Some (swap_env (st1\<lparr>env_ptr := Some (sealed b), flash := f3\<rparr>), 0))"
    unfolding env_update_mtd_def Let_def sb using e(1) w(1) v(1) at dev_size [OF ij(1)] st(3) assms(4)
    by (simp add: st1_def [symmetric]) (simp add: st1_def)
  show ?thesis
  proof (cases "ret1 = 0")
    case False
    have "attached (st1\<lparr>flash := f1\<rparr>)" using st e(2) l8 by (auto simp: attached_def st1_def b1_def)
    then show ?thesis using False up run e by (auto simp: st1_def)
  next
    case True
    let ?s = "swap_env (st1\<lparr>env_ptr := Some (sealed b), flash := f3\<rparr>)"
    have a: "attached ?s" using st v(2) l8 by (auto simp: attached_def st1_def swap_env_def)
    have c: "copy i f3 = copy i ?f \<or> copy i f3 = (copy i ?f)[4 := 0]"
      using program_flag_part [of "copy i ?f" k'] v(3,4) w(5) e(3) lc sz by simp
    have s: "k' = 1 \<and> k = sz \<and> sound f3" if "sound ?f" using that e(5) w(6) v(6) by blast
    have "copy ?j f3 = sealed b" if "sound ?f"
      using s [OF that] v(5) w(4) e(4) True program_erased [OF is_bytes_sealed [OF assms(7)]] st(5) l8 by simp
    moreover have "copy i f3 = (copy i ?f)[4 := 0]" if "sound ?f"
      using s [OF that] v(4) w(5) e(3) lc sz program_flag [of "copy i ?f"] by simp
    ultimately show ?thesis using True up run a c s assms(4,5) by (auto simp: swap_env_def st1_def)
  qed
qed

end

end
