(* ===== verification/MtdCore.thy ===== *)
theory MtdCore
  imports MtdPart
begin

text \<open>
  The table of MTD devices, \<^verbatim>\<open>drivers/mtd/mtdcore.c\<close>, and the list of partitions of
  \<^verbatim>\<open>drivers/mtd/mtdpart.c\<close> over it.

  A \<^verbatim>\<open>struct mtd_info *\<close> is a number; \<open>objs\<close> gives the object that is allocated there. \<open>mtd_idr\<close> is the
  id allocator of \<^verbatim>\<open>lib/idr.c\<close> by its contract: a new id is the lowest free one. \<open>mtd_partitions\<close> is
  the list of partitions, newest first: the pointer, that of the master, and the offset. \<open>mtd_log\<close> has
  the calls of the notifiers in their order, \<open>mtd_flash\<close> the state of the chips. The core and its drivers are built
  in, so that references to modules have no effect; \<open>mo_owner_live\<close> is what \<^verbatim>\<open>try_module_get\<close> answers
  for the owner of a device, and \<open>mo_get_device\<close> what the driver's own hook answers; the hook for giving
  a device back changes nothing here. \<open>None\<close> as a result is an access to an object that is not allocated, a
  \<^verbatim>\<open>BUG_ON\<close>, or a loop that does not end.
\<close>

section \<open>State\<close>

datatype bdi = mtd_bdi_rw_mappable | mtd_bdi_ro_mappable | mtd_bdi_unmappable

record 'f mtd_obj =
  mo_info :: "'f mtd_info"
  mo_usecount :: int
  mo_erasesize_shift :: nat
  mo_writesize_shift :: nat
  mo_erasesize_mask :: nat
  mo_writesize_mask :: nat
  mo_bdi :: "bdi option"
  mo_owner_live :: bool
  mo_get_device :: "int option"
  mo_registered :: bool

datatype mtd_event = Notify_add nat nat | Notify_remove nat nat

text \<open>
  A parser of partition tables:
  \<open>pp_live\<close> is what \<^verbatim>\<open>try_module_get\<close> answers; \<open>pp_parse\<close> gives the result and what the parser stores in
  \<^verbatim>\<open>*pparts\<close>, if it does.
\<close>

record 'f mtd_part_parser =
  pp_name :: string
  pp_live :: bool
  pp_parse :: "'f mtd_info \<Rightarrow> nat \<Rightarrow> int \<times> mtd_partition list option"

record 'f mtd_core =
  objs :: "nat \<rightharpoonup> 'f mtd_obj"
  mtd_idr :: "nat option list"
  mtd_notifiers :: "nat list"
  mtd_partitions :: "(nat \<times> nat \<times> nat) list"
  mtd_log :: "mtd_event list"
  part_parsers :: "'f mtd_part_parser list"
  mtd_flash :: 'f

definition upd_obj :: "nat \<Rightarrow> 'f mtd_obj \<Rightarrow> 'f mtd_core \<Rightarrow> 'f mtd_core" where
  "upd_obj p o' c = c\<lparr>objs := (objs c)(p \<mapsto> o')\<rparr>"

definition log_events :: "mtd_event list \<Rightarrow> 'f mtd_core \<Rightarrow> 'f mtd_core" where
  "log_events es c = c\<lparr>mtd_log := mtd_log c @ es\<rparr>"

definition obj_index :: "'f mtd_obj \<Rightarrow> nat" where "obj_index o' = mtd_index (mo_info o')"

section \<open>Ids\<close>

fun idr_get_new :: "nat option list \<Rightarrow> nat \<Rightarrow> nat option list \<times> nat" where
  "idr_get_new [] p = ([Some p], 0)"
| "idr_get_new (None # ids) p = (Some p # ids, 0)"
| "idr_get_new (Some x # ids) p = (let (ids', i) = idr_get_new ids p in (Some x # ids', Suc i))"

definition idr_find :: "nat option list \<Rightarrow> nat \<Rightarrow> nat option" where
  "idr_find ids i = (if i < length ids then ids ! i else None)"

definition idr_remove :: "nat option list \<Rightarrow> nat \<Rightarrow> nat option list" where
  "idr_remove ids i = ids[i := None]"

text \<open>\<^verbatim>\<open>idr_get_next\<close>: the object with the lowest id from \<open>i\<close> on.\<close>

fun first_obj :: "'a option list \<Rightarrow> 'a option" where
  "first_obj [] = None"
| "first_obj (None # xs) = first_obj xs"
| "first_obj (Some x # xs) = Some x"

definition mtd_next_device :: "'f mtd_core \<Rightarrow> nat \<Rightarrow> nat option" where
  "mtd_next_device c i = first_obj (drop i (mtd_idr c))"

text \<open>
  \<^verbatim>\<open>mtd_for_each_device\<close> goes from a device to the one behind its \<^verbatim>\<open>index\<close>. \<open>mtd_visit\<close> gives the devices
  that the loop meets from id \<open>i\<close> on, \<open>mtd_search\<close> the first that satisfies a test.
\<close>

partial_function (option) mtd_visit :: "'f mtd_core \<Rightarrow> nat \<Rightarrow> nat list option" where
  "mtd_visit c i =
     (case mtd_next_device c i of
        None \<Rightarrow> Some []
      | Some p \<Rightarrow> (case objs c p of
          None \<Rightarrow> None
        | Some o' \<Rightarrow> do { ps \<leftarrow> mtd_visit c (obj_index o' + 1); Some (p # ps) }))"

partial_function (option) mtd_search :: "(nat \<Rightarrow> 'f mtd_obj \<Rightarrow> bool) \<Rightarrow> 'f mtd_core \<Rightarrow> nat \<Rightarrow> nat option option" where
  "mtd_search P c i =
     (case mtd_next_device c i of
        None \<Rightarrow> Some None
      | Some p \<Rightarrow> (case objs c p of
          None \<Rightarrow> None
        | Some o' \<Rightarrow> if P p o' then Some (Some p) else mtd_search P c (obj_index o' + 1)))"

section \<open>Registration\<close>

definition is_power_of_2 :: "nat \<Rightarrow> bool" where
  "is_power_of_2 n \<longleftrightarrow> n \<noteq> 0 \<and> n AND (n - 1) = 0"

fun ffs :: "nat \<Rightarrow> nat" where
  "ffs n = (if n = 0 then 0 else if odd n then 1 else Suc (ffs (n div 2)))"

declare ffs.simps [simp del]

definition size_shift :: "nat \<Rightarrow> nat" where
  "size_shift n = (if is_power_of_2 n then ffs n - 1 else 0)"

text \<open>
  The loop around the id allocator. \<open>tries\<close> has, for every turn, whether \<^verbatim>\<open>idr_pre_get\<close> found memory
  and whether \<^verbatim>\<open>idr_get_new\<close> asks for another turn with \<^verbatim>\<open>-EAGAIN\<close>. \<open>Some None\<close> is the failure.
\<close>

fun idr_loop :: "(bool \<times> bool) list \<Rightarrow> nat option list \<Rightarrow> nat \<Rightarrow> (nat option list \<times> nat) option option" where
  "idr_loop [] ids p = None"
| "idr_loop ((pre_ok, again) # tries) ids p =
     (if \<not> pre_ok then Some None
      else if again then idr_loop tries ids p
      else Some (Some (idr_get_new ids p)))"

definition default_bdi :: "'f mtd_obj \<Rightarrow> 'f mtd_obj" where
  "default_bdi o' =
     (if mo_bdi o' = None then
        o'\<lparr>mo_bdi := Some (if mtd_type (mo_info o') = MTD_RAM then mtd_bdi_rw_mappable
                          else if mtd_type (mo_info o') = MTD_ROM then mtd_bdi_ro_mappable else mtd_bdi_unmappable)\<rparr>
      else o')"

definition numbered :: "nat \<Rightarrow> 'f mtd_info \<Rightarrow> 'f mtd_info" where
  "numbered i m = m\<lparr>mtd_index := i, mtd_class := True\<rparr>"

definition number_obj :: "nat \<Rightarrow> 'f mtd_obj \<Rightarrow> 'f mtd_obj" where
  "number_obj i o' =
     (let es = size_shift (mtd_erasesize (mo_info o')); ws = size_shift (mtd_writesize (mo_info o')) in
      o'\<lparr>mo_info := numbered i (mo_info o'), mo_usecount := 0, mo_erasesize_shift := es, mo_writesize_shift := ws,
         mo_erasesize_mask := 2 ^ es - 1, mo_writesize_mask := 2 ^ ws - 1\<rparr>)"

text \<open>Chips that are locked when they power up are unlocked; a failure is only reported.\<close>

definition powerup_unlock :: "'f mtd_info \<Rightarrow> 'f \<Rightarrow> 'f" where
  "powerup_unlock m f =
     (if writeable (mtd_flags m) \<and> mtd_flags m AND MTD_POWERUP_LOCK \<noteq> 0
      then (case op_unlock (mtd_ops m) of None \<Rightarrow> f | Some unlock \<Rightarrow> fst (unlock f 0 (mtd_size m)))
      else f)"

text \<open>The power management of the class of MTD devices.\<close>

definition mtd_cls_suspend :: "nat \<Rightarrow> 'f mtd_core \<Rightarrow> ('f mtd_core \<times> int) option" where
  "mtd_cls_suspend p c =
     (case objs c p of
        None \<Rightarrow> None
      | Some o' \<Rightarrow>
          (case op_suspend (mtd_ops (mo_info o')) of
             None \<Rightarrow> Some (c, 0)
           | Some suspend \<Rightarrow> let (f, ret) = suspend (mtd_flash c) in Some (c\<lparr>mtd_flash := f\<rparr>, ret)))"

definition mtd_cls_resume :: "nat \<Rightarrow> 'f mtd_core \<Rightarrow> ('f mtd_core \<times> int) option" where
  "mtd_cls_resume p c =
     (case objs c p of
        None \<Rightarrow> None
      | Some o' \<Rightarrow>
          (case op_resume (mtd_ops (mo_info o')) of
             None \<Rightarrow> Some (c, 0)
           | Some resume \<Rightarrow> Some (c\<lparr>mtd_flash := resume (mtd_flash c)\<rparr>, 0)))"

text \<open>\<open>reg_ok\<close>: whether \<^verbatim>\<open>device_register\<close> succeeds.\<close>

definition add_mtd_device :: "(bool \<times> bool) list \<Rightarrow> bool \<Rightarrow> nat \<Rightarrow> 'f mtd_core \<Rightarrow> ('f mtd_core \<times> int) option" where
  "add_mtd_device tries reg_ok p c =
     (case objs c p of
        None \<Rightarrow> None
      | Some o0 \<Rightarrow>
          let o1 = default_bdi o0 in
          if mtd_writesize (mo_info o1) = 0 then None
          else (case idr_loop tries (mtd_idr c) p of
              None \<Rightarrow> None
            | Some None \<Rightarrow> Some (upd_obj p o1 c, 1)
            | Some (Some (ids, i)) \<Rightarrow>
                let o2 = number_obj i o1;
                    c1 = (upd_obj p o2 c)\<lparr>mtd_idr := ids, mtd_flash := powerup_unlock (mo_info o2) (mtd_flash c)\<rparr>
                in if \<not> reg_ok then Some (c1\<lparr>mtd_idr := idr_remove ids i\<rparr>, 1)
                   else Some (log_events (map (\<lambda>n. Notify_add n p) (mtd_notifiers c1))
                                (upd_obj p (o2\<lparr>mo_registered := True\<rparr>) c1), 0)))"

definition del_mtd_device :: "nat \<Rightarrow> 'f mtd_core \<Rightarrow> ('f mtd_core \<times> int) option" where
  "del_mtd_device p c =
     (case objs c p of
        None \<Rightarrow> None
      | Some o' \<Rightarrow>
          if idr_find (mtd_idr c) (obj_index o') \<noteq> Some p then Some (c, eret ENODEV)
          else
            let c1 = log_events (map (\<lambda>n. Notify_remove n p) (mtd_notifiers c)) c in
            if mo_usecount o' \<noteq> 0 then Some (c1, eret EBUSY)
            else Some ((upd_obj p (o'\<lparr>mo_registered := False\<rparr>) c1)\<lparr>mtd_idr := idr_remove (mtd_idr c) (obj_index o')\<rparr>, 0))"

definition register_mtd_user :: "nat \<Rightarrow> 'f mtd_core \<Rightarrow> 'f mtd_core option" where
  "register_mtd_user n c =
     (let c1 = c\<lparr>mtd_notifiers := n # mtd_notifiers c\<rparr> in
      map_option (\<lambda>ps. log_events (map (\<lambda>p. Notify_add n p) ps) c1) (mtd_visit c1 0))"

definition unregister_mtd_user :: "nat \<Rightarrow> 'f mtd_core \<Rightarrow> ('f mtd_core \<times> int) option" where
  "unregister_mtd_user n c =
     map_option (\<lambda>ps. ((log_events (map (\<lambda>p. Notify_remove n p) ps) c)\<lparr>mtd_notifiers := remove1 n (mtd_notifiers c)\<rparr>, 0))
       (mtd_visit c 0)"

section \<open>References\<close>

text \<open>\<^verbatim>\<open>__get_mtd_device\<close>\<close>

definition get_mtd_ref :: "nat \<Rightarrow> 'f mtd_core \<Rightarrow> ('f mtd_core \<times> int) option" where
  "get_mtd_ref p c =
     (case objs c p of
        None \<Rightarrow> None
      | Some o' \<Rightarrow>
          if \<not> mo_owner_live o' then Some (c, eret ENODEV)
          else let err = (case mo_get_device o' of None \<Rightarrow> 0 | Some e \<Rightarrow> e) in
            if err \<noteq> 0 then Some (c, err)
            else Some (upd_obj p (o'\<lparr>mo_usecount := mo_usecount o' + 1\<rparr>) c, 0))"

text \<open>A returned pointer is \<open>Inr\<close>, an \<^verbatim>\<open>ERR_PTR\<close> is \<open>Inl\<close>.\<close>

definition get_found :: "nat option \<Rightarrow> 'f mtd_core \<Rightarrow> ('f mtd_core \<times> (int + nat)) option" where
  "get_found ret c =
     (case ret of
        None \<Rightarrow> Some (c, Inl (eret ENODEV))
      | Some p \<Rightarrow> (case get_mtd_ref p c of
          None \<Rightarrow> None
        | Some (c1, err) \<Rightarrow> Some (c1, if err \<noteq> 0 then Inl err else Inr p)))"

definition get_mtd_device :: "nat option \<Rightarrow> int \<Rightarrow> 'f mtd_core \<Rightarrow> ('f mtd_core \<times> (int + nat)) option" where
  "get_mtd_device mtd num c =
     (if num = -1 then
        (case mtd_search (\<lambda>p _. Some p = mtd) c 0 of None \<Rightarrow> None | Some ret \<Rightarrow> get_found ret c)
      else if num \<ge> 0 then
        let ret = idr_find (mtd_idr c) (nat num) in
        get_found (if mtd \<noteq> None \<and> mtd \<noteq> ret then None else ret) c
      else get_found None c)"

definition get_mtd_device_nm :: "string \<Rightarrow> 'f mtd_core \<Rightarrow> ('f mtd_core \<times> (int + nat)) option" where
  "get_mtd_device_nm name c =
     (case mtd_search (\<lambda>_ o'. mtd_name (mo_info o') = name) c 0 of None \<Rightarrow> None | Some ret \<Rightarrow> get_found ret c)"

definition put_mtd_device :: "nat \<Rightarrow> 'f mtd_core \<Rightarrow> 'f mtd_core option" where
  "put_mtd_device p c =
     (case objs c p of
        None \<Rightarrow> None
      | Some o' \<Rightarrow>
          if mo_usecount o' - 1 < 0 then None
          else Some (upd_obj p (o'\<lparr>mo_usecount := mo_usecount o' - 1\<rparr>) c))"

section \<open>Partitions in the table\<close>

text \<open>
  The object of a partition. An \<open>add_answer\<close> has the pointer that the allocator returns for it, \<open>None\<close>
  if it fails, and the answers to \<^verbatim>\<open>add_mtd_device\<close>, whose result the source ignores.
\<close>

type_synonym add_answer = "nat option \<times> (bool \<times> bool) list \<times> bool"

definition slave_obj :: "'f mtd_obj \<Rightarrow> 'f mtd_info \<Rightarrow> 'f mtd_obj" where
  "slave_obj m info =
     \<lparr>mo_info = info, mo_usecount = 0, mo_erasesize_shift = 0, mo_writesize_shift = 0, mo_erasesize_mask = 0,
      mo_writesize_mask = 0, mo_bdi = mo_bdi m, mo_owner_live = mo_owner_live m, mo_get_device = None, mo_registered = False\<rparr>"

text \<open>A new partition at \<open>p\<close> is put on the list and registered.\<close>

definition link_partition ::
    "(bool \<times> bool) list \<Rightarrow> bool \<Rightarrow> nat \<Rightarrow> nat \<Rightarrow> 'f mtd_obj \<Rightarrow> 'f mtd_part \<Rightarrow> 'f mtd_core \<Rightarrow> 'f mtd_core option" where
  "link_partition tries reg_ok p master m slave c =
     map_option fst (add_mtd_device tries reg_ok p
       ((upd_obj p (slave_obj m (pt_mtd slave)) c)\<lparr>mtd_partitions := (p, master, pt_offset slave) # mtd_partitions c\<rparr>))"

text \<open>\<^verbatim>\<open>add_mtd_partitions\<close> from entry \<open>i\<close> of the table on.\<close>

fun add_mtd_partitions ::
    "nat \<Rightarrow> (add_answer \<times> mtd_partition) list \<Rightarrow> int \<Rightarrow> nat \<Rightarrow> 'f mtd_core \<Rightarrow> ('f mtd_core \<times> int) option" where
  "add_mtd_partitions master [] i cur_offset c = Some (c, 0)"
| "add_mtd_partitions master (((ptr, tries, reg_ok), part) # parts) i cur_offset c =
     (case objs c master of
        None \<Rightarrow> None
      | Some m \<Rightarrow>
          (case allocate_partition (mtd_flash c) (ptr \<noteq> None) (mo_info m) part i cur_offset of
             None \<Rightarrow> None
           | Some (Inl err) \<Rightarrow> Some (c, err)
           | Some (Inr slave) \<Rightarrow>
               (case link_partition tries reg_ok (the ptr) master m slave c of
                  None \<Rightarrow> None
                | Some c1 \<Rightarrow>
                    add_mtd_partitions master parts (i + 1) (add64 (pt_offset slave) (mtd_size (pt_mtd slave))) c1)))"

text \<open>The test of \<^verbatim>\<open>mtd_add_partition\<close> for a conflict with a partition of the same master.\<close>

definition part_conflict :: "nat \<Rightarrow> nat \<Rightarrow> nat \<Rightarrow> nat \<Rightarrow> bool" where
  "part_conflict start ed offset psize \<longleftrightarrow>
     (start \<ge> offset \<and> start < add64 offset psize) \<or> (ed \<ge> offset \<and> ed < add64 offset psize)"

fun any_conflict :: "'f mtd_core \<Rightarrow> nat \<Rightarrow> nat \<Rightarrow> nat \<Rightarrow> (nat \<times> nat \<times> nat) list \<Rightarrow> bool option" where
  "any_conflict c master start ed [] = Some False"
| "any_conflict c master start ed ((p, m, offset) # ps) =
     (if m = master then
        (case objs c p of
           None \<Rightarrow> None
         | Some o' \<Rightarrow> if part_conflict start ed offset (mtd_size (mo_info o')) then Some True else any_conflict c master start ed ps)
      else any_conflict c master start ed ps)"

text \<open>\<open>offset\<close> and \<open>len\<close> are \<^verbatim>\<open>long long\<close>, here by their 64 bits.\<close>

definition mtd_add_partition ::
    "add_answer \<Rightarrow> nat \<Rightarrow> string \<Rightarrow> nat \<Rightarrow> nat \<Rightarrow> 'f mtd_core \<Rightarrow> ('f mtd_core \<times> int) option" where
  "mtd_add_partition ans master name offset len0 c =
     (let (ptr, tries, reg_ok) = ans in
      if offset = MTDPART_OFS_APPEND \<or> offset = MTDPART_OFS_NXTBLK then Some (c, eret EINVAL)
      else (case objs c master of
          None \<Rightarrow> None
        | Some m \<Rightarrow>
            let len = (if len0 = MTDPART_SIZ_FULL then sub64 (mtd_size (mo_info m)) offset else len0) in
            if len = 0 \<or> len \<ge> 2 ^ 63 then Some (c, eret EINVAL)
            else (case allocate_partition (mtd_flash c) (ptr \<noteq> None) (mo_info m)
                         \<lparr>pn_name = name, pn_size = len, pn_offset = offset, pn_mask_flags = 0\<rparr> (-1) offset of
                None \<Rightarrow> None
              | Some (Inl err) \<Rightarrow> Some (c, err)
              | Some (Inr new) \<Rightarrow>
                  (case any_conflict c master offset (add64 offset len) (mtd_partitions c) of
                     None \<Rightarrow> None
                   | Some True \<Rightarrow> Some (c, eret EINVAL)
                   | Some False \<Rightarrow> map_option (\<lambda>c1. (c1, 0)) (link_partition tries reg_ok (the ptr) master m new c)))))"

text \<open>A partition is taken off the list and freed once its device is out of the table.\<close>

definition free_partition :: "nat \<Rightarrow> 'f mtd_core \<Rightarrow> 'f mtd_core" where
  "free_partition p c = c\<lparr>objs := (objs c)(p := None), mtd_partitions := filter (\<lambda>(q, _). q \<noteq> p) (mtd_partitions c)\<rparr>"

text \<open>Both functions walk over the list as it was at the start, \<open>ps\<close>; each removes only the entry at
  hand.\<close>

fun del_parts :: "nat \<Rightarrow> (nat \<times> nat \<times> nat) list \<Rightarrow> int \<Rightarrow> 'f mtd_core \<Rightarrow> ('f mtd_core \<times> int) option" where
  "del_parts master [] err c = Some (c, err)"
| "del_parts master ((p, m, offs) # ps) err c =
     (if m = master then
        (case del_mtd_device p c of
           None \<Rightarrow> None
         | Some (c1, ret) \<Rightarrow>
             if ret < 0 then del_parts master ps ret c1 else del_parts master ps err (free_partition p c1))
      else del_parts master ps err c)"

definition del_mtd_partitions :: "nat \<Rightarrow> 'f mtd_core \<Rightarrow> ('f mtd_core \<times> int) option" where
  "del_mtd_partitions master c = del_parts master (mtd_partitions c) 0 c"

fun del_part :: "nat \<Rightarrow> nat \<Rightarrow> (nat \<times> nat \<times> nat) list \<Rightarrow> 'f mtd_core \<Rightarrow> ('f mtd_core \<times> int) option" where
  "del_part master partno [] c = Some (c, eret EINVAL)"
| "del_part master partno ((p, m, offs) # ps) c =
     (if m = master then
        (case objs c p of
           None \<Rightarrow> None
         | Some o' \<Rightarrow>
             if obj_index o' = partno then
               (case del_mtd_device p c of
                  None \<Rightarrow> None
                | Some (c1, ret) \<Rightarrow> if ret < 0 then Some (c1, ret) else Some (free_partition p c1, ret))
             else del_part master partno ps c)
      else del_part master partno ps c)"

definition mtd_del_partition :: "nat \<Rightarrow> nat \<Rightarrow> 'f mtd_core \<Rightarrow> ('f mtd_core \<times> int) option" where
  "mtd_del_partition master partno c = del_part master partno (mtd_partitions c) c"

definition mtd_is_partition :: "nat \<Rightarrow> 'f mtd_core \<Rightarrow> bool" where
  "mtd_is_partition p c \<longleftrightarrow> p \<in> set (map fst (mtd_partitions c))"

text \<open>The table of partitions is a pointer, here an option.\<close>

definition mtd_device_register ::
    "(bool \<times> bool) list \<Rightarrow> bool \<Rightarrow> nat \<Rightarrow> (add_answer \<times> mtd_partition) list option \<Rightarrow> 'f mtd_core \<Rightarrow> ('f mtd_core \<times> int) option" where
  "mtd_device_register tries reg_ok master parts c =
     (case parts of
        Some ds \<Rightarrow> add_mtd_partitions master ds 0 0 c
      | None \<Rightarrow> add_mtd_device tries reg_ok master c)"

definition mtd_device_unregister :: "nat \<Rightarrow> 'f mtd_core \<Rightarrow> ('f mtd_core \<times> int) option" where
  "mtd_device_unregister master c =
     (case del_mtd_partitions master c of
        None \<Rightarrow> None
      | Some (c1, err) \<Rightarrow>
          if err \<noteq> 0 then Some (c1, err)
          else (case objs c1 master of
              None \<Rightarrow> None
            | Some m \<Rightarrow> if \<not> mo_registered m then Some (c1, 0) else del_mtd_device master c1))"

section \<open>Parsers of partition tables\<close>

definition get_partition_parser :: "string \<Rightarrow> 'f mtd_core \<Rightarrow> 'f mtd_part_parser option" where
  "get_partition_parser name c = find (\<lambda>p. pp_name p = name \<and> pp_live p) (part_parsers c)"

definition register_mtd_parser :: "'f mtd_part_parser \<Rightarrow> 'f mtd_core \<Rightarrow> 'f mtd_core \<times> int" where
  "register_mtd_parser p c = (c\<lparr>part_parsers := p # part_parsers c\<rparr>, 0)"

definition deregister_mtd_parser :: "string \<Rightarrow> 'f mtd_core \<Rightarrow> 'f mtd_core \<times> int" where
  "deregister_mtd_parser name c = (c\<lparr>part_parsers := del_first (\<lambda>p. pp_name p = name) (part_parsers c)\<rparr>, 0)"

text \<open>\<open>request\<close> is what \<^verbatim>\<open>request_module\<close> does for a name: the parser that the module registers, if it is
  found. \<open>find_parser\<close> is the search with this second chance.\<close>

type_synonym 'f module_loader = "string \<Rightarrow> 'f mtd_part_parser option"

definition find_parser :: "'f module_loader \<Rightarrow> string \<Rightarrow> 'f mtd_core \<Rightarrow> 'f mtd_core \<times> 'f mtd_part_parser option" where
  "find_parser request t c =
     (case get_partition_parser t c of
        Some p \<Rightarrow> (c, Some p)
      | None \<Rightarrow>
          (case request t of
             None \<Rightarrow> (c, None)
           | Some p \<Rightarrow> let c1 = fst (register_mtd_parser p c) in (c1, get_partition_parser t c1)))"

fun parse_mtd_partitions ::
    "'f module_loader \<Rightarrow> 'f mtd_info \<Rightarrow> string list \<Rightarrow> nat \<Rightarrow> int \<Rightarrow> mtd_partition list option \<Rightarrow> 'f mtd_core \<Rightarrow>
     'f mtd_core \<times> int \<times> mtd_partition list option" where
  "parse_mtd_partitions request master [] origin ret pparts c = (c, ret, pparts)"
| "parse_mtd_partitions request master (t # types) origin ret pparts c =
     (if ret > 0 then (c, ret, pparts)
      else (case find_parser request t c of
          (c1, None) \<Rightarrow> parse_mtd_partitions request master types origin ret pparts c1
        | (c1, Some parser) \<Rightarrow>
            let (ret1, stored) = pp_parse parser master origin
            in parse_mtd_partitions request master types origin ret1 (if stored = None then pparts else stored) c1))"

section \<open>Helpers for clients\<close>

text \<open>
  \<^verbatim>\<open>default_mtd_writev\<close>: the buffers one behind the other. The result has \<^verbatim>\<open>*retlen\<close>. Every MTD device of
  the model has a write method.
\<close>

fun writev_loop :: "'f mtd_info \<Rightarrow> int list list \<Rightarrow> nat \<Rightarrow> int \<Rightarrow> int \<Rightarrow> 'f \<Rightarrow> ('f \<times> int \<times> int) option" where
  "writev_loop m [] to totlen ret f = Some (f, ret, totlen)"
| "writev_loop m (v # vs) to totlen ret f =
     (if v = [] then writev_loop m vs to totlen ret f
      else (case mtd_write m f to (length v) v of
          None \<Rightarrow> None
        | Some (f1, ret1, thislen) \<Rightarrow>
            let totlen1 = u32 (totlen + thislen) in
            if ret1 \<noteq> 0 \<or> thislen \<noteq> int (length v) then Some (f1, ret1, totlen1)
            else writev_loop m vs (to + length v) totlen1 ret1 f1))"

definition default_mtd_writev :: "'f mtd_info \<Rightarrow> int list list \<Rightarrow> nat \<Rightarrow> 'f \<Rightarrow> ('f \<times> int \<times> int) option" where
  "default_mtd_writev m vs to f = writev_loop m vs to 0 0 f"

definition PAGE_SIZE :: int where "PAGE_SIZE = 4096"
definition KMALLOC_MAX_SIZE :: int where "KMALLOC_MAX_SIZE = 2 ^ 22"

definition ALIGN :: "int \<Rightarrow> int \<Rightarrow> int" where
  "ALIGN x a = u32 (u32 (x + u32 (a - 1)) AND NOT (u32 (a - 1)))"

text \<open>
  \<^verbatim>\<open>mtd_kmalloc_up_to\<close>: \<open>alloc\<close> is what \<^verbatim>\<open>kmalloc\<close> answers for a size, a pointer or null. The result is the
  pointer and the size. The loop is not bounded, so that it is a partial function.
\<close>

partial_function (option) kmalloc_loop :: "(int \<Rightarrow> nat option) \<Rightarrow> int \<Rightarrow> int \<Rightarrow> int \<Rightarrow> (nat option \<times> int) option" where
  "kmalloc_loop alloc writesize min_alloc sz =
     (if sz > min_alloc then
        (case alloc sz of
           Some p \<Rightarrow> Some (Some p, sz)
         | None \<Rightarrow> kmalloc_loop alloc writesize min_alloc (ALIGN (sz div 2) writesize))
      else Some (alloc sz, sz))"

definition mtd_kmalloc_up_to :: "(int \<Rightarrow> nat option) \<Rightarrow> int \<Rightarrow> int \<Rightarrow> (nat option \<times> int) option" where
  "mtd_kmalloc_up_to alloc writesize sz =
     kmalloc_loop alloc writesize (max writesize PAGE_SIZE) (min sz KMALLOC_MAX_SIZE)"

end
