(* ===== verification/WmtEnvSf.thy ===== *)
theory WmtEnvSf
  imports WmtEnvUpdate MtdCore
begin

text \<open>
  The two copies on the SPI flash: the partitions \<^verbatim>\<open>u-boot env. cfg. 1-SF\<close> and \<^verbatim>\<open>2-SF\<close> of the
  built-in partition table, through \<^verbatim>\<open>mtdpart.c\<close> and \<^verbatim>\<open>wmt_sf.c\<close>, are devices of the kind that
  \<^verbatim>\<open>wmt_env.c\<close> relies on.
\<close>

section \<open>The devices\<close>

definition CHIP :: nat where "CHIP = 0x1000000"

definition env_offs :: "nat \<Rightarrow> nat" where
  "env_offs i = 0xFD0000 + i * 0x10000"

text \<open>The two devices as the SPI flash driver registers them.\<close>

definition sf_slave :: "string \<Rightarrow> int \<Rightarrow> nat \<Rightarrow> nat \<Rightarrow> 'n sf_scheme mtd_info" where
  "sf_slave name partno off psize = part_info (mtdsf_device CHIP) name partno off psize MTDSF_ERASE_SIZE MTD_CAP_NORFLASH 0"

definition env_dev :: "nat \<Rightarrow> 'n sf_scheme mtd_info" where
  "env_dev i = numbered (3 + i) (sf_slave (pn_name (boot_partitions ! (3 + i))) (3 + int i) (env_offs i) MTDSF_ERASE_SIZE)"

definition env_copy :: "nat \<Rightarrow> 'n sf_scheme \<Rightarrow> int list" where
  "env_copy i f = sf_bytes f (env_offs i) MTDSF_ERASE_SIZE"

definition sf_up :: "'n sf_scheme \<Rightarrow> bool" where
  "sf_up f \<longleftrightarrow> reg_sf f \<and> length (sf_mem f) = CHIP"

lemma cap_writeable: "writeable MTD_CAP_NORFLASH"
  by (simp add: writeable_def MTD_CAP_NORFLASH_def MTD_WRITEABLE_def)

lemma cap_mask: "MTD_CAP_NORFLASH AND 0xFFFFFFFF = MTD_CAP_NORFLASH"
  by (simp add: MTD_CAP_NORFLASH_def)

text \<open>A partition of the SPI flash that is described by aligned numbers is made as described.\<close>

lemma geometry_aligned:
  assumes "off < CHIP" "off + psize \<le> CHIP" "0 < psize" "off mod 0x10000 = 0" "psize mod 0x10000 = 0"
  shows "part_geometry (mtdsf_device CHIP) \<lparr>pn_name = nm, pn_size = psize, pn_offset = off, pn_mask_flags = 0\<rparr> cur =
    Some (off, psize, MTDSF_ERASE_SIZE, MTD_CAP_NORFLASH)"
proof -
  have o: "part_offset (mtdsf_device CHIP) \<lparr>pn_name = nm, pn_size = psize, pn_offset = off, pn_mask_flags = 0\<rparr> cur = off"
    using assms(1) by (simp add: part_offset_def MTDPART_OFS_APPEND_def MTDPART_OFS_NXTBLK_def CHIP_def)
  have a: "add64 off psize = off + psize" using assms(2) by (simp add: add64_def CHIP_def)
  have "MTDSF_ERASE_SIZE = 0x10000" by (simp add: MTDSF_ERASE_SIZE_def)
  then show ?thesis
    unfolding part_geometry_def Let_def o using assms
    by (simp add: mtdsf_device_def a MTDPART_SIZ_FULL_def cap_mask mtd_mod_by_eb_def)
qed

lemma mtdsf_isbad: "mtd_block_isbad (mtdsf_device n) = None"
  by (simp add: mtdsf_device_def)

lemma allocate_aligned:
  assumes "off < CHIP" "off + psize \<le> CHIP" "0 < psize" "off mod 0x10000 = 0" "psize mod 0x10000 = 0"
  shows "allocate_partition f True (mtdsf_device CHIP) \<lparr>pn_name = nm, pn_size = psize, pn_offset = off, pn_mask_flags = 0\<rparr> partno cur =
    Some (Inr \<lparr>pt_mtd = sf_slave nm partno off psize, pt_offset = off\<rparr>)"
  by (simp add: allocate_partition_def geometry_aligned [OF assms] count_badblocks_def mtdsf_isbad sf_slave_def)

lemma env_dev_eq:
  assumes "i < 2"
  shows "mtd_index (env_dev i) = 3 + i" "mtd_size (env_dev i) = MTDSF_ERASE_SIZE" "mtd_erasesize (env_dev i) = MTDSF_ERASE_SIZE"
    "mtd_read (env_dev i) = part_read (mtdsf_device CHIP) (env_offs i) MTDSF_ERASE_SIZE"
    "mtd_write (env_dev i) = part_write (mtdsf_device CHIP) (env_offs i) MTDSF_ERASE_SIZE MTD_CAP_NORFLASH"
    "mtd_erase (env_dev i) = part_erase (mtdsf_device CHIP) (env_offs i) MTDSF_ERASE_SIZE MTD_CAP_NORFLASH"
    "mtd_block_isbad (env_dev i) = None"
  by (simp_all add: env_dev_def numbered_def sf_slave_def part_info_def mtdsf_isbad)

section \<open>Their methods\<close>

lemma env_offs_bounds:
  assumes "i < 2"
  shows "env_offs i + MTDSF_ERASE_SIZE \<le> CHIP" "sector_of (env_offs i) = env_offs i"
  using assms by (auto simp: less_2_cases_iff env_offs_def CHIP_def MTDSF_ERASE_SIZE_def sector_of_def)

lemma env_offs_apart:
  assumes "i < 2" "j < 2" "i \<noteq> j"
  shows "env_offs i + MTDSF_ERASE_SIZE \<le> env_offs j \<or> env_offs j + MTDSF_ERASE_SIZE \<le> env_offs i"
  using assms by (auto simp: less_2_cases_iff env_offs_def MTDSF_ERASE_SIZE_def)

lemma length_env_copy: "sf_up f \<Longrightarrow> i < 2 \<Longrightarrow> length (env_copy i f) = MTDSF_ERASE_SIZE"
  using env_offs_bounds [of i] by (simp add: env_copy_def sf_bytes_def sf_up_def)

lemma env_copy_cong: "sf_mem f = sf_mem g \<Longrightarrow> env_copy i f = env_copy i g"
  by (simp add: env_copy_def sf_bytes_def)

lemma sf_up_frame: "sf_frame f g \<Longrightarrow> length (sf_mem g) = length (sf_mem f) \<Longrightarrow> sf_up g = sf_up f"
  by (simp add: sf_up_def sf_frame_def)

lemma env_dev_read:
  assumes "sf_up f" "i < 2" "length b = MTDSF_ERASE_SIZE"
  shows "\<exists>f'. mtd_read (env_dev i) f 0 MTDSF_ERASE_SIZE b = Some (f', 0, env_copy i f) \<and> sf_up f' \<and>
     env_copy 0 f' = env_copy 0 f \<and> env_copy 1 f' = env_copy 1 f \<and> (sf_ready f \<longrightarrow> sf_ready f')"
proof -
  obtain g rc where p: "sf_poll (chip_of f (env_offs i)) (clock_on f) POLL_MAX = (g, rc)" by force
  have g: "sf_frame f g" "sf_mem g = sf_mem f" using sf_poll_frame [OF p] by auto
  have s: "spi_read_status (chip_of f (env_offs i)) (clock_on f) = Some (g, rc)"
    using assms(1) p by (simp add: spi_read_status_def sf_up_def)
  have "mtd_read (env_dev i) f 0 MTDSF_ERASE_SIZE b = Some (clock_off g, 0, sf_bytes g (env_offs i) MTDSF_ERASE_SIZE)"
    using env_offs_bounds(1) [OF assms(2)] assms(2,3)
    by (simp add: env_dev_eq part_read_def clip_def mtdsf_device_def sf_read_def s)
  moreover have "sf_up (clock_off g)" using g assms(1) sf_up_frame [of f "clock_off g"] by simp
  moreover have "env_copy k (clock_off g) = env_copy k f" for k using g by (intro env_copy_cong) simp
  moreover have "sf_ready f \<longrightarrow> sf_ready (clock_off g)" using sf_ready_frame [of f "clock_off g"] g by simp
  moreover have "sf_bytes g (env_offs i) MTDSF_ERASE_SIZE = env_copy i f" using g by (simp add: env_copy_def sf_bytes_def)
  ultimately show ?thesis by auto
qed

lemma env_dev_write:
  assumes "sf_up f" "i < 2" "j < 2" "i \<noteq> j" "to + len \<le> MTDSF_ERASE_SIZE" "len \<le> length b"
  shows "\<exists>f' ret k. mtd_write (env_dev i) f to len b = Some (f', 0, ret) \<and> sf_up f' \<and> k \<le> len \<and>
     env_copy i f' = program (env_copy i f) to (take k b) \<and> env_copy j f' = env_copy j f \<and>
     (sf_ready f \<longrightarrow> k = len \<and> sf_ready f')"
proof -
  have c: "clip MTDSF_ERASE_SIZE to len = len" using assms(5) by (auto simp: clip_def)
  obtain g ret k where w: "spi_flash_sector_write f (to + env_offs i) len b = Some (g, ret)" "k \<le> len" "sf_frame f g"
      "sf_mem g = program (sf_mem f) (to + env_offs i) (take k b)" "sf_ready f \<longrightarrow> k = len \<and> ret = int len"
    using spi_flash_sector_write_spec [of f len b "to + env_offs i"] assms(1,6) by (auto simp: sf_up_def)
  have b: "to + env_offs i + len \<le> CHIP" using env_offs_bounds(1) [OF assms(2)] assms(5) by simp
  have l: "length (sf_mem f) = CHIP" using assms(1) by (simp add: sf_up_def)
  have "mtd_write (env_dev i) f to len b = Some (g, 0, ret)"
    using assms(2) b w(1) by (simp add: env_dev_eq part_write_def cap_writeable c mtdsf_device_def sf_write_def)
  moreover have "env_copy i g = program (env_copy i f) to (take k b)"
    unfolding env_copy_def sf_bytes_def w(4) using w(2) assms(5) env_offs_bounds(1) [OF assms(2)] l
    by (intro take_program_in) auto
  moreover have "env_copy j g = env_copy j f"
    unfolding env_copy_def sf_bytes_def w(4) using w(2) assms(5) env_offs_apart [OF assms(2,3,4)]
    by (intro take_program_out) auto
  moreover have "sf_up g" using sf_up_frame [OF w(3)] w(4) assms(1) by simp
  moreover have "sf_ready f \<longrightarrow> k = len \<and> sf_ready g" using w(5) sf_ready_frame [OF w(3)] by simp
  ultimately show ?thesis using w(2) by blast
qed

lemma env_dev_erase:
  assumes "sf_up f" "i < 2" "j < 2" "i \<noteq> j"
  shows "\<exists>f' ret. mtd_erase (env_dev i) f 0 MTDSF_ERASE_SIZE = Some (f', ret) \<and> sf_up f' \<and> env_copy j f' = env_copy j f \<and>
     (ret = 0 \<longrightarrow> env_copy i f' = replicate MTDSF_ERASE_SIZE 0xFF) \<and> (sf_ready f \<longrightarrow> ret = 0 \<and> sf_ready f')"
proof -
  obtain g ret where e: "spi_flash_sector_erase (env_offs i) (clock_on f) = (g, ret)" by force
  have "\<exists>bs. length bs \<le> MTDSF_ERASE_SIZE \<and> sf_mem g = fill_area (sf_mem f) (env_offs i) bs \<and> sf_frame f g \<and>
      (ret = ERR_OK \<longrightarrow> bs = replicate MTDSF_ERASE_SIZE 0xFF) \<and> (sf_ready f \<longrightarrow> ret = ERR_OK)"
  proof -
    define c where "c = (if u32 (int (env_offs i) + MTDSF_PHY_ADDR (clock_on f)) \<ge> fl_phy (g_sf_info0 (clock_on f)) then 0 else (1 :: nat))"
    define s1 where "s1 = (clock_on (clock_on f))\<lparr>sfreg := (sfreg (clock_on (clock_on f)))\<lparr>SPI_WR_EN_CTR := (if c = 0 then 1 else 2),
          SPI_ER_START_ADDR := u32 (int (env_offs i) + MTDSF_PHY_ADDR (clock_on f)), SPI_ER_CTR := 0x8000\<rparr>\<rparr>"
    obtain s2 rc where p: "sf_poll c s1 POLL_MAX = (s2, rc)" by force
    have f1: "sf_frame f s1" "sf_mem s1 = sf_mem f" by (simp_all add: s1_def)
    have f2: "sf_frame f s2" "sf_mem s2 = sf_mem f"
      using sf_poll_frame [OF p] f1 sf_frame_trans by auto
    have r: "sf_ready f \<longrightarrow> rc = ERR_OK"
      using sf_poll_ready [of s1 c] p sf_ready_frame [OF f1(1)] by simp
    have "(g, ret) = (if rc = ERR_OK then
           (set_wr_en 0 (s2\<lparr>sf_mem := fill_area (sf_mem s2) (env_offs i) (replicate MTDSF_ERASE_SIZE 0xFF)\<rparr>), ERR_OK)
         else (s2\<lparr>sf_mem := fill_area (sf_mem s2) (env_offs i)
                 (take MTDSF_ERASE_SIZE (hw_torn (clock_on f) (sector_bytes (sf_mem s2) (env_offs i))))\<rparr>, rc))"
      unfolding e [symmetric] spi_flash_sector_erase_def Let_def env_offs_bounds(2) [OF assms(2)]
        c_def [symmetric] s1_def [symmetric] p by simp
    then show ?thesis using f2 r
      by (cases "rc = ERR_OK")
         (auto intro!: exI [of _ "take MTDSF_ERASE_SIZE (hw_torn (clock_on f) (sector_bytes (sf_mem f) (env_offs i)))"])
  qed
  then obtain bs where b: "length bs \<le> MTDSF_ERASE_SIZE" "sf_mem g = fill_area (sf_mem f) (env_offs i) bs" "sf_frame f g"
      "ret = ERR_OK \<longrightarrow> bs = replicate MTDSF_ERASE_SIZE 0xFF" "sf_ready f \<longrightarrow> ret = ERR_OK" by blast
  define f' where "f' = (if ret \<noteq> ERR_OK then g else clock_off g)"
  have f': "sf_mem f' = sf_mem g" "sf_frame f f'" using b(3) by (simp_all add: f'_def)
  have l: "length (sf_mem f) = CHIP" using assms(1) by (simp add: sf_up_def)
  have "0 < MTDSF_ERASE_SIZE" by (simp add: MTDSF_ERASE_SIZE_def)
  then have "mtd_erase (env_dev i) f 0 MTDSF_ERASE_SIZE = Some (f', if ret \<noteq> ERR_OK then -22 else 0)"
    using assms(2) e by (simp add: env_dev_eq part_erase_def cap_writeable mtdsf_device_def sf_erase_def f'_def)
  moreover have "sf_up f'" using sf_up_frame [OF f'(2)] f'(1) b(2) assms(1) by simp
  moreover have "env_copy j f' = env_copy j f"
    unfolding env_copy_def sf_bytes_def f'(1) b(2) using env_offs_apart [OF assms(2,3,4)] b(1)
    by (auto intro: take_fill_area take_fill_area2)
  moreover have "ret = ERR_OK \<longrightarrow> env_copy i f' = replicate MTDSF_ERASE_SIZE 0xFF"
    using b(2,4) env_offs_bounds(1) [OF assms(2)] l
    by (auto simp: env_copy_def sf_bytes_def f'(1) intro!: take_fill_area_eq)
  moreover have "sf_ready f \<longrightarrow> ret = ERR_OK \<and> sf_ready f'" using b(5) sf_ready_frame [OF f'(2)] by simp
  ultimately show ?thesis by auto
qed

section \<open>The interface holds\<close>

interpretation sfenv: env_devices env_dev env_copy sf_up sf_ready MTDSF_ERASE_SIZE
proof
  show "8 \<le> MTDSF_ERASE_SIZE" by (simp add: MTDSF_ERASE_SIZE_def)
next
  fix i :: nat assume "i < 2"
  then show "mtd_size (env_dev i) = MTDSF_ERASE_SIZE" by (simp add: env_dev_eq)
qed (fact length_env_copy env_dev_read env_dev_write env_dev_erase)+

end
