(* ===== verification/WmtEnvStart.thy ===== *)
theory WmtEnvStart
  imports WmtEnvSf
begin

text \<open>
  From power-on to the first call with the MTD layer up. The kernel asks for variables before any
  driver has registered a device (the first call is that of \<^verbatim>\<open>wmt_init\<close>): these calls read the copies from the
  mapped flash, through \<^verbatim>\<open>read_env_before_mtd_init\<close>. Later ones find the devices and load the copy anew, through
  \<^verbatim>\<open>read_env_after_mtd_init\<close>.
\<close>

section \<open>Boards\<close>

text \<open>A board that boots from the SPI flash, with the devices of the built-in partition table.\<close>

definition sf_board :: "'n board \<Rightarrow> bool" where
  "sf_board bd \<longleftrightarrow> strap bd AND 6 = 0 \<and> dev_env1 bd = Some (env_dev 0) \<and> dev_env2 bd = Some (env_dev 1) \<and>
     (\<exists>b. kmalloc_buf bd = Some b \<and> length b = MTDSF_ERASE_SIZE)"

text \<open>The same board before the devices are registered: the chip answers and can be mapped.\<close>

definition early_board :: "'n board \<Rightarrow> bool" where
  "early_board bd \<longleftrightarrow> strap bd AND 6 = 0 \<and> dev_env1 bd = None \<and> chip_id0 bd \<noteq> FLASH_UNKNOW \<and> ioremap_ok bd \<and>
     (\<exists>b. kmalloc_buf bd = Some b \<and> length b = MTDSF_ERASE_SIZE)"

lemma sf_board_vals:
  assumes "strap bd AND 6 = 0"
  shows "\<not> nand_boot bd" "boot_val bd = 0"
proof -
  have six: "(6 :: int) = push_bit 1 3" by simp
  have "boot_val bd = drop_bit 1 (strap bd AND 6)"
    unfolding boot_val_def six by (rule bit_eqI) (simp add: bit_simps)
  with assms show "\<not> nand_boot bd" "boot_val bd = 0" by (simp_all add: nand_boot_def)
qed

section \<open>Setting up the controller\<close>

text \<open>Every chip of the table has a size that is a multiple of 64 kilobytes, so that the set-up succeeds
  for every chip that answers.\<close>

lemma sf_ids_multiple: "(i, kb) \<in> set sf_ids \<Longrightarrow> 0 \<le> kb \<and> kb \<le> 16384 \<and> kb mod 64 = 0"
  by (auto simp: sf_ids_def)

lemma sf_info_total:
  assumes "id0 \<noteq> FLASH_UNKNOW" "fl_id info = id0"
  shows "fl_id (fst (get_sf_info info)) \<noteq> FLASH_UNKNOW \<and> (\<exists>kb. fl_total (fst (get_sf_info info)) = kb * 1024 \<and> 0 \<le> kb \<and> kb \<le> 16384 \<and> kb mod 64 = 0)"
proof (cases "find (\<lambda>(i, _). i = id0) (takeWhile (\<lambda>(i, _). i \<noteq> 0) sf_ids)")
  case None
  have s: "sf_ids ! 1 = (SF_IDALL 0x1C 0x2017, 8 * 1024)" "SF_IDALL 0x1C 0x2017 \<noteq> FLASH_UNKNOW"
    by (simp_all add: sf_ids_def SF_IDALL_def FLASH_UNKNOW_def push_bit_eq_mult)
  with None assms have "fst (get_sf_info info) = info\<lparr>fl_id := SF_IDALL 0x1C 0x2017, fl_total := 8192 * 1024\<rparr>"
    by (simp add: get_sf_info_def u32_def)
  with s(2) show ?thesis by (intro conjI exI [of _ 8192]) simp_all
next
  case (Some r)
  obtain i kb where r: "r = (i, kb)" by force
  have "(i, kb) \<in> set sf_ids" using Some by (auto simp: r find_Some_iff dest!: nth_mem set_takeWhileD)
  note k = sf_ids_multiple [OF this]
  then have "fst (get_sf_info info) = info\<lparr>fl_total := kb * 1024\<rparr>" using Some assms by (simp add: get_sf_info_def r u32_id)
  with k assms show ?thesis by auto
qed

lemma sfc_init_ok:
  assumes "sp AND 6 = 0" "id0 \<noteq> FLASH_UNKNOW" "g_sf_force_size f = 0"
  shows "\<exists>f'. wmt_sfc_init sp id0 id1 f = (f', 0) \<and> sf_mem f' = sf_mem f \<and> MTDSF_PHY_ADDR f' = 0xFF000000 \<and> g_sf_force_size f' = 0"
proof -
  let ?none = "\<lparr>fl_id = FLASH_UNKNOW, fl_phy = 0, fl_val = 0, fl_total = 0\<rparr>"
  define i0 where "i0 = fst (get_sf_info (?none\<lparr>fl_id := id0\<rparr>))"
  obtain kb where kb: "fl_id i0 \<noteq> FLASH_UNKNOW" "fl_total i0 = kb * 1024" "0 \<le> kb" "kb \<le> 16384" "kb mod 64 = 0"
    using sf_info_total [OF assms(2), of "?none\<lparr>fl_id := id0\<rparr>"] by (auto simp: i0_def)
  obtain q where q: "kb = 64 * q" using kb(5) by (metis mult_div_mod_eq add_0_right)
  have "u32 (0xFFFFFFFF - fl_total i0 + 1) mod 65536 = 0"
  proof -
    have "0xFFFFFFFF - fl_total i0 + 1 = 65536 * (65536 - q)" unfolding kb(2) q by simp
    then have "u32 (0xFFFFFFFF - fl_total i0 + 1) = 65536 * (65536 - q) mod (65536 * 65536)" by (simp add: u32_def)
    also have "\<dots> mod 65536 = 65536 * (65536 - q) mod 65536" by (rule mod_mod_cancel) simp
    finally show ?thesis by simp
  qed
  then have phy: "u32 (0xFFFFFFFF - fl_total i0 + 1) AND 0xFFFF = 0"
    using take_bit_eq_mask [of 16 "u32 (0xFFFFFFFF - fl_total i0 + 1)"] by (simp add: take_bit_eq_mod mask_eq_exp_minus_1)
  have win: "u32 (0xFFFFFFFF - MTDSF_TOTAL_SIZE + 1) = 0xFF000000" by (simp add: MTDSF_TOTAL_SIZE_def u32_def)
  show ?thesis
    using assms(1,3) kb(1) phy win unfolding wmt_sfc_init_def Let_def i0_def [symmetric] by auto
qed

section \<open>The early start\<close>

text \<open>The copy that the early start takes: only one whose flag says that it is active.\<close>

definition early_pick :: "int list \<Rightarrow> int list \<Rightarrow> nat option" where
  "early_pick c0 c1 = (if live c0 then Some 0 else if live c1 then Some 1 else None)"

lemma boot_parts:
  "find_parts boot_partitions 0 0 (ENV_INVALID, x) (ENV_INVALID, y) = Some ((3, env_offs 0), (4, env_offs 1))"
  by (simp add: boot_partitions_def SF_UBOOT_ENV1_def SF_UBOOT_ENV2_def env_offs_def)

text \<open>The mapped flash holds the bytes of the window.\<close>

definition early_flash :: "'n sf_scheme \<Rightarrow> 'n sf_scheme \<Rightarrow> bool" where
  "early_flash f g \<longleftrightarrow> sf_mem g = sf_mem f \<and> length (sf_mem f) = CHIP \<and> g_sf_force_size g = 0"

lemma early_copy:
  assumes "early_flash f g" "MTDSF_PHY_ADDR g = 0xFF000000" "i < 2"
  shows "early_bytes bd 0 g (env_offs i) MTDSF_ERASE_SIZE = env_copy i f"
  using assms by (simp add: early_bytes_def early_flash_def env_copy_def sf_bytes_def)

text \<open>A buffer that was filled before, or none at all, and no devices: the state between power-on and the
  first call that finds the devices. What is in RAM after an early call that succeeded is the copy that
  it took.\<close>

definition booting :: "'n sf_scheme \<Rightarrow> 'n env_state \<Rightarrow> bool" where
  "booting f st \<longleftrightarrow> sf_mem (flash st) = sf_mem f \<and> length (sf_mem f) = CHIP \<and> \<not> mtd_init st
     \<and> mtd_table0 st = None \<and> mtd_table1 st = None \<and> (\<forall>b. env_ptr st = Some b \<longrightarrow> length b = MTDSF_ERASE_SIZE)
     \<and> (readed st \<longrightarrow> (\<exists>i. early_pick (env_copy 0 f) (env_copy 1 f) = Some i \<and> env_ptr st = Some (env_copy i f)))"

lemma length_copy_mem: "length (sf_mem f) = CHIP \<Longrightarrow> i < 2 \<Longrightarrow> length (env_copy i f) = MTDSF_ERASE_SIZE"
  by (simp add: env_copy_def sf_bytes_def CHIP_def env_offs_def MTDSF_ERASE_SIZE_def)

lemma early_turn:
  assumes "early_board bd" "i < 2" "early_flash f (flash st)" "MTDSF_PHY_ADDR (flash st) = 0xFF000000" "mtd_table0 st = None"
    "ENV_MAX_SIZE st = MTDSF_ERASE_SIZE" "env_ptr st = Some b0" "length b0 = MTDSF_ERASE_SIZE"
  shows "before_turn bd 0 (3, 4) (env_offs 0, env_offs 1) st i =
     (let st1 = st\<lparr>env_ptr := Some (env_copy i f)\<rparr> in
      if live (env_copy i f) then Inl (Some (st1\<lparr>env_valid := 3 + i, env_valid_offs := env_offs i, env_invalid := 4 - i,
        env_invalid_offs := env_offs (1 - i), readed := True\<rparr>, 0))
      else Inr st1)"
proof -
  have l: "length (env_copy i f) = MTDSF_ERASE_SIZE" using assms(2,3) by (intro length_copy_mem) (simp_all add: early_flash_def)
  have e: "early_bytes bd 0 (flash st) (env_offs i) MTDSF_ERASE_SIZE = env_copy i f" by (rule early_copy [OF assms(3,4,2)])
  have n: "\<not> nand_boot bd" "ioremap_ok bd" using assms(1) sf_board_vals by (auto simp: early_board_def)
  consider "i = 0" | "i = 1" using assms(2) by (auto simp: less_2_cases_iff)
  then show ?thesis
  proof cases
    case 1
    then show ?thesis using assms(5-8) n e l by (simp add: before_turn_def Let_def ENV_INVALID_def live_def conj_commute)
  next
    case 2
    then show ?thesis using assms(5-8) n e l by (simp add: before_turn_def Let_def ENV_INVALID_def live_def conj_commute)
  qed
qed

lemma early_read:
  assumes "early_board bd" "booting f st" "g_sf_force_size (flash st) = 0" "ENV_MAX_SIZE st = MTDSF_ERASE_SIZE" "env_ptr st \<noteq> None"
  shows "\<exists>st' ret. read_env_before_mtd_init bd (3, 4) (env_offs 0, env_offs 1) st = Some (st', ret) \<and> booting f st'
     \<and> g_sf_force_size (flash st') = 0
     \<and> (case early_pick (env_copy 0 f) (env_copy 1 f) of None \<Rightarrow> ret = 1 | Some i \<Rightarrow> ret = 0 \<and> env_ptr st' = Some (env_copy i f))"
proof (cases "readed st")
  case True
  then show ?thesis using assms by (auto simp: read_env_before_mtd_init_def booting_def)
next
  case False
  obtain b0 where b0: "env_ptr st = Some b0" "length b0 = MTDSF_ERASE_SIZE" using assms(2,5) by (auto simp: booting_def)
  have t0: "mtd_table0 st = None" using assms(2) by (simp add: booting_def)
  obtain g where g: "wmt_sfc_init (strap bd) (chip_id0 bd) (chip_id1 bd) (flash st) = (g, 0)" "sf_mem g = sf_mem (flash st)"
      "MTDSF_PHY_ADDR g = 0xFF000000" "g_sf_force_size g = 0"
    using sfc_init_ok [of "strap bd" "chip_id0 bd" "flash st" "chip_id1 bd"] assms(1,3) by (auto simp: early_board_def)
  define s0 where "s0 = st\<lparr>flash := g\<rparr>"
  have ef: "early_flash f g" using g assms(2) by (auto simp: early_flash_def booting_def)
  have l: "length (env_copy i f) = MTDSF_ERASE_SIZE" if "i < 2" for i using ef that by (intro length_copy_mem) (simp_all add: early_flash_def)
  let ?won = "\<lambda>i s. s\<lparr>env_valid := 3 + i, env_valid_offs := env_offs i, env_invalid := 4 - i, env_invalid_offs := env_offs (1 - i), readed := True\<rparr>"
  define s1 where "s1 = s0\<lparr>env_ptr := Some (env_copy 0 f)\<rparr>"
  define s2 where "s2 = s1\<lparr>env_ptr := Some (env_copy 1 f)\<rparr>"
  have "before_turn bd 0 (3, 4) (env_offs 0, env_offs 1) s0 0 = (if live (env_copy 0 f) then Inl (Some (?won 0 s1, 0)) else Inr s1)"
    using early_turn [OF assms(1), of 0 f s0 b0] ef g t0 assms(4) b0 by (simp add: s0_def s1_def Let_def)
  moreover have "before_turn bd 0 (3, 4) (env_offs 0, env_offs 1) s1 1 = (if live (env_copy 1 f) then Inl (Some (?won 1 s2, 0)) else Inr s2)"
    using early_turn [OF assms(1), of 1 f s1 "env_copy 0 f"] ef g t0 assms(4) l [of 0] by (simp add: s0_def s1_def s2_def Let_def)
  ultimately have loop: "foldl_until (before_turn bd 0 (3, 4) (env_offs 0, env_offs 1)) s0 [0, 1] =
      (if live (env_copy 0 f) then Inl (Some (?won 0 s1, 0)) else if live (env_copy 1 f) then Inl (Some (?won 1 s2, 0)) else Inr s2)"
    by (simp del: One_nat_def)
  have r: "read_env_before_mtd_init bd (3, 4) (env_offs 0, env_offs 1) st =
      (case foldl_until (before_turn bd 0 (3, 4) (env_offs 0, env_offs 1)) s0 [0, 1] of Inl r \<Rightarrow> r | Inr st1 \<Rightarrow> Some (st1, 1))"
    using False t0 g(1) by (simp add: read_env_before_mtd_init_def ENV_INVALID_def s0_def)
  have bt: "booting f (?won i s)" if "early_pick (env_copy 0 f) (env_copy 1 f) = Some i" "i < 2" "env_ptr s = Some (env_copy i f)" "flash s = g"
      "mtd_table0 s = None" "mtd_table1 s = None" "\<not> mtd_init s" for s i
    using that l [of i] ef by (auto simp: booting_def early_flash_def)
  have n: "mtd_table1 st = None" "\<not> mtd_init st" using assms(2) by (simp_all add: booting_def)
  consider "live (env_copy 0 f)" | "\<not> live (env_copy 0 f)" "live (env_copy 1 f)" | "\<not> live (env_copy 0 f)" "\<not> live (env_copy 1 f)" by blast
  then show ?thesis
  proof cases
    case 1
    then show ?thesis unfolding r loop using bt [of 0 s1] g(4) t0 n by (auto simp: early_pick_def s1_def s0_def)
  next
    case 2
    then show ?thesis unfolding r loop using bt [of 1 s2] g(4) t0 n by (auto simp: early_pick_def s2_def s1_def s0_def)
  next
    case 3
    have "booting f s2" using False ef l [of 1] t0 n by (auto simp: booting_def s2_def s1_def s0_def early_flash_def)
    with 3 g(4) show ?thesis unfolding r loop by (auto simp: early_pick_def s2_def s1_def s0_def)
  qed
qed

lemma early_ready:
  assumes "early_board bd" "booting f st" "g_sf_force_size (flash st) = 0"
  shows "\<exists>st' ok. env_ready bd (lock bd st) = Some (st', ok) \<and> booting f st' \<and> g_sf_force_size (flash st') = 0
     \<and> (case early_pick (env_copy 0 f) (env_copy 1 f) of None \<Rightarrow> \<not> ok | Some i \<Rightarrow> ok \<and> env_ptr st' = Some (env_copy i f))"
proof -
  have v: "boot_val bd = 0" using assms(1) sf_board_vals by (auto simp: early_board_def)
  obtain b0 where b0: "kmalloc_buf bd = Some b0" "length b0 = MTDSF_ERASE_SIZE" using assms(1) by (auto simp: early_board_def)
  define st1 where "st1 = (if env_ptr (lock bd st) = None then (lock bd st)\<lparr>env_ptr := kmalloc_buf bd, nand_block := 0\<rparr> else lock bd st)"
  define st2 where "st2 = st1\<lparr>ENV_MAX_SIZE := NOR_ENV_MAX_SIZE\<rparr>"
  have m: "mtd_init (lock bd st) = False" using assms(2) by (simp add: booting_def lock_def)
  have p: "env_ptr st1 \<noteq> None" "booting f st2" "g_sf_force_size (flash st2) = 0" "ENV_MAX_SIZE st2 = MTDSF_ERASE_SIZE" "env_ptr st2 \<noteq> None"
    using assms(2,3) b0 by (auto simp: st2_def st1_def booting_def lock_def NOR_ENV_MAX_SIZE_def MTDSF_ERASE_SIZE_def)
  have "env_init bd st1 = read_env_before_mtd_init bd (3, 4) (env_offs 0, env_offs 1) st2"
    using assms(1) v p(2) boot_parts by (simp add: env_init_def env_locate_def early_board_def st2_def booting_def)
  moreover have "env_ready bd (lock bd st) = map_option (\<lambda>(st2, ret). (st2, ret = 0)) (env_init bd st1)"
    using p(1) unfolding env_ready_def Let_def st1_def [symmetric] m by auto
  ultimately show ?thesis using early_read [OF assms(1) p(2-5)] by (auto split: option.splits)
qed

section \<open>The late start\<close>

text \<open>The tables hold the two devices, and the RAM buffer is there.\<close>

definition sf_attached :: "'n env_state \<Rightarrow> bool" where
  "sf_attached st \<longleftrightarrow> mtd_table0 st = Some (env_dev 0) \<and> mtd_table1 st = Some (env_dev 1) \<and>
     ENV_MAX_SIZE st = MTDSF_ERASE_SIZE \<and> sf_up (flash st) \<and> (\<exists>b. env_ptr st = Some b \<and> length b = MTDSF_ERASE_SIZE)"

lemma sf_attached_iff: "sf_attached st = sfenv.attached st"
  by (simp add: sf_attached_def sfenv.attached_def)

lemma late_ready:
  assumes "sf_board bd" "booting f st" "sf_up (flash st)"
  shows "\<exists>st' ok. env_ready bd (lock bd st) = Some (st', ok) \<and> sf_attached st' \<and> mtd_init st' \<and>
     env_copy 0 (flash st') = env_copy 0 f \<and> env_copy 1 (flash st') = env_copy 1 f \<and>
     (case pick (env_copy 0 f) (env_copy 1 f) of None \<Rightarrow> \<not> ok \<and> env_ptr st' = Some (env_copy 1 f)
      | Some i \<Rightarrow> ok \<and> env_ptr st' = Some (env_copy i f) \<and> env_valid st' = i \<and> env_invalid st' = 1 - i)"
proof -
  have v: "\<not> nand_boot bd" "boot_val bd = 0" using assms(1) sf_board_vals by (auto simp: sf_board_def)
  obtain b0 where b0: "kmalloc_buf bd = Some b0" "length b0 = MTDSF_ERASE_SIZE" using assms(1) by (auto simp: sf_board_def)
  define st1 where "st1 = (if env_ptr (lock bd st) = None then (lock bd st)\<lparr>env_ptr := kmalloc_buf bd, nand_block := 0\<rparr> else lock bd st)"
  define st2 where "st2 = st1\<lparr>ENV_MAX_SIZE := NOR_ENV_MAX_SIZE, mtd_init := True, mtd_table0 := Some (env_dev 0), mtd_table1 := Some (env_dev 1)\<rparr>"
  have m: "mtd_init (lock bd st) = False" using assms(2) by (simp add: booting_def lock_def)
  have p: "env_ptr st1 \<noteq> None" "flash st2 = flash st" "mtd_init st2" using b0 by (simp_all add: lock_def st2_def st1_def)
  have c: "env_copy k (flash st) = env_copy k f" for k using assms(2) by (intro env_copy_cong) (simp add: booting_def)
  have init: "env_init bd st1 = read_env_after_mtd_init bd st2"
    using assms(1) v by (simp add: env_init_def env_locate_def sf_board_def Let_def st2_def)
  have nor: "NOR_ENV_MAX_SIZE = MTDSF_ERASE_SIZE" by (simp add: NOR_ENV_MAX_SIZE_def MTDSF_ERASE_SIZE_def)
  have a: "sfenv.attached st2" using assms(2,3) b0
    by (auto simp: sfenv.attached_def st2_def st1_def booting_def lock_def nor)
  obtain st' ret where r: "read_env_after_mtd_init bd st2 = Some (st', ret)" "sfenv.attached st'" "mtd_init st' = mtd_init st2"
      "env_copy 0 (flash st') = env_copy 0 (flash st2)" "env_copy 1 (flash st') = env_copy 1 (flash st2)"
      "case pick (env_copy 0 (flash st2)) (env_copy 1 (flash st2)) of None \<Rightarrow> ret = 1 \<and> env_ptr st' = Some (env_copy 1 (flash st2))
       | Some i \<Rightarrow> ret = 0 \<and> env_ptr st' = Some (env_copy i (flash st2)) \<and> env_valid st' = i \<and> env_invalid st' = 1 - i"
    using sfenv.reload [OF a v(1)] by blast
  have "env_ready bd (lock bd st) = Some (st', ret = 0)"
    using p(1) init r(1) unfolding env_ready_def Let_def st1_def [symmetric] m by auto
  then show ?thesis using r p(3) unfolding p(2) c by (auto simp: sf_attached_iff split: option.splits)
qed

section \<open>Everything between power-on and shutdown that only reads\<close>

text \<open>
  \<open>boot_reach f st\<close>: the states that a kernel that was started with the flash \<open>f\<close> can be in as long as
  nobody changes the environment: after power-on; after a call of \<^verbatim>\<open>wmt_getsyspara\<close>, before the
  devices are registered or after; after the probe of the flash driver, or anything else that leaves the
  bytes of the flash alone.
\<close>

definition power_on :: "'n sf_scheme \<Rightarrow> 'n env_state \<Rightarrow> bool" where
  "power_on f st \<longleftrightarrow> sf_mem (flash st) = sf_mem f \<and> length (sf_mem f) = CHIP \<and> g_sf_force_size (flash st) = 0 \<and>
     env_ptr st = None \<and> \<not> mtd_init st \<and> mtd_table0 st = None \<and> mtd_table1 st = None \<and> \<not> readed st"

definition can_call :: "'n board \<Rightarrow> 'n env_state \<Rightarrow> bool" where
  "can_call bd st \<longleftrightarrow> early_board bd \<and> g_sf_force_size (flash st) = 0 \<or> sf_board bd \<and> sf_up (flash st)"

inductive boot_reach :: "'n sf_scheme \<Rightarrow> 'n env_state \<Rightarrow> bool" for f :: "'n sf_scheme" where
  Power: "power_on f st \<Longrightarrow> boot_reach f st"
| Call: "boot_reach f st \<Longrightarrow> can_call bd st \<Longrightarrow> wmt_getsyspara bd st name varlen = Some (st', r) \<Longrightarrow> boot_reach f st'"
| Probe: "boot_reach f st \<Longrightarrow> sf_mem g = sf_mem f \<Longrightarrow> boot_reach f (st\<lparr>flash := g\<rparr>)"

text \<open>Once a call has found the devices, RAM holds the copy that it took.\<close>

definition loaded :: "'n sf_scheme \<Rightarrow> 'n env_state \<Rightarrow> bool" where
  "loaded f st \<longleftrightarrow> mtd_init st \<and>
     env_ptr st = Some (case pick (env_copy 0 f) (env_copy 1 f) of None \<Rightarrow> env_copy 1 f | Some i \<Rightarrow> env_copy i f)"

lemma getsyspara_state: "wmt_getsyspara bd st name varlen = Some (st', r) \<Longrightarrow> \<exists>st1 ok. env_ready bd (lock bd st) = Some (st1, ok) \<and> st' = unlock st1"
  by (auto simp: wmt_getsyspara_def Let_def split: option.splits prod.splits if_splits)

lemma boot_reach_inv: "boot_reach f st \<Longrightarrow> booting f st \<or> loaded f st"
proof (induction rule: boot_reach.induct)
  case (Power st)
  then show ?case by (simp add: power_on_def booting_def)
next
  case (Call st bd name varlen st' r)
  obtain st1 ok where r: "env_ready bd (lock bd st) = Some (st1, ok)" "st' = unlock st1" using getsyspara_state [OF Call(3)] by blast
  have u: "booting f (unlock s) = booting f s" "loaded f (unlock s) = loaded f s" for s by (simp_all add: unlock_def booting_def loaded_def)
  from Call(4) show ?case
  proof
    assume b: "booting f st"
    from Call(2) show ?case unfolding can_call_def
    proof
      assume "early_board bd \<and> g_sf_force_size (flash st) = 0"
      with early_ready [of bd f st] b r u show ?case by auto
    next
      assume "sf_board bd \<and> sf_up (flash st)"
      then obtain ok' st2 where "env_ready bd (lock bd st) = Some (st2, ok')" "mtd_init st2"
        "case pick (env_copy 0 f) (env_copy 1 f) of None \<Rightarrow> \<not> ok' \<and> env_ptr st2 = Some (env_copy 1 f)
         | Some i \<Rightarrow> ok' \<and> env_ptr st2 = Some (env_copy i f) \<and> env_valid st2 = i \<and> env_invalid st2 = 1 - i"
        using late_ready [of bd f st] b by blast
      with r u show ?case by (auto simp: loaded_def split: option.splits)
    qed
  next
    assume l: "loaded f st"
    then have "env_ready bd (lock bd st) = Some (lock bd st, True)" by (simp add: env_ready_def loaded_def lock_def)
    with r l u show ?case by (auto simp: loaded_def lock_def)
  qed
next
  case (Probe st g)
  then show ?case by (auto simp: booting_def loaded_def)
qed

lemma reach_booting: "boot_reach f st \<Longrightarrow> \<not> mtd_init st \<Longrightarrow> booting f st"
  using boot_reach_inv [of f st] by (auto simp: loaded_def)

end
