(* ===== verification/WmtEnvSpec.thy ===== *)
theory WmtEnvSpec
  imports WmtEnv
begin

text \<open>
  The strings of the environment as a list of definitions: what the searching and the editing
  loops of \<^verbatim>\<open>wmt_env.c\<close> compute on the bytes, stated on the list.
\<close>

section \<open>Definitions and their bytes\<close>

type_synonym entry = "int list \<times> int list"

definition entry_bytes :: "entry \<Rightarrow> int list" where
  "entry_bytes e = fst e @ 61 # snd e @ [0]"

definition enc :: "entry list \<Rightarrow> int list" where
  "enc es = concat (map entry_bytes es)"

definition is_name :: "int list \<Rightarrow> bool" where
  "is_name n \<longleftrightarrow> n \<noteq> [] \<and> 0 \<notin> set n \<and> 61 \<notin> set n"

definition is_value :: "int list \<Rightarrow> bool" where
  "is_value v \<longleftrightarrow> 0 \<notin> set v"

definition wf_entries :: "entry list \<Rightarrow> bool" where
  "wf_entries es \<longleftrightarrow> (\<forall>e \<in> set es. is_name (fst e) \<and> is_value (snd e)) \<and> distinct (map fst es)"

text \<open>The data area holds the definitions, each with its zero byte, and one more zero after
  them; an empty area starts with two.\<close>

definition area :: "entry list \<Rightarrow> int list \<Rightarrow> int list" where
  "area es rest = enc es @ (if es = [] then [0, 0] else [0]) @ rest"

lemma enc_Nil [simp]: "enc [] = []"
  by (simp add: enc_def)

lemma enc_Cons: "enc (e # es) = fst e @ 61 # snd e @ 0 # enc es"
  by (simp add: enc_def entry_bytes_def)

lemma enc_append [simp]: "enc (xs @ ys) = enc xs @ enc ys"
  by (simp add: enc_def)

lemma enc_eq_Nil [simp]: "enc es = [] \<longleftrightarrow> es = []"
  by (cases es) (simp_all add: enc_Cons)

lemma length_enc: "length (enc es) = (\<Sum>(n, v)\<leftarrow>es. length n + length v + 2)"
  by (induction es) (auto simp: enc_Cons)

section \<open>Reading at a position\<close>

lemma get_char_drop: "drop i d = x # xs \<Longrightarrow> env_get_char d i = Some x"
  unfolding env_get_char_def by (metis drop_eq_Nil2 hd_drop_conv_nth leI list.discI list.sel(1))

lemma drop_SucI: "drop i d = x # xs \<Longrightarrow> drop (Suc i) d = xs"
  by (metis drop_Suc list.sel(3) tl_drop)

lemma drop_addI: "drop i d = xs @ ys \<Longrightarrow> drop (i + length xs) d = ys"
  by (metis add.commute append_eq_conv_conj drop_drop)

lemma find_nul_at:
  "drop i d = w @ 0 # r \<Longrightarrow> 0 \<notin> set w \<Longrightarrow> find_nul d i = Some (i + length w)"
proof (induction w arbitrary: i)
  case Nil
  then show ?case by (simp add: find_nul.simps get_char_drop)
next
  case (Cons c w)
  then have "find_nul d (Suc i) = Some (Suc i + length w)" by (intro Cons.IH drop_SucI) auto
  with Cons.prems show ?case by (simp add: find_nul.simps [of d i] get_char_drop)
qed

lemma envmatch_at:
  assumes "drop p (s1 @ [0]) = ss @ [0]" "drop i d = n @ 61 # r"
    and "0 \<notin> set ss" "61 \<notin> set ss" "0 \<notin> set n" "61 \<notin> set n"
  shows "envmatch d s1 p i = Some (if ss = n then Some (Suc (i + length n)) else None)"
  using assms
proof (induction n arbitrary: p i ss)
  case Nil
  then show ?case
    by (cases ss) (auto simp: envmatch.simps [of d s1 p i] get_char_drop)
next
  case (Cons c n)
  show ?case
  proof (cases ss)
    case Nil
    with Cons.prems show ?thesis by (simp add: envmatch.simps [of d s1 p i] get_char_drop)
  next
    case (Cons b ss')
    show ?thesis
    proof (cases "b = c")
      case True
      have "envmatch d s1 (Suc p) (Suc i) = Some (if ss' = n then Some (Suc (Suc i + length n)) else None)"
        using Cons.prems Cons True by (intro Cons.IH drop_SucI [of p] drop_SucI [of i]) auto
      with Cons.prems Cons True show ?thesis
        by (auto simp: envmatch.simps [of d s1 p i] get_char_drop)
    next
      case False
      with Cons.prems Cons show ?thesis by (auto simp: envmatch.simps [of d s1 p i] get_char_drop)
    qed
  qed
qed

section \<open>The search\<close>

text \<open>Where the definition of a name starts, its zero byte and its value.\<close>

lemma env_search_at:
  assumes "drop j d = enc es @ 0 # rest" "wf_entries es" "is_name name"
  shows "env_search d name j =
     (if name \<notin> fst ` set es then Some None
      else let es1 = takeWhile (\<lambda>e. fst e \<noteq> name) es; v = the (map_of es name); b = j + length (enc es1)
           in Some (Some (b, b + length name + 1 + length v, b + length name + 1)))"
  using assms
proof (induction es arbitrary: j)
  case Nil
  then show ?case by (simp add: env_search.simps [of d name j] get_char_drop)
next
  case (Cons e es)
  obtain n v where e: "e = (n, v)" by force
  have d: "drop j d = (n @ 61 # v) @ 0 # enc es @ 0 # rest" using Cons.prems(1) by (simp add: e enc_Cons)
  have w: "is_name n" "is_value v" "wf_entries es" "n \<notin> fst ` set es"
    using Cons.prems(2) by (auto simp: e wf_entries_def)
  have "0 \<notin> set (n @ 61 # v)" using w by (auto simp: is_name_def is_value_def)
  from find_nul_at [OF d this] have nxt: "find_nul d j = Some (j + length n + 1 + length v)" by simp
  have m: "envmatch d name 0 j = Some (if name = n then Some (Suc (j + length n)) else None)"
    using d w Cons.prems(3) by (intro envmatch_at [of _ _ _ _ _ _ "v @ 0 # enc es @ 0 # rest"]) (auto simp: is_name_def)
  obtain c n' where n: "n = c # n'" "c \<noteq> 0" using w(1) by (cases n) (auto simp: is_name_def)
  have c: "env_get_char d j = Some c" using d n by (simp add: get_char_drop)
  have "drop (Suc (j + length n + 1 + length v)) d = enc es @ 0 # rest"
    using drop_addI [of j d "n @ 61 # v @ [0]" "enc es @ 0 # rest"] d by (simp add: add.assoc)
  from Cons.IH [OF this w(3) Cons.prems(3)] show ?case
    using nxt m c n w(4) by (auto simp: env_search.simps [of d name j] e enc_Cons Let_def)
qed

lemma lookup_take:
  "drop k d = v @ r \<Longrightarrow> take (length v) (drop k d) = v"
  by simp

lemma split_at_name:
  assumes "name \<in> fst ` set es"
  shows "\<exists>es2. es = takeWhile (\<lambda>e. fst e \<noteq> name) es @ (name, the (map_of es name)) # es2"
  using assms
proof (induction es)
  case (Cons e es)
  obtain n v where e: "e = (n, v)" by force
  show ?case
  proof (cases "n = name")
    case False
    with Cons.prems have "name \<in> fst ` set es" by (auto simp: e)
    from Cons.IH [OF this] False show ?thesis by (simp add: e)
  qed (simp add: e)
qed simp

text \<open>What \<^verbatim>\<open>wmt_getsyspara\<close> reads is the value in the list.\<close>

lemma env_lookup_area:
  assumes "wf_entries es" "is_name name"
  shows "env_lookup (area es rest) name =
     Some (case map_of es name of None \<Rightarrow> (False, [0]) | Some v \<Rightarrow> (True, v @ [0]))"
proof (cases "name \<in> fst ` set es")
  case False
  then have "map_of es name = None" by (simp add: map_of_eq_None_iff)
  moreover have "drop 0 (area es rest) = enc es @ 0 # (if es = [] then 0 # rest else rest)" by (simp add: area_def)
  ultimately show ?thesis using env_search_at [OF _ assms] False by (simp add: env_lookup_def)
next
  case True
  define es1 where "es1 = takeWhile (\<lambda>e. fst e \<noteq> name) es"
  define v where "v = the (map_of es name)"
  obtain es2 where es: "es = es1 @ (name, v) # es2" using split_at_name [OF True] unfolding es1_def v_def by blast
  have ne: "es \<noteq> []" using True by auto
  have v: "map_of es name = Some v" using True unfolding v_def by (metis map_of_eq_None_iff option.exhaust_sel)
  have a: "area es rest = (enc es1 @ name @ [61]) @ v @ 0 # enc es2 @ 0 # rest"
    using ne by (simp add: area_def es enc_Cons)
  have "drop 0 (area es rest) = enc es @ 0 # rest" using ne by (simp add: area_def)
  from env_search_at [OF this assms] True have s: "env_search (area es rest) name 0 =
     Some (Some (length (enc es1), length (enc es1) + length name + 1 + length v, length (enc es1) + length name + 1))"
    by (simp add: Let_def es1_def v_def)
  have "drop (length (enc es1) + length name + 1) (area es rest) = v @ 0 # enc es2 @ 0 # rest"
    using drop_addI [of 0 "area es rest", OF _, of "enc es1 @ name @ [61]"] a by (simp add: add.assoc)
  then show ?thesis by (simp add: env_lookup_def s v)
qed

end
