(* ===== verification/WmtEnvEdit.thy ===== *)
theory WmtEnvEdit
  imports WmtEnvSpec
begin

text \<open>The editing loops of \<^verbatim>\<open>wmt_setsyspara\<close> on the list of definitions.\<close>

section \<open>Storing a string\<close>

definition wr :: "int list \<Rightarrow> nat \<Rightarrow> int list \<Rightarrow> int list" where
  "wr d i cs = take i d @ cs @ drop (i + length cs) d"

lemma wr_Nil [simp]: "wr d i [] = d"
  by (simp add: wr_def)

lemma length_wr [simp]: "i + length cs \<le> length d \<Longrightarrow> length (wr d i cs) = length d"
  by (simp add: wr_def)

lemma wr_Cons: "i < length d \<Longrightarrow> wr d i (c # cs) = wr (d[i := c]) (Suc i) cs"
  by (simp add: wr_def upd_conv_take_nth_drop take_Suc_conv_app_nth add.commute)

lemma wr_single: "i < length d \<Longrightarrow> wr d i [c] = d[i := c]"
  by (simp add: wr_Cons)

lemma wr_wr: "i + length xs + length ys \<le> length d \<Longrightarrow> wr (wr d i xs) (i + length xs) ys = wr d i (xs @ ys)"
  by (simp add: wr_def ac_simps)

lemma drop_wr: "i + length cs \<le> length d \<Longrightarrow> i + length cs \<le> n \<Longrightarrow> drop n (wr d i cs) = drop n d"
  by (auto simp: wr_def drop_append)

lemma put_string_wr:
  "put_string d i cs = (if cs = [] \<or> i + length cs \<le> length d then Some (wr d i cs) else None)"
  by (induction d i cs rule: put_string.induct) (auto simp: put_char_def wr_Cons split: option.splits)

section \<open>The end of the strings\<close>

lemma find_end_run:
  assumes "drop i d = u @ 0 # c # r" "0 \<notin> set u"
  shows "find_end d i = (if c \<noteq> 0 then find_end d (i + length u + 1) else Some (i + length u))"
  using assms
proof (induction u arbitrary: i)
  case Nil
  then have "env_get_char d i = Some 0" "env_get_char d (Suc i) = Some c"
    by (auto intro: get_char_drop dest: drop_SucI)
  then show ?case by (simp add: find_end.simps [of d i])
next
  case (Cons x u)
  then have "env_get_char d i = Some x" by (auto intro: get_char_drop)
  moreover have "drop (Suc i) d = u @ 0 # c # r" using Cons.prems(1) by (auto dest: drop_SucI)
  note Cons.IH [OF this]
  ultimately show ?case using Cons.prems(2) by (simp add: find_end.simps [of d i])
qed

lemma entry_run:
  assumes "wf_entries (e # es)"
  obtains u where "enc (e # es) = u @ 0 # enc es" "0 \<notin> set u"
    "\<And>r. es \<noteq> [] \<Longrightarrow> \<exists>c r'. enc es @ r = c # r' \<and> c \<noteq> 0"
proof
  show "enc (e # es) = (fst e @ 61 # snd e) @ 0 # enc es" by (simp add: enc_Cons)
  show "0 \<notin> set (fst e @ 61 # snd e)" using assms by (auto simp: wf_entries_def is_name_def is_value_def)
  fix r assume "es \<noteq> []"
  then obtain e' es' where es: "es = e' # es'" by (cases es) auto
  with assms have "is_name (fst e')" by (simp add: wf_entries_def)
  then obtain c n' where "fst e' = c # n'" "c \<noteq> 0" by (cases "fst e'") (auto simp: is_name_def)
  then show "\<exists>c r'. enc es @ r = c # r' \<and> c \<noteq> 0" by (simp add: es enc_Cons)
qed

lemma wf_entries_tl: "wf_entries (e # es) \<Longrightarrow> wf_entries es"
  by (simp add: wf_entries_def)

lemma find_end_enc:
  assumes "drop i d = enc es @ 0 # r" "wf_entries es" "es \<noteq> []"
  shows "find_end d i = Some (i + length (enc es) - 1)"
  using assms
proof (induction es arbitrary: i)
  case (Cons e es)
  obtain u where u: "enc (e # es) = u @ 0 # enc es" "0 \<notin> set u"
    and nx: "\<And>r. es \<noteq> [] \<Longrightarrow> \<exists>c r'. enc es @ r = c # r' \<and> c \<noteq> 0"
    using entry_run [OF Cons.prems(2)] by blast
  show ?case
  proof (cases "es = []")
    case True
    with Cons.prems(1) u(1) have "drop i d = u @ 0 # 0 # r" by simp
    from find_end_run [OF this u(2)] True u(1) show ?thesis by simp
  next
    case False
    obtain c r' where c: "enc es @ 0 # r = c # r'" "c \<noteq> 0" using nx [OF False] by blast
    with Cons.prems(1) u(1) have d: "drop i d = u @ 0 # c # r'" by simp
    have "drop i d = (u @ [0]) @ enc es @ 0 # r" using Cons.prems(1) u(1) by simp
    from drop_addI [OF this] have "drop (i + length u + 1) d = enc es @ 0 # r" by (simp add: add.assoc)
    from Cons.IH [OF this wf_entries_tl [OF Cons.prems(2)] False]
    have "find_end d (i + length u + 1) = Some (i + length u + 1 + length (enc es) - 1)" .
    with find_end_run [OF d u(2)] c(2) u(1) show ?thesis by simp
  qed
qed simp

section \<open>Closing a gap\<close>

lemma del_move_run:
  assumes "drop nxt d = u @ 0 # c # r" "0 \<notin> set u" "env < nxt"
  shows "del_move d env nxt =
    (let d1 = wr d env (u @ [0])
     in if c \<noteq> 0 then del_move d1 (env + length u + 1) (nxt + length u + 1) else Some (d1, env + length u))"
  using assms
proof (induction u arbitrary: d env nxt)
  case Nil
  have l: "env < length d" using Nil.prems by (metis drop_eq_Nil2 leI less_trans list.discI append_Nil)
  have "drop (Suc nxt) (d[env := 0]) = c # r" using Nil.prems by (auto simp: drop_update_cancel dest: drop_SucI)
  then have "env_get_char (d[env := 0]) (Suc nxt) = Some c" by (rule get_char_drop)
  moreover have "env_get_char d nxt = Some 0" using Nil.prems(1) by (auto intro: get_char_drop)
  ultimately show ?case using l by (simp add: del_move.simps [of d env nxt] put_char_def wr_single Let_def)
next
  case (Cons x u)
  have l: "env < length d" using Cons.prems by (metis drop_eq_Nil2 leI less_trans list.discI append_Cons)
  have dr: "drop (Suc nxt) (d[env := x]) = u @ 0 # c # r"
    using Cons.prems by (auto simp: drop_update_cancel dest: drop_SucI)
  obtain y ys where y: "u @ 0 # c # r = y # ys" by (cases u) auto
  have "env_get_char (d[env := x]) (Suc nxt) = Some y" using dr y by (auto intro: get_char_drop)
  moreover have "env_get_char d nxt = Some x" using Cons.prems(1) by (auto intro: get_char_drop)
  ultimately have "del_move d env nxt = del_move (d[env := x]) (Suc env) (Suc nxt)"
    using l Cons.prems(2) by (simp add: del_move.simps [of d env nxt] put_char_def)
  with Cons.IH [OF dr] Cons.prems l show ?case by (simp add: Let_def wr_Cons)
qed

lemma del_move_enc:
  assumes "drop nxt d = enc es @ 0 # r" "wf_entries es" "es \<noteq> []" "env < nxt"
  shows "del_move d env nxt = Some (wr d env (enc es), env + length (enc es) - 1)"
  using assms
proof (induction es arbitrary: d env nxt)
  case (Cons e es)
  obtain u where u: "enc (e # es) = u @ 0 # enc es" "0 \<notin> set u"
    and nx: "\<And>r. es \<noteq> [] \<Longrightarrow> \<exists>c r'. enc es @ r = c # r' \<and> c \<noteq> 0"
    using entry_run [OF Cons.prems(2)] by blast
  show ?case
  proof (cases "es = []")
    case True
    with Cons.prems(1) u(1) have "drop nxt d = u @ 0 # 0 # r" by simp
    from del_move_run [OF this u(2) Cons.prems(4)] True u(1) show ?thesis by (simp add: Let_def)
  next
    case False
    obtain c r' where c: "enc es @ 0 # r = c # r'" "c \<noteq> 0" using nx [OF False] by blast
    with Cons.prems(1) u(1) have d: "drop nxt d = u @ 0 # c # r'" by simp
    let ?d1 = "wr d env (u @ [0])"
    have len: "nxt + length u + 1 + length (enc es) + 1 + length r = length d"
    proof -
      have "length (drop nxt d) = length u + 1 + length (enc es) + 1 + length r" using Cons.prems(1) u(1) by simp
      moreover have "drop nxt d \<noteq> []" using d by simp
      ultimately show ?thesis by simp
    qed
    have "drop nxt d = (u @ [0]) @ enc es @ 0 # r" using Cons.prems(1) u(1) by simp
    from drop_addI [OF this] have "drop (nxt + length u + 1) d = enc es @ 0 # r" by (simp add: add.assoc)
    then have "drop (nxt + length u + 1) ?d1 = enc es @ 0 # r"
      using len Cons.prems(4) by (subst drop_wr) auto
    from Cons.IH [OF this wf_entries_tl [OF Cons.prems(2)] False] Cons.prems(4)
    have "del_move ?d1 (env + length u + 1) (nxt + length u + 1) =
        Some (wr ?d1 (env + length u + 1) (enc es), env + length u + 1 + length (enc es) - 1)" by simp
    moreover have "wr ?d1 (env + length u + 1) (enc es) = wr d env (enc (e # es))"
      using wr_wr [of env "u @ [0]" "enc es" d] len Cons.prems(4) u(1) by (simp add: add.assoc)
    ultimately show ?thesis using del_move_run [OF d u(2) Cons.prems(4)] c(2) u(1) by (simp add: Let_def)
  qed
qed simp

section \<open>Deleting and appending a definition\<close>

lemma area_nonempty: "es \<noteq> [] \<Longrightarrow> area es rest = enc es @ 0 # rest"
  by (simp add: area_def)

lemma delete_last:
  assumes "d = enc es1 @ entry_bytes (n, v) @ 0 # r" "n \<noteq> []"
  shows "\<exists>rest'. env_delete d (length (enc es1)) (length (enc es1) + length n + 1 + length v) = Some (area es1 rest')
                 \<and> length (area es1 rest') = length d"
proof -
  let ?p = "length (enc es1)" and ?E = "entry_bytes (n, v)"
  have E: "length ?E = length n + length v + 2" by (simp add: entry_bytes_def)
  have "drop (Suc (?p + length n + 1 + length v)) d = 0 # r"
    using drop_addI [of 0 d "enc es1 @ ?E" "0 # r"] assms(1) E by (simp add: ac_simps)
  from get_char_drop [OF this] have c: "env_get_char d (Suc (?p + length n + 1 + length v)) = Some 0" .
  obtain x y E' where xy: "?E = x # y # E'" using assms(2) by (cases n; cases "tl n") (auto simp: entry_bytes_def)
  show ?thesis
  proof (cases "es1 = []")
    case True
    then have d: "d = x # y # E' @ 0 # r" using assms(1) xy by simp
    have "env_delete d ?p (?p + length n + 1 + length v) = Some (0 # 0 # E' @ 0 # r)"
      using c True by (simp add: env_delete_def put_char_def d)
    then show ?thesis using True d by (auto simp: area_def)
  next
    case False
    then have "0 < ?p" by simp
    then have "env_delete d ?p (?p + length n + 1 + length v) = put_char d ?p 0"
      using c by (simp add: env_delete_def)
    also have "\<dots> = Some (enc es1 @ 0 # y # E' @ 0 # r)"
      using assms(1) xy by (simp add: put_char_def)
    finally show ?thesis using False assms(1) xy by (auto simp: area_nonempty)
  qed
qed

lemma delete_inner:
  assumes "d = enc es1 @ entry_bytes (n, v) @ enc es2 @ 0 # r" "wf_entries es2" "es2 \<noteq> []"
  shows "\<exists>rest'. env_delete d (length (enc es1)) (length (enc es1) + length n + 1 + length v) = Some (area (es1 @ es2) rest')
                 \<and> length (area (es1 @ es2) rest') = length d"
proof -
  let ?p = "length (enc es1)" and ?E = "entry_bytes (n, v)"
  let ?q = "Suc (?p + length n + 1 + length v)"
  have E: "length ?E = length n + length v + 2" by (simp add: entry_bytes_def)
  have dq: "drop ?q d = enc es2 @ 0 # r"
    using drop_addI [of 0 d "enc es1 @ ?E" "enc es2 @ 0 # r"] assms(1) E by (simp add: ac_simps)
  obtain e es where es2: "es2 = e # es" using assms(3) by (cases es2) auto
  then have "is_name (fst e)" using assms(2) by (simp add: wf_entries_def)
  then obtain c n' where "fst e = c # n'" "c \<noteq> 0" by (cases "fst e") (auto simp: is_name_def)
  then have c: "env_get_char d ?q = Some c" "c \<noteq> 0" using dq by (auto simp: es2 enc_Cons intro: get_char_drop)
  let ?d1 = "wr d ?p (enc es2)"
  have m: "del_move d ?p ?q = Some (?d1, ?p + length (enc es2) - 1)"
    by (rule del_move_enc [OF dq assms(2,3)]) simp
  have pos: "0 < length (enc es2)" using assms(3) by simp
  have "env_delete d ?p (?p + length n + 1 + length v) = put_char ?d1 (?p + length (enc es2)) 0"
    using c m pos by (simp add: env_delete_def)
  also have "?d1 = enc es1 @ enc es2 @ drop (length (enc es2)) (?E @ enc es2 @ 0 # r)"
    using assms(1) by (simp add: wr_def drop_append)
  also obtain x X where x: "drop (length (enc es2)) (?E @ enc es2 @ 0 # r) = x # X"
    by (cases "drop (length (enc es2)) (?E @ enc es2 @ 0 # r)") auto
  also have "put_char (enc es1 @ enc es2 @ x # X) (?p + length (enc es2)) 0 = Some (enc es1 @ enc es2 @ 0 # X)"
    by (simp add: put_char_def list_update_append)
  finally have r: "env_delete d ?p (?p + length n + 1 + length v) = Some (area (es1 @ es2) X)"
    using assms(3) by (simp add: area_def)
  have "length (x # X) = length (?E @ enc es2 @ 0 # r) - length (enc es2)" unfolding x [symmetric] by simp
  then have "length (area (es1 @ es2) X) = length d" using assms(1,3) by (simp add: area_def)
  with r show ?thesis by blast
qed

lemma env_delete_area:
  assumes "es = es1 @ (n, v) # es2" "wf_entries es"
  shows "\<exists>rest'. env_delete (area es rest) (length (enc es1)) (length (enc es1) + length n + 1 + length v) =
                   Some (area (es1 @ es2) rest') \<and> length (area (es1 @ es2) rest') = length (area es rest)"
proof -
  have n: "n \<noteq> []" and w: "wf_entries es2" using assms by (auto simp: wf_entries_def is_name_def)
  have d: "area es rest = enc es1 @ entry_bytes (n, v) @ enc es2 @ 0 # rest"
    using assms(1) by (simp add: area_def enc_def)
  show ?thesis
  proof (cases "es2 = []")
    case True
    with delete_last [of "area es rest" es1 n v rest] d n show ?thesis by simp
  next
    case False
    with delete_inner [OF d w] show ?thesis by blast
  qed
qed

text \<open>The new definition goes behind the last one; it needs room for itself and one zero byte.\<close>

definition env_need :: "entry list \<Rightarrow> int list \<Rightarrow> int list \<Rightarrow> nat" where
  "env_need es name val = length (enc es) + length name + length val + 2"

lemma env_append_area:
  assumes "wf_entries es" "d = area es rest"
  shows "env_need es name val > env_max \<Longrightarrow> env_append env_max d name val = Some None"
    and "env_need es name val \<le> env_max \<Longrightarrow> length d < env_need es name val + 1 \<Longrightarrow> env_append env_max d name val = None"
    and "env_need es name val \<le> env_max \<Longrightarrow> env_need es name val + 1 \<le> length d \<Longrightarrow>
         \<exists>rest'. env_append env_max d name val = Some (Some (area (es @ [(name, val)]) rest'))
                 \<and> length (area (es @ [(name, val)]) rest') = length d"
proof -
  have e: "\<exists>e0. find_end d 0 = Some e0 \<and> (if e0 > 0 then Suc e0 else e0) = length (enc es)"
  proof (cases "es = []")
    case True
    then have "find_end d 0 = Some 0"
      by (simp add: assms(2) area_def find_end.simps [of "0 # 0 # rest" 0] env_get_char_def)
    with True show ?thesis by simp
  next
    case False
    then have f: "find_end d 0 = Some (length (enc es) - 1)"
      using find_end_enc [of 0 d es rest] assms(1,2) by (simp add: area_nonempty)
    obtain e1 es1 where "es = e1 # es1" using False by (cases es) auto
    then have "1 < length (enc es)" by (simp add: enc_Cons)
    with f show ?thesis by simp
  qed
  then obtain e0 where e0: "find_end d 0 = Some e0" "(if e0 > 0 then Suc e0 else e0) = length (enc es)" by blast
  have app: "env_append env_max d name val =
      (if env_need es name val > env_max then Some None
       else map_option Some (put_string d (length (enc es)) (name @ [61] @ val @ [0, 0])))"
    unfolding env_append_def Let_def e0(1) option.case e0(2)
    by (rule if_cong) (auto simp: env_need_def)
  show "env_need es name val > env_max \<Longrightarrow> env_append env_max d name val = Some None" by (simp add: app)
  show "env_need es name val \<le> env_max \<Longrightarrow> length d < env_need es name val + 1 \<Longrightarrow> env_append env_max d name val = None"
    by (simp add: app put_string_wr env_need_def)
  assume n: "env_need es name val \<le> env_max" "env_need es name val + 1 \<le> length d"
  let ?w = "wr d (length (enc es)) (name @ [61] @ val @ [0, 0])"
  have l: "length ?w = length d" using n(2) by (intro length_wr) (simp add: env_need_def)
  have a: "env_append env_max d name val = Some (Some ?w)"
    using n by (simp add: app put_string_wr env_need_def)
  have "take (length (enc es)) d = enc es" by (simp add: assms(2) area_def)
  then have "?w = area (es @ [(name, val)]) (drop (length (enc es) + length (name @ [61] @ val @ [0, 0])) d)"
    by (simp add: wr_def area_def enc_Cons)
  with a l show "\<exists>rest'. env_append env_max d name val = Some (Some (area (es @ [(name, val)]) rest'))
                 \<and> length (area (es @ [(name, val)]) rest') = length d" by metis
qed

section \<open>The whole edit\<close>

definition without :: "int list \<Rightarrow> entry list \<Rightarrow> entry list" where
  "without name es = filter (\<lambda>e. fst e \<noteq> name) es"

lemma wf_without: "wf_entries es \<Longrightarrow> wf_entries (without name es)"
  by (auto simp: wf_entries_def without_def distinct_map_filter)

lemma map_of_without: "map_of (without name es) = (map_of es)(name := None)"
  by (induction es) (auto simp: without_def fun_eq_iff)

lemma map_of_set: "map_of (without name es @ [(name, v)]) = (map_of es)(name \<mapsto> v)"
  by (auto simp: map_of_append map_of_without fun_eq_iff map_add_def split: option.splits)

lemma wf_set: "wf_entries es \<Longrightarrow> is_name name \<Longrightarrow> is_value v \<Longrightarrow> wf_entries (without name es @ [(name, v)])"
  by (auto simp: wf_entries_def without_def distinct_map_filter)

lemma without_split:
  assumes "es = es1 @ (name, v) # es2" "wf_entries es"
  shows "without name es = es1 @ es2"
proof -
  have "name \<notin> fst ` set es1" "name \<notin> fst ` set es2" using assms by (auto simp: wf_entries_def)
  then have "filter (\<lambda>e. fst e \<noteq> name) es1 = es1" "filter (\<lambda>e. fst e \<noteq> name) es2 = es2"
    by (auto intro!: filter_True)
  then show ?thesis by (simp add: assms(1) without_def)
qed

lemma without_absent: "name \<notin> fst ` set es \<Longrightarrow> without name es = es"
  by (auto simp: without_def intro!: filter_True)

text \<open>The search and the deletion together.\<close>

lemma search_delete_area:
  assumes "wf_entries es" "is_name name"
  shows "\<exists>old rest'. env_search (area es rest) name 0 = Some old \<and> (old \<noteq> None \<longleftrightarrow> name \<in> fst ` set es) \<and>
    (case old of None \<Rightarrow> Some (area es rest) | Some (env, nxt, k) \<Rightarrow> env_delete (area es rest) env nxt) =
      Some (area (without name es) rest') \<and> length (area (without name es) rest') = length (area es rest)"
proof (cases "name \<in> fst ` set es")
  case False
  have "drop 0 (area es rest) = enc es @ 0 # (if es = [] then 0 # rest else rest)" by (simp add: area_def)
  from env_search_at [OF this assms] False show ?thesis by (auto simp: without_absent)
next
  case True
  define es1 where "es1 = takeWhile (\<lambda>e. fst e \<noteq> name) es"
  define v where "v = the (map_of es name)"
  obtain es2 where es: "es = es1 @ (name, v) # es2" using split_at_name [OF True] unfolding es1_def v_def by blast
  have "drop 0 (area es rest) = enc es @ 0 # rest" using True by (auto simp: area_def)
  from env_search_at [OF this assms] True have s: "env_search (area es rest) name 0 =
     Some (Some (length (enc es1), length (enc es1) + length name + 1 + length v, length (enc es1) + length name + 1))"
    by (simp add: Let_def es1_def v_def)
  obtain rest' where "env_delete (area es rest) (length (enc es1)) (length (enc es1) + length name + 1 + length v) =
      Some (area (es1 @ es2) rest')" "length (area (es1 @ es2) rest') = length (area es rest)"
    using env_delete_area [OF es assms(1)] by blast
  then show ?thesis using s True without_split [OF es assms(1)] by auto
qed

text \<open>A new value of a baud rate that is already defined must be a supported one.\<close>

definition baud_refused :: "entry list \<Rightarrow> int list \<Rightarrow> int list \<Rightarrow> bool" where
  "baud_refused es name v \<longleftrightarrow>
     name \<in> fst ` set es \<and> name = baud_name \<and> s32 (simple_strtoul10 v) \<notin> set baudrate_table"

lemma env_edit_set:
  assumes "wf_entries es" "is_name name" "v \<noteq> []" "\<not> baud_refused es name v"
  defines "es0 \<equiv> without name es"
  shows "env_need es0 name v > env_max \<Longrightarrow>
           \<exists>rest'. env_edit env_max (area es rest) name (Some v) = Some (area es0 rest', False)
                   \<and> length (area es0 rest') = length (area es rest)"
    and "env_need es0 name v \<le> env_max \<Longrightarrow> length (area es rest) < env_need es0 name v + 1 \<Longrightarrow>
           env_edit env_max (area es rest) name (Some v) = None"
    and "env_need es0 name v \<le> env_max \<Longrightarrow> env_need es0 name v + 1 \<le> length (area es rest) \<Longrightarrow>
           \<exists>rest'. env_edit env_max (area es rest) name (Some v) = Some (area (es0 @ [(name, v)]) rest', True)
                   \<and> length (area (es0 @ [(name, v)]) rest') = length (area es rest)"
proof -
  obtain old rest1 where s: "env_search (area es rest) name 0 = Some old" "old \<noteq> None \<longleftrightarrow> name \<in> fst ` set es"
    and d: "(case old of None \<Rightarrow> Some (area es rest) | Some (env, nxt, k) \<Rightarrow> env_delete (area es rest) env nxt) =
      Some (area es0 rest1)" and l: "length (area es0 rest1) = length (area es rest)"
    using search_delete_area [OF assms(1,2)] unfolding es0_def by blast
  have w: "wf_entries es0" unfolding es0_def by (rule wf_without [OF assms(1)])
  have ok: "\<not> (old \<noteq> None \<and> name = baud_name \<and> s32 (simple_strtoul10 v) \<notin> set baudrate_table)"
    using assms(4) s(2) by (auto simp: baud_refused_def)
  have edit: "env_edit env_max (area es rest) name (Some v) =
      (case env_append env_max (area es0 rest1) name v of None \<Rightarrow> None
       | Some None \<Rightarrow> Some (area es0 rest1, False) | Some (Some d2) \<Rightarrow> Some (d2, True))"
    unfolding env_edit_def s(1) option.case d using ok assms(3) by auto
  note app = env_append_area [OF w refl, where rest = rest1 and name = name and val = v and env_max = env_max]
  show "env_need es0 name v > env_max \<Longrightarrow>
           \<exists>rest'. env_edit env_max (area es rest) name (Some v) = Some (area es0 rest', False)
                   \<and> length (area es0 rest') = length (area es rest)"
    using app(1) l by (auto simp: edit)
  show "env_need es0 name v \<le> env_max \<Longrightarrow> length (area es rest) < env_need es0 name v + 1 \<Longrightarrow>
           env_edit env_max (area es rest) name (Some v) = None"
    using app(2) l by (simp add: edit)
  assume "env_need es0 name v \<le> env_max" "env_need es0 name v + 1 \<le> length (area es rest)"
  then obtain rest' where "env_append env_max (area es0 rest1) name v = Some (Some (area (es0 @ [(name, v)]) rest'))"
      "length (area (es0 @ [(name, v)]) rest') = length (area es0 rest1)"
    using app(3) l by auto
  then show "\<exists>rest'. env_edit env_max (area es rest) name (Some v) = Some (area (es0 @ [(name, v)]) rest', True)
                   \<and> length (area (es0 @ [(name, v)]) rest') = length (area es rest)"
    using l by (auto simp: edit)
qed

lemma env_edit_del:
  assumes "wf_entries es" "is_name name" "name \<noteq> baud_name"
  shows "\<exists>rest'. env_edit env_max (area es rest) name None = Some (area (without name es) rest', name \<in> fst ` set es)
                 \<and> length (area (without name es) rest') = length (area es rest)"
proof -
  obtain old rest1 where s: "env_search (area es rest) name 0 = Some old" "old \<noteq> None \<longleftrightarrow> name \<in> fst ` set es"
    and d: "(case old of None \<Rightarrow> Some (area es rest) | Some (env, nxt, k) \<Rightarrow> env_delete (area es rest) env nxt) =
      Some (area (without name es) rest1)" and l: "length (area (without name es) rest1) = length (area es rest)"
    using search_delete_area [OF assms(1,2)] by blast
  have "env_edit env_max (area es rest) name None = Some (area (without name es) rest1, old \<noteq> None)"
    unfolding env_edit_def s(1) option.case d using assms(3) by simp
  with s(2) l show ?thesis by auto
qed

end
