(* ===== verification/WmtEnvProps.thy ===== *)
theory WmtEnvProps
  imports WmtEnvStart WmtEnvEdit
begin

text \<open>The exported functions of \<^verbatim>\<open>wmt_env.c\<close> on the SPI flash: what a caller sees of them, across
  a power cycle and when the flash fails.\<close>

section \<open>Running and starting up\<close>

text \<open>The buffer in RAM holds the definitions \<open>es\<close>.\<close>

definition env_holds :: "bool \<Rightarrow> entry list \<Rightarrow> 'n env_state \<Rightarrow> bool" where
  "env_holds nand es st \<longleftrightarrow> mtd_init st \<and> wf_entries es \<and>
     (\<exists>b rest. env_ptr st = Some b \<and> env_data nand b = area es rest)"

text \<open>The value, or the failure, that a caller of \<^verbatim>\<open>wmt_getsyspara\<close> is to see.\<close>

definition spec_get :: "(int list \<rightharpoonup> int list) \<Rightarrow> int list \<Rightarrow> int \<Rightarrow> int \<times> int list \<times> int" where
  "spec_get m name varlen =
     (let v = (case m name of None \<Rightarrow> [] | Some v \<Rightarrow> v)
      in if int (length v) > varlen then (1, v @ [0], int (length v))
         else (if m name = None then 1 else 0, v @ [0], varlen))"

lemma getsyspara_holds:
  assumes "env_holds (nand_boot bd) es st" "is_name name"
  shows "wmt_getsyspara bd st name varlen =
     Some (unlock (lock bd st), spec_get (map_of es) name varlen)"
proof -
  obtain b rest where b: "env_ptr st = Some b" "env_data (nand_boot bd) b = area es rest" "mtd_init st" "wf_entries es"
    using assms(1) by (auto simp: env_holds_def)
  have "env_ptr (lock bd st) = Some b" "mtd_init (lock bd st)" using b by (simp_all add: lock_def)
  then have "env_ready bd (lock bd st) = Some (lock bd st, True)" by (simp add: env_ready_def)
  then show ?thesis
    using b(2,4) \<open>env_ptr (lock bd st) = Some b\<close> assms(2)
    by (auto simp: wmt_getsyspara_def env_lookup_area spec_get_def Let_def split: option.splits)
qed

section \<open>Reading\<close>

text \<open>C10. While the driver runs, \<^verbatim>\<open>wmt_getsyspara\<close> refines the lookup in the finite map of the
  definitions: for a defined name it returns success and stores the value with its zero byte, for an
  undefined one it fails and stores an empty string; a value longer than \<^verbatim>\<open>*varlen\<close> is reported as
  a failure with its length, after it was stored in full. The environment does not change. A call
  whose wait for the semaphore was interrupted goes on without it and still gives it back, which
  leaves the semaphore one too high.\<close>

theorem wmt_getsyspara_refines:
  assumes "env_holds (nand_boot bd) es st" "is_name name" "0 < lock_count st"
  shows "\<exists>st'. wmt_getsyspara bd st name varlen = Some (st', spec_get (map_of es) name varlen) \<and>
     env_holds (nand_boot bd) es st' \<and> lock_count st' = lock_count st + (if interrupted bd then 1 else 0)"
proof -
  have "env_holds (nand_boot bd) es (unlock (lock bd st))" using assms(1) by (simp add: env_holds_def lock_def unlock_def)
  then show ?thesis using getsyspara_holds [OF assms(1,2)] assms(3) by (auto simp: lock_def unlock_def)
qed

section \<open>Starting up\<close>

text \<open>C11. Whatever calls went before since power-on, a call on a board with the SPI flash that has not yet found
  the devices takes exactly what the two copies allow. Before the devices are registered, as in the
  first calls of the kernel, it takes a copy with the right checksum and the active flag, the first before the second,
  and fails if there is none, even if there is one with the right checksum that is marked as replaced. After that,
  it takes such a one when none is active, and fails if there is neither. On success RAM holds the bytes of that
  copy; with the devices the other one becomes the spare that the next update overwrites.\<close>

theorem env_boot_picks:
  assumes "boot_reach f st" "\<not> mtd_init st" "can_call bd st"
  shows "\<exists>st' ok. env_ready bd (lock bd st) = Some (st', ok) \<and>
     (case (if dev_env1 bd = None then early_pick (env_copy 0 f) (env_copy 1 f) else pick (env_copy 0 f) (env_copy 1 f)) of
        None \<Rightarrow> \<not> ok
      | Some i \<Rightarrow> ok \<and> env_ptr st' = Some (env_copy i f)
          \<and> (dev_env1 bd \<noteq> None \<longrightarrow> sf_attached st' \<and> env_valid st' = i \<and> env_invalid st' = 1 - i))"
proof -
  have b: "booting f st" by (rule reach_booting [OF assms(1,2)])
  from assms(3) show ?thesis unfolding can_call_def
  proof
    assume e: "early_board bd \<and> g_sf_force_size (flash st) = 0"
    then have "dev_env1 bd = None" by (simp add: early_board_def)
    with early_ready [of bd f st] e b show ?thesis by (force split: option.splits)
  next
    assume e: "sf_board bd \<and> sf_up (flash st)"
    then have "dev_env1 bd \<noteq> None" by (simp add: sf_board_def)
    with late_ready [of bd f st] e b show ?thesis by (force split: option.splits)
  qed
qed

section \<open>Changing\<close>

lemma put_char_bytes: "put_char d i c = Some d' \<Longrightarrow> is_bytes d \<Longrightarrow> 0 \<le> c \<Longrightarrow> c < 256 \<Longrightarrow> is_bytes d'"
  by (auto simp: put_char_def is_bytes_update split: if_splits)

lemma get_char_bytes: "env_get_char d i = Some c \<Longrightarrow> is_bytes d \<Longrightarrow> 0 \<le> c \<and> c < 256"
  by (auto simp: env_get_char_def is_bytes_def split: if_splits)

lemma del_move_bytes: "del_move d env nxt = Some (d', e') \<Longrightarrow> is_bytes d \<Longrightarrow> is_bytes d'"
proof (induction d env nxt arbitrary: d' e' rule: del_move.induct)
  case (1 d env nxt)
  from "1.prems"(1) obtain c d1 c1 where c: "env_get_char d nxt = Some c" "put_char d env c = Some d1"
      "env_get_char d1 (Suc nxt) = Some c1"
    by (subst (asm) del_move.simps) (auto split: option.splits)
  have b: "is_bytes d1" using put_char_bytes [OF c(2) "1.prems"(2)] get_char_bytes [OF c(1) "1.prems"(2)] by simp
  show ?case
  proof (cases "c = 0 \<and> c1 = 0")
    case True
    with "1.prems"(1) c b show ?thesis by (simp add: del_move.simps [of d env nxt])
  next
    case False
    with "1.prems"(1) c have "del_move d1 (Suc env) (Suc nxt) = Some (d', e')" by (auto simp: del_move.simps [of d env nxt])
    with "1.IH" [OF c False] b show ?thesis by blast
  qed
qed

lemma put_zero_bytes: "put_char d i 0 = Some d' \<Longrightarrow> is_bytes d \<Longrightarrow> is_bytes d'"
  using put_char_bytes [of d i 0 d'] by simp

lemma env_delete_bytes: "env_delete d env nxt = Some d' \<Longrightarrow> is_bytes d \<Longrightarrow> is_bytes d'"
  by (auto simp: env_delete_def split: option.splits if_splits dest: put_zero_bytes del_move_bytes)

lemma is_bytes_append [simp]: "is_bytes (xs @ ys) = (is_bytes xs \<and> is_bytes ys)"
  by (auto simp: is_bytes_def)

lemma is_bytes_Cons [simp]: "is_bytes (x # xs) = (0 \<le> x \<and> x < 256 \<and> is_bytes xs)"
  by (auto simp: is_bytes_def)

lemma is_bytes_Nil [simp]: "is_bytes []"
  by (simp add: is_bytes_def)

lemma put_string_bytes: "put_string d i cs = Some d' \<Longrightarrow> is_bytes d \<Longrightarrow> is_bytes cs \<Longrightarrow> is_bytes d'"
proof (induction d i cs rule: put_string.induct)
  case (2 d i c cs)
  then obtain d1 where "put_char d i c = Some d1" by (auto split: option.splits)
  with 2 show ?case using put_char_bytes [of d i c d1] by simp
qed simp

lemma env_append_bytes:
  assumes "env_append env_max d name v = Some (Some d')" "is_bytes d" "is_bytes name" "is_bytes v"
  shows "is_bytes d'"
proof -
  obtain e where "put_string d e (name @ [61] @ v @ [0, 0]) = Some d'"
    using assms(1) by (auto simp: env_append_def Let_def split: option.splits if_splits)
  then show ?thesis using assms by (auto intro: put_string_bytes)
qed

lemma env_edit_bytes:
  assumes "env_edit env_max d name (Some v) = Some (d', True)" "is_bytes d" "is_bytes name" "is_bytes v" "v \<noteq> []"
  shows "is_bytes d'"
proof -
  obtain old where o: "env_search d name 0 = Some old"
    using assms(1) by (cases "env_search d name 0") (auto simp: env_edit_def)
  obtain d1 where d1: "(case old of None \<Rightarrow> Some d | Some (env, nxt, k) \<Rightarrow> env_delete d env nxt) = Some d1"
      "env_append env_max d1 name v = Some (Some d')"
    using assms(1,5) unfolding env_edit_def o by (auto split: option.splits if_splits)
  have "is_bytes d1" using d1(1) assms(2) by (auto split: option.splits dest: env_delete_bytes)
  then show ?thesis using env_append_bytes [OF d1(2)] assms(3,4) by blast
qed

text \<open>The driver runs on copy \<open>i\<close> and holds the definitions \<open>es\<close>.\<close>

definition env_running :: "'n env_state \<Rightarrow> entry list \<Rightarrow> nat \<Rightarrow> bool" where
  "env_running st es i \<longleftrightarrow> sf_attached st \<and> env_holds False es st \<and> i < 2 \<and> env_valid st = i \<and> env_invalid st = 1 - i \<and>
     pick (env_copy 0 (flash st)) (env_copy 1 (flash st)) = Some i \<and>
     (\<forall>b. env_ptr st = Some b \<longrightarrow> is_bytes b \<and> (env_flags b = 0 \<or> env_flags b = 1))"

lemma set_data_parts:
  assumes "8 \<le> length b" "length d = length b - 5"
  shows "length (set_data False d b) = length b" "env_flags (set_data False d b) = env_flags b"
    "env_data False (set_data False d b) = d"
  using assms by (simp_all add: set_data_def data_offs_def env_flags_def env_data_def nth_append)

lemma is_bytes_set_data: "is_bytes b \<Longrightarrow> is_bytes d \<Longrightarrow> is_bytes (set_data nand d b)"
  by (simp add: set_data_def)

lemma not_live_flag0: "8 \<le> length c \<Longrightarrow> \<not> live (c[4 := 0])"
  by (simp add: live_def env_flags_def)

lemma pick_new:
  assumes "i < 2" "live (c (1 - i))" "\<not> live (c i)"
  shows "pick (c 0) (c 1) = Some (1 - i)"
  using assms by (auto simp: pick_def less_2_cases_iff)

text \<open>What a successful edit and write-back leave.\<close>

lemma setsyspara_sound:
  assumes "env_running st es i" "\<not> nand_boot bd" "sf_ready (flash st)"
    and "is_name name" "is_value v" "v \<noteq> []" "is_bytes name" "is_bytes v" "\<not> baud_refused es name v"
    and "env_need (without name es) name v + 6 \<le> MTDSF_ERASE_SIZE"
  shows "\<exists>st'. wmt_setsyspara bd st name (Some v) = Some (st', 0) \<and>
     env_running st' (without name es @ [(name, v)]) (1 - i) \<and> sf_ready (flash st') \<and>
     env_ptr st' = Some (env_copy (1 - i) (flash st')) \<and> early_pick (env_copy 0 (flash st')) (env_copy 1 (flash st')) = Some (1 - i)"
proof -
  let ?es = "without name es @ [(name, v)]" and ?n = MTDSF_ERASE_SIZE
  have n8: "8 \<le> ?n" by (simp add: MTDSF_ERASE_SIZE_def)
  obtain b rest where b: "env_ptr st = Some b" "env_data False b = area es rest" "mtd_init st" "wf_entries es"
      "length b = ?n" "is_bytes b" "env_flags b = 0 \<or> env_flags b = 1"
    using assms(1) by (auto simp: env_running_def env_holds_def sf_attached_def)
  have l5: "length (area es rest) = ?n - 5" using b(2,5) by (metis env_data_def data_offs_def length_drop)
  have "env_need (without name es) name v \<le> ?n" "env_need (without name es) name v + 1 \<le> length (area es rest)"
    using assms(10) l5 by simp_all
  then obtain rest' where e: "env_edit ?n (area es rest) name (Some v) = Some (area ?es rest', True)"
      "length (area ?es rest') = length (area es rest)"
    using env_edit_set(3) [OF b(4) assms(4,6,9)] by blast
  have db: "is_bytes (area ?es rest')"
    using env_edit_bytes [OF e(1) _ assms(7,8,6)] is_bytes_data [OF b(6), of False] b(2) by simp
  define b1 where "b1 = set_data False (area ?es rest') b"
  have b1: "length b1 = ?n" "env_flags b1 = env_flags b" "env_data False b1 = area ?es rest'" "is_bytes b1"
    using set_data_parts [of b "area ?es rest'"] is_bytes_set_data [OF b(6) db] b(5) e(2) l5 n8 by (simp_all add: b1_def)
  define st1 where "st1 = (lock bd st)\<lparr>env_ptr := Some b1\<rparr>"
  have st1: "sfenv.attached st1" "env_valid st1 = i" "env_invalid st1 = 1 - i" "env_ptr st1 = Some b1" "flash st1 = flash st"
      "mtd_init st1" "i < 2" "ENV_MAX_SIZE st = ?n"
    using assms(1) b1 b(3) by (auto simp: env_running_def sf_attached_def sfenv.attached_def st1_def lock_def)
  have c: "length (env_copy i (flash st)) = ?n"
    using assms(1) st1(7) length_env_copy by (auto simp: env_running_def sf_attached_def)
  obtain st2 where u: "env_update bd st1 = Some (st2, 0)" "sfenv.attached st2" "mtd_init st2 = mtd_init st1" "sf_ready (flash st2)"
      "env_ptr st2 = Some (sealed b1)" "env_valid st2 = 1 - i" "env_invalid st2 = i"
      "env_copy (1 - i) (flash st2) = sealed b1" "env_copy i (flash st2) = (env_copy i (flash st))[4 := 0]"
    using sfenv.update [OF st1(1) assms(2) st1(7,2,3,4) b1(4)] assms(3) st1(5) by auto
  have sl: "live (sealed b1)" using b1 b(7) n8 by (intro sealed_live) auto
  have pick: "pick (env_copy 0 (flash st2)) (env_copy 1 (flash st2)) = Some (1 - i)"
    using pick_new [OF st1(7), of "\<lambda>k. env_copy k (flash st2)"] u(8,9) sl not_live_flag0 c n8 by simp
  have early: "early_pick (env_copy 0 (flash st2)) (env_copy 1 (flash st2)) = Some (1 - i)"
    using u(8,9) sl not_live_flag0 [of "env_copy i (flash st)"] c n8 st1(7) by (auto simp: early_pick_def less_2_cases_iff)
  have "env_ready bd (lock bd st) = Some (lock bd st, True)" "env_ptr (lock bd st) = Some b" "ENV_MAX_SIZE (lock bd st) = ?n"
    using b st1(8) by (simp_all add: env_ready_def lock_def)
  then have "wmt_setsyspara bd st name (Some v) = Some (unlock st2, 0)"
    using assms(2) b(2) e(1) u(1) by (simp add: wmt_setsyspara_def b1_def st1_def)
  moreover have "env_running (unlock st2) ?es (1 - i)"
  proof -
    have "env_holds False ?es (unlock st2)"
      using u(3,5) st1(6) wf_set [OF b(4) assms(4,5)] b1(1,3) n8 by (auto simp: env_holds_def unlock_def)
    moreover have "is_bytes (sealed b1)" "env_flags (sealed b1) = 1" using is_bytes_sealed [OF b1(4)] sl by (auto simp: live_def)
    ultimately show ?thesis
      using u pick st1(7) by (auto simp: env_running_def sf_attached_iff sfenv.attached_def unlock_def less_2_cases_iff)
  qed
  ultimately show ?thesis using u early by (auto simp: unlock_def)
qed

text \<open>When both ways to start take the same copy, every call after power-on answers by it.\<close>

lemma reach_holds:
  assumes "boot_reach f st" "can_call bd st" "pick (env_copy 0 f) (env_copy 1 f) = Some i" "early_pick (env_copy 0 f) (env_copy 1 f) = Some i"
    and "env_data False (env_copy i f) = area es rest" "wf_entries es" "is_name nm"
  shows "\<exists>st'. wmt_getsyspara bd st nm varlen = Some (st', spec_get (map_of es) nm varlen)"
proof -
  have n: "\<not> nand_boot bd" using assms(2) sf_board_vals by (auto simp: can_call_def sf_board_def early_board_def)
  have "\<exists>st1. env_ready bd (lock bd st) = Some (st1, True) \<and> env_ptr st1 = Some (env_copy i f)"
  proof (cases "mtd_init st")
    case True
    then have "loaded f st" using boot_reach_inv [OF assms(1)] by (auto simp: booting_def)
    then show ?thesis using assms(3) by (auto simp: loaded_def env_ready_def lock_def)
  next
    case False
    note b = reach_booting [OF assms(1) False]
    from assms(2) show ?thesis unfolding can_call_def
      using early_ready [of bd f st] late_ready [of bd f st] b assms(3,4) by auto
  qed
  with n assms(5,6,7) show ?thesis
    by (auto simp: wmt_getsyspara_def env_lookup_area spec_get_def Let_def split: option.splits)
qed

text \<open>C2. Setting a variable survives a power cycle. When the flash works, that is, becomes ready each
  time while the driver polls it, and the new
  definition fits, \<^verbatim>\<open>wmt_setsyspara\<close> returns success, the driver goes on running on the other copy,
  and every call of \<^verbatim>\<open>wmt_getsyspara\<close> after the next power cycle, from the first ones of the kernel, which read the
  mapped flash, to those that find the devices, answers according to the old
  definitions with this one changed.\<close>

theorem wmt_setsyspara_survives_reboot:
  assumes "env_running st es i" "\<not> nand_boot bd" "sf_ready (flash st)"
    and "is_name name" "is_value v" "v \<noteq> []" "is_bytes name" "is_bytes v" "\<not> baud_refused es name v"
    and "env_need (without name es) name v + 6 \<le> MTDSF_ERASE_SIZE"
  shows "\<exists>st'. wmt_setsyspara bd st name (Some v) = Some (st', 0) \<and>
     env_running st' (without name es @ [(name, v)]) (1 - i) \<and>
     (\<forall>bd2 st2 nm varlen. boot_reach (flash st') st2 \<longrightarrow> can_call bd2 st2 \<longrightarrow> is_name nm \<longrightarrow>
        (\<exists>st3. wmt_getsyspara bd2 st2 nm varlen = Some (st3, spec_get ((map_of es)(name \<mapsto> v)) nm varlen)))"
proof -
  let ?es = "without name es @ [(name, v)]"
  obtain st' where s: "wmt_setsyspara bd st name (Some v) = Some (st', 0)" "env_running st' ?es (1 - i)"
      "env_ptr st' = Some (env_copy (1 - i) (flash st'))" "early_pick (env_copy 0 (flash st')) (env_copy 1 (flash st')) = Some (1 - i)"
    using setsyspara_sound [OF assms] by blast
  then obtain rest where r: "env_data False (env_copy (1 - i) (flash st')) = area ?es rest" "wf_entries ?es"
      "pick (env_copy 0 (flash st')) (env_copy 1 (flash st')) = Some (1 - i)"
    by (auto simp: env_running_def env_holds_def)
  have "\<exists>st3. wmt_getsyspara bd2 st2 nm varlen = Some (st3, spec_get ((map_of es)(name \<mapsto> v)) nm varlen)"
    if "boot_reach (flash st') st2" "can_call bd2 st2" "is_name nm" for bd2 st2 nm varlen
    using reach_holds [OF that(1,2) r(3) s(4) r(1,2) that(3)] by (simp only: map_of_set)
  with s show ?thesis by blast
qed

text \<open>The copies after an update: the one that was in use is as before or has its flag cleared, and the spare
  one holds the new data, or none, or what it held before an erase that failed.\<close>

lemma copies_after_update:
  assumes "sf_attached st" "\<not> nand_boot bd" "i < 2" "env_valid st = i" "env_invalid st = 1 - i"
    and "env_ptr st = Some b" "is_bytes b" "env_flags b = 0 \<or> env_flags b = 1"
    and "pick (env_copy 0 (flash st)) (env_copy 1 (flash st)) = Some i" "env_update bd st = Some (st', ret)"
    and "env_copy (1 - i) (flash st') = sealed b \<or> \<not> env_crc_ok MTDSF_ERASE_SIZE False (env_copy (1 - i) (flash st'))
       \<or> ret \<noteq> 0 \<and> env_copy (1 - i) (flash st') = env_copy (1 - i) (flash st)"
  defines "c \<equiv> \<lambda>k. env_copy k (flash st')"
  shows "ret \<noteq> 0 \<Longrightarrow> c i = env_copy i (flash st)"
    "\<exists>j < 2. pick (c 0) (c 1) = Some j \<and> env_data False (c j) \<in> {env_data False (env_copy i (flash st)), env_data False b}"
    "\<And>j. early_pick (c 0) (c 1) = Some j \<Longrightarrow> j < 2 \<and> env_data False (c j) \<in> {env_data False (env_copy i (flash st)), env_data False b}"
proof -
  have n8: "8 \<le> MTDSF_ERASE_SIZE" by (simp add: MTDSF_ERASE_SIZE_def)
  have lb: "length b = MTDSF_ERASE_SIZE" and up: "sf_up (flash st)" using assms(1,6) by (auto simp: sf_attached_def)
  have lc: "8 \<le> length (env_copy i (flash st))" using length_env_copy [OF up assms(3)] n8 by simp
  have u: "sfenv.attached st'" "c i = env_copy i (flash st) \<or> ret = 0 \<and> c i = (env_copy i (flash st))[4 := 0]"
    using sfenv.update [OF _ assms(2-7)] assms(1,10) by (auto simp: sf_attached_iff c_def)
  then show keep: "ret \<noteq> 0 \<Longrightarrow> c i = env_copy i (flash st)" by blast
  have "live (env_copy i (flash st)) \<or> stale (env_copy i (flash st))"
    using assms(9) by (auto simp: pick_def split: if_splits)
  from flag_stays_valid [OF this _ lc] u(2)
  have old: "live (c i) \<or> stale (c i)" "env_data False (c i) = env_data False (env_copy i (flash st))" by blast+
  have sl: "live (sealed b)" using assms(7,8) lb n8 by (intro sealed_live) auto
  have lj: "length (c (1 - i)) = MTDSF_ERASE_SIZE"
    unfolding c_def using u(1) assms(3) by (intro length_env_copy) (auto simp: sfenv.attached_def)
  have ij: "j = i \<or> j = 1 - i" if "j < 2" for j using that assms(3) by (auto simp: less_2_cases_iff)
  have both: "(\<exists>j < 2. pick (c 0) (c 1) = Some j \<and> env_data False (c j) \<in> {env_data False (env_copy i (flash st)), env_data False b})
    \<and> (\<forall>j. early_pick (c 0) (c 1) = Some j \<longrightarrow> j < 2 \<and> env_data False (c j) \<in> {env_data False (env_copy i (flash st)), env_data False b})"
  proof (cases "ret \<noteq> 0 \<and> c (1 - i) = env_copy (1 - i) (flash st)")
    case True
    then have "c 0 = env_copy 0 (flash st)" "c 1 = env_copy 1 (flash st)" using keep assms(3) by (auto simp: less_2_cases_iff)
    moreover have "j = i" if "early_pick (env_copy 0 (flash st)) (env_copy 1 (flash st)) = Some j" for j
      using that assms(9) by (auto simp: early_pick_def pick_def split: if_splits)
    ultimately show ?thesis using assms(3,9) old(2) by auto
  next
    case False
    then have new: "live (c (1 - i)) \<and> c (1 - i) = sealed b \<or> \<not> live (c (1 - i)) \<and> \<not> stale (c (1 - i))"
      using assms(11) sl lj by (auto simp: live_def stale_def c_def)
    have d: "env_data False (c j) \<in> {env_data False (env_copy i (flash st)), env_data False b}" if "j = i \<or> j = 1 - i \<and> live (c (1 - i))" for j
      using that old(2) new lb n8 by auto
    obtain j where j: "pick (c 0) (c 1) = Some j" "j = i \<or> j = 1 - i \<and> live (c (1 - i))"
      using pick_survives [where c = c, OF assms(3) old(1)] new by blast
    have "j < 2" using pick_less [OF j(1)] .
    moreover have "k < 2 \<and> (k = i \<or> k = 1 - i \<and> live (c (1 - i)))" if "early_pick (c 0) (c 1) = Some k" for k
    proof -
      have "k < 2" "live (c k)" using that by (auto simp: early_pick_def split: if_splits)
      then show ?thesis using ij [of k] by auto
    qed
    ultimately show ?thesis using j d by blast
  qed
  then show "\<exists>j < 2. pick (c 0) (c 1) = Some j \<and> env_data False (c j) \<in> {env_data False (env_copy i (flash st)), env_data False b}" by blast
  fix j assume "early_pick (c 0) (c 1) = Some j"
  with both show "j < 2 \<and> env_data False (c j) \<in> {env_data False (env_copy i (flash st)), env_data False b}" by blast
qed


section \<open>Faults\<close>

text \<open>C37. The overflow check of \<^verbatim>\<open>wmt_setsyspara\<close> is made with the size of a whole copy, but the
  data area is five bytes shorter and the strings end with two zero bytes, of which the check
  counts one. A definition that passes the check with at most five bytes to spare is stored
  beyond the end of the buffer.\<close>

theorem wmt_setsyspara_overruns:
  assumes "env_running st es i" "\<not> nand_boot bd" "is_name name" "v \<noteq> []" "\<not> baud_refused es name v"
    and "env_need (without name es) name v \<le> MTDSF_ERASE_SIZE"
    and "MTDSF_ERASE_SIZE < env_need (without name es) name v + 6"
  shows "wmt_setsyspara bd st name (Some v) = None"
proof -
  obtain b rest where b: "env_ptr st = Some b" "env_data False b = area es rest" "mtd_init st" "wf_entries es"
      "length b = MTDSF_ERASE_SIZE" "ENV_MAX_SIZE st = MTDSF_ERASE_SIZE"
    using assms(1) by (auto simp: env_running_def env_holds_def sf_attached_def)
  have l5: "length (area es rest) = MTDSF_ERASE_SIZE - 5" using b(2,5) by (metis env_data_def data_offs_def length_drop)
  have "length (area es rest) < env_need (without name es) name v + 1" using assms(7) l5 by simp
  with env_edit_set(2) [OF b(4) assms(3,4,5) assms(6)]
  have "env_edit MTDSF_ERASE_SIZE (area es rest) name (Some v) = None" by blast
  then show ?thesis using b assms(2) by (simp add: wmt_setsyspara_def env_ready_def lock_def)
qed

text \<open>A failed start is forgotten. When neither copy has a matching checksum the first call
  that finds the devices fails, as it should; but it leaves \<^verbatim>\<open>mtd_init\<close> set and the second copy in
  RAM, so that the next call skips the check and answers from data whose checksum is wrong.\<close>

theorem failed_start_forgotten:
  assumes "sf_board bd" "booting f st" "sf_up (flash st)"
    and "\<not> env_crc_ok MTDSF_ERASE_SIZE False (env_copy 0 f)" "\<not> env_crc_ok MTDSF_ERASE_SIZE False (env_copy 1 f)"
    and "env_data False (env_copy 1 f) = area es rest" "wf_entries es" "is_name nm"
  shows "\<exists>st1 st2. wmt_getsyspara bd st nm varlen = Some (st1, 1, [], varlen) \<and>
     wmt_getsyspara bd st1 nm varlen = Some (st2, spec_get (map_of es) nm varlen)"
proof -
  have l: "length (env_copy k f) = MTDSF_ERASE_SIZE" if "k < 2" for k
    using assms(2) that by (intro length_copy_mem) (simp_all add: booting_def)
  have "pick (env_copy 0 f) (env_copy 1 f) = None"
    using assms(4,5) l by (simp add: pick_def live_def stale_def)
  then obtain st1 where s: "env_ready bd (lock bd st) = Some (st1, False)" "mtd_init st1" "env_ptr st1 = Some (env_copy 1 f)"
    using late_ready [OF assms(1-3)] by auto
  have "wmt_getsyspara bd st nm varlen = Some (unlock st1, 1, [], varlen)" using s(1) by (simp add: wmt_getsyspara_def)
  moreover have "\<not> nand_boot bd" using assms(1) sf_board_vals by (auto simp: sf_board_def)
  then have "env_holds (nand_boot bd) es (unlock st1)" using s assms(6,7) by (auto simp: env_holds_def unlock_def)
  from getsyspara_holds [OF this assms(8)]
  have "wmt_getsyspara bd (unlock st1) nm varlen = Some (unlock (lock bd (unlock st1)), spec_get (map_of es) nm varlen)" .
  ultimately show ?thesis by blast
qed

end
