(* ===== verification/WmtEnvWit.thy ===== *)
theory WmtEnvWit
  imports WmtEnvProps
begin

text \<open>A board with a SPI flash that is busy at every other status read, two copies in it, and the properties of
  \<^verbatim>\<open>wmt_env.c\<close> on it.\<close>

section \<open>The board\<close>

definition demo_flash :: "int list \<Rightarrow> sf" where
  "demo_flash mem =
     \<lparr>sfreg = \<lparr>CHIP_SEL_0_CFG = 0xFF000900, CHIP_SEL_1_CFG = 0, SPI_INTF_CFG = 0x30000, SPI_RD_WR_CTR = 1,
               SPI_WR_EN_CTR = 0, SPI_ER_CTR = 0, SPI_ER_START_ADDR = 0, SPI_PROG_CMD_CTR = 0,
               SPI_PROG_CMD_WBF0 = 0, SPI_PROG_CMD_WBF1 = 0\<rparr>,
      PMCEU = 0, MTDSF_PHY_ADDR = 0xFF000000, g_sf_force_size = 0,
      g_sf_info0 = \<lparr>fl_id = SF_IDALL 0xEF 0x4018, fl_phy = 0xFF000000, fl_val = 0xFF000900, fl_total = 0x1000000\<rparr>,
      g_sf_info1 = \<lparr>fl_id = FLASH_UNKNOW, fl_phy = 0, fl_val = 0, fl_total = 0\<rparr>,
      reg_sf = True, sf_mem = mem, sf_polls = 0, hw_sr = (\<lambda>_ k. (if even k then 1 else 0, 0)), hw_torn = id\<rparr>"

definition demo_mem :: "int list \<Rightarrow> int list \<Rightarrow> int list" where
  "demo_mem c0 c1 = fill_area (fill_area (replicate CHIP 0xFF) (env_offs 0) c0) (env_offs 1) c1"

definition demo_board :: "unit board" where
  "demo_board = \<lparr>strap = 0, chip_id0 = SF_IDALL 0xEF 0x4018, chip_id1 = FLASH_UNKNOW,
     dev_env1 = Some (env_dev 0), dev_env2 = Some (env_dev 1), kmalloc_buf = Some (replicate MTDSF_ERASE_SIZE 0),
     ioremap_ok = True, stack_offset = (0, 0), no_chip = [], interrupted = False\<rparr>"

definition demo_early :: "unit board" where
  "demo_early = demo_board\<lparr>dev_env1 := None, dev_env2 := None\<rparr>"

definition demo_off :: "sf \<Rightarrow> unit env_state" where
  "demo_off f = \<lparr>env_ptr = None, ENV_MAX_SIZE = 0, env_valid = 0xFF, env_invalid = 0xFF, env_valid_offs = 0, env_invalid_offs = 0,
     nand_block = 0, mtd_init = False, mtd_table0 = None, mtd_table1 = None, readed = False, lock_count = 1, flash = f\<rparr>"

definition demo_on :: "int list \<Rightarrow> sf \<Rightarrow> unit env_state" where
  "demo_on b f = (demo_off f)\<lparr>env_ptr := Some b, ENV_MAX_SIZE := MTDSF_ERASE_SIZE, env_valid := 0, env_invalid := 1,
     mtd_init := True, mtd_table0 := Some (env_dev 0), mtd_table1 := Some (env_dev 1)\<rparr>"

definition demo_copy :: "entry list \<Rightarrow> nat \<Rightarrow> int list" where
  "demo_copy es n = [0, 0, 0, 0, 1] @ area es (replicate (MTDSF_ERASE_SIZE - n) 0)"

lemma N8: "16 \<le> MTDSF_ERASE_SIZE"
  by (simp add: MTDSF_ERASE_SIZE_def)

lemma demo_copies:
  assumes "length c0 = MTDSF_ERASE_SIZE" "length c1 = MTDSF_ERASE_SIZE"
  shows "env_copy 0 (demo_flash (demo_mem c0 c1)) = c0" "env_copy 1 (demo_flash (demo_mem c0 c1)) = c1"
proof -
  have b: "env_offs 0 + MTDSF_ERASE_SIZE \<le> env_offs 1" "env_offs 0 + MTDSF_ERASE_SIZE \<le> CHIP" "env_offs 1 + MTDSF_ERASE_SIZE \<le> CHIP"
    by (simp_all add: env_offs_def CHIP_def MTDSF_ERASE_SIZE_def)
  show "env_copy 1 (demo_flash (demo_mem c0 c1)) = c1"
    unfolding env_copy_def sf_bytes_def demo_flash_def demo_mem_def sf.simps
    using assms b by (intro take_fill_area_eq) simp_all
  have "env_copy 0 (demo_flash (demo_mem c0 c1)) =
      take MTDSF_ERASE_SIZE (drop (env_offs 0) (fill_area (replicate CHIP 0xFF) (env_offs 0) c0))"
    unfolding env_copy_def sf_bytes_def demo_flash_def demo_mem_def sf.simps
    using b by (intro take_fill_area) simp
  also have "\<dots> = c0" using assms b by (intro take_fill_area_eq) simp_all
  finally show "env_copy 0 (demo_flash (demo_mem c0 c1)) = c0" .
qed

lemma demo_up: "sf_up (demo_flash (demo_mem c0 c1))" "sf_ready (demo_flash m)"
  by (simp add: sf_up_def demo_flash_def demo_mem_def) (rule alternating_ready, simp add: demo_flash_def)

lemma demo_board_ok: "sf_board demo_board" "\<not> nand_boot demo_board" "early_board demo_early" "dev_env1 demo_board \<noteq> None" "dev_env1 demo_early = None"
  by (simp_all add: sf_board_def early_board_def demo_early_def demo_board_def nand_boot_def SF_IDALL_def FLASH_UNKNOW_def push_bit_eq_mult)

lemma demo_reach:
  assumes "sf_up f" "g_sf_force_size f = 0"
  shows "boot_reach f (demo_off f)" "\<not> mtd_init (demo_off f)" "can_call demo_board (demo_off f)" "can_call demo_early (demo_off f)" "booting f (demo_off f)"
proof -
  have "power_on f (demo_off f)" using assms by (simp add: power_on_def demo_off_def sf_up_def)
  then show r: "boot_reach f (demo_off f)" by (rule boot_reach.Power)
  show "\<not> mtd_init (demo_off f)" by (simp add: demo_off_def)
  with r show "booting f (demo_off f)" by (rule reach_booting)
  show "can_call demo_board (demo_off f)" "can_call demo_early (demo_off f)"
    using assms demo_board_ok by (simp_all add: can_call_def demo_off_def)
qed

lemma demo_copy_parts:
  assumes "length (enc es) + (if es = [] then 7 else 6) = n" "n \<le> MTDSF_ERASE_SIZE" "is_bytes (enc es)"
  shows "length (demo_copy es n) = MTDSF_ERASE_SIZE" "env_flags (demo_copy es n) = 1" "is_bytes (demo_copy es n)"
    "env_data False (demo_copy es n) = area es (replicate (MTDSF_ERASE_SIZE - n) 0)"
  using assms by (auto simp: demo_copy_def area_def env_flags_def env_data_def data_offs_def is_bytes_def)

lemma demo_running:
  "env_running (demo_on (demo_copy [] 7) (demo_flash (demo_mem (sealed (demo_copy [] 7)) (replicate MTDSF_ERASE_SIZE 0xFF)))) [] 0"
proof -
  let ?b = "demo_copy [] 7"
  have b: "length ?b = MTDSF_ERASE_SIZE" "env_flags ?b = 1" "is_bytes ?b" "env_data False ?b = area [] (replicate (MTDSF_ERASE_SIZE - 7) 0)"
    using demo_copy_parts [of "[]" 7] N8 by simp_all
  have s: "live (sealed ?b)" "length (sealed ?b) = MTDSF_ERASE_SIZE" using b N8 by (auto intro!: sealed_live)
  have c: "env_copy 0 (demo_flash (demo_mem (sealed ?b) (replicate MTDSF_ERASE_SIZE 0xFF))) = sealed ?b"
    by (rule demo_copies) (simp_all add: s)
  show ?thesis
    using b s demo_up by (auto simp: env_running_def sf_attached_def env_holds_def demo_on_def demo_off_def c pick_def wf_entries_def)
qed

section \<open>Witnesses\<close>

theorem wmt_getsyspara_refines_witness:
  "env_holds (nand_boot demo_board) [([97], [98])] (demo_on (demo_copy [([97], [98])] 10) (demo_flash [])) \<and> is_name [97] \<and>
   (\<exists>st'. wmt_getsyspara demo_board (demo_on (demo_copy [([97], [98])] 10) (demo_flash [])) [97] 20 = Some (st', 0, [98, 0], 20))"
proof -
  have n: "is_name [97]" by (simp add: is_name_def)
  have h: "env_holds (nand_boot demo_board) [([97], [98])] (demo_on (demo_copy [([97], [98])] 10) (demo_flash []))"
    using demo_copy_parts(4) [of "[([97], [98])]" 10] N8 demo_board_ok
    by (auto simp: env_holds_def demo_on_def enc_Cons wf_entries_def is_name_def is_value_def)
  have "0 < lock_count (demo_on (demo_copy [([97], [98])] 10) (demo_flash []))" by (simp add: demo_on_def demo_off_def)
  from wmt_getsyspara_refines [OF h n this, of 20] h n show ?thesis by (auto simp: spec_get_def)
qed

text \<open>One copy, with the right checksum but marked as replaced: the early start fails, the later one takes it.\<close>

lemma demo_stale:
  defines "c \<equiv> (sealed (demo_copy [] 7))[4 := 0]"
  shows "length c = MTDSF_ERASE_SIZE" "stale c" "\<not> live c"
proof -
  let ?b = "demo_copy [] 7"
  have b: "length ?b = MTDSF_ERASE_SIZE" "env_flags ?b = 1" "is_bytes ?b" using demo_copy_parts [of "[]" 7] N8 by simp_all
  have s: "live (sealed ?b)" "length (sealed ?b) = MTDSF_ERASE_SIZE" using b N8 by (auto intro!: sealed_live)
  then show "length c = MTDSF_ERASE_SIZE" by (simp add: c_def)
  show "\<not> live c" unfolding c_def using s(2) N8 by (intro not_live_flag0) simp
  with flag_stays_valid [of "sealed ?b" c] s N8 show "stale c" by (simp add: c_def)
qed

theorem env_boot_picks_witness:
  "\<exists>c f st1 st2. stale c \<and> env_ready demo_early (lock demo_early (demo_off f)) = Some (st1, False) \<and>
     env_ready demo_board (lock demo_board (demo_off f)) = Some (st2, True) \<and> env_ptr st2 = Some c"
proof -
  let ?x = "replicate MTDSF_ERASE_SIZE 0xFF :: int list" and ?c = "(sealed (demo_copy [] 7))[4 := 0]"
  let ?f = "demo_flash (demo_mem ?c ?x)"
  have x: "\<not> live ?x" "\<not> stale ?x" using N8 by (simp_all add: env_flags_def live_def stale_def)
  have c: "env_copy 0 ?f = ?c" "env_copy 1 ?f = ?x" using demo_copies [OF demo_stale(1), of ?x] by simp_all
  have p: "early_pick ?c ?x = None" "pick ?c ?x = Some 0" using x demo_stale by (simp_all add: early_pick_def pick_def)
  have "g_sf_force_size ?f = 0" by (simp add: demo_flash_def)
  note r = demo_reach [OF demo_up(1) this]
  obtain st1 where e: "env_ready demo_early (lock demo_early (demo_off ?f)) = Some (st1, False)"
    using env_boot_picks [OF r(1,2,4)] unfolding c p demo_board_ok(5) by auto
  obtain st2 where "env_ready demo_board (lock demo_board (demo_off ?f)) = Some (st2, True)" "env_ptr st2 = Some ?c"
    using env_boot_picks [OF r(1,2,3)] demo_board_ok(4) p c by (auto simp: c(1))
  with e demo_stale(2) show ?thesis by blast
qed

theorem wmt_setsyspara_survives_reboot_witness:
  "env_running (demo_on (demo_copy [] 7) (demo_flash (demo_mem (sealed (demo_copy [] 7)) (replicate MTDSF_ERASE_SIZE 0xFF)))) [] 0 \<and>
   (\<exists>st' st3 st4. wmt_setsyspara demo_board
       (demo_on (demo_copy [] 7) (demo_flash (demo_mem (sealed (demo_copy [] 7)) (replicate MTDSF_ERASE_SIZE 0xFF)))) [97] (Some [98]) = Some (st', 0) \<and>
     wmt_getsyspara demo_board (demo_off ((flash st')\<lparr>g_sf_force_size := 0\<rparr>)) [97] 20 = Some (st3, 0, [98, 0], 20) \<and>
     wmt_getsyspara demo_early (demo_off ((flash st')\<lparr>g_sf_force_size := 0\<rparr>)) [97] 20 = Some (st4, 0, [98, 0], 20))"
proof -
  let ?st = "demo_on (demo_copy [] 7) (demo_flash (demo_mem (sealed (demo_copy [] 7)) (replicate MTDSF_ERASE_SIZE 0xFF)))"
  have h: "sf_ready (flash ?st)" "is_name [97]" "is_value [98]" "[98] \<noteq> ([] :: int list)" "is_bytes [97]" "is_bytes [98]"
      "\<not> baud_refused [] [97] [98]" "env_need (without [97] []) [97] [98] + 6 \<le> MTDSF_ERASE_SIZE"
    using demo_up N8 by (simp_all add: demo_on_def demo_off_def is_name_def is_value_def baud_refused_def env_need_def without_def)
  obtain st' where s: "wmt_setsyspara demo_board ?st [97] (Some [98]) = Some (st', 0)"
      "env_running st' (without [97] [] @ [([97], [98])]) (1 - 0)"
    and g: "\<And>bd2 st2 nm varlen. boot_reach (flash st') st2 \<Longrightarrow> can_call bd2 st2 \<Longrightarrow> is_name nm \<Longrightarrow>
        (\<exists>st3. wmt_getsyspara bd2 st2 nm varlen = Some (st3, spec_get ((map_of [])([97] \<mapsto> [98])) nm varlen))"
    using wmt_setsyspara_survives_reboot [OF demo_running demo_board_ok(2) h] by blast
  let ?f = "(flash st')\<lparr>g_sf_force_size := 0\<rparr>"
  have up: "sf_up (flash st')" using s(2) by (auto simp: env_running_def sf_attached_def)
  then have "sf_up ?f" by (simp add: sf_up_def)
  note r = demo_reach [OF this]
  have b: "boot_reach (flash st') (demo_off ?f)"
    using up by (intro boot_reach.Power) (simp add: power_on_def demo_off_def sf_up_def)
  from g [OF b r(3) h(2), of 20] g [OF b r(4) h(2), of 20] s(1) demo_running show ?thesis
    by (auto simp: spec_get_def)
qed


theorem wmt_setsyspara_overruns_witness:
  "env_running (demo_on (demo_copy [] 7) (demo_flash (demo_mem (sealed (demo_copy [] 7)) (replicate MTDSF_ERASE_SIZE 0xFF)))) [] 0 \<and>
   wmt_setsyspara demo_board
       (demo_on (demo_copy [] 7) (demo_flash (demo_mem (sealed (demo_copy [] 7)) (replicate MTDSF_ERASE_SIZE 0xFF))))
       [97] (Some (replicate (MTDSF_ERASE_SIZE - 6) 98)) = None"
proof -
  let ?v = "replicate (MTDSF_ERASE_SIZE - 6) (98 :: int)"
  have h: "is_name [97]" "?v \<noteq> []" "\<not> baud_refused [] [97] ?v" "env_need (without [97] []) [97] ?v \<le> MTDSF_ERASE_SIZE"
      "MTDSF_ERASE_SIZE < env_need (without [97] []) [97] ?v + 6"
    using N8 by (auto simp: is_name_def baud_refused_def env_need_def without_def)
  from wmt_setsyspara_overruns [OF demo_running demo_board_ok(2) h] demo_running show ?thesis by simp
qed

theorem failed_start_forgotten_witness:
  "\<exists>b st1 st2. \<not> env_crc_ok MTDSF_ERASE_SIZE False b \<and>
     wmt_getsyspara demo_board (demo_off (demo_flash (demo_mem b b))) [97] 20 = Some (st1, 1, [], 20) \<and>
     wmt_getsyspara demo_board st1 [97] 20 = Some (st2, 0, [98, 0], 20)"
proof -
  let ?es = "[([97], [98])] :: entry list"
  define d where "d = demo_copy ?es 10"
  have d: "length d = MTDSF_ERASE_SIZE" "is_bytes d" "env_data False d = area ?es (replicate (MTDSF_ERASE_SIZE - 10) 0)"
    using demo_copy_parts [of ?es 10] N8 by (simp_all add: d_def enc_Cons)
  define x where "x = env_crc32 MTDSF_ERASE_SIZE False (env_data False d)"
  define b where "b = set_crc (x XOR 1) d"
  have x: "in32 x" unfolding x_def by (intro in32_env_crc32 is_bytes_data d(2))
  then have "in32 (x XOR 1)" by (rule in32_xor) (simp add: in32_iff)
  then have "env_crc b = x XOR 1" unfolding b_def by (rule env_crc_set_crc)
  moreover have "x XOR 1 \<noteq> x"
  proof
    assume "x XOR 1 = x"
    then have "x XOR (x XOR 1) = 0" by simp
    then show False by (simp add: xor.assoc [symmetric])
  qed
  moreover have db: "env_data False b = env_data False d" "length b = MTDSF_ERASE_SIZE" using d(1) N8 by (simp_all add: b_def)
  ultimately have bad: "\<not> env_crc_ok MTDSF_ERASE_SIZE False b" by (simp add: env_crc_ok_def x_def)
  have c: "env_copy 0 (demo_flash (demo_mem b b)) = b" "env_copy 1 (demo_flash (demo_mem b b)) = b"
    using demo_copies [OF db(2) db(2)] by simp_all
  have w: "wf_entries ?es" "is_name [97]" by (simp_all add: wf_entries_def is_name_def is_value_def)
  have a: "env_data False b = area ?es (replicate (MTDSF_ERASE_SIZE - 10) 0)" by (simp only: db(1) d(3))
  have "g_sf_force_size (demo_flash (demo_mem b b)) = 0" "sf_up (flash (demo_off (demo_flash (demo_mem b b))))"
    using demo_up(1) by (simp_all add: demo_flash_def demo_off_def)
  from failed_start_forgotten [OF demo_board_ok(1) demo_reach(5) [OF demo_up(1) this(1)] this(2), unfolded c, OF bad bad a w, of 20] bad
  show ?thesis by (auto simp: spec_get_def)
qed

end
