(* ===== verification/MtdThms.thy ===== *)
theory MtdThms
  imports WmtEnvSf
begin

text \<open>Properties of the SPI flash driver.\<close>

section \<open>Writing and erasing\<close>

text \<open>C21. A write inside of the device with a chip that works, that is, becomes ready without an error each
  time while the driver polls it, stores the buffer, byte by byte
  what was there AND what is written, and nothing else, and reports the number of bytes. With a
  chip that stays busy or fails, it stores a beginning of the buffer; the return value is 0 all the same.\<close>

theorem sf_write_stores_prefix:
  assumes "reg_sf s" "len \<le> length buf" "to + len \<le> mtdsize"
  shows "\<exists>s' retlen k. sf_write mtdsize s to len buf = Some (s', 0, retlen) \<and> k \<le> len \<and>
     sf_mem s' = program (sf_mem s) to (take k buf) \<and> (sf_ready s \<longrightarrow> k = len \<and> retlen = int len)"
  using spi_flash_sector_write_spec [OF assms(1,2), of to] assms(3) by (force simp: sf_write_def)

definition busy_flash :: sf where
  "busy_flash = \<lparr>sfreg = \<lparr>CHIP_SEL_0_CFG = 0xFF800800, CHIP_SEL_1_CFG = 0, SPI_INTF_CFG = 0x30000, SPI_RD_WR_CTR = 1,
      SPI_WR_EN_CTR = 0, SPI_ER_CTR = 0, SPI_ER_START_ADDR = 0, SPI_PROG_CMD_CTR = 0, SPI_PROG_CMD_WBF0 = 0, SPI_PROG_CMD_WBF1 = 0\<rparr>,
    PMCEU = 0, MTDSF_PHY_ADDR = 0xFF000000, g_sf_force_size = 0,
    g_sf_info0 = \<lparr>fl_id = SF_IDALL 0x1C 0x2017, fl_phy = 0, fl_val = 0xFF800800, fl_total = 0x800000\<rparr>,
    g_sf_info1 = \<lparr>fl_id = FLASH_UNKNOW, fl_phy = 0, fl_val = 0, fl_total = 0\<rparr>,
    reg_sf = True, sf_mem = replicate 12 0xFF, sf_polls = 0,
    hw_sr = (\<lambda>_ k. if k = 0 then (0, 0) else (1, 0x20)), hw_torn = id\<rparr>"

theorem sf_write_stores_prefix_witness:
  "reg_sf busy_flash \<and> (\<exists>s' retlen k. sf_write 12 busy_flash 1 2 [5, 6] = Some (s', 0, retlen) \<and> k \<le> 2 \<and>
     sf_mem s' = program (replicate 12 0xFF) 1 (take k [5, 6]))"
proof -
  have "reg_sf busy_flash" "sf_mem busy_flash = replicate 12 0xFF" by (simp_all only: busy_flash_def sf.simps)
  then show ?thesis using sf_write_stores_prefix [of busy_flash 2 "[5, 6]" 1 12] by auto
qed

text \<open>The driver hides a failed write: when the chip refuses the first eight bytes of a
  longer write with a write protection error, \<^verbatim>\<open>sf_write\<close> still returns 0, with the error code
  where the caller expects the number of bytes, and the rest of the buffer is never sent.\<close>

theorem sf_write_hides_error:
  assumes "reg_sf s" "8 \<le> len" "len \<le> length buf" "to + len \<le> mtdsize"
    and "fst (hw_sr s (chip_of s to) (sf_polls s)) AND 1 = 0"
    and "hw_sr s 0 (Suc (sf_polls s)) = (1, 0x20)"
  shows "\<exists>s'. sf_write mtdsize s to len buf = Some (s', 0, ERR_PROG_ERROR) \<and>
     sf_mem s' = program (sf_mem s) to (take 8 buf)"
proof -
  define s0 where "s0 = (clock_on s)\<lparr>sf_polls := Suc (sf_polls s)\<rparr>"
  have hw: "hw_sr (clock_on s) = hw_sr s" "sf_polls (clock_on s) = sf_polls s" by (simp_all add: clock_on_def)
  have p0: "spi_read_status (chip_of s to) (clock_on s) = Some (s0, ERR_OK)"
    using assms(1,5) hw by (simp add: spi_read_status_def sf_poll.simps [of "chip_of s to" "clock_on s"] split_beta Let_def s0_def)
  define s1 where "s1 = (set_wr_en 3 s0)\<lparr>sf_mem := program (sf_mem s) to (take 8 buf)\<rparr>"
  have s1: "hw_sr s1 0 (sf_polls s1) = (1, 0x20)" "sf_mem (set_wr_en 3 s0) = sf_mem s"
    using assms(6) hw by (simp_all add: s1_def s0_def set_wr_en_def)
  have e: "flash_error 0x20 = ERR_PROG_ERROR" "ERR_PROG_ERROR \<noteq> ERR_OK"
    by (simp_all add: flash_error_def ERR_PROG_ERROR_def ERR_OK_def)
  define s2 where "s2 = s1\<lparr>sf_polls := Suc (sf_polls s1)\<rparr>"
  have p1: "sf_poll 0 s1 POLL_MAX = (s2, ERR_PROG_ERROR)"
    using s1(1) e by (simp add: sf_poll.simps [of 0 s1] Let_def s2_def)
  have "wr_loop 8 False to buf (set_wr_en 3 s0) 0 len = (s2, ERR_PROG_ERROR, 8, len - 8)"
    using assms(2) p1 e s1(2) by (simp add: wr_loop.simps [of 8 False to buf "set_wr_en 3 s0" 0 len] s1_def [symmetric])
  then have "spi_flash_sector_write s to len buf = Some (s2, ERR_PROG_ERROR)"
    using e by (simp add: spi_flash_sector_write_def p0)
  then show ?thesis using assms(4) by (simp add: sf_write_def s2_def s1_def)
qed

theorem sf_write_hides_error_witness:
  "hw_sr busy_flash 0 1 = (1, 0x20) \<and>
   (\<exists>s'. sf_write 12 busy_flash 0 12 [1, 2, 3, 4, 5, 6, 7, 8, 9, 10, 11, 12] = Some (s', 0, ERR_PROG_ERROR) \<and>
     sf_mem s' = [1, 2, 3, 4, 5, 6, 7, 8, 0xFF, 0xFF, 0xFF, 0xFF])"
proof -
  have h: "reg_sf busy_flash" "sf_polls busy_flash = 0" "\<And>c k. hw_sr busy_flash c k = (if k = 0 then (0, 0) else (1, 0x20))"
      "sf_mem busy_flash = replicate 12 0xFF"
    by (simp_all only: busy_flash_def sf.simps)
  have "program (replicate 12 0xFF) 0 (take 8 [1, 2, 3, 4, 5, 6, 7, 8, 9, 10, 11, 12]) = [1, 2, 3, 4, 5, 6, 7, 8, 0xFF, 0xFF, 0xFF, (0xFF :: int)]"
    by code_simp
  then show ?thesis
    using sf_write_hides_error [of busy_flash 12 "[1, 2, 3, 4, 5, 6, 7, 8, 9, 10, 11, 12]" 0 12] h by simp
qed

text \<open>An erase request always erases one sector of 64 kilobytes, the one that contains the
  start address, whatever length it asks for: with a chip that works, \<^verbatim>\<open>sf_erase\<close> reports success
  and every byte outside of that sector is as before.\<close>

theorem sf_erase_one_sector:
  assumes "sf_ready s"
  shows "\<exists>s'. sf_erase s addr len = Some (s', 0) \<and>
     sf_mem s' = fill_area (sf_mem s) (sector_of addr) (replicate MTDSF_ERASE_SIZE 0xFF)"
proof -
  have ok: "\<exists>t'. sf_poll c t POLL_MAX = (t', ERR_OK) \<and> sf_mem t' = sf_mem t" if "hw_sr t = hw_sr s" for c and t :: "'a sf_scheme"
  proof -
    obtain t' rc where p: "sf_poll c t POLL_MAX = (t', rc)" by force
    have "sf_ready t" using assms that by (simp add: sf_ready_def)
    then show ?thesis using p sf_poll_ready [of t c] sf_poll_frame [OF p] by auto
  qed
  have "\<exists>t. spi_flash_sector_erase addr (clock_on s) = (t, ERR_OK) \<and>
      sf_mem t = fill_area (sf_mem s) (sector_of addr) (replicate MTDSF_ERASE_SIZE 0xFF)"
  proof -
    define c where "c = (if u32 (int addr + MTDSF_PHY_ADDR (clock_on s)) \<ge> fl_phy (g_sf_info0 (clock_on s)) then 0 else (1 :: nat))"
    define s1 where "s1 = (clock_on (clock_on s))\<lparr>sfreg := (sfreg (clock_on (clock_on s)))\<lparr>SPI_WR_EN_CTR := (if c = 0 then 1 else 2),
          SPI_ER_START_ADDR := u32 (int (sector_of addr) + MTDSF_PHY_ADDR (clock_on s)), SPI_ER_CTR := 0x8000\<rparr>\<rparr>"
    have s1: "hw_sr s1 = hw_sr s" "sf_mem s1 = sf_mem s" by (simp_all add: s1_def)
    obtain t where t: "sf_poll c s1 POLL_MAX = (t, ERR_OK)" "sf_mem t = sf_mem s" using ok [OF s1(1)] s1(2) by auto
    show ?thesis
      unfolding spi_flash_sector_erase_def Let_def c_def [symmetric] s1_def [symmetric] t(1) using t(2) by simp
  qed
  then show ?thesis by (auto simp: sf_erase_def)
qed

theorem sf_erase_one_sector_witness:
  "sf_ready (busy_flash\<lparr>hw_sr := \<lambda>_ k. (if even k then 1 else 0, 0)\<rparr>) \<and>
   (\<exists>s'. sf_erase (busy_flash\<lparr>hw_sr := \<lambda>_ k. (if even k then 1 else 0, 0)\<rparr>) 0 (2 * MTDSF_ERASE_SIZE) = Some (s', 0))"
proof -
  have r: "sf_ready (busy_flash\<lparr>hw_sr := \<lambda>_ k. (if even k then 1 else 0, 0)\<rparr>)" by (rule alternating_ready) simp
  from sf_erase_one_sector [OF r, of 0 "2 * MTDSF_ERASE_SIZE"] r show ?thesis by blast
qed

section \<open>Chip select\<close>

lemma aligned_or:
  assumes "phy mod 65536 = 0" "0 \<le> phy" "phy < 4294967296" "0 \<le> c" "c < 65536"
  shows "(phy OR c) AND 0xFFFF0000 = (phy :: int)" "drop_bit 8 (phy OR c) AND 0xFF = drop_bit 8 c"
proof -
  have m: "(0xFFFF0000 :: int) = push_bit 16 (mask 16)" by (simp add: mask_eq_exp_minus_1 push_bit_eq_mult)
  have p: "take_bit 16 phy = 0" using assms(1) by (simp add: take_bit_eq_mod)
  have q: "take_bit 32 phy = phy" using assms(2,3) by (simp add: take_bit_int_eq_self_iff)
  have r: "take_bit 16 c = c" using assms(4,5) by (simp add: take_bit_int_eq_self_iff)
  have low: "16 \<le> n" if "bit phy n" for n
    using p that by (metis bit_take_bit_iff bit_0_eq bot_apply bot_bool_def not_le)
  have high: "n < 32" if "bit phy n" for n using q that by (metis bit_take_bit_iff)
  have cb: "n < 16" if "bit c n" for n using r that by (metis bit_take_bit_iff)
  show "(phy OR c) AND 0xFFFF0000 = phy"
  proof (rule bit_eqI)
    fix n
    show "bit ((phy OR c) AND 0xFFFF0000) n = bit phy n"
      unfolding m using low [of n] high [of n] cb [of n] by (auto simp: bit_simps)
  qed
  show "drop_bit 8 (phy OR c) AND 0xFF = drop_bit 8 c"
    unfolding and_FF
  proof (rule bit_eqI)
    fix n
    show "bit (take_bit 8 (drop_bit 8 (phy OR c))) n = bit (drop_bit 8 c) n"
      using low [of "8 + n"] cb [of "8 + n"] by (auto simp: bit_simps)
  qed
qed

lemma size_bits_step: "0 < sz \<Longrightarrow> size_bits sz cnt = size_bits (sz div 2) (u32 (cnt + 1))"
  by (simp add: size_bits.simps [of sz] drop_bit_eq_div)

lemma size_bits_pow: "k + j < 1000 \<Longrightarrow> size_bits (2 ^ k) (int j) = int (k + j) + 1"
proof (induction k arbitrary: j)
  case 0
  have "size_bits 1 (int j) = size_bits 0 (u32 (int j + 1))" by (subst size_bits_step) simp_all
  also have "\<dots> = u32 (int j + 1)" by (simp add: size_bits.simps)
  finally show ?case using 0 by (simp add: u32_def)
next
  case (Suc k)
  have u: "u32 (int j + 1) = int (Suc j)" using Suc.prems by (simp add: u32_def)
  have "size_bits (2 ^ Suc k) (int j) = size_bits (2 ^ k) (u32 (int j + 1))" by (subst size_bits_step) simp_all
  then show ?case unfolding u using Suc.IH [of "Suc j"] Suc.prems by simp
qed

text \<open>Every chip of the table has a size of a power of two, from 64 kilobytes to 16 megabytes.\<close>

definition size_exp :: "int \<Rightarrow> nat" where
  "size_exp kb = (if kb = 64 then 16 else if kb = 512 then 19 else if kb = 2048 then 21
                  else if kb = 4096 then 22 else if kb = 8192 then 23 else 24)"

lemma sf_ids_sizes: "(i, kb) \<in> set sf_ids \<Longrightarrow> i \<noteq> 0 \<Longrightarrow> kb * 1024 = 2 ^ size_exp kb \<and> 16 \<le> size_exp kb \<and> size_exp kb \<le> 24"
  by (auto simp: sf_ids_def size_exp_def)

lemma sf_ids_lookup: "\<forall>(i, kb) \<in> set sf_ids. i \<noteq> 0 \<longrightarrow> find (\<lambda>(j, _). j = i) (takeWhile (\<lambda>(j, _). j \<noteq> 0) sf_ids) = Some (i, kb) \<and> i \<noteq> FLASH_UNKNOW"
  by code_simp

text \<open>The value that \<^verbatim>\<open>wmt_sfc_ccr\<close> puts into the chip select register can be read back: for
  every chip of the table and every start address on a 64 kilobyte boundary, the upper half is the
  address and the size field gives the size of the chip.\<close>

theorem sfc_ccr_roundtrip:
  assumes "(i, kb) \<in> set sf_ids" "i \<noteq> 0" "phy mod 65536 = 0" "0 \<le> phy" "phy < 4294967296"
    and "info = fst (get_sf_info \<lparr>fl_id = i, fl_phy = 0, fl_val = 0, fl_total = 0\<rparr>)"
    and "v = fl_val (wmt_sfc_ccr (info\<lparr>fl_phy := phy\<rparr>))"
  shows "fl_total info = kb * 1024 \<and> v AND 0xFFFF0000 = phy \<and> 2 ^ (nat (drop_bit 8 v AND 0xFF) + 15) = fl_total info"
proof -
  have k: "kb * 1024 = 2 ^ size_exp kb" "16 \<le> size_exp kb" "size_exp kb \<le> 24" using sf_ids_sizes [OF assms(1,2)] by auto
  have l: "find (\<lambda>(j, _). j = i) (takeWhile (\<lambda>(j, _). j \<noteq> 0) sf_ids) = Some (i, kb)" "i \<noteq> FLASH_UNKNOW"
    using sf_ids_lookup assms(1,2) by auto
  have "(2 :: int) ^ size_exp kb \<le> 2 ^ 24" using k(3) by (intro power_increasing) auto
  then have u: "u32 (kb * 1024) = kb * 1024" using k(1) by (simp add: u32_def)
  have t: "fl_total info = kb * 1024" using l u by (simp add: assms(6) get_sf_info_def)
  define c where "c = int (size_exp kb) - 15"
  have c: "1 \<le> c" "c \<le> 9" using k(2,3) by (auto simp: c_def)
  have "size_bits (fl_total info) 0 = int (size_exp kb) + 1"
    using size_bits_pow [of "size_exp kb" 0] k by (simp add: t)
  then have "u32 (size_bits (fl_total info) 0 - 16) = c" using c by (simp add: c_def u32_def)
  then have v: "v = phy OR push_bit 8 c" using c by (simp add: assms(7) wmt_sfc_ccr_def Let_def u32_def push_bit_eq_mult)
  have b: "0 \<le> push_bit 8 c" "push_bit 8 c < 65536" using c by (simp_all add: push_bit_eq_mult)
  have "v AND 0xFFFF0000 = phy" unfolding v by (rule aligned_or(1) [OF assms(3-5) b])
  moreover have "drop_bit 8 v AND 0xFF = c" unfolding v aligned_or(2) [OF assms(3-5) b] by (simp add: drop_bit_push_bit_int)
  moreover have "nat c + 15 = size_exp kb" using k(2) by (simp add: c_def)
  ultimately show ?thesis by (simp add: t k(1))
qed

theorem sfc_ccr_roundtrip_witness:
  "(SF_IDALL 0x1C 0x2017, 8192) \<in> set sf_ids \<and>
   fl_val (wmt_sfc_ccr ((fst (get_sf_info \<lparr>fl_id = SF_IDALL 0x1C 0x2017, fl_phy = 0, fl_val = 0, fl_total = 0\<rparr>))\<lparr>fl_phy := 0xFF800000\<rparr>))
     AND 0xFFFF0000 = 0xFF800000"
proof -
  have m: "(SF_IDALL 0x1C 0x2017, 8192) \<in> set sf_ids" "SF_IDALL 0x1C 0x2017 \<noteq> 0" by code_simp+
  from sfc_ccr_roundtrip [OF m _ _ _ refl refl, of "0xFF800000"] m(1) show ?thesis by simp
qed

end
