(* ===== verification/WmtSfDev.thy ===== *)
theory WmtSfDev
  imports MtdCore WmtEnv
begin

text \<open>
  How the SPI flash comes to be MTD devices: \<^verbatim>\<open>mtdsf_init_device\<close>, \<^verbatim>\<open>wmt_sf_probe\<close> and \<^verbatim>\<open>wmt_sf_remove\<close> of
  \<^verbatim>\<open>drivers/mtd/devices/wmt_sf.c\<close> over the table of devices, whose chips are the one flash.
\<close>

section \<open>The boot option\<close>

text \<open>
  \<^verbatim>\<open>sscanf\<close> with the format \<^verbatim>\<open>%d%c\<close>: white space is skipped, a number may have a sign, and without a digit
  nothing is stored. The string is without its terminating zero.
\<close>

definition isspace :: "int \<Rightarrow> bool" where
  "isspace c \<longleftrightarrow> 9 \<le> c \<and> c \<le> 13 \<or> c = 32 \<or> c = 160"

definition scan_int :: "int list \<Rightarrow> int option" where
  "scan_int str =
     (let s = dropWhile isspace str;
          neg = (s \<noteq> [] \<and> hd s = 45);
          ds = (if neg then tl s else s)
      in if ds = [] \<or> hd ds < 48 \<or> hd ds > 57 then None
         else Some (s32 (if neg then - simple_strtoul10 ds else simple_strtoul10 ds)))"

definition wmt_force_sf_size :: "int list \<Rightarrow> 'n sf_scheme \<Rightarrow> 'n sf_scheme \<times> int" where
  "wmt_force_sf_size str s = (case scan_int str of None \<Rightarrow> (s, 1) | Some v \<Rightarrow> (s\<lparr>g_sf_force_size := u32 v\<rparr>, 1))"

section \<open>The devices\<close>

text \<open>The zeroed structure of the master.\<close>

definition master_obj :: "'f mtd_info \<Rightarrow> 'f mtd_obj" where
  "master_obj m =
     \<lparr>mo_info = m, mo_usecount = 0, mo_erasesize_shift = 0, mo_writesize_shift = 0, mo_erasesize_mask = 0,
      mo_writesize_mask = 0, mo_bdi = None, mo_owner_live = True, mo_get_device = None, mo_registered = False\<rparr>"

text \<open>
  \<open>answers\<close> has the answers of allocators for the k-th partition. The result of a parser that promises
  more entries than its table has is an access outside of an array.
\<close>

definition mtdsf_init_device ::
    "'n sf_scheme module_loader \<Rightarrow> (nat \<Rightarrow> add_answer) \<Rightarrow> (bool \<times> bool) list \<Rightarrow> bool \<Rightarrow> nat \<Rightarrow> nat \<Rightarrow>
     'n sf_scheme mtd_core \<Rightarrow> ('n sf_scheme mtd_core \<times> int) option" where
  "mtdsf_init_device request answers tries reg_ok mtd sz c =
     (let c1 = upd_obj mtd (master_obj (mtdsf_device sz)) c;
          (c2, nr_parts, pparts) = parse_mtd_partitions request (mtdsf_device sz) [''cmdlinepart''] 0 0 None c1;
          (parts, nr) = (if nr_parts \<le> 0 then (Some boot_partitions, length boot_partitions) else (pparts, nat nr_parts))
      in if (\<exists>table. parts = Some table \<and> length table < nr) then None
         else map_option (\<lambda>(c3, _). (c3, 0))
           (mtd_device_register tries reg_ok mtd
              (map_option (\<lambda>table. map (\<lambda>(k, p). (answers k, p)) (enumerate 0 (take nr table))) parts) c2))"

text \<open>
  \<^verbatim>\<open>wmt_sf_probe\<close>: \<open>strap\<close>, \<open>id0\<close> and \<open>id1\<close> are what the hardware reads as,
  \<open>info_ok\<close>, \<open>map_ok\<close>, \<open>sfmtd\<close> the answers of \<^verbatim>\<open>kzalloc\<close>, \<^verbatim>\<open>ioremap\<close> and \<^verbatim>\<open>kzalloc\<close>.
\<close>

definition wmt_sf_probe ::
    "int \<Rightarrow> int \<Rightarrow> int \<Rightarrow> bool \<Rightarrow> bool \<Rightarrow> nat option \<Rightarrow> 'n sf_scheme module_loader \<Rightarrow> (nat \<Rightarrow> add_answer) \<Rightarrow> (bool \<times> bool) list \<Rightarrow> bool \<Rightarrow>
     'n sf_scheme mtd_core \<Rightarrow> ('n sf_scheme mtd_core \<times> int) option" where
  "wmt_sf_probe strap id0 id1 info_ok map_ok sfmtd request answers tries reg_ok c =
     (let s0 = clock_on (mtd_flash c) in
      if \<not> info_ok then Some (c\<lparr>mtd_flash := s0\<rparr>, eret ENOMEM)
      else let (s1, err) = wmt_sfc_init strap id0 id1 s0 in
        if err \<noteq> 0 then Some (c\<lparr>mtd_flash := s1\<rparr>, err)
        else
          let sfsize = (if g_sf_force_size s1 \<noteq> 0 then u32 (g_sf_force_size s1 * 1024 * 1024) else MTDSF_TOTAL_SIZE);
              s2 = (if MTDSF_PHY_ADDR s1 = 0xFFFFFFFF \<or> MTDSF_PHY_ADDR s1 = 0xEFFFFFFF
                    then s1\<lparr>MTDSF_PHY_ADDR := u32 (MTDSF_PHY_ADDR s1 - sfsize + 1)\<rparr> else s1);
              c2 = c\<lparr>mtd_flash := s2\<rparr>
          in if \<not> map_ok then Some (c2, -5)
             else (case sfmtd of
                 None \<Rightarrow> Some (c2, eret ENOMEM)
               | Some mtd \<Rightarrow>
                   map_option (\<lambda>(c3, _). (c3\<lparr>mtd_flash := clock_off ((mtd_flash c3)\<lparr>reg_sf := True\<rparr>)\<rparr>, 0))
                     (mtdsf_init_device request answers tries reg_ok mtd (nat sfsize) c2)))"

text \<open>\<^verbatim>\<open>wmt_sf_remove\<close> ignores whether the device could be deleted.\<close>

definition wmt_sf_remove :: "nat option \<Rightarrow> 'f mtd_core \<Rightarrow> ('f mtd_core \<times> int) option" where
  "wmt_sf_remove sfmtd c =
     (case sfmtd of
        None \<Rightarrow> Some (c, 0)
      | Some p \<Rightarrow> map_option (\<lambda>(c1, _). (c1\<lparr>objs := (objs c1)(p := None)\<rparr>, 0)) (del_mtd_device p c))"

end
