(* ===== verification/MtdCoreInv.thy ===== *)
theory MtdCoreInv
  imports MtdCore
begin

text \<open>
  The invariant of the table of MTD devices: ids and devices correspond to each other, use counts are
  not negative, and only devices in the table are in use. The loops over the table end.
\<close>

section \<open>Ids\<close>

lemma idr_find_simps [simp]:
  "idr_find [] i = None" "idr_find (x # xs) 0 = x" "idr_find (x # xs) (Suc i) = idr_find xs i"
  by (simp_all add: idr_find_def)

lemma idr_find_remove [simp]: "idr_find (idr_remove ids i) j = (if j = i then None else idr_find ids j)"
  by (simp add: idr_find_def idr_remove_def nth_list_update)

lemma idr_get_new_spec:
  "idr_get_new ids p = (ids', i) \<Longrightarrow>
     idr_find ids i = None \<and> (\<forall>j < i. idr_find ids j \<noteq> None) \<and> (\<forall>j. idr_find ids' j = (if j = i then Some p else idr_find ids j))"
proof (induction ids p arbitrary: ids' i rule: idr_get_new.induct)
  case (1 p)
  then show ?case by (auto simp: idr_find_def)
next
  case (2 ids p)
  then show ?case by (auto simp: nth_Cons' idr_find_def)
next
  case (3 x ids p)
  obtain jds k where g: "idr_get_new ids p = (jds, k)" by force
  with 3(2) have e: "ids' = Some x # jds" "i = Suc k" by auto
  from 3(1) [OF g] show ?case unfolding e
    by (auto simp: less_Suc_eq_0_disj) (metis idr_find_simps(2) idr_find_simps(3) not0_implies_Suc)+
qed

lemma idr_loop_cases:
  "(\<exists>(pre_ok, again) \<in> set tries. \<not> pre_ok \<or> \<not> again) \<Longrightarrow>
     idr_loop tries ids p = Some None \<or> idr_loop tries ids p = Some (Some (idr_get_new ids p))"
  by (induction tries ids p rule: idr_loop.induct) auto

section \<open>The invariant\<close>

definition core_ok :: "'f mtd_core \<Rightarrow> bool" where
  "core_ok c \<longleftrightarrow>
     (\<forall>i p. idr_find (mtd_idr c) i = Some p \<longrightarrow> (\<exists>o'. objs c p = Some o' \<and> obj_index o' = i \<and> mo_registered o'))
   \<and> (\<forall>p o'. objs c p = Some o' \<longrightarrow> 0 \<le> mo_usecount o' \<and> (mo_usecount o' \<noteq> 0 \<longrightarrow> mo_registered o')
        \<and> (mo_registered o' \<longrightarrow> idr_find (mtd_idr c) (obj_index o') = Some p))
   \<and> distinct (map fst (mtd_partitions c))
   \<and> (\<forall>(p, m, offs) \<in> set (mtd_partitions c). objs c p \<noteq> None \<and> p \<noteq> m)"

lemma core_okI:
  assumes "\<And>i p. idr_find (mtd_idr c) i = Some p \<Longrightarrow> \<exists>o'. objs c p = Some o' \<and> obj_index o' = i \<and> mo_registered o'"
    and "\<And>p o'. objs c p = Some o' \<Longrightarrow> 0 \<le> mo_usecount o' \<and> (mo_usecount o' \<noteq> 0 \<longrightarrow> mo_registered o')
        \<and> (mo_registered o' \<longrightarrow> idr_find (mtd_idr c) (obj_index o') = Some p)"
    and "distinct (map fst (mtd_partitions c))"
    and "\<And>p m offs. (p, m, offs) \<in> set (mtd_partitions c) \<Longrightarrow> objs c p \<noteq> None \<and> p \<noteq> m"
  shows "core_ok c"
  using assms unfolding core_ok_def by blast

lemma core_okD:
  assumes "core_ok c"
  shows "idr_find (mtd_idr c) i = Some p \<Longrightarrow> \<exists>o'. objs c p = Some o' \<and> obj_index o' = i \<and> mo_registered o'"
    and "objs c p = Some o' \<Longrightarrow> 0 \<le> mo_usecount o'"
    and "objs c p = Some o' \<Longrightarrow> mo_usecount o' \<noteq> 0 \<Longrightarrow> mo_registered o'"
    and "objs c p = Some o' \<Longrightarrow> mo_registered o' \<Longrightarrow> idr_find (mtd_idr c) (obj_index o') = Some p"
    and "distinct (map fst (mtd_partitions c))"
    and "(p, m, offs) \<in> set (mtd_partitions c) \<Longrightarrow> objs c p \<noteq> None \<and> p \<noteq> m"
  using assms unfolding core_ok_def by blast+

lemma upd_obj_sel [simp]:
  "objs (upd_obj p o' c) = (objs c)(p \<mapsto> o')" "mtd_idr (upd_obj p o' c) = mtd_idr c" "mtd_notifiers (upd_obj p o' c) = mtd_notifiers c"
  "mtd_partitions (upd_obj p o' c) = mtd_partitions c" "mtd_log (upd_obj p o' c) = mtd_log c"
  "part_parsers (upd_obj p o' c) = part_parsers c" "mtd_flash (upd_obj p o' c) = mtd_flash c"
  by (simp_all add: upd_obj_def)

lemma log_events_sel [simp]:
  "objs (log_events es c) = objs c" "mtd_idr (log_events es c) = mtd_idr c" "mtd_notifiers (log_events es c) = mtd_notifiers c"
  "mtd_partitions (log_events es c) = mtd_partitions c" "part_parsers (log_events es c) = part_parsers c"
  "mtd_flash (log_events es c) = mtd_flash c"
  by (simp_all add: log_events_def)

lemma core_ok_cong:
  "objs c' = objs c \<Longrightarrow> mtd_idr c' = mtd_idr c \<Longrightarrow> mtd_partitions c' = mtd_partitions c \<Longrightarrow> core_ok c' = core_ok c"
  by (simp add: core_ok_def)

lemma core_ok_upd:
  assumes "core_ok c" "objs c p = Some a" "obj_index b = obj_index a" "mo_registered b = mo_registered a"
    "0 \<le> mo_usecount b" "mo_usecount b \<noteq> 0 \<longrightarrow> mo_registered a"
  shows "core_ok (upd_obj p b c)"
proof (rule core_okI)
  fix i q assume "idr_find (mtd_idr (upd_obj p b c)) i = Some q"
  then show "\<exists>o'. objs (upd_obj p b c) q = Some o' \<and> obj_index o' = i \<and> mo_registered o'"
    using core_okD(1) [OF assms(1), of i q] assms(2-4) by auto
qed (use core_okD(2-6) [OF assms(1)] assms(2-6) in \<open>auto split: if_splits\<close>)

section \<open>Loops over the table\<close>

definition present :: "'a option list \<Rightarrow> 'a list" where
  "present xs = List.map_filter id xs"

lemma present_simps [simp]: "present [] = []" "present (None # xs) = present xs" "present (Some x # xs) = x # present xs"
  by (simp_all add: present_def List.map_filter_simps)

lemma first_obj_drop:
  "first_obj (drop i ids) = None \<and> present (drop i ids) = [] \<or>
   (\<exists>j p. i \<le> j \<and> idr_find ids j = Some p \<and> first_obj (drop i ids) = Some p \<and> present (drop i ids) = p # present (drop (j + 1) ids))"
proof (induction "length ids - i" arbitrary: i)
  case 0
  then show ?case by simp
next
  case (Suc n)
  then have i: "i < length ids" by simp
  then have d: "drop i ids = ids ! i # drop (Suc i) ids" by (simp add: Cons_nth_drop_Suc)
  show ?case
  proof (cases "ids ! i")
    case None
    have "n = length ids - Suc i" using Suc(2) by simp
    from Suc(1) [OF this] show ?thesis unfolding d None by (auto intro: Suc_leD)
  next
    case (Some p)
    then show ?thesis unfolding d using i by (auto simp: idr_find_def intro!: exI [of _ i])
  qed
qed

lemma next_cases:
  assumes "mtd_next_device c i = None \<Longrightarrow> present (drop i (mtd_idr c)) = [] \<Longrightarrow> Q"
    and "\<And>j p. i \<le> j \<Longrightarrow> idr_find (mtd_idr c) j = Some p \<Longrightarrow> mtd_next_device c i = Some p \<Longrightarrow>
      present (drop i (mtd_idr c)) = p # present (drop (j + 1) (mtd_idr c)) \<Longrightarrow> Q"
  shows Q
  using first_obj_drop [of i "mtd_idr c"] assms unfolding mtd_next_device_def by (elim disjE exE conjE) auto

lemma mtd_visit_eq:
  assumes "core_ok c"
  shows "mtd_visit c i = Some (present (drop i (mtd_idr c)))"
proof (induction "length (mtd_idr c) - i" arbitrary: i rule: less_induct)
  case less
  show ?case
  proof (cases rule: next_cases [of c i])
    case 1
    then show ?thesis by (subst mtd_visit.simps) simp
  next
    case (2 j p)
    obtain o' where o': "objs c p = Some o'" "obj_index o' = j" using core_okD(1) [OF assms 2(2)] by blast
    have "j < length (mtd_idr c)" using 2(2) by (auto simp: idr_find_def split: if_splits)
    with less [of "j + 1"] 2(1) have "mtd_visit c (j + 1) = Some (present (drop (j + 1) (mtd_idr c)))" by simp
    then show ?thesis using 2 o' by (subst mtd_visit.simps) simp
  qed
qed

lemma mtd_search_eq:
  assumes "core_ok c"
  shows "mtd_search P c i = Some (find (\<lambda>p. P p (the (objs c p))) (present (drop i (mtd_idr c))))"
proof (induction "length (mtd_idr c) - i" arbitrary: i rule: less_induct)
  case less
  show ?case
  proof (cases rule: next_cases [of c i])
    case 1
    then show ?thesis by (subst mtd_search.simps) simp
  next
    case (2 j p)
    obtain o' where o': "objs c p = Some o'" "obj_index o' = j" using core_okD(1) [OF assms 2(2)] by blast
    have "j < length (mtd_idr c)" using 2(2) by (auto simp: idr_find_def split: if_splits)
    with less [of "j + 1"] 2(1) have "mtd_search P c (j + 1) = Some (find (\<lambda>p. P p (the (objs c p))) (present (drop (j + 1) (mtd_idr c))))" by simp
    then show ?thesis using 2 o' by (subst mtd_search.simps) simp
  qed
qed

lemma set_present: "p \<in> set (present ids) \<longleftrightarrow> (\<exists>i. idr_find ids i = Some p)"
proof -
  have "p \<in> set (present ids) \<longleftrightarrow> Some p \<in> set ids" by (induction ids) (auto simp: present_def List.map_filter_simps split: option.splits)
  also have "\<dots> \<longleftrightarrow> (\<exists>i. idr_find ids i = Some p)" by (auto simp: in_set_conv_nth idr_find_def)
  finally show ?thesis .
qed

end
