(* ===== verification/MtdGeom.thy ===== *)
theory MtdGeom
  imports MtdPart
begin

text \<open>
  The geometry of partitions: they lie inside of their master, and the count of bad blocks ends, for
  sizes below \<open>2 ^ 63\<close> and a master with a single erase size.
\<close>

lemma sub64_le: "a \<ge> b \<Longrightarrow> a < 2 ^ 64 \<Longrightarrow> sub64 a b = a - b"
proof -
  assume a: "a \<ge> b" "a < 2 ^ 64"
  then have "a + 2 ^ 64 - b = (a - b) + 2 ^ 64" "a - b < 2 ^ 64" by simp_all
  then show ?thesis by (simp only: sub64_def mod_add_self2 mod_less)
qed

lemma add64_id: "a + b < 2 ^ 64 \<Longrightarrow> add64 a b = a + b"
  by (simp add: add64_def)

lemma no_write_flag: "\<not> writeable (x AND (MTD_WRITEABLE XOR 0xFFFFFFFF))"
  by (simp add: writeable_def MTD_WRITEABLE_def and.assoc)

definition master_ok :: "'f mtd_info \<Rightarrow> bool" where
  "master_ok m \<longleftrightarrow> length (mtd_eraseregions m) \<le> 1 \<and> mtd_size m < 2 ^ 63
     \<and> (mtd_block_isbad m \<noteq> None \<longrightarrow> 0 < mtd_erasesize m \<and> mtd_erasesize m < 2 ^ 32)"

lemma geometry_cases:
  assumes "length (mtd_eraseregions m) \<le> 1" "mtd_size m < 2 ^ 63" "pn_size d < 2 ^ 63"
  shows "\<exists>offset psize es flags. part_geometry m d cur = Some (offset, psize, es, flags) \<and> offset + psize \<le> mtd_size m
     \<and> (psize = 0 \<or> es = mtd_erasesize m)
     \<and> (writeable flags \<longrightarrow> psize = 0 \<or> mtd_mod_by_eb offset es = 0 \<and> mtd_mod_by_eb psize es = 0)"
proof -
  define off where "off = part_offset m d cur"
  define size0 where "size0 = (if pn_size d = MTDPART_SIZ_FULL then sub64 (mtd_size m) off else pn_size d)"
  define size1 where "size1 = (if add64 off size0 > mtd_size m then mtd_size m - off else size0)"
  define flags0 where "flags0 = mtd_flags m AND (pn_mask_flags d XOR 0xFFFFFFFF)"
  define flags1 where "flags1 = (if writeable flags0 \<and> mtd_mod_by_eb off (mtd_erasesize m) \<noteq> 0 then flags0 AND (MTD_WRITEABLE XOR 0xFFFFFFFF) else flags0)"
  define flags2 where "flags2 = (if writeable flags1 \<and> mtd_mod_by_eb size1 (mtd_erasesize m) \<noteq> 0 then flags1 AND (MTD_WRITEABLE XOR 0xFFFFFFFF) else flags1)"
  have es: "\<not> 1 < length (mtd_eraseregions m)" using assms(1) by simp
  have g: "part_geometry m d cur = (if mtd_size m \<le> off then Some (0, 0, 0, flags0) else Some (off, size1, mtd_erasesize m, flags2))"
    unfolding part_geometry_def Let_def off_def [symmetric] size0_def [symmetric] flags0_def [symmetric]
      size1_def [symmetric] flags1_def [symmetric] if_not_P [OF es] flags2_def [symmetric] using es by simp
  show ?thesis
  proof (cases "mtd_size m \<le> off")
    case False
    then have "size0 < 2 ^ 63" using assms(2,3) by (auto simp: size0_def sub64_le)
    then have "add64 off size0 = off + size0" using False assms(2) by (simp add: add64_def)
    then have "off + size1 \<le> mtd_size m" using False by (auto simp: size1_def)
    moreover have "writeable flags2 \<longrightarrow> mtd_mod_by_eb off (mtd_erasesize m) = 0 \<and> mtd_mod_by_eb size1 (mtd_erasesize m) = 0"
      using no_write_flag by (auto simp: flags2_def flags1_def split: if_splits)
    ultimately show ?thesis using False g by simp
  qed (simp add: g)
qed

lemma badblock_loop_returns:
  assumes "0 < es" "mtdsize + es \<le> 2 ^ 64"
  shows "\<exists>n. badblock_loop isbad offset mtdsize es offs bad = Some n"
proof (induction "mtdsize - offs" arbitrary: offs bad rule: less_induct)
  case less
  show ?case
  proof (cases "offs < mtdsize")
    case True
    then have "add64 offs es = offs + es" using assms(2) by (simp add: add64_def)
    with less [of "offs + es"] True assms(1) show ?thesis by (subst badblock_loop.simps) simp
  qed (subst badblock_loop.simps, simp)
qed

lemma allocate_returns:
  assumes "master_ok m" "pn_size d < 2 ^ 63"
  shows "\<exists>r. allocate_partition f ok m d i cur = Some r"
proof -
  obtain offset psize es flags where g: "part_geometry m d cur = Some (offset, psize, es, flags)" "offset + psize \<le> mtd_size m"
      "psize = 0 \<or> es = mtd_erasesize m"
    using geometry_cases [of m d cur] assms by (auto simp: master_ok_def)
  have "\<exists>n. count_badblocks m f offset psize es = Some n"
  proof (cases "mtd_block_isbad m")
    case (Some b)
    show ?thesis
    proof (cases "psize = 0")
      case True
      then show ?thesis using Some by (simp add: count_badblocks_def badblock_loop.simps)
    next
      case False
      then show ?thesis using Some assms(1) g by (auto simp: count_badblocks_def master_ok_def intro!: badblock_loop_returns)
    qed
  qed (simp add: count_badblocks_def)
  with g(1) show ?thesis by (auto simp: allocate_partition_def)
qed

lemma allocate_shape:
  "allocate_partition f ok m d i cur = Some (Inr s) \<Longrightarrow> ok \<and>
     (\<exists>offset psize es flags bad. part_geometry m d cur = Some (offset, psize, es, flags)
       \<and> s = \<lparr>pt_mtd = part_info m (pn_name d) i offset psize es flags bad, pt_offset = offset\<rparr>)"
  by (auto simp: allocate_partition_def split: if_splits bind_splits)

lemma allocate_Inl: "allocate_partition f ok m d i cur = Some (Inl e) \<Longrightarrow> \<not> ok \<and> e = eret ENOMEM"
  by (auto simp: allocate_partition_def split: if_splits bind_splits)

lemma allocate_ok:
  assumes "master_ok m" "pn_size d < 2 ^ 63"
  shows "\<exists>p. allocate_partition f True m d i cur = Some (Inr p)"
proof -
  obtain r where "allocate_partition f True m d i cur = Some r" using allocate_returns [OF assms] by blast
  then show ?thesis using allocate_Inl [of f True m d i cur] by (cases r) auto
qed

lemma part_info_sel [simp]:
  "mtd_size (part_info m nm i offset psize es flags bad) = psize" "mtd_writesize (part_info m nm i offset psize es flags bad) = mtd_writesize m"
  "mtd_flags (part_info m nm i offset psize es flags bad) = flags" "mtd_name (part_info m nm i offset psize es flags bad) = nm"
  "mtd_erasesize (part_info m nm i offset psize es flags bad) = es"
  by (simp_all add: part_info_def)

section \<open>Requests\<close>

text \<open>The bytes \<open>a\<close> to \<open>a + n\<close> of the master belong to the partition.\<close>

definition in_range :: "nat \<Rightarrow> nat \<Rightarrow> nat \<Rightarrow> nat \<Rightarrow> bool" where
  "in_range offset psize a n \<longleftrightarrow> n = 0 \<or> offset \<le> a \<and> a + n \<le> offset + psize"

lemma clip_min: "clip psize from len = min len (psize - from)"
  by (auto simp: clip_def)

lemma clip_in_range: "in_range offset psize (from + offset) (min len (psize - from))"
  by (auto simp: in_range_def)

text \<open>
  A transfer with out-of-band bytes. Its data, if it has any, lie in the partition. The out-of-band
  bytes are those of consecutive pages from the page of \<open>from\<close> on: byte \<open>i\<close> of the transfer belongs to
  page \<open>(ops_ooboffs ops + i) div oob_len m ops\<close> after it. All these pages are pages of the partition.
\<close>

definition data_inside :: "nat \<Rightarrow> nat \<Rightarrow> mtd_oob_ops \<Rightarrow> bool" where
  "data_inside psize from ops \<longleftrightarrow> from < psize \<and> (ops_datbuf ops \<noteq> None \<longrightarrow> from + ops_len ops \<le> psize)"

definition oob_len :: "'f mtd_info \<Rightarrow> mtd_oob_ops \<Rightarrow> nat" where
  "oob_len m ops = (if ops_mode ops = MTD_OOB_AUTO then mtd_oobavail m else mtd_oobsize m)"

definition oob_inside :: "'f mtd_info \<Rightarrow> nat \<Rightarrow> nat \<Rightarrow> mtd_oob_ops \<Rightarrow> bool" where
  "oob_inside m psize from ops \<longleftrightarrow> (ops_oobbuf ops \<noteq> None \<longrightarrow>
     (\<forall>i < ops_ooblen ops. from div mtd_writesize m + (ops_ooboffs ops + i) div oob_len m ops < psize div mtd_writesize m))"

text \<open>The sizes with which the test of the source does not wrap around.\<close>

definition oob_small :: "'f mtd_info \<Rightarrow> nat \<Rightarrow> mtd_oob_ops \<Rightarrow> bool" where
  "oob_small m psize ops \<longleftrightarrow> psize div mtd_writesize m < 2 ^ 32 \<and> ops_ooboffs ops + ops_ooblen ops < 2 ^ 32"

lemma not_exceeds_inside:
  assumes "\<not> oob_exceeds m psize from ops" "oob_small m psize ops" "from < psize"
  shows "oob_inside m psize from ops"
proof -
  let ?P = "psize div mtd_writesize m" and ?F = "from div mtd_writesize m" and ?L = "oob_len m ops"
  have le: "?F \<le> ?P" using assms(3) by (simp add: div_le_mono)
  have P: "?P < 2 ^ 32" "ops_ooboffs ops + ops_ooblen ops < 2 ^ 32" using assms(2) by (auto simp: oob_small_def)
  have F: "?F < 2 ^ 32" using le P(1) by (rule le_less_trans)
  have "(?P mod 2 ^ 32 + 2 ^ 32 - ?F mod 2 ^ 32) mod 2 ^ 32 = ?P - ?F"
  proof -
    have "?P mod 2 ^ 32 + 2 ^ 32 - ?F mod 2 ^ 32 = (?P - ?F) + 2 ^ 32"
      unfolding mod_less [OF P(1)] mod_less [OF F] using le by linarith
    moreover have "?P - ?F < 2 ^ 32" using P(1) by (rule le_less_trans [OF diff_le_self])
    ultimately show ?thesis by simp
  qed
  then have "(ops_ooboffs ops + ops_ooblen ops) mod 2 ^ 32 \<le> (?P - ?F) * ?L mod 2 ^ 32"
    using assms(1) by (simp only: oob_exceeds_def mtd_div_by_ws_def oob_len_def Let_def not_less)
  also have "\<dots> \<le> (?P - ?F) * ?L" by (rule mod_less_eq_dividend)
  finally have b: "ops_ooboffs ops + ops_ooblen ops \<le> (?P - ?F) * ?L" unfolding mod_less [OF P(2)] .
  have "?F + (ops_ooboffs ops + i) div ?L < ?P" if "i < ops_ooblen ops" for i
  proof -
    have "ops_ooboffs ops + i < (?P - ?F) * ?L" using b that by simp
    then have "(ops_ooboffs ops + i) div ?L < ?P - ?F" by (rule less_mult_imp_div_less)
    then show ?thesis by simp
  qed
  then show ?thesis by (simp add: oob_inside_def)
qed

lemma read_oob_contained:
  "(part_read_oob h m offset psize g from ops = (g, EINVAL_ret, ops)
     \<or> part_read_oob h m offset psize g from ops = h g (from + offset) ops \<and> data_inside psize from ops
       \<and> (oob_small m psize ops \<longrightarrow> oob_inside m psize from ops))
   \<and> (data_inside psize from ops \<and> ops_oobbuf ops = None \<longrightarrow> part_read_oob h m offset psize g from ops = h g (from + offset) ops)"
proof (cases "data_inside psize from ops \<and> \<not> (ops_oobbuf ops \<noteq> None \<and> oob_exceeds m psize from ops)")
  case True
  then have "part_read_oob h m offset psize g from ops = h g (from + offset) ops" by (auto simp: part_read_oob_def data_inside_def)
  moreover have "oob_small m psize ops \<longrightarrow> oob_inside m psize from ops"
    using True not_exceeds_inside [of m psize "from" ops] by (cases "ops_oobbuf ops") (auto simp: data_inside_def oob_inside_def)
  ultimately show ?thesis using True by auto
qed (auto simp: part_read_oob_def data_inside_def)

lemma part_ops_sel:
  "op_panic_write (part_ops m partno offset psize flags) = map_option (\<lambda>g. part_panic_write g offset psize flags) (op_panic_write (mtd_ops m))"
  "op_read_oob (part_ops m partno offset psize flags) = map_option (\<lambda>g. part_read_oob g m offset psize) (op_read_oob (mtd_ops m))"
  "op_write_oob (part_ops m partno offset psize flags) = map_option (\<lambda>g. part_write_oob g offset psize flags) (op_write_oob (mtd_ops m))"
  "op_block_markbad (part_ops m partno offset psize flags) = map_option (\<lambda>g. part_block_markbad g offset psize flags) (op_block_markbad (mtd_ops m))"
  "op_writev (part_ops m partno offset psize flags) = map_option (\<lambda>g. part_writev g offset flags) (op_writev (mtd_ops m))"
  "op_write_user_prot_reg (part_ops m partno offset psize flags) = map_option part_write_user_prot_reg (op_write_user_prot_reg (mtd_ops m))"
  "op_lock_user_prot_reg (part_ops m partno offset psize flags) = map_option part_lock_user_prot_reg (op_lock_user_prot_reg (mtd_ops m))"
  by (simp_all add: part_ops_def Let_def)

text \<open>Erasing and locking are not held to the partition: the length of an erase is not looked at, and the
  sum of a lock request may wrap around.\<close>

lemma part_erase_unbounded:
  "writeable flags \<Longrightarrow> addr < psize \<Longrightarrow> part_erase m offset psize flags g addr len = mtd_erase m g (addr + offset) len"
  by (simp add: part_erase_def)

lemma erase_callback_restores:
  assumes "addr < 2 ^ 64" "offset < 2 ^ 64" "fail < 2 ^ 64" "add64 fail offset \<noteq> MTD_FAIL_ADDR_UNKNOWN"
  shows "mtd_erase_callback (Some offset) \<lparr>ei_addr = add64 addr offset, ei_fail_addr = add64 fail offset\<rparr> = \<lparr>ei_addr = addr, ei_fail_addr = fail\<rparr>"
proof -
  have "sub64 (add64 a offset) offset = a" if "a < 2 ^ 64" for a
  proof (cases "a + offset < 2 ^ 64")
    case True
    then show ?thesis using that by (simp add: add64_def sub64_def)
  next
    case False
    then have "add64 a offset = a + offset - 2 ^ 64" using that assms(2) by (simp add: add64_def mod_if)
    then show ?thesis using False that by (simp add: sub64_def)
  qed
  with assms show ?thesis by (simp add: mtd_erase_callback_def)
qed

lemma part_lock_wraps:
  "0 < k \<Longrightarrow> k \<le> offset \<Longrightarrow> offset < 2 ^ 64 \<Longrightarrow> part_lock h offset psize g (2 ^ 64 - k) k = h g (offset - k) k"
proof -
  assume k: "0 < k" "k \<le> offset" "offset < 2 ^ 64"
  then have "(2 ^ 64 - k) + offset = (offset - k) + 2 ^ 64" by simp
  then have "add64 (2 ^ 64 - k) offset = offset - k" using k by (simp only: add64_def mod_add_self2) simp
  moreover have "add64 k (2 ^ 64 - k) = 0" using k by (simp add: add64_def)
  ultimately show ?thesis by (simp add: part_lock_def)
qed

end
