(* ===== verification/MtdCoreSys.thy ===== *)
theory MtdCoreSys
  imports MtdCoreInv MtdGeom
begin

text \<open>
  The table of MTD devices as a system: drivers that add and delete devices and partitions, users that
  look devices up and hold them, and notifiers. Every operation returns, keeps the invariant
  \<open>core_ok\<close>, and leaves a device that is held in its place.
\<close>

section \<open>What operations leave alone\<close>

text \<open>Devices in use stay as they are; the one at \<open>drop\<close> may lose one user.\<close>

definition held :: "nat option \<Rightarrow> 'f mtd_core \<Rightarrow> 'f mtd_core \<Rightarrow> bool" where
  "held drp c c' \<longleftrightarrow> (\<forall>q a. objs c q = Some a \<longrightarrow> (if drp = Some q then 1 else 0) < mo_usecount a \<longrightarrow>
     (\<exists>b. objs c' q = Some b \<and> mo_info b = mo_info a \<and> mo_registered b = mo_registered a
        \<and> mo_usecount a - (if drp = Some q then 1 else 0) \<le> mo_usecount b))"

lemma held_refl: "held None c c" "objs c' = objs c \<Longrightarrow> held None c c'"
  by (auto simp: held_def)

lemma held_trans: "held None c d \<Longrightarrow> held None d e \<Longrightarrow> held None c e"
proof -
  assume h: "held None c d" "held None d e"
  show ?thesis unfolding held_def
  proof (intro allI impI)
    fix q a assume a: "objs c q = Some a" "(if None = Some q then 1 else 0) < mo_usecount a"
    then obtain b where b: "objs d q = Some b" "mo_info b = mo_info a" "mo_registered b = mo_registered a" "mo_usecount a \<le> mo_usecount b"
      using h(1) by (auto simp: held_def)
    then obtain b' where "objs e q = Some b'" "mo_info b' = mo_info b" "mo_registered b' = mo_registered b" "mo_usecount b \<le> mo_usecount b'"
      using h(2) a(2) by (fastforce simp: held_def)
    with b show "\<exists>b. objs e q = Some b \<and> mo_info b = mo_info a \<and> mo_registered b = mo_registered a
        \<and> mo_usecount a - (if None = Some q then 1 else 0) \<le> mo_usecount b" by auto
  qed
qed

lemma held_upd:
  assumes "\<And>a. objs c p = Some a \<Longrightarrow> mo_usecount a \<le> 0 \<or> mo_info b = mo_info a \<and> mo_registered b = mo_registered a \<and> mo_usecount a \<le> mo_usecount b"
    and "\<And>q. q \<noteq> p \<Longrightarrow> objs c' q = objs c q" "objs c' p = Some b"
  shows "held None c c'"
  using assms by (fastforce simp: held_def)

definition tries_ok :: "(bool \<times> bool) list \<Rightarrow> bool" where
  "tries_ok tries \<longleftrightarrow> (\<exists>(pre_ok, again) \<in> set tries. \<not> pre_ok \<or> \<not> again)"

section \<open>Registration\<close>

lemma default_bdi_sel [simp]: "mo_info (default_bdi a) = mo_info a" "mo_usecount (default_bdi a) = mo_usecount a"
  "mo_registered (default_bdi a) = mo_registered a" "obj_index (default_bdi a) = obj_index a"
  by (simp_all add: default_bdi_def obj_index_def)

lemma number_obj_sel [simp]: "mo_info (number_obj i a) = numbered i (mo_info a)" "mo_usecount (number_obj i a) = 0"
  "mo_registered (number_obj i a) = mo_registered a" "obj_index (number_obj i a) = i"
  by (simp_all add: number_obj_def obj_index_def numbered_def Let_def)

lemma not_in_table: "core_ok c \<Longrightarrow> objs c p = Some a \<Longrightarrow> \<not> mo_registered a \<Longrightarrow> idr_find (mtd_idr c) i \<noteq> Some p"
  using core_okD(1) [of c i p] by auto

text \<open>A device that is not in the table is changed at will.\<close>

lemma core_ok_free_upd:
  assumes "core_ok c" "\<And>a. objs c p = Some a \<Longrightarrow> \<not> mo_registered a" "mo_usecount b = 0" "\<not> mo_registered b"
    "\<And>q. objs c' q = (if q = p then Some b else objs c q)" "\<And>i. idr_find (mtd_idr c') i = idr_find (mtd_idr c) i"
    "mtd_partitions c' = mtd_partitions c"
  shows "core_ok c'"
proof (rule core_okI)
  fix i q assume "idr_find (mtd_idr c') i = Some q"
  then obtain a where "objs c q = Some a" "obj_index a = i" "mo_registered a" using core_okD(1) [OF assms(1)] assms(6) by metis
  then show "\<exists>o'. objs c' q = Some o' \<and> obj_index o' = i \<and> mo_registered o'" using assms(2,5) by auto
next
  fix q a assume "objs c' q = Some a"
  then show "0 \<le> mo_usecount a \<and> (mo_usecount a \<noteq> 0 \<longrightarrow> mo_registered a) \<and> (mo_registered a \<longrightarrow> idr_find (mtd_idr c') (obj_index a) = Some q)"
    using core_okD(2-4) [OF assms(1)] assms(3-6) by (auto split: if_splits)
next
  show "distinct (map fst (mtd_partitions c'))" using core_okD(5) [OF assms(1)] assms(7) by simp
next
  fix q m offs assume "(q, m, offs) \<in> set (mtd_partitions c')"
  then show "objs c' q \<noteq> None \<and> q \<noteq> m" using core_okD(6) [OF assms(1)] assms(5,7) by auto
qed

lemma core_ok_insert:
  assumes "core_ok c" "\<And>a. objs c p = Some a \<Longrightarrow> \<not> mo_registered a" "idr_find (mtd_idr c) i = None"
    "mo_usecount b = 0" "mo_registered b" "obj_index b = i"
    "\<And>q. objs c' q = (if q = p then Some b else objs c q)" "\<And>j. idr_find (mtd_idr c') j = (if j = i then Some p else idr_find (mtd_idr c) j)"
    "mtd_partitions c' = mtd_partitions c"
  shows "core_ok c'"
proof (rule core_okI)
  fix j q assume j: "idr_find (mtd_idr c') j = Some q"
  show "\<exists>o'. objs c' q = Some o' \<and> obj_index o' = j \<and> mo_registered o'"
  proof (cases "j = i")
    case False
    then obtain a where "objs c q = Some a" "obj_index a = j" "mo_registered a" using core_okD(1) [OF assms(1)] assms(8) j by metis
    then show ?thesis using assms(2,7) by auto
  qed (use j assms(5-8) in auto)
next
  fix q a assume "objs c' q = Some a"
  then show "0 \<le> mo_usecount a \<and> (mo_usecount a \<noteq> 0 \<longrightarrow> mo_registered a) \<and> (mo_registered a \<longrightarrow> idr_find (mtd_idr c') (obj_index a) = Some q)"
    using core_okD(2-4) [OF assms(1), of q a] assms(3-8) by (auto split: if_splits)
next
  show "distinct (map fst (mtd_partitions c'))" using core_okD(5) [OF assms(1)] assms(9) by simp
next
  fix q m offs assume "(q, m, offs) \<in> set (mtd_partitions c')"
  then show "objs c' q \<noteq> None \<and> q \<noteq> m" using core_okD(6) [OF assms(1)] assms(7,9) by auto
qed

text \<open>
  \<open>add_mtd_device\<close>: the device gets the lowest free id, or nothing changes in the table.
\<close>

lemma add_device_spec:
  assumes "core_ok c" "objs c p = Some a" "\<not> mo_registered a" "mtd_writesize (mo_info a) \<noteq> 0" "tries_ok tries"
  shows "\<exists>c' r. add_mtd_device tries reg_ok p c = Some (c', r) \<and> core_ok c' \<and> held None c c'
     \<and> (\<forall>q. q \<noteq> p \<longrightarrow> objs c' q = objs c q) \<and> objs c' p \<noteq> None \<and> mtd_partitions c' = mtd_partitions c
     \<and> (idr_loop tries (mtd_idr c) p \<noteq> Some None \<longrightarrow> reg_ok \<longrightarrow> r = 0)
     \<and> (r = 0 \<longrightarrow> (\<exists>i. idr_find (mtd_idr c) i = None \<and> (\<forall>j < i. idr_find (mtd_idr c) j \<noteq> None)
          \<and> (\<forall>j. idr_find (mtd_idr c') j = (if j = i then Some p else idr_find (mtd_idr c) j))
          \<and> objs c' p = Some ((number_obj i (default_bdi a))\<lparr>mo_registered := True\<rparr>)
          \<and> mtd_log c' = mtd_log c @ map (\<lambda>n. Notify_add n p) (mtd_notifiers c)))"
proof -
  have u: "mo_usecount a = 0" using core_okD(3) [OF assms(1,2)] assms(3) by blast
  note free = not_in_table [OF assms(1-3)]
  consider "idr_loop tries (mtd_idr c) p = Some None" | "idr_loop tries (mtd_idr c) p = Some (Some (idr_get_new (mtd_idr c) p))"
    using idr_loop_cases [of tries "mtd_idr c" p] assms(5) by (auto simp: tries_ok_def)
  then show ?thesis
  proof cases
    case 1
    have "add_mtd_device tries reg_ok p c = Some (upd_obj p (default_bdi a) c, 1)"
      using 1 assms(2,4) by (simp add: add_mtd_device_def)
    moreover have "core_ok (upd_obj p (default_bdi a) c)"
      by (rule core_ok_free_upd [OF assms(1)]) (use assms(2,3) u in auto)
    moreover have "held None c (upd_obj p (default_bdi a) c)" by (rule held_upd) (use assms(2) u in auto)
    ultimately show ?thesis using 1 by auto
  next
    case 2
    obtain ids i where g: "idr_get_new (mtd_idr c) p = (ids, i)" by force
    note n = idr_get_new_spec [OF g]
    define o2 where "o2 = number_obj i (default_bdi a)"
    define c1 where "c1 = (upd_obj p o2 c)\<lparr>mtd_idr := ids, mtd_flash := powerup_unlock (mo_info o2) (mtd_flash c)\<rparr>"
    have o2: "mo_usecount o2 = 0" "\<not> mo_registered o2" "obj_index o2 = i" using assms(3) by (auto simp: o2_def)
    define c2 where "c2 = c1\<lparr>mtd_idr := idr_remove ids i\<rparr>"
    define c3 where "c3 = log_events (map (\<lambda>n. Notify_add n p) (mtd_notifiers c1)) (upd_obj p (o2\<lparr>mo_registered := True\<rparr>) c1)"
    have e: "add_mtd_device tries reg_ok p c = (if reg_ok then Some (c3, 0) else Some (c2, 1))"
      using 2 g assms(2,4) by (simp add: add_mtd_device_def Let_def o2_def [symmetric] c1_def [symmetric] c2_def c3_def)
    have s2: "objs c2 = (objs c)(p \<mapsto> o2)" "mtd_partitions c2 = mtd_partitions c" "mtd_idr c2 = idr_remove ids i"
      by (simp_all add: c2_def c1_def)
    have s3: "objs c3 = (objs c)(p \<mapsto> o2\<lparr>mo_registered := True\<rparr>)" "mtd_partitions c3 = mtd_partitions c" "mtd_idr c3 = ids"
      "mtd_log c3 = mtd_log c @ map (\<lambda>n. Notify_add n p) (mtd_notifiers c)"
      by (simp_all add: c3_def c1_def log_events_def)
    have k2: "core_ok c2" "held None c c2"
      by (rule core_ok_free_upd [OF assms(1), of p o2]) (use assms(2,3) o2 n in \<open>auto simp: s2\<close>,
          rule held_upd [of c p o2], use assms(2) u in \<open>auto simp: s2\<close>)
    have k3: "core_ok c3"
      by (rule core_ok_insert [OF assms(1), of p i "o2\<lparr>mo_registered := True\<rparr>"]) (use assms(2,3) o2 n in \<open>auto simp: s3 obj_index_def\<close>)
    have h3: "held None c c3" by (rule held_upd [of c p "o2\<lparr>mo_registered := True\<rparr>"]) (use assms(2) u in \<open>auto simp: s3\<close>)
    show ?thesis
    proof (cases reg_ok)
      case True
      then show ?thesis using e k3 h3 n s3 by (auto simp: o2_def)
    next
      case False
      then show ?thesis using e k2 s2 by auto
    qed
  qed
qed

text \<open>\<open>del_mtd_device\<close>: a device that is not in the table or is in use stays.\<close>

lemma del_device_spec:
  assumes "core_ok c" "objs c p = Some a"
  shows "\<exists>c' r. del_mtd_device p c = Some (c', r) \<and> core_ok c' \<and> held None c c' \<and> mtd_partitions c' = mtd_partitions c
     \<and> (\<forall>q. q \<noteq> p \<longrightarrow> objs c' q = objs c q)
     \<and> (if mo_registered a \<and> mo_usecount a = 0
        then r = 0 \<and> objs c' p = Some (a\<lparr>mo_registered := False\<rparr>) \<and> mtd_idr c' = idr_remove (mtd_idr c) (obj_index a)
        else r < 0 \<and> objs c' p = Some a \<and> mtd_idr c' = mtd_idr c \<and> (mo_registered a \<longrightarrow> r = eret EBUSY))"
proof (cases "mo_registered a")
  case False
  then have "idr_find (mtd_idr c) (obj_index a) \<noteq> Some p" using not_in_table [OF assms] by blast
  then show ?thesis using assms False held_refl by (auto simp: del_mtd_device_def)
next
  case True
  then have t: "idr_find (mtd_idr c) (obj_index a) = Some p" using core_okD(4) [OF assms] by blast
  define c1 where "c1 = log_events (map (\<lambda>n. Notify_remove n p) (mtd_notifiers c)) c"
  have c1: "objs c1 = objs c" "mtd_idr c1 = mtd_idr c" "mtd_partitions c1 = mtd_partitions c" by (simp_all add: c1_def)
  show ?thesis
  proof (cases "mo_usecount a = 0")
    case False
    then have "del_mtd_device p c = Some (c1, eret EBUSY)" using assms(2) t by (simp add: del_mtd_device_def c1_def)
    moreover have "core_ok c1" "held None c c1" using core_ok_cong [of c1 c] assms(1) c1 held_refl(2) by auto
    ultimately show ?thesis using False True c1 assms(2) by auto
  next
    case use0: True
    define c2 where "c2 = (upd_obj p (a\<lparr>mo_registered := False\<rparr>) c1)\<lparr>mtd_idr := idr_remove (mtd_idr c) (obj_index a)\<rparr>"
    have c2: "objs c2 = (objs c)(p \<mapsto> a\<lparr>mo_registered := False\<rparr>)" "mtd_idr c2 = idr_remove (mtd_idr c) (obj_index a)"
       "mtd_partitions c2 = mtd_partitions c" by (simp_all add: c2_def c1)
    have d: "del_mtd_device p c = Some (c2, 0)" using assms(2) t use0 by (simp add: del_mtd_device_def c1_def c2_def)
    have "core_ok c2"
    proof (rule core_okI)
      fix j q assume "idr_find (mtd_idr c2) j = Some q"
      then have "idr_find (mtd_idr c) j = Some q" "j \<noteq> obj_index a" by (auto simp: c2 split: if_splits)
      moreover from this obtain b where "objs c q = Some b" "obj_index b = j" "mo_registered b" using core_okD(1) [OF assms(1)] by metis
      ultimately show "\<exists>o'. objs c2 q = Some o' \<and> obj_index o' = j \<and> mo_registered o'" using assms(2) by (auto simp: c2)
    next
      fix q b assume b: "objs c2 q = Some b"
      show "0 \<le> mo_usecount b \<and> (mo_usecount b \<noteq> 0 \<longrightarrow> mo_registered b) \<and> (mo_registered b \<longrightarrow> idr_find (mtd_idr c2) (obj_index b) = Some q)"
      proof (cases "q = p")
        case False
        then have o: "objs c q = Some b" using b by (simp add: c2)
        have "mo_registered b \<Longrightarrow> obj_index b \<noteq> obj_index a" using core_okD(4) [OF assms(1) o] t False by auto
        then show ?thesis using core_okD(2-4) [OF assms(1) o] by (auto simp: c2)
      qed (use b use0 in \<open>auto simp: c2\<close>)
    qed (use core_okD(5,6) [OF assms(1)] assms(2) in \<open>auto simp: c2\<close>)
    moreover have "held None c c2" by (rule held_upd [of c p "a\<lparr>mo_registered := False\<rparr>"]) (use assms(2) use0 in \<open>auto simp: c2\<close>)
    ultimately show ?thesis using d True use0 c2 by auto
  qed
qed

lemma del_device_step:
  assumes "core_ok c" "objs c p = Some a"
  shows "\<exists>c' r. del_mtd_device p c = Some (c', r) \<and> core_ok c' \<and> held None c c' \<and> (\<forall>q. q \<noteq> p \<longrightarrow> objs c' q = objs c q)
     \<and> (r = 0 \<longrightarrow> objs c' p = Some (a\<lparr>mo_registered := False\<rparr>)) \<and> r \<le> 0 \<and> objs c' p \<noteq> None"
  using del_device_spec [OF assms] by (elim ex_forward) (auto split: if_splits)

section \<open>Partitions\<close>

lemma core_ok_part:
  assumes "core_ok c" "objs c p = None" "p \<noteq> m" "mo_usecount b = 0" "\<not> mo_registered b"
  shows "core_ok ((upd_obj p b c)\<lparr>mtd_partitions := (p, m, offs) # mtd_partitions c\<rparr>)"
proof -
  have ok: "core_ok (upd_obj p b c)" by (rule core_ok_free_upd [OF assms(1), of p b]) (use assms in auto)
  have "p \<notin> fst ` set (mtd_partitions c)" using core_okD(6) [OF assms(1)] assms(2) by force
  then show ?thesis using ok assms(3) unfolding core_ok_def by auto
qed

lemma link_spec:
  assumes "core_ok c" "objs c p = None" "p \<noteq> master" "mtd_writesize (pt_mtd s) \<noteq> 0" "tries_ok tries"
  shows "\<exists>c'. link_partition tries reg_ok p master m s c = Some c' \<and> core_ok c' \<and> held None c c'
     \<and> (\<forall>q. q \<noteq> p \<longrightarrow> objs c' q = objs c q) \<and> mtd_partitions c' = (p, master, pt_offset s) # mtd_partitions c"
proof -
  define c0 where "c0 = (upd_obj p (slave_obj m (pt_mtd s)) c)\<lparr>mtd_partitions := (p, master, pt_offset s) # mtd_partitions c\<rparr>"
  have ok: "core_ok c0" unfolding c0_def by (rule core_ok_part [OF assms(1-3)]) (simp_all add: slave_obj_def)
  have h: "held None c c0" using assms(2) by (auto simp: held_def c0_def)
  have o: "objs c0 p = Some (slave_obj m (pt_mtd s))" "mtd_partitions c0 = (p, master, pt_offset s) # mtd_partitions c" "\<And>q. q \<noteq> p \<Longrightarrow> objs c0 q = objs c q"
    by (simp_all add: c0_def)
  obtain c' r where a: "add_mtd_device tries reg_ok p c0 = Some (c', r)" "core_ok c'" "held None c0 c'"
     "\<forall>q. q \<noteq> p \<longrightarrow> objs c' q = objs c0 q" "mtd_partitions c' = mtd_partitions c0"
    using add_device_spec [OF ok o(1) _ _ assms(5), of reg_ok] assms(4) by (auto simp: slave_obj_def)
  then have "link_partition tries reg_ok p master m s c = Some c'" by (simp add: link_partition_def c0_def)
  then show ?thesis using a o held_trans [OF h a(3)] by auto
qed

definition job_ptrs :: "(add_answer \<times> mtd_partition) list \<Rightarrow> nat list" where
  "job_ptrs jobs = present (map (\<lambda>((ptr, _), _). ptr) jobs)"

definition jobs_ok :: "'f mtd_core \<Rightarrow> (add_answer \<times> mtd_partition) list \<Rightarrow> bool" where
  "jobs_ok c jobs \<longleftrightarrow> distinct (job_ptrs jobs) \<and> (\<forall>p \<in> set (job_ptrs jobs). objs c p = None)
     \<and> (\<forall>((ptr, tries, reg_ok), d) \<in> set jobs. tries_ok tries \<and> pn_size d < 2 ^ 63)"

definition can_divide :: "'f mtd_core \<Rightarrow> nat \<Rightarrow> bool" where
  "can_divide c master \<longleftrightarrow> (\<exists>m. objs c master = Some m \<and> master_ok (mo_info m) \<and> mtd_writesize (mo_info m) \<noteq> 0)"

lemma add_partitions_spec:
  "core_ok c \<Longrightarrow> can_divide c master \<Longrightarrow> jobs_ok c jobs \<Longrightarrow>
     \<exists>c' r. add_mtd_partitions master jobs i cur c = Some (c', r) \<and> core_ok c' \<and> held None c c'"
proof (induction master jobs i cur c rule: add_mtd_partitions.induct)
  case (1 master i cur c)
  then show ?case by (auto simp: held_refl)
next
  case (2 master ptr tries reg_ok part parts i cur c)
  obtain m where m: "objs c master = Some m" "master_ok (mo_info m)" "mtd_writesize (mo_info m) \<noteq> 0"
    using 2(3) by (auto simp: can_divide_def)
  have t: "tries_ok tries" "pn_size part < 2 ^ 63" using 2(4) by (auto simp: jobs_ok_def)
  obtain r where r: "allocate_partition (mtd_flash c) (ptr \<noteq> None) (mo_info m) part i cur = Some r"
    using allocate_returns [OF m(2) t(2)] by blast
  show ?case
  proof (cases r)
    case (Inl e)
    then show ?thesis using 2(2) m(1) r by (auto simp: held_refl)
  next
    case (Inr s)
    then have s: "ptr \<noteq> None" "mtd_writesize (pt_mtd s) \<noteq> 0" using allocate_shape [of "mtd_flash c" "ptr \<noteq> None" "mo_info m" part i cur s] r m(3) by auto
    then obtain p where p: "ptr = Some p" by blast
    have f: "objs c p = None" "p \<notin> set (job_ptrs parts)" "jobs_ok c parts" using 2(4) p by (auto simp: jobs_ok_def job_ptrs_def)
    have "p \<noteq> master" using f(1) m(1) by auto
    from link_spec [OF 2(2) f(1) this s(2) t(1)] obtain c' where c': "link_partition tries reg_ok p master m s c = Some c'" "core_ok c'" "held None c c'"
      "\<forall>q. q \<noteq> p \<longrightarrow> objs c' q = objs c q" by blast
    have "can_divide c' master" using c'(4) m \<open>p \<noteq> master\<close> by (auto simp: can_divide_def)
    moreover have "jobs_ok c' parts" using f c'(4) by (auto simp: jobs_ok_def)
    moreover have "link_partition tries reg_ok (the ptr) master m s c = Some c'" using c'(1) p by simp
    ultimately obtain c2 r2 where i: "add_mtd_partitions master parts (i + 1) (add64 (pt_offset s) (mtd_size (pt_mtd s))) c' = Some (c2, r2)" "core_ok c2" "held None c' c2"
      using "2.IH" [OF m(1) r Inr _ c'(2)] by blast
    then show ?thesis using m(1) r Inr c' p held_trans [OF c'(3) i(3)] by auto
  qed
qed

lemma any_conflict_returns:
  assumes "core_ok c" "set ps \<subseteq> set (mtd_partitions c)"
  shows "\<exists>b. any_conflict c master start ed ps = Some b"
  using assms(2)
proof (induction ps)
  case (Cons x ps)
  obtain p m offs where x: "x = (p, m, offs)" by (cases x)
  then have "objs c p \<noteq> None" using core_okD(6) [OF assms(1), of p m offs] Cons(2) by auto
  with Cons x show ?case by auto
qed auto

lemma mtd_add_partition_spec:
  assumes "core_ok c" "can_divide c master" "\<And>p. ptr = Some p \<Longrightarrow> objs c p = None" "tries_ok tries" "len < 2 ^ 64"
  shows "\<exists>c' r. mtd_add_partition (ptr, tries, reg_ok) master name offset len c = Some (c', r) \<and> core_ok c' \<and> held None c c'"
proof -
  obtain m where m: "objs c master = Some m" "master_ok (mo_info m)" "mtd_writesize (mo_info m) \<noteq> 0"
    using assms(2) by (auto simp: can_divide_def)
  define l where "l = (if len = MTDPART_SIZ_FULL then sub64 (mtd_size (mo_info m)) offset else len)"
  show ?thesis
  proof (cases "offset = MTDPART_OFS_APPEND \<or> offset = MTDPART_OFS_NXTBLK \<or> l = 0 \<or> l \<ge> 2 ^ 63")
    case True
    then have "mtd_add_partition (ptr, tries, reg_ok) master name offset len c = Some (c, eret EINVAL)"
      using m(1) by (auto simp: mtd_add_partition_def l_def [symmetric])
    then show ?thesis using assms(1) by (auto simp: held_refl)
  next
    case False
    let ?d = "\<lparr>pn_name = name, pn_size = l, pn_offset = offset, pn_mask_flags = 0\<rparr>"
    have v: "\<not> (offset = MTDPART_OFS_APPEND \<or> offset = MTDPART_OFS_NXTBLK)" "\<not> (l = 0 \<or> l \<ge> 2 ^ 63)" using False by auto
    obtain r where r: "allocate_partition (mtd_flash c) (ptr \<noteq> None) (mo_info m) ?d (-1) offset = Some r"
      using allocate_returns [OF m(2), of ?d] v(2) by fastforce
    obtain b where b: "any_conflict c master offset (add64 offset l) (mtd_partitions c) = Some b"
      using any_conflict_returns [OF assms(1) order_refl] by blast
    note e = mtd_add_partition_def [of "(ptr, tries, reg_ok)" master name offset len c, unfolded Let_def prod.case m(1) option.case l_def [symmetric] if_not_P [OF v(1)] if_not_P [OF v(2)] r b]
    show ?thesis
    proof (cases r)
      case (Inl x)
      then show ?thesis using e assms(1) by (auto simp: held_refl)
    next
      case (Inr s)
      show ?thesis
      proof (cases b)
        case True
        then show ?thesis using Inr e assms(1) by (auto simp: held_refl)
      next
        case False
        have s: "ptr \<noteq> None" "mtd_writesize (pt_mtd s) \<noteq> 0" using allocate_shape [of "mtd_flash c" "ptr \<noteq> None" "mo_info m" ?d "-1" offset s] r Inr m(3) by auto
        then obtain p where p: "ptr = Some p" by blast
        have "p \<noteq> master" using assms(3) [OF p] m(1) by auto
        from link_spec [OF assms(1) assms(3) [OF p] this s(2) assms(4)] obtain c' where
          "link_partition tries reg_ok p master m s c = Some c'" "core_ok c'" "held None c c'" by blast
        then show ?thesis using e Inr False p by simp
      qed
    qed
  qed
qed

lemma core_ok_free:
  assumes "core_ok c" "objs c p = Some a" "\<not> mo_registered a"
  shows "core_ok (free_partition p c)" "held None c (free_partition p c)"
proof -
  have u: "mo_usecount a = 0" using core_okD(3) [OF assms(1,2)] assms(3) by blast
  show "core_ok (free_partition p c)"
  proof (rule core_okI)
    fix i q assume "idr_find (mtd_idr (free_partition p c)) i = Some q"
    then have "idr_find (mtd_idr c) i = Some q" by (simp add: free_partition_def)
    then show "\<exists>o'. objs (free_partition p c) q = Some o' \<and> obj_index o' = i \<and> mo_registered o'"
      using core_okD(1) [OF assms(1)] assms(2,3) by (fastforce simp: free_partition_def)
  next
    fix q m offs assume "(q, m, offs) \<in> set (mtd_partitions (free_partition p c))"
    then show "objs (free_partition p c) q \<noteq> None \<and> q \<noteq> m" using core_okD(6) [OF assms(1), of q m offs] by (auto simp: free_partition_def)
  qed (use core_okD(2-5) [OF assms(1)] in \<open>auto simp: free_partition_def distinct_map_filter split: if_splits\<close>)
  show "held None c (free_partition p c)" using u assms(2) by (auto simp: held_def free_partition_def)
qed

lemma del_parts_spec:
  "core_ok c \<Longrightarrow> distinct (map fst ps) \<Longrightarrow> \<forall>(p, m, offs) \<in> set ps. objs c p \<noteq> None \<Longrightarrow>
     \<exists>c' r. del_parts master ps err c = Some (c', r) \<and> core_ok c' \<and> held None c c'
       \<and> (\<forall>q. (\<forall>offs. (q, master, offs) \<notin> set ps) \<longrightarrow> objs c' q = objs c q)"
proof (induction master ps err c rule: del_parts.induct)
  case (1 master err c)
  then show ?case by (auto simp: held_refl)
next
  case (2 master p m offs ps err c)
  show ?case
  proof (cases "m = master")
    case False
    then show ?thesis using "2.IH"(3) "2.prems" by fastforce
  next
    case True
    obtain a where a: "objs c p = Some a" using "2.prems"(3) by auto
    from del_device_step [OF "2.prems"(1) a] obtain c1 r where c1: "del_mtd_device p c = Some (c1, r)" "core_ok c1" "held None c c1"
       "\<forall>q. q \<noteq> p \<longrightarrow> objs c1 q = objs c q" "r = 0 \<longrightarrow> objs c1 p = Some (a\<lparr>mo_registered := False\<rparr>)" "r \<le> 0" "objs c1 p \<noteq> None"
      by blast
    have ps: "distinct (map fst ps)" "p \<notin> fst ` set ps" using "2.prems"(2) by auto
    show ?thesis
    proof (cases "r < 0")
      case neg: True
      have "\<forall>(p, m, offs) \<in> set ps. objs c1 p \<noteq> None" using "2.prems"(3) ps(2) c1(4) by (force simp: image_iff)
      from "2.IH"(1) [OF True c1(1) refl neg c1(2) ps(1) this] obtain c2 r2 where c2: "del_parts master ps r c1 = Some (c2, r2)" "core_ok c2"
        "held None c1 c2" "\<forall>q. (\<forall>offs. (q, master, offs) \<notin> set ps) \<longrightarrow> objs c2 q = objs c1 q" by blast
      then show ?thesis using True c1 neg held_trans [OF c1(3) c2(3)] by auto
    next
      case False
      then have "objs c1 p = Some (a\<lparr>mo_registered := False\<rparr>)" using c1(5,6) by auto
      note f = core_ok_free [OF c1(2) this]
      have fo: "objs (free_partition p c1) q = (if q = p then None else objs c1 q)" for q by (simp add: free_partition_def)
      have "\<forall>(p, m, offs) \<in> set ps. objs (free_partition p' c1) p \<noteq> None" if "p' = p" for p'
        using "2.prems"(3) ps(2) c1(4) that by (force simp: image_iff free_partition_def)
      from "2.IH"(2) [OF True c1(1) refl False f(1) ps(1) this] obtain c2 r2 where c2: "del_parts master ps err (free_partition p c1) = Some (c2, r2)" "core_ok c2"
        "held None (free_partition p c1) c2" "\<forall>q. (\<forall>offs. (q, master, offs) \<notin> set ps) \<longrightarrow> objs c2 q = objs (free_partition p c1) q" by auto
      have "held None c c2" using held_trans [OF held_trans [OF c1(3) f(2)] c2(3)] by simp
      then show ?thesis using True c1 False c2 fo by auto
    qed
  qed
qed

lemma del_part_spec:
  "core_ok c \<Longrightarrow> set ps \<subseteq> set (mtd_partitions c) \<Longrightarrow>
     \<exists>c' r. del_part master partno ps c = Some (c', r) \<and> core_ok c' \<and> held None c c'"
proof (induction master partno ps c rule: del_part.induct)
  case (1 master partno c)
  then show ?case by (auto simp: held_refl)
next
  case (2 master partno p m offs ps c)
  obtain a where a: "objs c p = Some a" using core_okD(6) [OF "2.prems"(1), of p m offs] "2.prems"(2) by auto
  show ?case
  proof (cases "m = master \<and> obj_index a = partno")
    case False
    then show ?thesis using a "2.IH" "2.prems" by (cases "m = master") auto
  next
    case True
    from del_device_step [OF "2.prems"(1) a] obtain c1 r where c1: "del_mtd_device p c = Some (c1, r)" "core_ok c1" "held None c c1"
       "r = 0 \<longrightarrow> objs c1 p = Some (a\<lparr>mo_registered := False\<rparr>)" "r \<le> 0"
      by blast
    show ?thesis
    proof (cases "r < 0")
      case neg: True
      then show ?thesis using True a c1 by auto
    next
      case False
      then have "objs c1 p = Some (a\<lparr>mo_registered := False\<rparr>)" using c1(4,5) by auto
      note f = core_ok_free [OF c1(2) this]
      show ?thesis using True False a c1 f(1) held_trans [OF c1(3) f(2)] by auto
    qed
  qed
qed

end
