(* ===== verification/MtdTable.thy ===== *)
theory MtdTable
  imports MtdCoreSys
begin

text \<open>
  Users of the table of MTD devices: looking up, holding and giving back, and the system of all
  operations as the interface \<open>device_table\<close> that users rely on.
\<close>

section \<open>References\<close>

lemma get_ref_spec:
  assumes "core_ok c" "objs c p = Some a" "mo_registered a"
  shows "\<exists>c' r. get_mtd_ref p c = Some (c', r) \<and> core_ok c' \<and> held None c c' \<and> mtd_idr c' = mtd_idr c
     \<and> (if r = 0 then objs c' = (objs c)(p \<mapsto> a\<lparr>mo_usecount := mo_usecount a + 1\<rparr>) else c' = c)"
proof (cases "mo_owner_live a \<and> (case mo_get_device a of None \<Rightarrow> 0 | Some e \<Rightarrow> e) = 0")
  case False
  then show ?thesis using assms held_refl by (auto simp: get_mtd_ref_def Let_def)
next
  case True
  let ?b = "a\<lparr>mo_usecount := mo_usecount a + 1\<rparr>"
  have "get_mtd_ref p c = Some (upd_obj p ?b c, 0)" using True assms(2) by (simp add: get_mtd_ref_def)
  moreover have "core_ok (upd_obj p ?b c)"
    by (rule core_ok_upd [OF assms(1,2)]) (use core_okD(2) [OF assms(1,2)] assms(3) in \<open>auto simp: obj_index_def\<close>)
  moreover have "held None c (upd_obj p ?b c)" by (rule held_upd [of c p ?b]) (use assms(2) in auto)
  ultimately show ?thesis by auto
qed

lemma get_found_spec:
  assumes "core_ok c" "\<And>p. ret = Some p \<Longrightarrow> \<exists>a. objs c p = Some a \<and> mo_registered a"
  shows "\<exists>c' r. get_found ret c = Some (c', r) \<and> core_ok c' \<and> held None c c' \<and> mtd_idr c' = mtd_idr c
     \<and> (case r of Inl e \<Rightarrow> c' = c
        | Inr p \<Rightarrow> ret = Some p \<and> (\<exists>a. objs c p = Some a \<and> mo_registered a
            \<and> objs c' = (objs c)(p \<mapsto> a\<lparr>mo_usecount := mo_usecount a + 1\<rparr>)))"
proof (cases ret)
  case None
  then show ?thesis using assms(1) held_refl by (auto simp: get_found_def)
next
  case (Some p)
  then obtain a where a: "objs c p = Some a" "mo_registered a" using assms(2) by blast
  obtain c' r where g: "get_mtd_ref p c = Some (c', r)" "core_ok c'" "held None c c'" "mtd_idr c' = mtd_idr c"
      "if r = 0 then objs c' = (objs c)(p \<mapsto> a\<lparr>mo_usecount := mo_usecount a + 1\<rparr>) else c' = c"
    using get_ref_spec [OF assms(1) a] by blast
  then show ?thesis using Some a by (cases "r = 0") (auto simp: get_found_def)
qed

lemma find_present_Some:
  "find P (present ids) = Some p \<Longrightarrow> \<exists>i. idr_find ids i = Some p \<and> P p \<and> (\<forall>j < i. \<forall>q. idr_find ids j = Some q \<longrightarrow> \<not> P q)"
proof (induction ids)
  case (Cons x ids)
  show ?case
  proof (cases "\<exists>y. x = Some y \<and> P y")
    case True
    then show ?thesis using Cons(2) by (intro exI [of _ 0]) auto
  next
    case False
    then have "find P (present ids) = Some p" using Cons(2) by (cases x) auto
    then obtain i where i: "idr_find ids i = Some p" "P p" "\<forall>j < i. \<forall>q. idr_find ids j = Some q \<longrightarrow> \<not> P q" using Cons(1) by blast
    have "\<forall>j < Suc i. \<forall>q. idr_find (x # ids) j = Some q \<longrightarrow> \<not> P q" using i(3) False by (auto simp: less_Suc_eq_0_disj)
    with i show ?thesis by (intro exI [of _ "Suc i"]) auto
  qed
qed simp

lemma find_present_None: "find P (present ids) = None \<Longrightarrow> idr_find ids i = Some q \<Longrightarrow> \<not> P q"
  using set_present [of q ids] by (auto simp: find_None_iff)

lemma registered_iff: "core_ok c \<Longrightarrow> (\<exists>i. idr_find (mtd_idr c) i = Some p) \<longleftrightarrow> (\<exists>a. objs c p = Some a \<and> mo_registered a)"
  using core_okD(1,4) by blast

lemma get_nm_spec:
  assumes "core_ok c"
  shows "\<exists>c' r. get_mtd_device_nm name c = Some (c', r) \<and> core_ok c' \<and> held None c c' \<and> mtd_idr c' = mtd_idr c
     \<and> (case r of Inl e \<Rightarrow> c' = c
        | Inr p \<Rightarrow> \<exists>a. objs c p = Some a \<and> mo_registered a \<and> mtd_name (mo_info a) = name
            \<and> objs c' = (objs c)(p \<mapsto> a\<lparr>mo_usecount := mo_usecount a + 1\<rparr>)
            \<and> (\<forall>j < obj_index a. \<forall>q. idr_find (mtd_idr c) j = Some q \<longrightarrow> mtd_name (mo_info (the (objs c q))) \<noteq> name))"
proof -
  define ret where "ret = find (\<lambda>p. mtd_name (mo_info (the (objs c p))) = name) (present (mtd_idr c))"
  have e: "get_mtd_device_nm name c = get_found ret c"
    using mtd_search_eq [OF assms, of "\<lambda>_ o'. mtd_name (mo_info o') = name" 0] by (simp add: get_mtd_device_nm_def ret_def)
  have f: "\<exists>a. objs c p = Some a \<and> mo_registered a \<and> mtd_name (mo_info a) = name
      \<and> (\<forall>j < obj_index a. \<forall>q. idr_find (mtd_idr c) j = Some q \<longrightarrow> mtd_name (mo_info (the (objs c q))) \<noteq> name)" if r: "ret = Some p" for p
  proof -
    obtain i where i: "idr_find (mtd_idr c) i = Some p" "mtd_name (mo_info (the (objs c p))) = name"
        "\<forall>j < i. \<forall>q. idr_find (mtd_idr c) j = Some q \<longrightarrow> mtd_name (mo_info (the (objs c q))) \<noteq> name"
      using find_present_Some [OF r [unfolded ret_def]] by blast
    obtain a where "objs c p = Some a" "obj_index a = i" "mo_registered a" using core_okD(1) [OF assms i(1)] by blast
    with i show ?thesis by auto
  qed
  obtain c' r where g: "get_found ret c = Some (c', r)" "core_ok c'" "held None c c'" "mtd_idr c' = mtd_idr c"
     "case r of Inl e \<Rightarrow> c' = c
        | Inr p \<Rightarrow> ret = Some p \<and> (\<exists>a. objs c p = Some a \<and> mo_registered a
            \<and> objs c' = (objs c)(p \<mapsto> a\<lparr>mo_usecount := mo_usecount a + 1\<rparr>))"
    using get_found_spec [OF assms, of ret] f by blast
  show ?thesis
  proof (cases r)
    case (Inr p)
    then have "ret = Some p" "\<exists>a. objs c p = Some a \<and> objs c' = (objs c)(p \<mapsto> a\<lparr>mo_usecount := mo_usecount a + 1\<rparr>)" using g(5) by auto
    with f [of p] g e Inr show ?thesis by auto
  qed (use g e in auto)
qed

lemma get_dev_spec:
  assumes "core_ok c"
  shows "\<exists>c' r. get_mtd_device mtd num c = Some (c', r) \<and> core_ok c' \<and> held None c c'"
proof -
  have "\<exists>ret. get_mtd_device mtd num c = get_found ret c \<and> (\<forall>p. ret = Some p \<longrightarrow> (\<exists>i. idr_find (mtd_idr c) i = Some p))"
  proof (cases "num = -1")
    case True
    define ret where "ret = find (\<lambda>p. Some p = mtd) (present (mtd_idr c))"
    have "get_mtd_device mtd num c = get_found ret c"
      using True mtd_search_eq [OF assms, of "\<lambda>p _. Some p = mtd" 0] by (simp add: get_mtd_device_def ret_def)
    moreover have "ret = Some p \<Longrightarrow> \<exists>i. idr_find (mtd_idr c) i = Some p" for p
      using find_present_Some [of "\<lambda>p. Some p = mtd" "mtd_idr c" p] by (auto simp: ret_def)
    ultimately show ?thesis by blast
  next
    case False
    define ret where "ret = (if num < 0 \<or> mtd \<noteq> None \<and> mtd \<noteq> idr_find (mtd_idr c) (nat num) then None else idr_find (mtd_idr c) (nat num))"
    have "get_mtd_device mtd num c = get_found ret c" using False by (auto simp: get_mtd_device_def ret_def Let_def)
    moreover have "ret = Some p \<Longrightarrow> \<exists>i. idr_find (mtd_idr c) i = Some p" for p by (auto simp: ret_def split: if_splits)
    ultimately show ?thesis by blast
  qed
  then obtain ret where r: "get_mtd_device mtd num c = get_found ret c" "\<And>p. ret = Some p \<Longrightarrow> \<exists>a. objs c p = Some a \<and> mo_registered a"
    using registered_iff [OF assms] by blast
  from get_found_spec [OF assms r(2)] r(1) show ?thesis by fastforce
qed

lemma put_spec:
  assumes "core_ok c" "objs c p = Some a" "0 < mo_usecount a"
  shows "\<exists>c'. put_mtd_device p c = Some c' \<and> core_ok c' \<and> held (Some p) c c'"
proof -
  let ?b = "a\<lparr>mo_usecount := mo_usecount a - 1\<rparr>"
  have "put_mtd_device p c = Some (upd_obj p ?b c)" using assms(2,3) by (simp add: put_mtd_device_def)
  moreover have "core_ok (upd_obj p ?b c)"
    by (rule core_ok_upd [OF assms(1,2)]) (use core_okD(3) [OF assms(1,2)] assms(3) in \<open>auto simp: obj_index_def\<close>)
  moreover have "held (Some p) c (upd_obj p ?b c)" using assms(2) by (auto simp: held_def)
  ultimately show ?thesis by auto
qed

section \<open>The system\<close>

text \<open>
  \<open>New\<close> and \<open>Free\<close>: a driver allocates or frees the structure of a device; \<open>Access\<close>: the methods of
  devices change the chips.
\<close>

datatype 'f core_op =
    New nat "'f mtd_obj" | Free nat
  | Add "(bool \<times> bool) list" bool nat | Del nat
  | Register "(add_answer \<times> mtd_partition) list" nat | Unregister nat
  | AddPart "nat option" "(bool \<times> bool) list" bool nat string nat nat | DelPart nat nat
  | User nat | NoUser nat
  | Get "nat option" int | GetNm string | Put nat
  | Parser "'f mtd_part_parser" | NoParser string | Access "'f \<Rightarrow> 'f"

fun core_exec :: "'f core_op \<Rightarrow> 'f mtd_core \<Rightarrow> 'f mtd_core option" where
  "core_exec (New p a) c = Some (upd_obj p a c)"
| "core_exec (Free p) c = Some (c\<lparr>objs := (objs c)(p := None)\<rparr>)"
| "core_exec (Add tries reg_ok p) c = map_option fst (add_mtd_device tries reg_ok p c)"
| "core_exec (Del p) c = map_option fst (del_mtd_device p c)"
| "core_exec (Register jobs p) c = map_option fst (mtd_device_register [] False p (Some jobs) c)"
| "core_exec (Unregister p) c = map_option fst (mtd_device_unregister p c)"
| "core_exec (AddPart ptr tries reg_ok p name offset len) c = map_option fst (mtd_add_partition (ptr, tries, reg_ok) p name offset len c)"
| "core_exec (DelPart p partno) c = map_option fst (mtd_del_partition p partno c)"
| "core_exec (User n) c = register_mtd_user n c"
| "core_exec (NoUser n) c = map_option fst (unregister_mtd_user n c)"
| "core_exec (Get mtd num) c = map_option fst (get_mtd_device mtd num c)"
| "core_exec (GetNm name) c = map_option fst (get_mtd_device_nm name c)"
| "core_exec (Put p) c = put_mtd_device p c"
| "core_exec (Parser p) c = Some (fst (register_mtd_parser p c))"
| "core_exec (NoParser name) c = Some (fst (deregister_mtd_parser name c))"
| "core_exec (Access g) c = Some (c\<lparr>mtd_flash := g (mtd_flash c)\<rparr>)"

text \<open>
  What the callers have to see to: a device is added when it is not in the table, a structure is freed
  when it is neither in the table nor a partition, and only a reference that was taken is given back.
\<close>

fun core_op_ok :: "'f mtd_core \<Rightarrow> 'f core_op \<Rightarrow> bool" where
  "core_op_ok c (New p a) \<longleftrightarrow> objs c p = None \<and> mo_usecount a = 0 \<and> \<not> mo_registered a"
| "core_op_ok c (Free p) \<longleftrightarrow> (\<exists>a. objs c p = Some a \<and> \<not> mo_registered a) \<and> \<not> mtd_is_partition p c"
| "core_op_ok c (Add tries reg_ok p) \<longleftrightarrow> tries_ok tries \<and> (\<exists>a. objs c p = Some a \<and> \<not> mo_registered a \<and> mtd_writesize (mo_info a) \<noteq> 0)"
| "core_op_ok c (Del p) \<longleftrightarrow> objs c p \<noteq> None"
| "core_op_ok c (Register jobs p) \<longleftrightarrow> can_divide c p \<and> jobs_ok c jobs"
| "core_op_ok c (Unregister p) \<longleftrightarrow> objs c p \<noteq> None"
| "core_op_ok c (AddPart ptr tries reg_ok p name offset len) \<longleftrightarrow>
     can_divide c p \<and> (\<forall>q. ptr = Some q \<longrightarrow> objs c q = None) \<and> tries_ok tries \<and> len < 2 ^ 64"
| "core_op_ok c (Put p) \<longleftrightarrow> (\<exists>a. objs c p = Some a \<and> 0 < mo_usecount a)"
| "core_op_ok c _ \<longleftrightarrow> True"

fun op_drops :: "'f core_op \<Rightarrow> nat option" where
  "op_drops (Put p) = Some p"
| "op_drops _ = None"

text \<open>The device that a look-up hands out.\<close>

fun op_takes :: "'f mtd_core \<Rightarrow> 'f core_op \<Rightarrow> nat option" where
  "op_takes c (Get mtd num) = (case get_mtd_device mtd num c of Some (_, Inr p) \<Rightarrow> Some p | _ \<Rightarrow> None)"
| "op_takes c (GetNm name) = (case get_mtd_device_nm name c of Some (_, Inr p) \<Rightarrow> Some p | _ \<Rightarrow> None)"
| "op_takes c _ = None"

lemma core_same: "core_ok c \<Longrightarrow> objs c' = objs c \<Longrightarrow> mtd_idr c' = mtd_idr c \<Longrightarrow> mtd_partitions c' = mtd_partitions c \<Longrightarrow> core_ok c' \<and> held None c c'"
  using core_ok_cong [of c' c] held_refl(2) by auto

lemma free_obj:
  assumes "core_ok c" "objs c p = Some a" "\<not> mo_registered a" "\<not> mtd_is_partition p c"
  shows "core_ok (c\<lparr>objs := (objs c)(p := None)\<rparr>)" "held None c (c\<lparr>objs := (objs c)(p := None)\<rparr>)"
proof -
  have "filter (\<lambda>(q, _). q \<noteq> p) (mtd_partitions c) = mtd_partitions c" using assms(4) by (intro filter_True) (force simp: mtd_is_partition_def)
  then have "free_partition p c = c\<lparr>objs := (objs c)(p := None)\<rparr>" by (simp add: free_partition_def)
  with core_ok_free [OF assms(1-3)] show "core_ok (c\<lparr>objs := (objs c)(p := None)\<rparr>)" "held None c (c\<lparr>objs := (objs c)(p := None)\<rparr>)" by simp_all
qed

lemma unregister_spec:
  assumes "core_ok c" "objs c p \<noteq> None"
  shows "\<exists>c' r. mtd_device_unregister p c = Some (c', r) \<and> core_ok c' \<and> held None c c'"
proof -
  have "\<forall>(q, m, offs) \<in> set (mtd_partitions c). objs c q \<noteq> None" using core_okD(6) [OF assms(1)] by auto
  from del_parts_spec [OF assms(1) core_okD(5) [OF assms(1)] this, of p 0] obtain c1 err where
    c1: "del_mtd_partitions p c = Some (c1, err)" "core_ok c1" "held None c c1" "\<forall>q. (\<forall>offs. (q, p, offs) \<notin> set (mtd_partitions c)) \<longrightarrow> objs c1 q = objs c q"
    by (auto simp: del_mtd_partitions_def)
  have "objs c1 p = objs c p" using c1(4) core_okD(6) [OF assms(1), of p p] by blast
  then obtain a where a: "objs c1 p = Some a" using assms(2) by auto
  obtain c2 r where "del_mtd_device p c1 = Some (c2, r)" "core_ok c2" "held None c1 c2" using del_device_step [OF c1(2) a] by blast
  then show ?thesis using c1 a held_trans [OF c1(3)] by (auto simp: mtd_device_unregister_def)
qed

lemma map_fst_ex: "\<exists>c' r. x = Some (c', r) \<and> P c' \<Longrightarrow> \<exists>c'. map_option fst x = Some c' \<and> P c'"
  by auto

lemma core_exec_keeps:
  assumes "core_ok c" "core_op_ok c x"
  shows "\<exists>c'. core_exec x c = Some c' \<and> core_ok c' \<and> held (op_drops x) c c'"
proof (cases x)
  case (New p a)
  then show ?thesis using assms core_ok_free_upd [OF assms(1), of p a "upd_obj p a c"] by (auto simp: held_def)
next
  case (Free p)
  then show ?thesis using assms free_obj [OF assms(1), of p] by auto
next
  case (Add tries reg_ok p)
  then obtain a where "objs c p = Some a" "\<not> mo_registered a" "mtd_writesize (mo_info a) \<noteq> 0" "tries_ok tries" using assms(2) by auto
  from add_device_spec [OF assms(1) this, of reg_ok] Add show ?thesis by auto
next
  case (Del p)
  then obtain a where "objs c p = Some a" using assms(2) by auto
  from del_device_step [OF assms(1) this] Del show ?thesis by auto
next
  case (Register jobs p)
  then show ?thesis using assms add_partitions_spec [OF assms(1), of p jobs 0 0] by (auto simp: mtd_device_register_def)
next
  case (Unregister p)
  then show ?thesis using assms unregister_spec [OF assms(1), of p] by auto
next
  case (AddPart ptr tries reg_ok p name offset len)
  then show ?thesis using assms mtd_add_partition_spec [OF assms(1), of p ptr tries len reg_ok name offset] by auto
next
  case (DelPart p partno)
  then show ?thesis using del_part_spec [OF assms(1) order_refl, of p partno] by (auto simp: mtd_del_partition_def)
next
  case (User n)
  have "core_ok (c\<lparr>mtd_notifiers := n # mtd_notifiers c\<rparr>)" by (rule core_same [THEN conjunct1, OF assms(1)]) simp_all
  from mtd_visit_eq [OF this, of 0] User show ?thesis using core_same [OF assms(1)] by (auto simp: register_mtd_user_def)
next
  case (NoUser n)
  then show ?thesis using mtd_visit_eq [OF assms(1), of 0] core_same [OF assms(1)] by (auto simp: unregister_mtd_user_def)
next
  case (Get mtd num)
  then show ?thesis using get_dev_spec [OF assms(1), of mtd num] by auto
next
  case (GetNm name)
  then show ?thesis using get_nm_spec [OF assms(1), of name] by auto
next
  case (Put p)
  then show ?thesis using assms put_spec [OF assms(1), of p] by auto
qed (use core_same [OF assms(1)] in \<open>auto simp: register_mtd_parser_def deregister_mtd_parser_def\<close>)

section \<open>The contract with users\<close>

text \<open>
  A table whose entries stay as long as they are in use: \<open>ex\<close> executes an operation that is \<open>ok\<close>,
  \<open>entry\<close> is what the table has of a device and \<open>uses\<close> how often it is held; \<open>drp\<close> is the device
  that an operation gives back.
\<close>

primrec table_run :: "('o \<Rightarrow> 's \<Rightarrow> 's option) \<Rightarrow> 'o list \<Rightarrow> 's \<Rightarrow> 's option" where
  "table_run ex [] s = Some s"
| "table_run ex (x # xs) s = (case ex x s of None \<Rightarrow> None | Some t \<Rightarrow> table_run ex xs t)"

primrec ok_run :: "('o \<Rightarrow> 's \<Rightarrow> 's option) \<Rightarrow> ('s \<Rightarrow> 'o \<Rightarrow> bool) \<Rightarrow> 'o list \<Rightarrow> 's \<Rightarrow> bool" where
  "ok_run ex ok [] s \<longleftrightarrow> True"
| "ok_run ex ok (x # xs) s \<longleftrightarrow> ok s x \<and> (\<forall>t. ex x s = Some t \<longrightarrow> ok_run ex ok xs t)"

text \<open>
  The references to \<open>p\<close> that others than its holder have: \<open>n\<close> at first, one more with each that an
  operation takes, and nobody gives back more than there are.
\<close>

primrec fair_run :: "('o \<Rightarrow> 's \<Rightarrow> 's option) \<Rightarrow> ('s \<Rightarrow> 'o \<Rightarrow> 'p option) \<Rightarrow> ('o \<Rightarrow> 'p option) \<Rightarrow> 'p \<Rightarrow> int \<Rightarrow> 'o list \<Rightarrow> 's \<Rightarrow> bool" where
  "fair_run ex tk drp p n [] s \<longleftrightarrow> True"
| "fair_run ex tk drp p n (x # xs) s \<longleftrightarrow> (drp x = Some p \<longrightarrow> 0 < n) \<and>
     (\<forall>t. ex x s = Some t \<longrightarrow>
        fair_run ex tk drp p (n + (if tk s x = Some p then 1 else 0) - (if drp x = Some p then 1 else 0)) xs t)"

locale device_table =
  fixes inv :: "'s \<Rightarrow> bool" and ok :: "'s \<Rightarrow> 'o \<Rightarrow> bool" and ex :: "'o \<Rightarrow> 's \<Rightarrow> 's option"
    and entry :: "'s \<Rightarrow> 'p \<Rightarrow> 'e option" and uses :: "'s \<Rightarrow> 'p \<Rightarrow> int" and tk :: "'s \<Rightarrow> 'o \<Rightarrow> 'p option" and drp :: "'o \<Rightarrow> 'p option"
  assumes ex_inv: "inv s \<Longrightarrow> ok s x \<Longrightarrow> \<exists>t. ex x s = Some t \<and> inv t"
    and ex_keeps: "inv s \<Longrightarrow> ok s x \<Longrightarrow> ex x s = Some t \<Longrightarrow> entry s p = Some e \<Longrightarrow> (if drp x = Some p then 1 else 0) < uses s p \<Longrightarrow>
      entry t p = Some e \<and> uses s p + (if tk s x = Some p then 1 else 0) - (if drp x = Some p then 1 else 0) \<le> uses t p"
begin

lemma run_inv: "inv s \<Longrightarrow> ok_run ex ok xs s \<Longrightarrow> \<exists>t. table_run ex xs s = Some t \<and> inv t"
proof (induction xs arbitrary: s)
  case (Cons x xs)
  obtain t where "ex x s = Some t" "inv t" using ex_inv [of s x] Cons.prems by auto
  with Cons show ?case by auto
qed simp

lemma run_keeps:
  "inv s \<Longrightarrow> ok_run ex ok xs s \<Longrightarrow> entry s p = Some e \<Longrightarrow> 0 \<le> n \<Longrightarrow> n < uses s p \<Longrightarrow> fair_run ex tk drp p n xs s \<Longrightarrow>
     \<exists>t. table_run ex xs s = Some t \<and> inv t \<and> entry t p = Some e \<and> 0 < uses t p"
proof (induction xs arbitrary: s n)
  case (Cons x xs)
  obtain t where t: "ex x s = Some t" "inv t" using ex_inv [of s x] Cons.prems by auto
  let ?n = "n + (if tk s x = Some p then 1 else 0) - (if drp x = Some p then 1 else 0)"
  have f: "drp x = Some p \<longrightarrow> 0 < n" "fair_run ex tk drp p ?n xs t" "ok_run ex ok xs t" using Cons.prems(2,6) t(1) by auto
  have "(if drp x = Some p then 1 else 0) < uses s p" using Cons.prems(4,5) f(1) by auto
  with ex_keeps [OF Cons.prems(1) _ t(1) Cons.prems(3)] Cons.prems(2)
  have k: "entry t p = Some e" "uses s p + (if tk s x = Some p then 1 else 0) - (if drp x = Some p then 1 else 0) \<le> uses t p" by auto
  have "0 \<le> ?n" "?n < uses t p" using Cons.prems(4,5) f(1) k(2) by auto
  from Cons.IH [OF t(2) f(3) k(1) this f(2)] t(1) show ?case by auto
qed auto

end

definition core_entry :: "'f mtd_core \<Rightarrow> nat \<Rightarrow> 'f mtd_info option" where
  "core_entry c p = (case objs c p of Some a \<Rightarrow> if mo_registered a then Some (mo_info a) else None | None \<Rightarrow> None)"

definition core_uses :: "'f mtd_core \<Rightarrow> nat \<Rightarrow> int" where
  "core_uses c p = (case objs c p of Some a \<Rightarrow> mo_usecount a | None \<Rightarrow> 0)"

lemma found_takes: "get_found ret c = Some (c', Inr p) \<Longrightarrow> core_uses c' p = core_uses c p + 1"
  by (auto simp: get_found_def get_mtd_ref_def core_uses_def Let_def split: option.splits if_split_asm)

lemma op_takes_one:
  assumes "op_takes c x = Some p" "core_exec x c = Some c'"
  shows "core_uses c' p = core_uses c p + 1" "op_drops x = None"
proof -
  show "op_drops x = None" using assms(1) by (cases x) auto
  have "\<exists>ret. get_found ret c = Some (c', Inr p)"
  proof (cases x)
    case (Get mtd num)
    then obtain d where "get_mtd_device mtd num c = Some (d, Inr p)" using assms(1) by (auto split: option.splits sum.splits)
    with Get assms(2) show ?thesis by (auto simp: get_mtd_device_def Let_def split: option.splits if_split_asm)
  next
    case (GetNm name)
    then obtain d where "get_mtd_device_nm name c = Some (d, Inr p)" using assms(1) by (auto split: option.splits sum.splits)
    with GetNm assms(2) show ?thesis by (auto simp: get_mtd_device_nm_def split: option.splits)
  qed (use assms(1) in auto)
  then show "core_uses c' p = core_uses c p + 1" using found_takes by blast
qed

interpretation mtdtab: device_table core_ok core_op_ok core_exec core_entry core_uses op_takes op_drops
proof
  fix c :: "'a mtd_core" and x
  assume "core_ok c" "core_op_ok c x"
  from core_exec_keeps [OF this] show "\<exists>c'. core_exec x c = Some c' \<and> core_ok c'" by blast
next
  fix c c' :: "'a mtd_core" and x p e
  assume c: "core_ok c" "core_op_ok c x" "core_exec x c = Some c'" "core_entry c p = Some e"
    "(if op_drops x = Some p then 1 else 0) < core_uses c p"
  then have h: "held (op_drops x) c c'" using core_exec_keeps [OF c(1,2)] by auto
  obtain a where a: "objs c p = Some a" "mo_registered a" "mo_info a = e" "core_uses c p = mo_usecount a"
    using c(4) by (auto simp: core_entry_def core_uses_def split: option.splits if_splits)
  then obtain b where "objs c' p = Some b" "mo_info b = mo_info a" "mo_registered b = mo_registered a"
     "mo_usecount a - (if op_drops x = Some p then 1 else 0) \<le> mo_usecount b"
    using h c(5) unfolding held_def by fastforce
  then show "core_entry c' p = Some e \<and> core_uses c p + (if op_takes c x = Some p then 1 else 0) - (if op_drops x = Some p then 1 else 0) \<le> core_uses c' p"
    using a op_takes_one [OF _ c(3), of p] by (auto simp: core_entry_def core_uses_def)
qed

definition empty_core :: "'f \<Rightarrow> 'f mtd_core" where
  "empty_core f = \<lparr>objs = (\<lambda>_. None), mtd_idr = [], mtd_notifiers = [], mtd_partitions = [], mtd_log = [], part_parsers = [], mtd_flash = f\<rparr>"

lemma empty_core_ok: "core_ok (empty_core f)"
  by (simp add: empty_core_def core_ok_def)

lemma distinct_present:
  assumes "\<And>i j p. idr_find ids i = Some p \<Longrightarrow> idr_find ids j = Some p \<Longrightarrow> i = j"
  shows "distinct (present ids)"
  using assms
proof (induction ids)
  case (Cons x ids)
  have "distinct (present ids)" using Cons(2) by (intro Cons(1)) (metis idr_find_simps(3) old.nat.inject)
  moreover have "y \<notin> set (present ids)" if "x = Some y" for y
    using Cons(2) [of 0 y] that set_present [of y ids] by (metis idr_find_simps(2,3) old.nat.distinct(1))
  ultimately show ?case by (cases x) auto
qed simp

lemma visit_once:
  assumes "core_ok c"
  shows "\<exists>ps. mtd_visit c 0 = Some ps \<and> distinct ps \<and> set ps = {p. core_entry c p \<noteq> None}"
proof -
  have "distinct (present (mtd_idr c))" by (rule distinct_present) (metis core_okD(1) [OF assms] option.inject)
  moreover have "set (present (mtd_idr c)) = {p. core_entry c p \<noteq> None}"
    using set_present [of _ "mtd_idr c"] registered_iff [OF assms] by (auto simp: core_entry_def split: option.splits if_splits)
  ultimately show ?thesis using mtd_visit_eq [OF assms, of 0] by auto
qed

end
