(* ===== verification/WmtSfParts.thy ===== *)
theory WmtSfParts
  imports WmtSfDev MtdTable WmtEnvSf
begin

text \<open>
  The built-in partition table of the SPI flash in the table of MTD devices: the six partitions get
  the numbers 0 to 5, and looking them up by name finds them.
\<close>

section \<open>Registering a table\<close>

definition reg_obj :: "nat \<Rightarrow> mtd_partition \<Rightarrow> 'n sf_scheme mtd_obj" where
  "reg_obj k d =
     (number_obj k (default_bdi (slave_obj (master_obj (mtdsf_device CHIP)) (sf_slave (pn_name d) (int k) (pn_offset d) (pn_size d)))))
       \<lparr>mo_registered := True\<rparr>"

lemma reg_obj_sel [simp]:
  "mo_info (reg_obj k d) = numbered k (sf_slave (pn_name d) (int k) (pn_offset d) (pn_size d))" "mo_usecount (reg_obj k d) = 0"
  "mo_registered (reg_obj k d)" "mo_owner_live (reg_obj k d)" "mo_get_device (reg_obj k d) = None"
  by (simp_all add: reg_obj_def slave_obj_def master_obj_def number_obj_def default_bdi_def Let_def)

lemma master_obj_sel [simp]: "mo_info (master_obj m) = m" "mo_usecount (master_obj m) = 0" "\<not> mo_registered (master_obj m)"
  by (simp_all add: master_obj_def)

lemma numbered_sel [simp]: "mtd_name (numbered k m) = mtd_name m" "mtd_size (numbered k m) = mtd_size m" "mtd_flags (numbered k m) = mtd_flags m"
  by (simp_all add: numbered_def)

lemma sf_slave_sel [simp]: "mtd_name (sf_slave nm k off psize) = nm" "mtd_size (sf_slave nm k off psize) = psize"
  "mtd_flags (sf_slave nm k off psize) = MTD_CAP_NORFLASH" "mtd_writesize (sf_slave nm k off psize) = 1"
  by (simp_all add: sf_slave_def mtdsf_device_def)

definition aligned_entry :: "mtd_partition \<Rightarrow> bool" where
  "aligned_entry d \<longleftrightarrow> pn_offset d < CHIP \<and> pn_offset d + pn_size d \<le> CHIP \<and> 0 < pn_size d \<and> pn_offset d mod 0x10000 = 0
     \<and> pn_size d mod 0x10000 = 0 \<and> pn_mask_flags d = 0"

definition sf_jobs :: "(nat \<Rightarrow> nat) \<Rightarrow> nat \<Rightarrow> mtd_partition list \<Rightarrow> (add_answer \<times> mtd_partition) list" where
  "sf_jobs q i ds = map (\<lambda>(k, d). ((Some (q k), [(True, False)], True), d)) (enumerate i ds)"

lemma idr_get_new_dense: "idr_get_new (map Some ps) p = (map Some (ps @ [p]), length ps)"
  by (induction ps) auto

lemma link_dense:
  assumes "mtd_idr c = map Some ps" "p \<noteq> master"
  shows "\<exists>c'. link_partition [(True, False)] True p master (master_obj (mtdsf_device CHIP))
       \<lparr>pt_mtd = sf_slave (pn_name d) (int (length ps)) (pn_offset d) (pn_size d), pt_offset = pn_offset d\<rparr> c = Some c'
     \<and> objs c' = (objs c)(p \<mapsto> reg_obj (length ps) d) \<and> mtd_idr c' = map Some (ps @ [p])
     \<and> mtd_partitions c' = (p, master, pn_offset d) # mtd_partitions c"
  using assms
  by (simp add: link_partition_def add_mtd_device_def slave_obj_def [of "master_obj (mtdsf_device CHIP)"] idr_get_new_dense
      del: map_append) (simp add: reg_obj_def slave_obj_def Let_def)

lemma add_aligned:
  "\<forall>d \<in> set ds. aligned_entry d \<Longrightarrow> objs c master = Some (master_obj (mtdsf_device CHIP)) \<Longrightarrow> mtd_idr c = map Some ps \<Longrightarrow>
   inj q \<Longrightarrow> master \<notin> range q \<Longrightarrow>
   \<exists>c'. add_mtd_partitions master (sf_jobs q (length ps) ds) (int (length ps)) cur c = Some (c', 0)
     \<and> (\<forall>k < length ds. objs c' (q (length ps + k)) = Some (reg_obj (length ps + k) (ds ! k)))
     \<and> (\<forall>p. p \<notin> q ` {length ps..<length ps + length ds} \<longrightarrow> objs c' p = objs c p)
     \<and> mtd_idr c' = map Some (ps @ map q [length ps..<length ps + length ds])
     \<and> mtd_partitions c' = rev (map (\<lambda>k. (q (length ps + k), master, pn_offset (ds ! k))) [0..<length ds]) @ mtd_partitions c"
proof (induction ds arbitrary: c ps cur)
  case Nil
  then show ?case by (simp add: sf_jobs_def)
next
  case (Cons d ds)
  let ?i = "length ps" and ?m = "master_obj (mtdsf_device CHIP)"
  let ?s = "\<lparr>pt_mtd = sf_slave (pn_name d) (int ?i) (pn_offset d) (pn_size d), pt_offset = pn_offset d\<rparr>"
  have d: "d = \<lparr>pn_name = pn_name d, pn_size = pn_size d, pn_offset = pn_offset d, pn_mask_flags = 0\<rparr>" using Cons.prems(1) by (simp add: aligned_entry_def)
  have a: "allocate_partition (mtd_flash c) True (mtdsf_device CHIP) d (int ?i) cur = Some (Inr ?s)"
    using allocate_aligned [of "pn_offset d" "pn_size d" "mtd_flash c" "pn_name d" "int ?i" cur] Cons.prems(1) d by (simp add: aligned_entry_def)
  have "q ?i \<noteq> master" using Cons.prems(5) by auto
  from link_dense [OF Cons.prems(3) this, of d] obtain c1 where
    c1: "link_partition [(True, False)] True (q ?i) master ?m ?s c = Some c1" "objs c1 = (objs c)(q ?i \<mapsto> reg_obj ?i d)"
      "mtd_idr c1 = map Some (ps @ [q ?i])" "mtd_partitions c1 = (q ?i, master, pn_offset d) # mtd_partitions c" by blast
  have o: "objs c1 master = Some ?m" using Cons.prems(2) c1(2) \<open>q ?i \<noteq> master\<close> by auto
  have st: "add_mtd_partitions master (sf_jobs q ?i (d # ds)) (int ?i) cur c =
      add_mtd_partitions master (sf_jobs q (Suc ?i) ds) (int ?i + 1) (add64 (pn_offset d) (pn_size d)) c1"
    using Cons.prems(2) a c1(1) by (simp add: sf_jobs_def)
  have "\<forall>d \<in> set ds. aligned_entry d" using Cons.prems(1) by simp
  from Cons.IH [OF this o c1(3) Cons.prems(4,5), of "add64 (pn_offset d) (pn_size d)"] obtain c' where
    c': "add_mtd_partitions master (sf_jobs q (Suc ?i) ds) (int ?i + 1) (add64 (pn_offset d) (pn_size d)) c1 = Some (c', 0)"
     "\<forall>k < length ds. objs c' (q (Suc ?i + k)) = Some (reg_obj (Suc ?i + k) (ds ! k))"
     "\<forall>p. p \<notin> q ` {Suc ?i..<Suc ?i + length ds} \<longrightarrow> objs c' p = objs c1 p"
     "mtd_idr c' = map Some ((ps @ [q ?i]) @ map q [Suc ?i..<Suc ?i + length ds])"
     "mtd_partitions c' = rev (map (\<lambda>k. (q (Suc ?i + k), master, pn_offset (ds ! k))) [0..<length ds]) @ mtd_partitions c1"
    by (auto simp: add.commute)
  have r: "[?i..<?i + length (d # ds)] = ?i # [Suc ?i..<Suc ?i + length ds]" by (simp add: upt_conv_Cons del: upt_Suc)
  have r0: "[0..<length (d # ds)] = 0 # map Suc [0..<length ds]" by (simp add: upt_conv_Cons map_Suc_upt del: upt_Suc)
  have "q ?i \<notin> q ` {Suc ?i..<Suc ?i + length ds}" using Cons.prems(4) by (simp add: inj_image_mem_iff)
  then have oi: "objs c' (q ?i) = Some (reg_obj ?i d)" using c'(3) c1(2) by simp
  have "objs c' (q (?i + k)) = Some (reg_obj (?i + k) ((d # ds) ! k))" if "k < length (d # ds)" for k
    using that oi c'(2) by (cases k) auto
  moreover have "objs c' p = objs c p" if "p \<notin> q ` {?i..<?i + length (d # ds)}" for p
  proof -
    have "p \<noteq> q ?i" "p \<notin> q ` {Suc ?i..<Suc ?i + length ds}" using that by auto
    then show ?thesis using c'(3) c1(2) by simp
  qed
  moreover have "mtd_idr c' = map Some (ps @ map q [?i..<?i + length (d # ds)])" unfolding r c'(4) by simp
  moreover have "mtd_partitions c' = rev (map (\<lambda>k. (q (?i + k), master, pn_offset ((d # ds) ! k))) [0..<length (d # ds)]) @ mtd_partitions c"
    unfolding r0 c'(5) c1(4) by (simp add: comp_def)
  ultimately show ?case unfolding st using c'(1) by blast
qed

section \<open>Looking up\<close>

lemma get_nm_found:
  assumes "core_ok c" "idr_find (mtd_idr c) i = Some p" "objs c p = Some a" "mtd_name (mo_info a) = name" "mo_owner_live a" "mo_get_device a = None"
    "\<And>j q b. j < i \<Longrightarrow> idr_find (mtd_idr c) j = Some q \<Longrightarrow> objs c q = Some b \<Longrightarrow> mtd_name (mo_info b) \<noteq> name"
  shows "get_mtd_device_nm name c = Some (upd_obj p (a\<lparr>mo_usecount := mo_usecount a + 1\<rparr>) c, Inr p)"
proof -
  let ?P = "\<lambda>p. mtd_name (mo_info (the (objs c p))) = name"
  have "find ?P (present (mtd_idr c)) = Some p"
  proof (cases "find ?P (present (mtd_idr c))")
    case None
    then show ?thesis using find_present_None [OF None assms(2)] assms(3,4) by simp
  next
    case (Some p')
    then obtain i' where i': "idr_find (mtd_idr c) i' = Some p'" "?P p'" "\<forall>j < i'. \<forall>q. idr_find (mtd_idr c) j = Some q \<longrightarrow> \<not> ?P q"
      using find_present_Some [OF Some] by blast
    obtain b where b: "objs c p' = Some b" using core_okD(1) [OF assms(1) i'(1)] by blast
    have "\<not> i' < i" using assms(7) [of i' p' b] i'(1,2) b by auto
    moreover have "\<not> i < i'" using i'(3) assms(2-4) by auto
    ultimately show ?thesis using Some i'(1) assms(2) by simp
  qed
  then have "get_mtd_device_nm name c = get_found (Some p) c"
    using mtd_search_eq [OF assms(1), of "\<lambda>_ o'. mtd_name (mo_info o') = name" 0] by (simp add: get_mtd_device_nm_def)
  then show ?thesis using assms(3,5,6) by (simp add: get_found_def get_mtd_ref_def)
qed

section \<open>The built-in table\<close>

lemma boot_aligned: "\<forall>d \<in> set boot_partitions. aligned_entry d"
  by (simp add: boot_partitions_def aligned_entry_def CHIP_def)

lemma length_boot: "length boot_partitions = 6"
  by (simp add: boot_partitions_def)

definition sf_answers :: "(nat \<Rightarrow> nat) \<Rightarrow> nat \<Rightarrow> add_answer" where
  "sf_answers q k = (Some (q k), [(True, False)], True)"

text \<open>The driver comes first: no device is in the table yet, no parser is there, and the allocator returns
  new structures, at \<open>master\<close> and at \<open>q 0\<close> to \<open>q 5\<close>.\<close>

definition sf_fresh :: "(nat \<Rightarrow> nat) \<Rightarrow> nat \<Rightarrow> 'n sf_scheme mtd_core \<Rightarrow> bool" where
  "sf_fresh q master c \<longleftrightarrow> core_ok c \<and> mtd_idr c = [] \<and> mtd_partitions c = [] \<and> inj q \<and> master \<notin> range q
     \<and> (\<forall>k < 6. objs c (q k) = None) \<and> objs c master = None \<and> part_parsers c = []"

lemma init_registers:
  assumes "sf_fresh q master c"
  shows "\<exists>c'. mtdsf_init_device (\<lambda>_. None) (sf_answers q) tries reg_ok master CHIP c = Some (c', 0) \<and> core_ok c'
     \<and> (\<forall>k < 6. objs c' (q k) = Some (reg_obj k (boot_partitions ! k))) \<and> objs c' master = Some (master_obj (mtdsf_device CHIP))
     \<and> mtd_idr c' = map (Some \<circ> q) [0..<6]
     \<and> mtd_partitions c' = rev (map (\<lambda>k. (q k, master, pn_offset (boot_partitions ! k))) [0..<6])"
proof -
  have f: "core_ok c" "mtd_idr c = []" "mtd_partitions c = []" "inj q" "master \<notin> range q" "\<And>k. k < 6 \<Longrightarrow> objs c (q k) = None" "objs c master = None"
    "part_parsers c = []" using assms by (simp_all add: sf_fresh_def)
  define c1 where "c1 = upd_obj master (master_obj (mtdsf_device CHIP)) c"
  have ok1: "core_ok c1" unfolding c1_def by (rule core_ok_free_upd [OF f(1), of master]) (use f(7) in \<open>auto simp: master_obj_def\<close>)
  have o1: "objs c1 master = Some (master_obj (mtdsf_device CHIP))" "mtd_idr c1 = map Some []" "mtd_partitions c1 = []"
    by (simp_all add: c1_def f)
  have p: "parse_mtd_partitions (\<lambda>_. None) (mtdsf_device CHIP) [''cmdlinepart''] 0 0 None c1 = (c1, 0, None)"
    using f(8) by (simp add: find_parser_def get_partition_parser_def c1_def)
  have j: "map (\<lambda>(k, p). (sf_answers q k, p)) (enumerate 0 boot_partitions) = sf_jobs q 0 boot_partitions"
    by (simp add: sf_jobs_def sf_answers_def)
  obtain c' where c': "add_mtd_partitions master (sf_jobs q 0 boot_partitions) 0 0 c1 = Some (c', 0)"
     "\<forall>k < 6. objs c' (q k) = Some (reg_obj k (boot_partitions ! k))" "\<forall>p. p \<notin> q ` {0..<6} \<longrightarrow> objs c' p = objs c1 p"
     "mtd_idr c' = map Some (map q [0..<6])" "mtd_partitions c' = rev (map (\<lambda>k. (q k, master, pn_offset (boot_partitions ! k))) [0..<6])"
    using add_aligned [OF boot_aligned o1(1,2) f(4,5), of 0] o1(3) by (auto simp: length_boot)
  have "mtdsf_init_device (\<lambda>_. None) (sf_answers q) tries reg_ok master CHIP c = Some (c', 0)"
    using c'(1) j by (simp add: mtdsf_init_device_def c1_def [symmetric] p mtd_device_register_def del: parse_mtd_partitions.simps)
  moreover have "core_ok c'"
  proof -
    have "can_divide c1 master" using o1(1) by (simp add: can_divide_def master_obj_def master_ok_def mtdsf_device_def CHIP_def)
    moreover have "jobs_ok c1 (sf_jobs q 0 boot_partitions)"
    proof -
      have ptr: "job_ptrs (sf_jobs q 0 boot_partitions) = map q [0..<6]"
        by (simp add: job_ptrs_def sf_jobs_def boot_partitions_def upt_rec [of _ 6])
      have "objs c1 (q k) = None" if "k < 6" for k using f(5,6) that by (auto simp: c1_def)
      moreover have "\<forall>d \<in> set boot_partitions. pn_size d < 2 ^ 63" by (simp add: boot_partitions_def)
      ultimately show ?thesis using f(4) unfolding jobs_ok_def ptr
        by (auto simp: distinct_map inj_on_def sf_jobs_def tries_ok_def in_set_enumerate_eq)
    qed
    ultimately show ?thesis using add_partitions_spec [OF ok1, of master "sf_jobs q 0 boot_partitions" 0 0] c'(1) by auto
  qed
  moreover have "objs c' master = Some (master_obj (mtdsf_device CHIP))" proof -
    have "master \<notin> q ` {0..<6}" using f(5) by auto
    then show ?thesis using c'(3) o1(1) by simp
  qed
  ultimately show ?thesis using c' by auto
qed

lemma env_entries:
  "pn_offset (boot_partitions ! 3) = env_offs 0" "pn_size (boot_partitions ! 3) = MTDSF_ERASE_SIZE"
  "pn_offset (boot_partitions ! 4) = env_offs 1" "pn_size (boot_partitions ! 4) = MTDSF_ERASE_SIZE"
  by (simp_all add: boot_partitions_def env_offs_def MTDSF_ERASE_SIZE_def)

lemma env_names:
  "pn_name (boot_partitions ! 3) = SF_UBOOT_ENV1" "pn_name (boot_partitions ! 4) = SF_UBOOT_ENV2"
  "k < 3 \<Longrightarrow> pn_name (boot_partitions ! k) \<noteq> SF_UBOOT_ENV1" "k < 4 \<Longrightarrow> pn_name (boot_partitions ! k) \<noteq> SF_UBOOT_ENV2"
proof -
  have "k = 0 \<or> k = 1 \<or> k = 2" if "k < 3" using that by auto
  then show "k < 3 \<Longrightarrow> pn_name (boot_partitions ! k) \<noteq> SF_UBOOT_ENV1"
    by (auto simp: boot_partitions_def SF_UBOOT_ENV1_def)
  have "k = 0 \<or> k = 1 \<or> k = 2 \<or> k = 3" if "k < 4" using that by auto
  then show "k < 4 \<Longrightarrow> pn_name (boot_partitions ! k) \<noteq> SF_UBOOT_ENV2"
    by (auto simp: boot_partitions_def SF_UBOOT_ENV2_def)
qed (simp_all add: boot_partitions_def SF_UBOOT_ENV1_def SF_UBOOT_ENV2_def)

lemma boot_tiles:
  "\<forall>a < CHIP. \<exists>!k. k < 6 \<and> pn_offset (boot_partitions ! k) \<le> a \<and> a < pn_offset (boot_partitions ! k) + pn_size (boot_partitions ! k)"
proof (intro allI impI)
  fix a assume a: "a < CHIP"
  define lo where "lo k = pn_offset (boot_partitions ! k)" for k
  define hi where "hi k = pn_offset (boot_partitions ! k) + pn_size (boot_partitions ! k)" for k
  have v: "lo 0 = 0" "hi 0 = 0xD00000" "lo 1 = 0xD00000" "hi 1 = 0xF80000" "lo 2 = 0xF80000" "hi 2 = 0xFD0000"
      "lo 3 = 0xFD0000" "hi 3 = 0xFE0000" "lo 4 = 0xFE0000" "hi 4 = 0xFF0000" "lo 5 = 0xFF0000" "hi 5 = 0x1000000"
    by (simp_all add: lo_def hi_def boot_partitions_def)
  have six: "k < 6 \<longleftrightarrow> k = 0 \<or> k = 1 \<or> k = 2 \<or> k = 3 \<or> k = 4 \<or> k = (5 :: nat)" for k by auto
  have below: "hi k \<le> lo l" if "k < l" "l < 6" for k l
  proof -
    have "l = 1 \<or> l = 2 \<or> l = 3 \<or> l = 4 \<or> l = 5" "k = 0 \<or> k = 1 \<or> k = 2 \<or> k = 3 \<or> k = 4" using that by auto
    with that(1) show ?thesis by (elim disjE) (simp_all add: v del: One_nat_def)
  qed
  have "a < 0x1000000" using a by (simp add: CHIP_def)
  then consider "a < 0xD00000" | "0xD00000 \<le> a \<and> a < 0xF80000" | "0xF80000 \<le> a \<and> a < 0xFD0000"
    | "0xFD0000 \<le> a \<and> a < 0xFE0000" | "0xFE0000 \<le> a \<and> a < 0xFF0000" | "0xFF0000 \<le> a \<and> a < 0x1000000" by linarith
  then have "\<exists>k. k < 6 \<and> lo k \<le> a \<and> a < hi k"
  proof cases
    case 1 then show ?thesis by (intro exI [of _ 0]) (simp add: v)
  next
    case 2 then show ?thesis by (intro exI [of _ 1]) (simp only: v, simp)
  next
    case 3 then show ?thesis by (intro exI [of _ 2]) (simp add: v)
  next
    case 4 then show ?thesis by (intro exI [of _ 3]) (simp add: v)
  next
    case 5 then show ?thesis by (intro exI [of _ 4]) (simp add: v)
  next
    case 6 then show ?thesis by (intro exI [of _ 5]) (simp add: v)
  qed
  moreover have "k = l" if "k < 6 \<and> lo k \<le> a \<and> a < hi k" "l < 6 \<and> lo l \<le> a \<and> a < hi l" for k l
    using that below [of k l] below [of l k] by (cases k l rule: linorder_cases) auto
  ultimately have "\<exists>!k. k < 6 \<and> lo k \<le> a \<and> a < hi k" by blast
  then show "\<exists>!k. k < 6 \<and> pn_offset (boot_partitions ! k) \<le> a \<and> a < pn_offset (boot_partitions ! k) + pn_size (boot_partitions ! k)"
    by (simp only: lo_def hi_def)
qed

text \<open>A partition of the built-in table that is held \<open>n\<close> times.\<close>

definition used_obj :: "int \<Rightarrow> nat \<Rightarrow> 'n sf_scheme mtd_obj" where
  "used_obj n k = (reg_obj k (boot_partitions ! k))\<lparr>mo_usecount := n\<rparr>"

lemma used_obj_sel [simp]:
  "mtd_name (mo_info (used_obj n k)) = pn_name (boot_partitions ! k)" "mo_registered (used_obj n k)" "mo_owner_live (used_obj n k)"
  "mo_get_device (used_obj n k) = None" "mo_usecount (used_obj n k) = n" "(used_obj n k)\<lparr>mo_usecount := n'\<rparr> = used_obj n' k"
  "obj_index (used_obj n k) = k"
  by (simp_all add: used_obj_def obj_index_def numbered_def)

lemma reg_used: "reg_obj k (boot_partitions ! k) = used_obj 0 k"
  by (simp add: used_obj_def)

lemma idr_find_boot: "idr_find (map (Some \<circ> q) [0..<6]) j = (if j < 6 then Some (q j) else None)"
  by (simp add: idr_find_def)

lemma lookup_boot:
  assumes "core_ok c" "mtd_idr c = map (Some \<circ> q) [0..<6]" "\<forall>k < 6. objs c (q k) = Some (used_obj (n k) k)"
    and "i < 6" "\<And>k. k < i \<Longrightarrow> pn_name (boot_partitions ! k) \<noteq> pn_name (boot_partitions ! i)" "0 \<le> n i"
  shows "get_mtd_device_nm (pn_name (boot_partitions ! i)) c = Some (upd_obj (q i) (used_obj (n i + 1) i) c, Inr (q i))
     \<and> core_ok (upd_obj (q i) (used_obj (n i + 1) i) c)"
proof
  have "get_mtd_device_nm (pn_name (boot_partitions ! i)) c =
      Some (upd_obj (q i) ((used_obj (n i) i)\<lparr>mo_usecount := mo_usecount (used_obj (n i) i :: 'a sf_scheme mtd_obj) + 1\<rparr>) c, Inr (q i))"
  proof (rule get_nm_found [OF assms(1), of i])
    fix j p b assume j: "j < i" "idr_find (mtd_idr c) j = Some p" "objs c p = Some b"
    then have "b = used_obj (n j) j" using assms(2-4) by (auto simp: idr_find_boot)
    then show "mtd_name (mo_info b) \<noteq> pn_name (boot_partitions ! i)" using assms(5) [OF j(1)] by simp
  qed (use assms(2-4) in \<open>simp_all add: idr_find_boot\<close>)
  then show "get_mtd_device_nm (pn_name (boot_partitions ! i)) c = Some (upd_obj (q i) (used_obj (n i + 1) i) c, Inr (q i))" by simp
  show "core_ok (upd_obj (q i) (used_obj (n i + 1) i) c)"
    by (rule core_ok_upd [OF assms(1), of _ "used_obj (n i) i"]) (use assms(3,4,6) in simp_all)
qed

end
