(* ===== verification/MtdProps.thy ===== *)
theory MtdProps
  imports WmtSfParts WmtEnvProps
begin

text \<open>
  Properties of the table of MTD devices and of partitions, and how the SPI flash driver, the table and
  the environment fit together.
\<close>

section \<open>The table\<close>

text \<open>
  C14. However drivers and users call the MTD core, every operation returns, and afterwards a device has
  one number and a number one device; a walk over the table ends and meets each registered device
  exactly once.
\<close>

theorem mtd_table_safe:
  assumes "ok_run core_exec core_op_ok ops (empty_core f)"
  shows "\<exists>c ps. table_run core_exec ops (empty_core f) = Some c \<and> core_ok c
     \<and> (\<forall>i p. idr_find (mtd_idr c) i = Some p \<longleftrightarrow> (\<exists>m. core_entry c p = Some m \<and> mtd_index m = i))
     \<and> mtd_visit c 0 = Some ps \<and> distinct ps \<and> set ps = {p. core_entry c p \<noteq> None}"
proof -
  obtain c where c: "table_run core_exec ops (empty_core f) = Some c" "core_ok c" using mtdtab.run_inv [OF empty_core_ok assms] by blast
  have "idr_find (mtd_idr c) i = Some p \<longleftrightarrow> (\<exists>m. core_entry c p = Some m \<and> mtd_index m = i)" for i p
    using core_okD(1,4) [OF c(2)] by (fastforce simp: core_entry_def obj_index_def split: option.splits if_splits)
  with c visit_once [OF c(2)] show ?thesis by blast
qed

definition demo_ops :: "sf core_op list" where
  "demo_ops = [New 7 (master_obj (mtdsf_device CHIP)), Add [(True, False)] True 7, User 1, GetNm ''mtdsf device'']"

lemma demo_ops_ok: "ok_run core_exec core_op_ok demo_ops (empty_core f)"
  by (simp add: demo_ops_def tries_ok_def mtdsf_device_def empty_core_def)

theorem mtd_table_safe_witness:
  "\<exists>c ps. table_run core_exec demo_ops (empty_core undefined) = Some c \<and> core_ok c \<and> mtd_visit c 0 = Some ps \<and> distinct ps"
  using mtd_table_safe [OF demo_ops_ok] by blast

text \<open>
  C15. A device that was looked up by name is the one with the lowest number of that name, and as long
  as its user has not given it back it stays in the table under its number, whatever others do: they
  may take references to it and give back as many as they hold, those from before included; an attempt to
  delete it is refused with \<^verbatim>\<open>-EBUSY\<close>.
\<close>

theorem mtd_held_stays:
  assumes "core_ok c" "get_mtd_device_nm name c = Some (c1, Inr p)" "ok_run core_exec core_op_ok ops c1"
    "fair_run core_exec op_takes op_drops p (core_uses c p) ops c1"
  shows "\<exists>m c2 c3. core_entry c p = Some m \<and> mtd_name m = name
     \<and> (\<forall>j < mtd_index m. \<forall>q. idr_find (mtd_idr c) j = Some q \<longrightarrow> mtd_name (mo_info (the (objs c q))) \<noteq> name)
     \<and> table_run core_exec ops c1 = Some c2 \<and> core_entry c2 p = Some m \<and> idr_find (mtd_idr c2) (mtd_index m) = Some p
     \<and> del_mtd_device p c2 = Some (c3, eret EBUSY) \<and> mtd_idr c3 = mtd_idr c2"
proof -
  obtain c' r where g: "get_mtd_device_nm name c = Some (c', r)" "core_ok c'"
     "case r of Inl e \<Rightarrow> c' = c
        | Inr p \<Rightarrow> \<exists>a. objs c p = Some a \<and> mo_registered a \<and> mtd_name (mo_info a) = name
            \<and> objs c' = (objs c)(p \<mapsto> a\<lparr>mo_usecount := mo_usecount a + 1\<rparr>)
            \<and> (\<forall>j < obj_index a. \<forall>q. idr_find (mtd_idr c) j = Some q \<longrightarrow> mtd_name (mo_info (the (objs c q))) \<noteq> name)"
    using get_nm_spec [OF assms(1), of name] by blast
  then obtain a where a: "core_ok c1" "objs c p = Some a" "mo_registered a" "mtd_name (mo_info a) = name"
      "objs c1 = (objs c)(p \<mapsto> a\<lparr>mo_usecount := mo_usecount a + 1\<rparr>)"
      "\<forall>j < obj_index a. \<forall>q. idr_find (mtd_idr c) j = Some q \<longrightarrow> mtd_name (mo_info (the (objs c q))) \<noteq> name"
    using assms(2) by auto
  have e: "core_entry c p = Some (mo_info a)" "core_entry c1 p = Some (mo_info a)" "0 \<le> core_uses c p" "core_uses c p < core_uses c1 p"
    using a core_okD(2) [OF assms(1) a(2)] by (auto simp: core_entry_def core_uses_def)
  obtain c2 where c2: "table_run core_exec ops c1 = Some c2" "core_ok c2" "core_entry c2 p = Some (mo_info a)" "0 < core_uses c2 p"
    using mtdtab.run_keeps [OF a(1) assms(3) e(2-4) assms(4)] by auto
  then obtain b where b: "objs c2 p = Some b" "mo_registered b" "mo_info b = mo_info a" "0 < mo_usecount b"
    by (auto simp: core_entry_def core_uses_def split: option.splits if_splits)
  have i: "idr_find (mtd_idr c2) (mtd_index (mo_info a)) = Some p" using core_okD(4) [OF c2(2) b(1,2)] b(3) by (simp add: obj_index_def)
  obtain c3 r3 where "del_mtd_device p c2 = Some (c3, r3)" "mtd_idr c3 = mtd_idr c2" "r3 = eret EBUSY"
    using del_device_spec [OF c2(2) b(1)] b(2,4) by auto
  then show ?thesis using e(1) a(4,6) c2 i by (auto simp: obj_index_def)
qed

theorem mtd_held_stays_witness:
  "\<exists>(c :: sf mtd_core) c1 p c2 c3. core_ok c \<and> core_uses c p = 1 \<and> get_mtd_device_nm ''mtdsf device'' c = Some (c1, Inr p)
     \<and> table_run core_exec [Put p] c1 = Some c2 \<and> del_mtd_device p c2 = Some (c3, eret EBUSY)"
proof -
  define a where "a = (number_obj 0 (default_bdi (master_obj (mtdsf_device CHIP :: sf mtd_info))))\<lparr>mo_registered := True, mo_usecount := 1\<rparr>"
  define c where "c = (empty_core undefined)\<lparr>objs := [7 \<mapsto> a], mtd_idr := [Some 7]\<rparr>"
  have s: "mo_registered a" "mo_usecount a = 1" "obj_index a = 0" "mtd_name (mo_info a) = ''mtdsf device''" "mo_owner_live a" "mo_get_device a = None"
    by (simp_all add: a_def obj_index_def numbered_def mtdsf_device_def) (simp_all add: number_obj_def default_bdi_def master_obj_def Let_def)
  have ok: "core_ok c" using s by (auto simp: core_ok_def c_def empty_core_def idr_find_def split: if_splits)
  have u: "core_uses c 7 = 1" using s(2) by (simp add: core_uses_def c_def)
  have g: "get_mtd_device_nm ''mtdsf device'' c = Some (upd_obj 7 (a\<lparr>mo_usecount := mo_usecount a + 1\<rparr>) c, Inr 7)"
    by (rule get_nm_found [OF ok, of 0]) (use s in \<open>auto simp: c_def\<close>)
  have "ok_run core_exec core_op_ok [Put 7] (upd_obj 7 (a\<lparr>mo_usecount := mo_usecount a + 1\<rparr>) c)"
    "fair_run core_exec op_takes op_drops 7 (core_uses c 7) [Put 7] (upd_obj 7 (a\<lparr>mo_usecount := mo_usecount a + 1\<rparr>) c)"
    using s(2) u by simp_all
  from mtd_held_stays [OF ok g this] ok g u show ?thesis by blast
qed

section \<open>Partitions\<close>

text \<open>
  C27. A partition lies inside of its master, and a writeable one starts and ends at an erase
  block, whatever its description asks for: an offset beyond the end gives an empty partition, one that
  is too long is cut off, and one that is not aligned becomes read-only. Creating it ends.
\<close>

theorem allocate_partition_in_master:
  assumes "master_ok m" "pn_size part < 2 ^ 63" "0 < mtd_erasesize m"
  shows "\<exists>p. allocate_partition f True m part partno cur_offset = Some (Inr p) \<and> pt_offset p + mtd_size (pt_mtd p) \<le> mtd_size m
     \<and> (writeable (mtd_flags (pt_mtd p)) \<longrightarrow> mtd_size (pt_mtd p) = 0 \<or>
         pt_offset p mod mtd_erasesize m = 0 \<and> mtd_size (pt_mtd p) mod mtd_erasesize m = 0)"
proof -
  obtain p where p: "allocate_partition f True m part partno cur_offset = Some (Inr p)" using allocate_ok [OF assms(1,2)] by blast
  obtain offset psize es flags where g: "part_geometry m part cur_offset = Some (offset, psize, es, flags)" "offset + psize \<le> mtd_size m"
      "psize = 0 \<or> es = mtd_erasesize m" "writeable flags \<longrightarrow> psize = 0 \<or> mtd_mod_by_eb offset es = 0 \<and> mtd_mod_by_eb psize es = 0"
    using geometry_cases [of m part cur_offset] assms(1,2) by (auto simp: master_ok_def)
  with allocate_shape [OF p] p assms(3) show ?thesis
    by (auto simp: mtd_mod_by_eb_def)
qed

lemma sf_master_ok: "master_ok (mtdsf_device CHIP)" "mtd_erasesize (mtdsf_device CHIP) = 0x10000" "mtd_size (mtdsf_device CHIP) = CHIP"
  by (simp_all add: master_ok_def mtdsf_device_def CHIP_def MTDSF_ERASE_SIZE_def)

theorem allocate_partition_in_master_witness:
  "\<exists>p. allocate_partition undefined True (mtdsf_device CHIP :: sf mtd_info)
       \<lparr>pn_name = ''x'', pn_size = 0x20000, pn_offset = 0x10000, pn_mask_flags = 0\<rparr> 6 0 = Some (Inr p) \<and>
     pt_offset p + mtd_size (pt_mtd p) \<le> CHIP"
  using allocate_partition_in_master [OF sf_master_ok(1), of "\<lparr>pn_name = ''x'', pn_size = 0x20000, pn_offset = 0x10000, pn_mask_flags = 0\<rparr>" undefined 6 0]
  by (auto simp: sf_master_ok)



text \<open>
  C40. \<^verbatim>\<open>mtd_add_partition\<close> is to refuse a partition that overlaps an existing one, but looks
  only at whether the new one starts or ends inside of it. A new partition that contains an existing one
  is accepted and registered, and the same bytes are then in two partitions.
\<close>

theorem mtd_add_partition_overlaps:
  assumes "core_ok c" "can_divide c master" "objs c master = Some m" "mtd_partitions c = [(q, master, offs)]" "objs c q = Some b"
    and "start < offs" "offs + mtd_size (mo_info b) \<le> start + len" "start + len \<le> mtd_size (mo_info m)" "0 < len" "objs c p = None"
  shows "\<exists>c' new. mtd_add_partition (Some p, [(True, False)], True) master name start len c = Some (c', 0)
     \<and> mtd_partitions c' = [(p, master, start), (q, master, offs)] \<and> objs c' q = Some b \<and> core_entry c' p = Some new \<and> mtd_size new = len"
proof -
  let ?d = "\<lparr>pn_name = name, pn_size = len, pn_offset = start, pn_mask_flags = 0\<rparr>"
  have m: "master_ok (mo_info m)" "mtd_writesize (mo_info m) \<noteq> 0" "mtd_size (mo_info m) < 2 ^ 63" using assms(2,3) by (auto simp: can_divide_def master_ok_def)
  have l: "start \<noteq> MTDPART_OFS_APPEND" "start \<noteq> MTDPART_OFS_NXTBLK" "len \<noteq> MTDPART_SIZ_FULL" "len < 2 ^ 63"
    using assms(8,9) m(3) by (auto simp: MTDPART_OFS_APPEND_def MTDPART_OFS_NXTBLK_def MTDPART_SIZ_FULL_def)
  have e: "add64 start len = start + len" "add64 offs (mtd_size (mo_info b)) = offs + mtd_size (mo_info b)"
    using assms(7,8) m(3) by (simp_all add: add64_id)
  obtain s where s: "allocate_partition (mtd_flash c) True (mo_info m) ?d (-1) start = Some (Inr s)" using allocate_ok [OF m(1), of ?d "mtd_flash c" "-1" start] l(4) by auto
  have o: "part_offset (mo_info m) ?d start = start" using l by (simp add: part_offset_def)
  have g: "\<exists>es flags. part_geometry (mo_info m) ?d start = Some (start, len, es, flags)"
    unfolding part_geometry_def Let_def o using assms(8,9) l e m(1) by (auto simp: master_ok_def)
  then have sz: "pt_offset s = start" "mtd_size (pt_mtd s) = len" "mtd_writesize (pt_mtd s) \<noteq> 0" using allocate_shape [OF s] m(2) by auto
  have cf: "any_conflict c master start (add64 start len) (mtd_partitions c) = Some False"
    using assms(4-7) e by (auto simp: part_conflict_def)
  have pm: "p \<noteq> master" using assms(3,10) by auto
  obtain c' where c': "link_partition [(True, False)] True p master m s c = Some c'" "\<forall>q. q \<noteq> p \<longrightarrow> objs c' q = objs c q"
      "mtd_partitions c' = (p, master, pt_offset s) # mtd_partitions c"
    using link_spec [OF assms(1,10) pm sz(3), of "[(True, False)]" True m] by (auto simp: tries_ok_def)
  have "mtd_add_partition (Some p, [(True, False)], True) master name start len c = Some (c', 0)"
    using l assms(3,9) s cf c'(1) by (simp add: mtd_add_partition_def)
  moreover have "\<exists>new. core_entry c' p = Some new \<and> mtd_size new = len"
  proof -
    obtain ids i where "idr_get_new (mtd_idr c) p = (ids, i)" by force
    then have "objs c' p = Some ((number_obj i (default_bdi (slave_obj m (pt_mtd s))))\<lparr>mo_registered := True\<rparr>)"
      using c'(1) sz(3) by (auto simp: link_partition_def add_mtd_device_def slave_obj_def Let_def)
    then show ?thesis using sz(2) by (simp add: core_entry_def slave_obj_def)
  qed
  moreover have "objs c' q = Some b" using c'(2) assms(5,10) by (cases "q = p") auto
  ultimately show ?thesis using c'(3) sz(1) assms(4) by auto
qed

theorem mtd_add_partition_overlaps_witness:
  "\<exists>(c :: sf mtd_core) c' new. mtd_add_partition (Some 3, [(True, False)], True) 0 ''all'' 0 CHIP c = Some (c', 0)
     \<and> mtd_partitions c = [(1, 0, 0x10000)] \<and> mtd_partitions c' = [(3, 0, 0), (1, 0, 0x10000)] \<and> core_entry c' 3 = Some new \<and> mtd_size new = CHIP"
proof -
  define c where "c = (empty_core undefined :: sf mtd_core)\<lparr>objs := [0 \<mapsto> master_obj (mtdsf_device CHIP), 1 \<mapsto> master_obj (mtdsf_device 0x10000)],
     mtd_partitions := [(1, 0, 0x10000)]\<rparr>"
  have ok: "core_ok c" by (auto simp: c_def core_ok_def empty_core_def split: if_splits)
  have d: "can_divide c 0" using sf_master_ok by (auto simp: can_divide_def c_def mtdsf_device_def)
  have o: "objs c 0 = Some (master_obj (mtdsf_device CHIP))" "mtd_partitions c = [(1, 0, 0x10000)]" "objs c 1 = Some (master_obj (mtdsf_device 0x10000))" "objs c 3 = None"
    by (simp_all add: c_def empty_core_def)
  from mtd_add_partition_overlaps [OF ok d o(1,2,3) _ _ _ _ o(4), of 0 CHIP "''all''"] o(2) show ?thesis
    by (auto simp: mtdsf_device_def CHIP_def)
qed

section \<open>The SPI flash\<close>

text \<open>
  C28. The built-in table divides the SPI flash of 16 megabytes: when the driver registers it as the first
  MTD devices, six writeable partitions with the numbers 0 to 5 come into being, and every byte of the
  chip belongs to exactly one of them.
\<close>

theorem sf_partitions_tile:
  assumes "sf_fresh q master c"
  shows "\<exists>c' off psize. mtdsf_init_device (\<lambda>_. None) (sf_answers q) tries reg_ok master CHIP c = Some (c', 0)
     \<and> mtd_partitions c' = rev (map (\<lambda>k. (q k, master, off k)) [0..<6])
     \<and> (\<forall>k < 6. \<exists>m. core_entry c' (q k) = Some m \<and> mtd_index m = k \<and> mtd_size m = psize k \<and> writeable (mtd_flags m))
     \<and> (\<forall>a < CHIP. \<exists>!k. k < 6 \<and> off k \<le> a \<and> a < off k + psize k)"
proof -
  obtain c' where c': "mtdsf_init_device (\<lambda>_. None) (sf_answers q) tries reg_ok master CHIP c = Some (c', 0)"
     "\<forall>k < 6. objs c' (q k) = Some (reg_obj k (boot_partitions ! k))"
     "mtd_partitions c' = rev (map (\<lambda>k. (q k, master, pn_offset (boot_partitions ! k))) [0..<6])"
    using init_registers [OF assms] by blast
  have e: "\<forall>k < 6. \<exists>m. core_entry c' (q k) = Some m \<and> mtd_index m = k \<and> mtd_size m = pn_size (boot_partitions ! k) \<and> writeable (mtd_flags m)"
    using c'(2) by (auto simp: core_entry_def numbered_def cap_writeable)
  show ?thesis
    by (rule exI [of _ c'], rule exI [of _ "\<lambda>k. pn_offset (boot_partitions ! k)"], rule exI [of _ "\<lambda>k. pn_size (boot_partitions ! k)"])
      (intro conjI c'(1,3) e boot_tiles)
qed

theorem sf_partitions_tile_witness:
  "sf_fresh Suc 0 (empty_core undefined :: sf mtd_core) \<and> (\<exists>c' m. mtdsf_init_device (\<lambda>_. None) (sf_answers Suc) [] True 0 CHIP (empty_core undefined :: sf mtd_core) = Some (c', 0)
     \<and> core_entry c' 4 = Some m \<and> mtd_index m = 3 \<and> writeable (mtd_flags m))"
proof -
  have f: "sf_fresh Suc 0 (empty_core undefined :: sf mtd_core)" using empty_core_ok by (simp add: sf_fresh_def) (simp add: empty_core_def)
  obtain c' :: "sf mtd_core" where c': "mtdsf_init_device (\<lambda>_. None) (sf_answers Suc) [] True 0 CHIP (empty_core undefined) = Some (c', 0)"
     "\<forall>k < 6. \<exists>m. core_entry c' (Suc k) = Some m \<and> mtd_index m = k \<and> writeable (mtd_flags m)"
    using sf_partitions_tile [OF f, of "[]" True] by blast
  from c'(2) [rule_format, of 3] have "\<exists>m. core_entry c' 4 = Some m \<and> mtd_index m = 3 \<and> writeable (mtd_flags m)" by simp
  with f c'(1) show ?thesis by blast
qed

text \<open>
  C13. The flash driver, the table of devices and the environment fit together: once the driver has
  registered its built-in table, the lookups by name that the environment makes when it starts find the
  two partitions that it keeps its copies in, so that the board is of the kind that the theorems about the
  environment assume. The environment looks the first one up twice and never gives a device back, so
  that neither can be deleted any more.
\<close>

theorem sf_env_devices_found:
  assumes "sf_fresh q master c" "strap bd AND 6 = 0" "kmalloc_buf bd = Some buf" "length buf = MTDSF_ERASE_SIZE"
  shows "\<exists>c1 c2 c3 c4 a b. mtdsf_init_device (\<lambda>_. None) (sf_answers q) tries reg_ok master CHIP c = Some (c1, 0)
     \<and> get_mtd_device_nm SF_UBOOT_ENV1 c1 = Some (c2, Inr (q 3)) \<and> get_mtd_device_nm SF_UBOOT_ENV1 c2 = Some (c3, Inr (q 3))
     \<and> get_mtd_device_nm SF_UBOOT_ENV2 c3 = Some (c4, Inr (q 4))
     \<and> sf_board (bd\<lparr>dev_env1 := core_entry c4 (q 3), dev_env2 := core_entry c4 (q 4)\<rparr>)
     \<and> del_mtd_device (q 3) c4 = Some (a, eret EBUSY) \<and> del_mtd_device (q 4) c4 = Some (b, eret EBUSY)"
proof -
  obtain c1 where c1: "mtdsf_init_device (\<lambda>_. None) (sf_answers q) tries reg_ok master CHIP c = Some (c1, 0)" "core_ok c1"
     "\<forall>k < 6. objs c1 (q k) = Some (reg_obj k (boot_partitions ! k))" "mtd_idr c1 = map (Some \<circ> q) [0..<6]"
    using init_registers [OF assms(1)] by blast
  have inj: "q i = q j \<longleftrightarrow> i = j" for i j using assms(1) by (auto simp: sf_fresh_def dest: injD)
  define c2 where "c2 = upd_obj (q 3) (used_obj 1 3) c1"
  define c3 where "c3 = upd_obj (q 3) (used_obj 2 3) c2"
  define c4 where "c4 = upd_obj (q 4) (used_obj 1 4) c3"
  have o: "\<forall>k < 6. objs c1 (q k) = Some (used_obj 0 k)" "\<forall>k < 6. objs c2 (q k) = Some (used_obj (if k = 3 then 1 else 0) k)"
      "\<forall>k < 6. objs c3 (q k) = Some (used_obj (if k = 3 then 2 else 0) k)"
      "\<forall>k < 6. objs c4 (q k) = Some (used_obj (if k = 3 then 2 else if k = 4 then 1 else 0) k)"
    using c1(3) by (auto simp: c2_def c3_def c4_def inj reg_used)
  have i: "mtd_idr c2 = map (Some \<circ> q) [0..<6]" "mtd_idr c3 = map (Some \<circ> q) [0..<6]" "mtd_idr c4 = map (Some \<circ> q) [0..<6]"
    using c1(4) by (simp_all add: c2_def c3_def c4_def)
  have "get_mtd_device_nm SF_UBOOT_ENV1 c1 = Some (c2, Inr (q 3)) \<and> core_ok c2"
    using lookup_boot [OF c1(2,4) o(1), of 3] by (simp add: c2_def env_names)
  moreover from this have "get_mtd_device_nm SF_UBOOT_ENV1 c2 = Some (c3, Inr (q 3)) \<and> core_ok c3"
    using lookup_boot [OF _ i(1) o(2), of 3] by (simp add: c3_def env_names)
  moreover from this have "get_mtd_device_nm SF_UBOOT_ENV2 c3 = Some (c4, Inr (q 4))"
    using lookup_boot [OF _ i(2) o(3), of 4] by (simp add: c4_def env_names)
  moreover have "core_entry c4 (q 3) = Some (env_dev 0)" "core_entry c4 (q 4) = Some (env_dev 1)"
    using o(4) by (simp_all add: core_entry_def) (simp_all add: used_obj_def env_dev_def env_entries)
  moreover have "\<exists>a. del_mtd_device (q k) c4 = Some (a, eret EBUSY)" if "k = 3 \<or> k = 4" for k
    using o(4) that by (auto simp: del_mtd_device_def i idr_find_boot)
  ultimately show ?thesis using c1(1) assms(2-4) by (auto simp: sf_board_def)
qed

definition demo_start :: "sf mtd_core" where
  "demo_start = empty_core undefined"

theorem sf_env_devices_found_witness:
  "\<exists>(bd :: unit board) c1 c2 c3 c4. mtdsf_init_device (\<lambda>_. None) (sf_answers Suc) [] True 0 CHIP demo_start = Some (c1, 0)
     \<and> get_mtd_device_nm SF_UBOOT_ENV1 c1 = Some (c2, Inr 4) \<and> get_mtd_device_nm SF_UBOOT_ENV1 c2 = Some (c3, Inr 4)
     \<and> get_mtd_device_nm SF_UBOOT_ENV2 c3 = Some (c4, Inr 5) \<and> sf_board bd"
proof -
  have f: "sf_fresh Suc 0 demo_start" using empty_core_ok by (simp add: sf_fresh_def demo_start_def) (simp add: empty_core_def)
  define bd where "bd = (undefined :: unit board)\<lparr>strap := 0, kmalloc_buf := Some (replicate MTDSF_ERASE_SIZE 0)\<rparr>"
  have b: "strap bd AND 6 = 0" "kmalloc_buf bd = Some (replicate MTDSF_ERASE_SIZE 0)" "length (replicate MTDSF_ERASE_SIZE (0 :: int)) = MTDSF_ERASE_SIZE"
    by (simp_all add: bd_def)
  from sf_env_devices_found [OF f b, of "[]" True] show ?thesis by (simp add: numeral_eq_Suc) blast
qed

section \<open>Helpers for clients\<close>

text \<open>Writing several buffers stores them one behind the other, as one write of all of them would.\<close>

lemma writev_run:
  assumes "reg_sf s" "sf_ready s" "to + length (concat vs) \<le> CHIP" "0 \<le> tot" "tot + int (length (concat vs)) < 2 ^ 32"
  shows "\<exists>s'. writev_loop (mtdsf_device CHIP) vs to tot 0 s = Some (s', 0, tot + int (length (concat vs)))
     \<and> sf_mem s' = program (sf_mem s) to (concat vs)"
  using assms
proof (induction vs arbitrary: to tot s)
  case (Cons v vs)
  show ?case
  proof (cases "v = []")
    case False
    obtain t where t: "spi_flash_sector_write s to (length v) v = Some (t, int (length v))" "sf_frame s t" "sf_mem t = program (sf_mem s) to v"
      using spi_flash_sector_write_spec [OF Cons.prems(1), of "length v" v to] Cons.prems(2) by auto
    have w: "mtd_write (mtdsf_device CHIP) s to (length v) v = Some (t, 0, int (length v))"
      using t(1) Cons.prems(3) by (simp add: mtdsf_device_def sf_write_def)
    have r: "reg_sf t" "sf_ready t" using Cons.prems(1,2) t(2) sf_ready_frame [OF t(2)] by (simp_all add: sf_frame_def)
    have u: "u32 (tot + int (length v)) = tot + int (length v)" using Cons.prems(4,5) by (simp add: u32_id)
    from Cons.IH [OF r, of "to + length v" "tot + int (length v)"] Cons.prems(3-5) obtain s' where
      "writev_loop (mtdsf_device CHIP) vs (to + length v) (tot + int (length v)) 0 t = Some (s', 0, tot + int (length v) + int (length (concat vs)))"
      "sf_mem s' = program (sf_mem t) (to + length v) (concat vs)" by auto
    then show ?thesis using False w u t(3) by (auto simp: program_append add.assoc)
  qed (use Cons in simp)
qed (auto simp: program_Nil)

theorem default_mtd_writev_concat:
  assumes "reg_sf s" "sf_ready s" "to + length (concat vs) \<le> CHIP"
  shows "\<exists>s'. default_mtd_writev (mtdsf_device CHIP) vs to s = Some (s', 0, int (length (concat vs)))
     \<and> sf_mem s' = program (sf_mem s) to (concat vs)"
  using writev_run [OF assms, of 0] assms(3) by (simp add: default_mtd_writev_def CHIP_def)

text \<open>\<^verbatim>\<open>mtd_kmalloc_up_to\<close> ends for a write size that is a power of two.\<close>

lemma div_ge0: "0 \<le> x \<Longrightarrow> 0 \<le> (x + 2 ^ k - 1) div 2 ^ k" for x :: int
proof -
  assume "0 \<le> x"
  moreover have "0 < (2 :: int) ^ k" by simp
  ultimately have "0 \<le> x + 2 ^ k - 1" by linarith
  then show ?thesis by (rule pos_imp_zdiv_nonneg_iff [THEN iffD2, rotated]) simp
qed

lemma ALIGN_pow2:
  assumes "0 \<le> x" "x + 2 ^ k \<le> 2 ^ 32"
  shows "ALIGN x (2 ^ k) = (x + 2 ^ k - 1) div 2 ^ k * 2 ^ k"
proof -
  have pos: "0 < (2 :: int) ^ k" by simp
  define a where "a = x + 2 ^ k - 1"
  have a: "0 \<le> a" "a < 2 ^ 32" using assms pos unfolding a_def by linarith+
  have b: "0 \<le> a div 2 ^ k * 2 ^ k" using div_ge0 [OF assms(1), of k] by (simp add: a_def)
  have c: "a div 2 ^ k * 2 ^ k \<le> a" using pos_mod_sign [OF pos, of a] div_mult_mod_eq [of a "2 ^ k"] by linarith
  have m: "u32 (2 ^ k - 1) = mask k" "u32 (x + mask k) = a"
    using assms pos a unfolding mask_eq_exp_minus_1 a_def by (auto simp: u32_id algebra_simps)
  have "a AND NOT (mask k) = push_bit k (drop_bit k a)" by (rule bit_eqI) (auto simp: bit_simps)
  then have "a AND NOT (mask k) = a div 2 ^ k * 2 ^ k" by (simp add: push_bit_eq_mult drop_bit_eq_div)
  then have "ALIGN x (2 ^ k) = u32 (a div 2 ^ k * 2 ^ k)" unfolding ALIGN_def m by simp
  also have "\<dots> = a div 2 ^ k * 2 ^ k" using a b c by (intro u32_id) auto
  finally show ?thesis unfolding a_def .
qed

lemma kmalloc_loop_returns:
  assumes "0 \<le> sz" "sz \<le> 2 ^ 22" "k < 31"
  shows "\<exists>s \<le> sz. kmalloc_loop alloc (2 ^ k) (max (2 ^ k) PAGE_SIZE) sz = Some (alloc s, s) \<and> (alloc s = None \<longrightarrow> s \<le> max (2 ^ k) PAGE_SIZE)"
  using assms(1,2)
proof (induction "nat sz" arbitrary: sz rule: less_induct)
  case less
  show ?case
  proof (cases "sz > max (2 ^ k) PAGE_SIZE \<and> alloc sz = None")
    case True
    then have gt: "2 ^ k < sz" "4096 < sz" by (auto simp: PAGE_SIZE_def)
    define n where "n = ALIGN (sz div 2) (2 ^ k)"
    have n: "n = (sz div 2 + 2 ^ k - 1) div 2 ^ k * 2 ^ k" unfolding n_def using gt less.prems by (intro ALIGN_pow2) auto
    have pos: "0 < (2 :: int) ^ k" by simp
    have up: "n \<le> sz div 2 + 2 ^ k - 1" unfolding n using pos_mod_sign [OF pos, of "sz div 2 + 2 ^ k - 1"] div_mult_mod_eq [of "sz div 2 + 2 ^ k - 1" "2 ^ k"] by linarith
    have "n < sz"
    proof (cases "2 ^ k \<le> sz div 2")
      case False
      then have "(sz div 2 + 2 ^ k - 1) div 2 ^ k = 1" using gt by (intro int_div_pos_eq [of _ _ _ "sz div 2 - 1"]) auto
      then show ?thesis using n gt by simp
    qed (use up in linarith)
    moreover have "0 \<le> n" unfolding n using div_ge0 [of "sz div 2" k] less.prems by simp
    ultimately obtain s where "s \<le> n" "kmalloc_loop alloc (2 ^ k) (max (2 ^ k) PAGE_SIZE) n = Some (alloc s, s)"
        "alloc s = None \<longrightarrow> s \<le> max (2 ^ k) PAGE_SIZE" using less.hyps [of n] less.prems by auto
    with True \<open>n < sz\<close> show ?thesis by (intro exI [of _ s]) (subst kmalloc_loop.simps, auto simp: n_def)
  next
    case False
    then show ?thesis by (intro exI [of _ sz]) (subst kmalloc_loop.simps, auto split: option.splits)
  qed
qed

theorem mtd_kmalloc_up_to_returns:
  assumes "0 \<le> sz" "k < 31"
  shows "\<exists>s \<le> sz. mtd_kmalloc_up_to alloc (2 ^ k) sz = Some (alloc s, s) \<and> (alloc s = None \<longrightarrow> s \<le> max (2 ^ k) PAGE_SIZE)"
  using kmalloc_loop_returns [of "min sz KMALLOC_MAX_SIZE" k alloc] assms
  by (force simp: mtd_kmalloc_up_to_def KMALLOC_MAX_SIZE_def)

end
