(* ===== verification/WmtDma.thy ===== *)
theory WmtDma
  imports WmtClk
begin

text \<open>
  The DMA controller driver, \<^verbatim>\<open>arch/arm/mach-wmt/dma.c\<close> and \<^verbatim>\<open>mach/dma.h\<close>: sixteen channels, each
  with a ring of descriptors in coherent memory that the engine follows.

  The state \<open>dma_state\<close> has the driver's variables, the registers of the controller and the
  handles of the coherent memory that is allocated. The words of a ring are a list; \<open>None\<close> in
  \<open>des_0\<close> is a null pointer or one to memory that was freed. The registers that the engine changes
  by itself are read through \<open>memreg_answer\<close>, the answers of the hardware to one request for an
  update of the memory registers. An operation returns \<open>None\<close> when it reads or writes outside of
  an array or of a ring, or waits for ever.
\<close>

section \<open>Constants\<close>

definition MAX_DMA_CHANNELS :: nat where "MAX_DMA_CHANNELS = 16"
definition SIZE_32KB :: int where "SIZE_32KB = 0x8000"
definition SIZE_64KB :: int where "SIZE_64KB = 0x10000"
definition MAX_DESCRIPT_SIZE :: int where "MAX_DESCRIPT_SIZE = 0x400"
definition DMA_DES0_SIZE :: int where "DMA_DES0_SIZE = 8"
definition DMA_DES1_SIZE :: int where "DMA_DES1_SIZE = 16"
definition DMA_DES_END :: int where "DMA_DES_END = 0x80000000"
definition DMA_FORMAT_DES1 :: int where "DMA_FORMAT_DES1 = 0x40000000"
definition DMA_INTEN_DES :: int where "DMA_INTEN_DES = 0x20000000"
definition DMA_DES_REQCNT_MASK :: int where "DMA_DES_REQCNT_MASK = 0xFFFF"
definition SYSTEM_DMA_RUN :: int where "SYSTEM_DMA_RUN = 0x80"
definition SYSTEM_DMA_REQ_EN :: int where "SYSTEM_DMA_REQ_EN = 0x800"
definition DMA_WAKE :: int where "DMA_WAKE = 0x40"
definition DMA_ACTIVE :: int where "DMA_ACTIVE = 0x10"
definition DMA_UP_MEMREG_EN :: int where "DMA_UP_MEMREG_EN = 0x20"
definition DMA_USER_SET_MASK :: int where "DMA_USER_SET_MASK = 0xFFFE0000"
definition DMA_REQ_ID_SHIFT :: nat where "DMA_REQ_ID_SHIFT = 16"
definition DMA_EVT_ID_MASK :: int where "DMA_EVT_ID_MASK = 0xF"
definition DMA_EVT_NO_STATUS :: int where "DMA_EVT_NO_STATUS = 0"
definition DMA_EVT_SUCCESS :: int where "DMA_EVT_SUCCESS = 15"
definition DMA_SW_RST :: int where "DMA_SW_RST = 0x100"
definition DMA_GLOBAL_EN :: int where "DMA_GLOBAL_EN = 1"
definition ALL_INT_EN :: int where "ALL_INT_EN = 0xFFFF"
definition ALL_INT_CLEAR :: int where "ALL_INT_CLEAR = 0xFFFF"
definition SCHEDULE_RR_DISABLE :: int where "SCHEDULE_RR_DISABLE = 1"
definition MEMORY_DMA_REQ :: nat where "MEMORY_DMA_REQ = 32"
definition DEVICE_RESERVED :: nat where "DEVICE_RESERVED = 33"
definition DMA_CTRL_CFG_BASE_ADDR :: int where "DMA_CTRL_CFG_BASE_ADDR = 0xFE001800"
definition DMA_MEM_REG_OFFSET :: int where "DMA_MEM_REG_OFFSET = 0x100"

definition dma_irq_no :: "nat list" where
  "dma_irq_no = [17, 27, 34, 40, 41, 45, 46, 51, 92, 93, 94, 95, 96, 97, 98, 99]"

section \<open>State\<close>

record dma_device_cfg_s =
  DeviceReqType :: nat
  DefaultCCR :: int
  MIF0addr :: int
  MIF1addr :: int
  ChunkSize :: int

record dma_mem_reg_group_s =
  DMA_IF0RBR_CH :: int
  DMA_IF0DAR_CH :: int
  DMA_IF0BAR_CH :: int
  DMA_IF0CPR_CH :: int
  DMA_IF1RBR_CH :: int
  DMA_IF1DAR_CH :: int
  DMA_IF1BAR_CH :: int
  DMA_IF1CPR_CH :: int

record des_attribute =
  end_descript :: int
  interrupt_en :: int
  des_size :: int
  fmt :: int
  data_addr :: int
  branch_addr :: int

text \<open>A channel. \<open>callback\<close> is the registered function, identified by a number.\<close>

record dma_info_s =
  device_id :: "string option"
  callback :: "nat option"
  device_no :: nat
  device_cfg :: dma_device_cfg_s
  in_use :: int
  des0cnt :: int
  des1cnt :: int
  max_des0cnt :: int
  max_des1cnt :: int
  residue_des0cnt :: int
  residue_des1cnt :: int
  des_0 :: "int list option"
  des_1 :: "int list option"
  des0_phy_addr :: int
  des1_phy_addr :: int
  accu_size :: int
  descript_size :: int

record dma_state =
  dma_chan :: "dma_info_s list"
  request_chans :: int
  cfg_table :: "dma_device_cfg_s list"
  DMA_GCR :: int
  DMA_MRPR :: int
  DMA_IER :: int
  DMA_ISR :: int
  DMA_TMR :: int
  DMA_CCR_CH :: "int list"
  mem_reg_group :: "dma_mem_reg_group_s list"
  coherent :: "int list"

definition cfg_entry :: "nat \<Rightarrow> int \<Rightarrow> int \<Rightarrow> int \<Rightarrow> int \<Rightarrow> dma_device_cfg_s" where
  "cfg_entry t ccr m0 m1 chunk =
     \<lparr>DeviceReqType = t, DefaultCCR = ccr, MIF0addr = m0, MIF1addr = m1, ChunkSize = chunk\<rparr>"

definition dma_device_cfg_table :: "dma_device_cfg_s list" where
  "dma_device_cfg_table =
    [cfg_entry 0 0x100 0 0 0x1000, cfg_entry 1 0x100 0 0 0x1000, cfg_entry 2 0x100 0 0 0x1000, cfg_entry 3 0x100 0 0 0x1000,
     cfg_entry DEVICE_RESERVED 0x100 0 0 0x1000, cfg_entry DEVICE_RESERVED 0x100 0 0 0x1000,
     cfg_entry 6 0 0 0xD8201000 1, cfg_entry 7 0x400000 0 0xD8201020 0x1000,
     cfg_entry 8 0 0 0xD82B1000 1, cfg_entry 9 0x400000 0 0xD82B1020 0x1000,
     cfg_entry 10 0 0 0xD8211000 1, cfg_entry 11 0x400000 0 0xD8211020 0x1000,
     cfg_entry 12 0 0 0xD82C1000 1, cfg_entry 13 0x400000 0 0xD82C1020 0x1000,
     cfg_entry 14 0x24000000 0 0xD82D0010 0x1000, cfg_entry 15 0x24400000 0 0xD82D0030 0x1000,
     cfg_entry DEVICE_RESERVED 0x100 0 0 0x1000, cfg_entry DEVICE_RESERVED 0x100 0 0 0x1000,
     cfg_entry DEVICE_RESERVED 0x100 0 0 0x1000, cfg_entry DEVICE_RESERVED 0x100 0 0 0x1000,
     cfg_entry DEVICE_RESERVED 0x100 0 0 0x1000,
     cfg_entry 21 0x28400000 0 0xD80EDB00 0x4000, cfg_entry 22 0x28000000 0 0xD80EDB60 0x4000,
     cfg_entry 23 0x28400000 0 0xD80EDB20 0x4000, cfg_entry 24 0x100 0 0 0x1000, cfg_entry 25 0x100 0 0 0x1000,
     cfg_entry 26 0x100 0 0 0x1000, cfg_entry 27 0x100 0 0 0x1000, cfg_entry 28 0x100 0 0 0x1000,
     cfg_entry DEVICE_RESERVED 0x100 0 0 0x1000, cfg_entry DEVICE_RESERVED 0x100 0 0 0x1000,
     cfg_entry DEVICE_RESERVED 0x100 0 0 0x1000,
     cfg_entry MEMORY_DMA_REQ 0x2A800000 0x0A200000 0x0A220000 0x1000, cfg_entry DEVICE_RESERVED 0x100 0 0 0x1000]"

section \<open>Access to channels, registers and rings\<close>

definition chan :: "dma_state \<Rightarrow> nat \<Rightarrow> dma_info_s" where
  "chan s ch = dma_chan s ! ch"

definition upd_chan :: "(dma_info_s \<Rightarrow> dma_info_s) \<Rightarrow> nat \<Rightarrow> dma_state \<Rightarrow> dma_state" where
  "upd_chan f ch s = s\<lparr>dma_chan := (dma_chan s)[ch := f (dma_chan s ! ch)]\<rparr>"

definition ccr :: "dma_state \<Rightarrow> nat \<Rightarrow> int" where
  "ccr s ch = DMA_CCR_CH s ! ch"

definition set_ccr :: "nat \<Rightarrow> int \<Rightarrow> dma_state \<Rightarrow> dma_state" where
  "set_ccr ch v s = s\<lparr>DMA_CCR_CH := (DMA_CCR_CH s)[ch := u32 v]\<rparr>"

definition upd_memreg :: "(dma_mem_reg_group_s \<Rightarrow> dma_mem_reg_group_s) \<Rightarrow> nat \<Rightarrow> dma_state \<Rightarrow> dma_state" where
  "upd_memreg f ch s = s\<lparr>mem_reg_group := (mem_reg_group s)[ch := f (mem_reg_group s ! ch)]\<rparr>"

text \<open>The interrupt status is cleared by writing ones.\<close>

definition write_isr :: "int \<Rightarrow> dma_state \<Rightarrow> dma_state" where
  "write_isr v s = s\<lparr>DMA_ISR := DMA_ISR s AND NOT v\<rparr>"

text \<open>The test that most operations start with.\<close>

definition bad_id :: "dma_state \<Rightarrow> nat \<Rightarrow> bool" where
  "bad_id s ch \<longleftrightarrow> ch \<ge> MAX_DMA_CHANNELS \<or> in_use (chan s ch) = 0"

text \<open>A word of the ring of a channel is changed; \<open>off\<close> counts words.\<close>

definition upd_word :: "nat \<Rightarrow> int \<Rightarrow> (int \<Rightarrow> int) \<Rightarrow> dma_state \<Rightarrow> dma_state option" where
  "upd_word ch off f s =
     (case des_0 (chan s ch) of
        None \<Rightarrow> None
      | Some ws \<Rightarrow>
          if nat off < length ws then Some (upd_chan (\<lambda>c. c\<lparr>des_0 := Some (ws[nat off := f (ws ! nat off)])\<rparr>) ch s)
          else None)"

text \<open>The offset in words of descriptor \<open>k\<close>, computed on 32 bits.\<close>

definition des_offset :: "int \<Rightarrow> int" where
  "des_offset k = u32 (k * DMA_DES0_SIZE) div 4"

section \<open>Descriptors\<close>

definition create_fmt0_descript ::
    "nat \<Rightarrow> dma_device_cfg_s \<Rightarrow> des_attribute \<Rightarrow> dma_state \<Rightarrow> (dma_state \<times> int) option" where
  "create_fmt0_descript ch cfg attr s =
     (if ch \<ge> MAX_DMA_CHANNELS then None
      else let off = des_offset (des0cnt (chan s ch)) in
        if bad_id s ch then Some (s, eret EINVAL)
        else if device_no (chan s ch) \<noteq> DeviceReqType cfg then Some (s, eret ENODEV)
        else let req1 = (if interrupt_en attr = 1 then DMA_INTEN_DES else 0);
                 req = (if end_descript attr = 1 then req1 OR DMA_DES_END else req1)
          in if des_size attr > SIZE_64KB - 1 then Some (s, eret EOVERFLOW)
             else do {
               s1 \<leftarrow> upd_word ch off (\<lambda>_. req OR des_size attr) s;
               s2 \<leftarrow> upd_word ch (off + 1) (\<lambda>_. data_addr attr) s1;
               Some (upd_chan (\<lambda>c. c\<lparr>des0cnt := des0cnt c + 1\<rparr>) ch s2, 0)
             })"

definition create_fmt1_descript ::
    "nat \<Rightarrow> dma_device_cfg_s \<Rightarrow> des_attribute \<Rightarrow> dma_state \<Rightarrow> (dma_state \<times> int) option" where
  "create_fmt1_descript ch cfg attr s =
     (if ch \<ge> MAX_DMA_CHANNELS then None
      else let off = des_offset (max_des0cnt (chan s ch) - 1) in
        if bad_id s ch then Some (s, eret EINVAL)
        else if device_no (chan s ch) \<noteq> DeviceReqType cfg then Some (s, eret ENODEV)
        else let req1 = (if interrupt_en attr = 1 then DMA_INTEN_DES else 0);
                 req2 = (if end_descript attr = 1 then req1 OR DMA_DES_END else req1);
                 req = (if fmt attr = 1 then req2 OR DMA_FORMAT_DES1 else req2)
          in if des_size attr > SIZE_64KB - 1 then Some (s, eret EOVERFLOW)
             else do {
               s1 \<leftarrow> upd_word ch off (\<lambda>_. req OR des_size attr) s;
               s2 \<leftarrow> upd_word ch (off + 1) (\<lambda>_. data_addr attr) s1;
               s3 \<leftarrow> upd_word ch (off + 2) (\<lambda>_. branch_addr attr) s2;
               Some (upd_chan (\<lambda>c. c\<lparr>des0cnt := 0\<rparr>) ch s3, 0)
             })"

text \<open>The mark of the end moves: the descriptor before the next one loses it.\<close>

definition clear_last_descript :: "nat \<Rightarrow> dma_device_cfg_s \<Rightarrow> dma_state \<Rightarrow> (dma_state \<times> int) option" where
  "clear_last_descript ch cfg s =
     (if ch \<ge> MAX_DMA_CHANNELS then None
      else let off = (if des0cnt (chan s ch) - 1 \<ge> 0 then des_offset (des0cnt (chan s ch) - 1)
                      else des_offset (max_des0cnt (chan s ch) - 1)) in
        if bad_id s ch then Some (s, eret EINVAL)
        else if device_no (chan s ch) \<noteq> DeviceReqType cfg then Some (s, eret ENODEV)
        else do {
          s1 \<leftarrow> upd_word ch off (\<lambda>w. w AND NOT DMA_DES_END) s;
          Some (s1, 0)
        })"

text \<open>
  The descriptor for \<open>xfer\<close> bytes at \<open>ptr\<close>: the last slot of the ring takes the format with a
  branch back to the start. \<open>attr\<close> is the local structure of \<^verbatim>\<open>add_descript\<close>, which keeps its
  values from turn to turn, \<open>residue\<close> what is left after this descriptor.
\<close>

definition put_descript ::
    "nat \<Rightarrow> dma_device_cfg_s \<Rightarrow> int \<Rightarrow> int \<Rightarrow> int \<Rightarrow> des_attribute \<Rightarrow> dma_state \<Rightarrow> (dma_state \<times> des_attribute) option" where
  "put_descript ch cfg residue xfer ptr attr s =
     (let attr1 = (if residue \<le> SIZE_32KB then attr\<lparr>end_descript := 1\<rparr> else attr);
          full = accu_size (chan s ch) \<ge> ChunkSize cfg;
          attr2 = (if full then attr1\<lparr>interrupt_en := 1\<rparr> else attr1);
          s1 = (if full then upd_chan (\<lambda>c. c\<lparr>accu_size := xfer\<rparr>) ch s else s);
          attr3 = attr2\<lparr>data_addr := ptr, des_size := xfer\<rparr>
      in if des0cnt (chan s1 ch) < max_des0cnt (chan s1 ch) - 1 then
           let a = attr3\<lparr>fmt := 0\<rparr> in map_option (\<lambda>(s2, _). (s2, a)) (create_fmt0_descript ch cfg a s1)
         else
           let a = attr3\<lparr>branch_addr := des0_phy_addr (chan s1 ch), fmt := 1\<rparr>
           in map_option (\<lambda>(s2, _). (s2, a)) (create_fmt1_descript ch cfg a s1))"

text \<open>One turn of the loop of \<^verbatim>\<open>add_descript\<close>: the state, the structure, the residue and the address
  after the turn.\<close>

definition add_turn ::
    "nat \<Rightarrow> dma_device_cfg_s \<Rightarrow> int \<Rightarrow> dma_state \<Rightarrow> des_attribute \<Rightarrow> int \<Rightarrow> int \<Rightarrow> int \<Rightarrow>
     (dma_state \<times> des_attribute \<times> int \<times> int) option" where
  "add_turn ch cfg sz s attr residue ptr idx =
     (let xfer = (if residue > SIZE_32KB then SIZE_32KB else residue);
          residue' = (if residue > SIZE_32KB then residue - SIZE_32KB else 0);
          ptr' = u32 (ptr + xfer * idx)
      in do {
        s1 \<leftarrow> (if residue = sz then map_option fst (clear_last_descript ch cfg s) else Some s);
        (s2, attr') \<leftarrow> put_descript ch cfg residue' xfer ptr' attr
                        (upd_chan (\<lambda>c. c\<lparr>accu_size := u32 (accu_size c + xfer)\<rparr>) ch s1);
        Some (s2, attr', residue', ptr')
      })"

function add_loop ::
    "nat \<Rightarrow> dma_device_cfg_s \<Rightarrow> int \<Rightarrow> dma_state \<Rightarrow> des_attribute \<Rightarrow> int \<Rightarrow> int \<Rightarrow> int \<Rightarrow> (dma_state \<times> int) option" where
  "add_loop ch cfg sz s attr residue ptr idx =
     (if residue > 0 then
        (case add_turn ch cfg sz s attr residue ptr idx of
           None \<Rightarrow> None
         | Some (s', attr', residue', ptr') \<Rightarrow> add_loop ch cfg sz s' attr' residue' ptr' (idx + 1))
      else Some (s, idx))"
  by pat_completeness auto

lemma add_turn_residue:
  "add_turn ch cfg sz s attr residue ptr idx = Some (s', attr', residue', ptr') \<Longrightarrow>
     residue' = (if residue > SIZE_32KB then residue - SIZE_32KB else 0)"
  by (auto simp: add_turn_def Let_def split: bind_splits if_split_asm option.splits prod.splits)

termination add_loop
  by (relation "measure (\<lambda>(ch, cfg, sz, s, attr, residue, ptr, idx). nat residue)")
    (auto dest!: add_turn_residue simp: SIZE_32KB_def split: if_splits)

declare add_loop.simps [simp del]

text \<open>\<open>attr\<close> is what the uninitialised structure on the stack holds.\<close>

definition add_descript ::
    "des_attribute \<Rightarrow> nat \<Rightarrow> dma_device_cfg_s \<Rightarrow> int \<Rightarrow> int \<Rightarrow> dma_state \<Rightarrow> (dma_state \<times> int) option" where
  "add_descript attr ch cfg ptr sz s =
     (let need = sz div SIZE_32KB + (if sz mod SIZE_32KB \<noteq> 0 then 1 else 0) in
      if bad_id s ch then Some (s, eret EINVAL)
      else if device_no (chan s ch) \<noteq> DeviceReqType cfg then Some (s, eret ENODEV)
      else if s32 (max_des0cnt (chan s ch) - residue_des0cnt (chan s ch)) < need then Some (s, eret EBUSY)
      else add_loop ch cfg sz s attr sz ptr 0)"

section \<open>The memory registers\<close>

text \<open>
  The driver asks the engine to write its position to the memory registers and waits until it has
  done so or 15 ticks have passed. \<open>ans_now\<close> is the time at the start, \<open>ans_polls\<close> what the
  control register and the timer read as, \<open>ans_group\<close> what the memory registers hold then and
  \<open>ans_junk\<close> what an uninitialised structure on the stack holds.
\<close>

record memreg_answer =
  ans_now :: int
  ans_polls :: "(int \<times> int) list"
  ans_group :: dma_mem_reg_group_s
  ans_junk :: dma_mem_reg_group_s

fun memreg_wait :: "int \<Rightarrow> (int \<times> int) list \<Rightarrow> int option" where
  "memreg_wait now [] = None"
| "memreg_wait now ((v, t) # polls) =
     (if v AND DMA_UP_MEMREG_EN = 0 then Some v
      else if u32 (t - now) > 15 then Some (v AND NOT DMA_UP_MEMREG_EN)
      else memreg_wait now polls)"

definition update_memreg :: "memreg_answer \<Rightarrow> nat \<Rightarrow> dma_state \<Rightarrow> dma_state option" where
  "update_memreg h ch s =
     (if ccr s ch AND SYSTEM_DMA_RUN \<noteq> 0 then
        (case memreg_wait (ans_now h) (ans_polls h) of
           None \<Rightarrow> None
         | Some v \<Rightarrow> Some (upd_memreg (\<lambda>_. ans_group h) ch (set_ccr ch v s)))
      else Some s)"

definition wmt_get_dma_pos_info :: "memreg_answer \<Rightarrow> nat \<Rightarrow> dma_state \<Rightarrow> (dma_state \<times> dma_mem_reg_group_s) option" where
  "wmt_get_dma_pos_info h ch s =
     (if bad_id s ch then Some (s, ans_junk h)
      else do {
        s1 \<leftarrow> update_memreg h ch s;
        Some (s1, mem_reg_group s1 ! ch)
      })"

definition wmt_get_dma_pos :: "memreg_answer \<Rightarrow> nat \<Rightarrow> dma_state \<Rightarrow> (dma_state \<times> int) option" where
  "wmt_get_dma_pos h ch s =
     (if bad_id s ch then Some (s, DMA_IF0DAR_CH (ans_junk h))
      else do {
        s1 \<leftarrow> update_memreg h ch s;
        Some (s1, DMA_IF0DAR_CH (mem_reg_group s1 ! ch))
      })"

text \<open>What remains of the descriptor under work is stored in it.\<close>

definition revise_descript ::
    "memreg_answer \<Rightarrow> nat \<Rightarrow> dma_device_cfg_s \<Rightarrow> dma_mem_reg_group_s \<Rightarrow> dma_state \<Rightarrow> (dma_state \<times> int) option" where
  "revise_descript h ch cfg reg s =
     (if bad_id s ch then Some (s, eret EINVAL)
      else if device_no (chan s ch) \<noteq> DeviceReqType cfg then Some (s, eret ENODEV)
      else do {
        s1 \<leftarrow> update_memreg h ch s;
        let req_count = DMA_IF0RBR_CH reg AND DMA_DES_REQCNT_MASK;
            off = u32 (DMA_IF0CPR_CH reg - des0_phy_addr (chan s1 ch)) div 4
        in if req_count > 0 then do {
             s2 \<leftarrow> upd_word ch off (\<lambda>w. (w AND NOT DMA_DES_REQCNT_MASK) OR req_count) s1;
             s3 \<leftarrow> upd_word ch (off + 1) (\<lambda>_. DMA_IF0DAR_CH reg) s2;
             Some (s3, 0)
           }
           else Some (s1, 0)
      })"

section \<open>Operations of a channel\<close>

definition wmt_start_dma :: "des_attribute \<Rightarrow> nat \<Rightarrow> int \<Rightarrow> int \<Rightarrow> dma_state \<Rightarrow> (dma_state \<times> int) option" where
  "wmt_start_dma attr ch ptr sz s =
     (if sz = 0 then Some (s, eret EINVAL)
      else if ch \<ge> MAX_DMA_CHANNELS then None
      else case add_descript attr ch (device_cfg (chan s ch)) ptr sz s of
        None \<Rightarrow> None
      | Some (s1, count) \<Rightarrow>
          if count < 0 then Some (s1, eret EBUSY)
          else
            let s2 = upd_chan (\<lambda>c. c\<lparr>residue_des0cnt := s32 (residue_des0cnt c + count)\<rparr>) ch s1;
                s3 = (if residue_des0cnt (chan s2 ch) > max_des0cnt (chan s2 ch) - 1
                      then upd_chan (\<lambda>c. c\<lparr>residue_des0cnt := max_des0cnt c - 1\<rparr>) ch s2 else s2)
            in if ccr s3 ch AND SYSTEM_DMA_RUN \<noteq> 0
               then Some (set_ccr ch (ccr s3 ch OR DMA_WAKE) s3, 0)
               else
                 let s4 = upd_memreg (\<lambda>g. g\<lparr>DMA_IF0CPR_CH := des0_phy_addr (chan s3 ch)\<rparr>) ch s3;
                     s5 = (if DeviceReqType (device_cfg (chan s4 ch)) = MEMORY_DMA_REQ
                           then upd_memreg (\<lambda>g. g\<lparr>DMA_IF1CPR_CH := des0_phy_addr (chan s4 ch)\<rparr>) ch s4 else s4)
                 in Some (set_ccr ch (ccr s5 ch OR (SYSTEM_DMA_RUN OR SYSTEM_DMA_REQ_EN)) s5, 0))"

definition wmt_wake_dma :: "des_attribute \<Rightarrow> nat \<Rightarrow> int \<Rightarrow> int \<Rightarrow> dma_state \<Rightarrow> (dma_state \<times> int) option" where
  "wmt_wake_dma attr ch ptr sz s =
     (if sz = 0 then Some (s, eret EINVAL)
      else if ch \<ge> MAX_DMA_CHANNELS then None
      else if sz > ChunkSize (device_cfg (chan s ch)) then Some (s, eret EOVERFLOW)
      else if ccr s ch AND SYSTEM_DMA_RUN \<noteq> 0 then
        (case add_descript attr ch (device_cfg (chan s ch)) ptr sz s of
           None \<Rightarrow> None
         | Some (s1, ret) \<Rightarrow>
             let s2 = upd_chan (\<lambda>c. c\<lparr>residue_des0cnt := s32 (residue_des0cnt c + ret)\<rparr>) ch s1
             in Some (set_ccr ch (ccr s2 ch OR DMA_WAKE) s2, ret))
      else Some (s, 0))"

text \<open>
  Coherent memory: \<open>alloc\<close> is what \<^verbatim>\<open>dma_alloc_coherent\<close> answers, the words of the block and its
  handle. A failure leaves the handle with all bits set. Freeing by a handle that is not
  allocated corrupts the page allocator.
\<close>

definition alloc_handle :: "(int list \<times> int) option \<Rightarrow> int" where
  "alloc_handle a = (case a of None \<Rightarrow> 0xFFFFFFFF | Some (_, h) \<Rightarrow> h)"

definition alloc_ledger :: "(int list \<times> int) option \<Rightarrow> dma_state \<Rightarrow> dma_state" where
  "alloc_ledger a s = (case a of None \<Rightarrow> s | Some (_, h) \<Rightarrow> s\<lparr>coherent := h # coherent s\<rparr>)"

definition dma_free_coherent :: "int \<Rightarrow> dma_state \<Rightarrow> dma_state option" where
  "dma_free_coherent h s = (if h \<in> set (coherent s) then Some (s\<lparr>coherent := remove1 h (coherent s)\<rparr>) else None)"

text \<open>The search for a free channel starts at 1.\<close>

definition free_channel :: "dma_state \<Rightarrow> nat option" where
  "free_channel s = find (\<lambda>ch. in_use (chan s ch) = 0) [1..<MAX_DMA_CHANNELS]"

text \<open>The result has the value stored through \<^verbatim>\<open>channel\<close> (\<open>None\<close> for -1) and the return value.\<close>

definition wmt_request_dma ::
    "(int list \<times> int) option \<Rightarrow> (int list \<times> int) option \<Rightarrow> string \<Rightarrow> nat \<Rightarrow> nat option \<Rightarrow> dma_state \<Rightarrow>
     (dma_state \<times> nat option \<times> int) option" where
  "wmt_request_dma alloc0 alloc1 name device cb s =
     (case free_channel s of
        None \<Rightarrow> Some (s, None, eret EBUSY)
      | Some ch \<Rightarrow>
          let s1 = s\<lparr>request_chans := request_chans s OR push_bit ch 1\<rparr>;
              s2 = upd_chan (\<lambda>c. c\<lparr>device_id := Some name, device_no := device, callback := cb, in_use := 1,
                       des0cnt := 0, des1cnt := 0, accu_size := 0, residue_des0cnt := 0, residue_des1cnt := 0,
                       descript_size := MAX_DESCRIPT_SIZE\<rparr>) ch s1;
              s3 = write_isr (push_bit ch 1) s2;
              s4 = upd_memreg (\<lambda>g. g\<lparr>DMA_IF0CPR_CH := 0, DMA_IF1CPR_CH := 0\<rparr>) ch s3;
              s5 = alloc_ledger alloc0 (upd_chan (\<lambda>c. c\<lparr>des_0 := map_option fst alloc0, des0_phy_addr := alloc_handle alloc0,
                       max_des0cnt := (MAX_DESCRIPT_SIZE - DMA_DES1_SIZE) div DMA_DES0_SIZE + 1\<rparr>) ch s4)
          in if device \<ge> length (cfg_table s5) then None
             else
               let cfg = cfg_table s5 ! device;
                   s6 = set_ccr ch (DefaultCCR cfg AND DMA_USER_SET_MASK) (upd_chan (\<lambda>c. c\<lparr>device_cfg := cfg\<rparr>) ch s5)
               in if device \<noteq> MEMORY_DMA_REQ
                  then Some (set_ccr ch (ccr s6 ch OR push_bit DMA_REQ_ID_SHIFT (int device)) s6, Some ch, 0)
                  else Some (alloc_ledger alloc1 (upd_chan (\<lambda>c. c\<lparr>des_1 := map_option fst alloc1, des0_phy_addr := alloc_handle alloc1,
                         max_des1cnt := (MAX_DESCRIPT_SIZE - DMA_DES1_SIZE) div DMA_DES0_SIZE + 1\<rparr>) ch s6), Some ch, 0))"

definition wmt_clear_dma :: "nat \<Rightarrow> dma_state \<Rightarrow> dma_state option" where
  "wmt_clear_dma ch s =
     (if ch \<ge> MAX_DMA_CHANNELS then None
      else
        let s1 = set_ccr ch (ccr s ch AND NOT SYSTEM_DMA_REQ_EN) s;
            s2 = set_ccr ch (ccr s1 ch AND NOT SYSTEM_DMA_RUN) s1;
            s3 = write_isr (push_bit ch 1) s2
        in Some (upd_chan (\<lambda>c. c\<lparr>des0cnt := 0, des1cnt := 0, accu_size := 0, residue_des0cnt := 0\<rparr>) ch s3))"

definition wmt_free_dma :: "nat \<Rightarrow> dma_state \<Rightarrow> dma_state option" where
  "wmt_free_dma ch s =
     (if ch \<ge> MAX_DMA_CHANNELS then Some s
      else if in_use (chan s ch) = 0 then Some s
      else if device_no (chan s ch) = DEVICE_RESERVED then Some s
      else do {
        s1 \<leftarrow> wmt_clear_dma ch s;
        let s2 = s1\<lparr>request_chans := request_chans s1 AND NOT (push_bit ch 1)\<rparr>;
        s3 \<leftarrow> dma_free_coherent (des0_phy_addr (chan s2 ch)) s2;
        s4 \<leftarrow> (if device_no (chan s3 ch) = MEMORY_DMA_REQ then dma_free_coherent (des1_phy_addr (chan s3 ch)) s3
              else Some s3);
        Some (upd_chan (\<lambda>c. c\<lparr>device_no := DEVICE_RESERVED, device_id := None, des0cnt := 0, des1cnt := 0,
                 accu_size := 0, residue_des0cnt := 0, max_des0cnt := 0, max_des1cnt := 0, in_use := 0,
                 des_0 := None, des_1 := (if device_no c = MEMORY_DMA_REQ then None else des_1 c)\<rparr>) ch s4)
      })"

definition wmt_reset_dma :: "nat \<Rightarrow> dma_state \<Rightarrow> dma_state option" where
  "wmt_reset_dma ch s = (if ch \<ge> MAX_DMA_CHANNELS then Some s else wmt_clear_dma ch s)"

definition wmt_setup_dma :: "nat \<Rightarrow> dma_device_cfg_s \<Rightarrow> dma_state \<Rightarrow> (dma_state \<times> int) option" where
  "wmt_setup_dma ch cfg s =
     (if bad_id s ch then Some (s, eret EINVAL)
      else if device_no (chan s ch) \<noteq> DeviceReqType cfg then Some (s, eret ENODEV)
      else
        let dev_no = device_no (chan s ch) in
        if dev_no \<ge> length (cfg_table s) then None
        else
          let s1 = s\<lparr>cfg_table := (cfg_table s)[dev_no := cfg]\<rparr>;
              s2 = write_isr (push_bit ch 1) (upd_chan (\<lambda>c. c\<lparr>device_cfg := cfg_table s1 ! dev_no\<rparr>) ch s1);
              s3 = set_ccr ch (DefaultCCR (cfg_table s2 ! dev_no)) s2;
              s4 = (if DeviceReqType cfg \<noteq> MEMORY_DMA_REQ
                    then set_ccr ch (ccr s3 ch OR push_bit DMA_REQ_ID_SHIFT (int (DeviceReqType cfg))) s3 else s3);
              s5 = (if dev_no \<noteq> MEMORY_DMA_REQ
                    then upd_memreg (\<lambda>g. g\<lparr>DMA_IF1CPR_CH := MIF1addr (device_cfg (chan s4 ch))\<rparr>) ch s4 else s4)
          in Some (s5, 0))"

definition wmt_stop_dma :: "memreg_answer \<Rightarrow> nat \<Rightarrow> dma_state \<Rightarrow> dma_state option" where
  "wmt_stop_dma h ch s =
     (if bad_id s ch then Some s
      else do {
        s1 \<leftarrow> update_memreg h ch (set_ccr ch (ccr s ch AND NOT SYSTEM_DMA_REQ_EN) s);
        Some (set_ccr ch (ccr s1 ch AND NOT SYSTEM_DMA_RUN) s1)
      })"

definition wmt_resume_dma :: "memreg_answer \<Rightarrow> memreg_answer \<Rightarrow> nat \<Rightarrow> dma_state \<Rightarrow> dma_state option" where
  "wmt_resume_dma h1 h2 ch s =
     (if ch \<ge> MAX_DMA_CHANNELS then None
      else
        let s1 = (if ccr s ch AND DMA_ACTIVE \<noteq> 0
                  then let t = set_ccr ch (ccr s ch AND NOT SYSTEM_DMA_REQ_EN) s
                       in set_ccr ch (ccr t ch AND NOT SYSTEM_DMA_RUN) t
                  else s)
        in if bad_id s1 ch then Some s1
           else do {
             (s2, reg) \<leftarrow> wmt_get_dma_pos_info h1 ch s1;
             (s3, _) \<leftarrow> revise_descript h2 ch (device_cfg (chan s2 ch)) reg s2;
             Some (set_ccr ch (ccr s3 ch OR (SYSTEM_DMA_RUN OR SYSTEM_DMA_REQ_EN)) s3)
           })"

definition wmt_dma_busy :: "nat \<Rightarrow> dma_state \<Rightarrow> dma_state \<times> int" where
  "wmt_dma_busy ch s =
     (if bad_id s ch then (s, -1)
      else if DMA_ISR s AND push_bit ch 1 \<noteq> 0 then (write_isr (push_bit ch 1) s, 0)
      else (s, 1))"

text \<open>Apart from what it prints, the dump updates the memory registers.\<close>

definition wmt_dump_dma_regs :: "memreg_answer \<Rightarrow> nat \<Rightarrow> dma_state \<Rightarrow> dma_state option" where
  "wmt_dump_dma_regs h ch s = (if ch \<ge> MAX_DMA_CHANNELS then None else update_memreg h ch s)"

section \<open>Interrupts and set-up\<close>

text \<open>The end of the handler: one descriptor is counted as done. The result has the callback that
  the handler calls.\<close>

definition irq_done :: "nat \<Rightarrow> dma_state \<Rightarrow> dma_state \<times> nat option" where
  "irq_done ch s =
     (let s1 = (if residue_des0cnt (chan s ch) > 0
                then upd_chan (\<lambda>c. c\<lparr>residue_des0cnt := residue_des0cnt c - 1\<rparr>) ch s else s)
      in (s1, callback (chan s1 ch)))"

definition dma_irq_handler ::
    "memreg_answer \<Rightarrow> memreg_answer \<Rightarrow> memreg_answer \<Rightarrow> nat \<Rightarrow> dma_state \<Rightarrow> (dma_state \<times> nat option) option" where
  "dma_irq_handler h1 h2 h3 irq s =
     (case find (\<lambda>ch. irq = dma_irq_no ! ch) [0..<MAX_DMA_CHANNELS] of
        None \<Rightarrow> Some (s, None)
      | Some ch \<Rightarrow>
          let channel_st = ccr s ch AND DMA_EVT_ID_MASK;
              s1 = write_isr (push_bit ch 1) s
          in if channel_st = DMA_EVT_NO_STATUS then do {
               (s2, reg) \<leftarrow> wmt_get_dma_pos_info h1 ch s1;
               (s3, _) \<leftarrow> revise_descript h2 ch (device_cfg (chan s2 ch)) reg s2;
               Some (irq_done ch s3)
             }
             else if channel_st \<noteq> DMA_EVT_SUCCESS then do {
               s2 \<leftarrow> wmt_dump_dma_regs h1 ch s1;
               s3 \<leftarrow> wmt_resume_dma h2 h3 ch s2;
               Some (s3, None)
             }
             else Some (irq_done ch s1))"

definition dma_resume :: "pmc \<Rightarrow> dma_state \<Rightarrow> (pmc \<times> dma_state) option" where
  "dma_resume p s =
     (case auto_pll_divisor p DEV_DMA CLK_ENABLE 0 0 of
        None \<Rightarrow> None
      | Some (p', _) \<Rightarrow>
          let s1 = s\<lparr>DMA_GCR := DMA_GCR s OR DMA_GLOBAL_EN\<rparr>;
              s2 = write_isr ALL_INT_CLEAR s1
          in Some (p', s2\<lparr>DMA_IER := DMA_IER s2 OR ALL_INT_EN, DMA_TMR := DMA_TMR s2 AND NOT SCHEDULE_RR_DISABLE,
                    DMA_MRPR := DMA_CTRL_CFG_BASE_ADDR + DMA_MEM_REG_OFFSET\<rparr>))"

definition wmt_dma_init :: "pmc \<Rightarrow> dma_state \<Rightarrow> (pmc \<times> dma_state \<times> int) option" where
  "wmt_dma_init p s =
     (case auto_pll_divisor p DEV_DMA CLK_ENABLE 0 0 of
        None \<Rightarrow> None
      | Some (p', _) \<Rightarrow>
          let s1 = s\<lparr>request_chans := 0, dma_chan := map (\<lambda>c. c\<lparr>device_no := DEVICE_RESERVED, in_use := 0\<rparr>) (dma_chan s)\<rparr>;
              dma_mem_phy = DMA_CTRL_CFG_BASE_ADDR + DMA_MEM_REG_OFFSET
          in if dma_mem_phy AND 0xFF \<noteq> 0 then Some (p', s1, -1)
             else
               let s2 = s1\<lparr>DMA_GCR := (DMA_GCR s1 OR DMA_SW_RST) OR DMA_GLOBAL_EN\<rparr>;
                   s3 = write_isr ALL_INT_CLEAR s2;
                   s4 = s3\<lparr>DMA_IER := DMA_IER s3 OR ALL_INT_EN, DMA_TMR := DMA_TMR s3 AND NOT SCHEDULE_RR_DISABLE,
                          DMA_MRPR := dma_mem_phy\<rparr>
               in Some (p', s4\<lparr>mem_reg_group := map (\<lambda>g. g\<lparr>DMA_IF0CPR_CH := 0x100, DMA_IF1CPR_CH := 0x100\<rparr>) (mem_reg_group s4),
                        DMA_CCR_CH := map (\<lambda>_. 0) (DMA_CCR_CH s4)\<rparr>, 0))"

end
