(* ===== verification/WmtDmaInv.thy ===== *)
theory WmtDmaInv
  imports WmtDma "HOL-Library.Multiset"
begin

text \<open>
  The invariant of the DMA driver: the rings, the table of devices, the mask of requested channels
  and the coherent memory fit together, and every operation keeps that and returns, whatever the
  engine does to the registers and to the contents of the rings.
\<close>

named_theorems dma_simps "reading channels and registers after an update"

section \<open>Reading after an update\<close>

lemma length_upd_chan [dma_simps]: "length (dma_chan (upd_chan f ch s)) = length (dma_chan s)"
  by (simp add: upd_chan_def)

lemma chan_upd_chan [dma_simps]:
  "ch < length (dma_chan s) \<Longrightarrow> chan (upd_chan f ch s) c = (if c = ch then f (chan s ch) else chan s c)"
  by (simp add: upd_chan_def chan_def)

lemma upd_chan_sel [dma_simps]:
  "request_chans (upd_chan f ch s) = request_chans s" "cfg_table (upd_chan f ch s) = cfg_table s"
  "DMA_GCR (upd_chan f ch s) = DMA_GCR s" "DMA_ISR (upd_chan f ch s) = DMA_ISR s"
  "DMA_CCR_CH (upd_chan f ch s) = DMA_CCR_CH s" "mem_reg_group (upd_chan f ch s) = mem_reg_group s"
  "coherent (upd_chan f ch s) = coherent s" "ccr (upd_chan f ch s) c = ccr s c"
  by (simp_all add: upd_chan_def ccr_def)

lemma set_ccr_sel [dma_simps]:
  "dma_chan (set_ccr ch v s) = dma_chan s" "chan (set_ccr ch v s) c = chan s c"
  "request_chans (set_ccr ch v s) = request_chans s" "cfg_table (set_ccr ch v s) = cfg_table s"
  "DMA_ISR (set_ccr ch v s) = DMA_ISR s" "mem_reg_group (set_ccr ch v s) = mem_reg_group s"
  "coherent (set_ccr ch v s) = coherent s" "length (DMA_CCR_CH (set_ccr ch v s)) = length (DMA_CCR_CH s)"
  by (simp_all add: set_ccr_def chan_def)

lemma upd_memreg_sel [dma_simps]:
  "dma_chan (upd_memreg f ch s) = dma_chan s" "chan (upd_memreg f ch s) c = chan s c"
  "request_chans (upd_memreg f ch s) = request_chans s" "cfg_table (upd_memreg f ch s) = cfg_table s"
  "DMA_ISR (upd_memreg f ch s) = DMA_ISR s" "DMA_CCR_CH (upd_memreg f ch s) = DMA_CCR_CH s"
  "ccr (upd_memreg f ch s) c = ccr s c"
  "coherent (upd_memreg f ch s) = coherent s" "length (mem_reg_group (upd_memreg f ch s)) = length (mem_reg_group s)"
  by (simp_all add: upd_memreg_def chan_def ccr_def)

lemma write_isr_sel [dma_simps]:
  "dma_chan (write_isr v s) = dma_chan s" "chan (write_isr v s) c = chan s c"
  "request_chans (write_isr v s) = request_chans s" "cfg_table (write_isr v s) = cfg_table s"
  "DMA_CCR_CH (write_isr v s) = DMA_CCR_CH s" "mem_reg_group (write_isr v s) = mem_reg_group s"
  "ccr (write_isr v s) c = ccr s c" "coherent (write_isr v s) = coherent s"
  by (simp_all add: write_isr_def chan_def ccr_def)

section \<open>The invariant\<close>

definition RING :: int where "RING = 127"

text \<open>A ring of 1024 bytes has 126 descriptors of eight bytes and a last one of sixteen.\<close>

definition ring_ok :: "dma_info_s \<Rightarrow> bool" where
  "ring_ok c \<longleftrightarrow> (case des_0 c of None \<Rightarrow> False | Some ws \<Rightarrow> length ws = 256)
     \<and> max_des0cnt c = RING \<and> 0 \<le> des0cnt c \<and> des0cnt c < RING"

text \<open>The devices of the enumeration, without copies from memory to memory.\<close>

definition dma_devices :: "nat list" where
  "dma_devices = [0, 1, 2, 3, 6, 7, 8, 9, 10, 11, 12, 13, 14, 15, 21, 22, 23, 24, 25, 26, 27, 28]"

definition chan_ok :: "dma_info_s \<Rightarrow> bool" where
  "chan_ok c \<longleftrightarrow> (if in_use c = 0 then device_no c = DEVICE_RESERVED
     else in_use c = 1 \<and> ring_ok c \<and> device_no c \<in> set dma_devices \<and> DeviceReqType (device_cfg c) = device_no c)"

definition used :: "dma_state \<Rightarrow> nat set" where
  "used s = {ch. ch < MAX_DMA_CHANNELS \<and> in_use (chan s ch) \<noteq> 0}"

definition dma_shape :: "dma_state \<Rightarrow> bool" where
  "dma_shape s \<longleftrightarrow> length (dma_chan s) = MAX_DMA_CHANNELS \<and> length (DMA_CCR_CH s) = MAX_DMA_CHANNELS
     \<and> length (mem_reg_group s) = MAX_DMA_CHANNELS
     \<and> map DeviceReqType (cfg_table s) = map DeviceReqType dma_device_cfg_table"

text \<open>
  \<open>dma_ok\<close>: the shape of the arrays; every channel well-formed; channel 0 never given out; the mask
  of requested channels is the set of channels in use; the coherent memory that is allocated is
  that of the rings in use, neither more nor less.
\<close>

definition dma_ok :: "dma_state \<Rightarrow> bool" where
  "dma_ok s \<longleftrightarrow> dma_shape s \<and> (\<forall>ch < MAX_DMA_CHANNELS. chan_ok (chan s ch)) \<and> in_use (chan s 0) = 0
     \<and> (\<forall>ch < MAX_DMA_CHANNELS. bit (request_chans s) ch \<longleftrightarrow> ch \<in> used s)
     \<and> mset (coherent s) = image_mset (\<lambda>ch. des0_phy_addr (chan s ch)) (mset_set (used s))"

lemma finite_used [simp]: "finite (used s)"
  by (simp add: used_def)

lemma dma_ok_lengths:
  "dma_ok s \<Longrightarrow> length (dma_chan s) = 16" "dma_ok s \<Longrightarrow> length (DMA_CCR_CH s) = 16"
  "dma_ok s \<Longrightarrow> length (mem_reg_group s) = 16" "dma_ok s \<Longrightarrow> length (cfg_table s) = 34"
  by (auto simp: dma_ok_def dma_shape_def MAX_DMA_CHANNELS_def dest: map_eq_imp_length_eq)
    (auto simp: dma_device_cfg_table_def dest: map_eq_imp_length_eq)

text \<open>
  An update of one channel that keeps whether it is in use, its handle and its well-formedness keeps
  the invariant. Registers do not matter.
\<close>

definition same_regs :: "dma_state \<Rightarrow> dma_state \<Rightarrow> bool" where
  "same_regs s t \<longleftrightarrow> request_chans t = request_chans s \<and> coherent t = coherent s
     \<and> length (DMA_CCR_CH t) = length (DMA_CCR_CH s) \<and> length (mem_reg_group t) = length (mem_reg_group s)
     \<and> map DeviceReqType (cfg_table t) = map DeviceReqType (cfg_table s) \<and> length (dma_chan t) = length (dma_chan s)"

lemma dma_ok_upd:
  assumes "dma_ok s" and "same_regs s t"
    and "\<And>ch. ch < 16 \<Longrightarrow> in_use (chan t ch) = in_use (chan s ch) \<and> des0_phy_addr (chan t ch) = des0_phy_addr (chan s ch)
          \<and> (chan_ok (chan s ch) \<longrightarrow> chan_ok (chan t ch))"
  shows "dma_ok t"
proof -
  have u: "used t = used s" using assms(3) by (auto simp: used_def MAX_DMA_CHANNELS_def)
  have "image_mset (\<lambda>ch. des0_phy_addr (chan t ch)) (mset_set (used s)) = image_mset (\<lambda>ch. des0_phy_addr (chan s ch)) (mset_set (used s))"
    using assms(3) by (intro image_mset_cong) (auto simp: used_def MAX_DMA_CHANNELS_def)
  with assms u show ?thesis by (simp add: dma_ok_def same_regs_def dma_shape_def MAX_DMA_CHANNELS_def)
qed

section \<open>Operations that touch one channel\<close>

text \<open>\<open>touch ch s t\<close>: only the ring and the counters of channel \<open>ch\<close>, and registers, differ.\<close>

definition touch :: "nat \<Rightarrow> dma_state \<Rightarrow> dma_state \<Rightarrow> bool" where
  "touch ch s t \<longleftrightarrow> same_regs s t \<and> (\<forall>c. c \<noteq> ch \<longrightarrow> chan t c = chan s c)
     \<and> in_use (chan t ch) = in_use (chan s ch) \<and> device_no (chan t ch) = device_no (chan s ch)
     \<and> device_cfg (chan t ch) = device_cfg (chan s ch) \<and> des0_phy_addr (chan t ch) = des0_phy_addr (chan s ch)
     \<and> callback (chan t ch) = callback (chan s ch) \<and> (ring_ok (chan s ch) \<longrightarrow> ring_ok (chan t ch))"

lemma touch_refl [simp, intro]: "touch ch s s"
  by (simp add: touch_def same_regs_def)

lemma touch_trans [trans]: "touch ch s t \<Longrightarrow> touch ch t u \<Longrightarrow> touch ch s u"
  by (simp add: touch_def same_regs_def)

lemma touch_same_regs: "touch ch s t \<Longrightarrow> same_regs s t"
  by (simp add: touch_def)

lemma touch_length: "touch ch s t \<Longrightarrow> length (dma_chan t) = length (dma_chan s)"
  by (simp add: touch_def same_regs_def)

lemma dma_ok_touch:
  assumes "dma_ok s" "touch ch s t"
  shows "dma_ok t"
proof (rule dma_ok_upd [OF assms(1)])
  show "same_regs s t" using assms(2) by (rule touch_same_regs)
  show "in_use (chan t c) = in_use (chan s c) \<and> des0_phy_addr (chan t c) = des0_phy_addr (chan s c)
          \<and> (chan_ok (chan s c) \<longrightarrow> chan_ok (chan t c))" for c
    using assms(2) by (cases "c = ch") (auto simp: touch_def chan_ok_def)
qed

lemma touch_bad_id: "touch ch s t \<Longrightarrow> bad_id t c = bad_id s c"
  by (cases "c = ch") (auto simp: touch_def bad_id_def)

lemma touch_upd_chan:
  "ch < length (dma_chan s) \<Longrightarrow>
   (\<And>c. in_use (f c) = in_use c \<and> device_no (f c) = device_no c \<and> device_cfg (f c) = device_cfg c
      \<and> des0_phy_addr (f c) = des0_phy_addr c \<and> callback (f c) = callback c) \<Longrightarrow>
   (ring_ok (chan s ch) \<Longrightarrow> ring_ok (f (chan s ch))) \<Longrightarrow> touch ch s (upd_chan f ch s)"
  by (simp add: touch_def same_regs_def dma_simps)

lemma touch_set_ccr [simp, intro]: "touch ch s (set_ccr c v s)"
  by (simp add: touch_def same_regs_def dma_simps)

lemma touch_upd_memreg [simp, intro]: "touch ch s (upd_memreg f c s)"
  by (simp add: touch_def same_regs_def dma_simps)

lemma touch_write_isr [simp, intro]: "touch ch s (write_isr v s)"
  by (simp add: touch_def same_regs_def dma_simps)

lemma touch_set_ccrI: "touch ch s t \<Longrightarrow> touch ch s (set_ccr c v t)"
  by (rule touch_trans [OF _ touch_set_ccr])

lemma touch_upd_memregI: "touch ch s t \<Longrightarrow> touch ch s (upd_memreg f c t)"
  by (rule touch_trans [OF _ touch_upd_memreg])

lemma touch_write_isrI: "touch ch s t \<Longrightarrow> touch ch s (write_isr v t)"
  by (rule touch_trans [OF _ touch_write_isr])

lemmas touch_intros = touch_set_ccrI touch_upd_memregI touch_write_isrI touch_refl

subsection \<open>Words of a ring\<close>

lemma upd_word_Some:
  "des_0 (chan s ch) = Some ws \<Longrightarrow> nat off < length ws \<Longrightarrow>
     upd_word ch off f s = Some (upd_chan (\<lambda>c. c\<lparr>des_0 := Some (ws[nat off := f (ws ! nat off)])\<rparr>) ch s)"
  by (simp add: upd_word_def)

lemma ring_ok_ex: "ring_ok c \<Longrightarrow> \<exists>ws. des_0 c = Some ws \<and> length ws = 256"
  by (auto simp: ring_ok_def split: option.splits)

lemma upd_word_ex:
  assumes "ring_ok (chan s ch)" "ch < length (dma_chan s)" "0 \<le> off" "off < 256"
  shows "\<exists>t. upd_word ch off f s = Some t \<and> touch ch s t \<and> des0cnt (chan t ch) = des0cnt (chan s ch)"
proof -
  obtain ws where ws: "des_0 (chan s ch) = Some ws" "length ws = 256" using ring_ok_ex [OF assms(1)] by blast
  have "touch ch s (upd_chan (\<lambda>c. c\<lparr>des_0 := Some (ws[nat off := f (ws ! nat off)])\<rparr>) ch s)"
    using assms ws by (intro touch_upd_chan) (auto simp: ring_ok_def)
  with upd_word_Some [OF ws(1), of off f] assms ws show ?thesis by (simp add: dma_simps)
qed

lemma des_offset_eq: "0 \<le> k \<Longrightarrow> k < RING \<Longrightarrow> des_offset k = 2 * k"
  by (simp add: des_offset_def DMA_DES0_SIZE_def RING_def u32_def)

subsection \<open>Creating descriptors\<close>

lemma ring_ok_cnt: "ring_ok c \<Longrightarrow> 0 \<le> des0cnt c \<and> des0cnt c < RING \<and> max_des0cnt c = RING"
  by (simp add: ring_ok_def)

lemma upd_word2_ex:
  assumes "ring_ok (chan s ch)" "ch < length (dma_chan s)" "0 \<le> off" "off < 255"
  shows "\<exists>t u. upd_word ch off f s = Some t \<and> upd_word ch (off + 1) g t = Some u \<and> touch ch s u
           \<and> des0cnt (chan u ch) = des0cnt (chan s ch)"
proof -
  obtain t where t: "upd_word ch off f s = Some t" "touch ch s t" "des0cnt (chan t ch) = des0cnt (chan s ch)"
    using upd_word_ex [of s ch off f] assms by auto
  then have "ring_ok (chan t ch)" "ch < length (dma_chan t)"
    using assms by (auto simp: touch_def touch_length [OF t(2)])
  then obtain u where "upd_word ch (off + 1) g t = Some u" "touch ch t u" "des0cnt (chan u ch) = des0cnt (chan t ch)"
    using upd_word_ex [of t ch "off + 1" g] assms by auto
  with t show ?thesis using touch_trans by metis
qed

lemma create_fmt0_ex:
  assumes "ring_ok (chan s ch)" "ch < length (dma_chan s)" "des0cnt (chan s ch) < RING - 1" "\<not> bad_id s ch"
  shows "\<exists>t r. create_fmt0_descript ch cfg attr s = Some (t, r) \<and> touch ch s t"
proof -
  let ?off = "2 * des0cnt (chan s ch)"
  have b: "0 \<le> ?off" "?off < 255" using ring_ok_cnt [OF assms(1)] assms(3) by (auto simp: RING_def)
  have o: "des_offset (des0cnt (chan s ch)) = ?off" using ring_ok_cnt [OF assms(1)] by (simp add: des_offset_eq)
  let ?r1 = "if interrupt_en attr = 1 then DMA_INTEN_DES else 0"
  let ?r = "(if end_descript attr = 1 then ?r1 OR DMA_DES_END else ?r1) OR des_size attr"
  obtain t u where w: "upd_word ch ?off (\<lambda>_. ?r) s = Some t" "upd_word ch (?off + 1) (\<lambda>_. data_addr attr) t = Some u"
    "touch ch s u" "des0cnt (chan u ch) = des0cnt (chan s ch)"
    using upd_word2_ex [OF assms(1,2) b] by metis
  have l: "ch < length (dma_chan u)" using assms(2) touch_length [OF w(3)] by simp
  have "touch ch u (upd_chan (\<lambda>c. c\<lparr>des0cnt := des0cnt c + 1\<rparr>) ch u)"
    using l w(4) assms(3) by (intro touch_upd_chan) (auto simp: ring_ok_def)
  with w(3) have "touch ch s (upd_chan (\<lambda>c. c\<lparr>des0cnt := des0cnt c + 1\<rparr>) ch u)" by (rule touch_trans)
  moreover have "\<not> ch \<ge> MAX_DMA_CHANNELS" using assms(4) by (auto simp: bad_id_def)
  ultimately show ?thesis using w(1,2) assms(4) by (auto simp: create_fmt0_descript_def Let_def o)
qed

lemma create_fmt1_ex:
  assumes "ring_ok (chan s ch)" "ch < length (dma_chan s)" "\<not> bad_id s ch"
  shows "\<exists>t r. create_fmt1_descript ch cfg attr s = Some (t, r) \<and> touch ch s t"
proof -
  have o: "des_offset (max_des0cnt (chan s ch) - 1) = 252"
    using ring_ok_cnt [OF assms(1)] des_offset_eq [of "RING - 1"] by (simp add: RING_def)
  let ?r1 = "if interrupt_en attr = 1 then DMA_INTEN_DES else 0"
  let ?r2 = "if end_descript attr = 1 then ?r1 OR DMA_DES_END else ?r1"
  let ?r = "(if fmt attr = 1 then ?r2 OR DMA_FORMAT_DES1 else ?r2) OR des_size attr"
  obtain t u where w: "upd_word ch 252 (\<lambda>_. ?r) s = Some t" "upd_word ch 253 (\<lambda>_. data_addr attr) t = Some u"
    "touch ch s u" using upd_word2_ex [OF assms(1,2), of 252 "\<lambda>_. ?r" "\<lambda>_. data_addr attr"] by auto
  have l: "ch < length (dma_chan u)" "ring_ok (chan u ch)" using assms touch_length [OF w(3)] w(3) by (auto simp: touch_def)
  then obtain v where v: "upd_word ch 254 (\<lambda>_. branch_addr attr) u = Some v" "touch ch u v"
    using upd_word_ex [of u ch 254 "\<lambda>_. branch_addr attr"] by auto
  have "touch ch v (upd_chan (\<lambda>c. c\<lparr>des0cnt := 0\<rparr>) ch v)"
    using l touch_length [OF v(2)] by (intro touch_upd_chan) (auto simp: ring_ok_def RING_def)
  with w(3) v(2) have "touch ch s (upd_chan (\<lambda>c. c\<lparr>des0cnt := 0\<rparr>) ch v)" by (blast intro: touch_trans)
  moreover have "\<not> ch \<ge> MAX_DMA_CHANNELS" using assms(3) by (auto simp: bad_id_def)
  ultimately show ?thesis using w(1,2) v(1) assms(3) by (auto simp: create_fmt1_descript_def Let_def o)
qed

lemma clear_last_ex:
  assumes "ring_ok (chan s ch)" "ch < length (dma_chan s)" "\<not> bad_id s ch"
  shows "\<exists>t r. clear_last_descript ch cfg s = Some (t, r) \<and> touch ch s t"
proof -
  define k where "k = (if des0cnt (chan s ch) - 1 \<ge> 0 then des0cnt (chan s ch) - 1 else max_des0cnt (chan s ch) - 1)"
  have k: "0 \<le> k" "k < RING" using ring_ok_cnt [OF assms(1)] by (auto simp: k_def RING_def)
  then have "0 \<le> 2 * k" "2 * k < 256" by (auto simp: RING_def)
  then obtain t where "upd_word ch (2 * k) (\<lambda>w. w AND NOT DMA_DES_END) s = Some t" "touch ch s t"
    using upd_word_ex [OF assms(1,2)] by blast
  moreover have "(if des0cnt (chan s ch) - 1 \<ge> 0 then des_offset (des0cnt (chan s ch) - 1)
                  else des_offset (max_des0cnt (chan s ch) - 1)) = 2 * k"
    using des_offset_eq [OF k] by (simp add: k_def split: if_splits)
  moreover have "\<not> ch \<ge> MAX_DMA_CHANNELS" using assms(3) by (auto simp: bad_id_def)
  ultimately show ?thesis using assms(3) by (auto simp: clear_last_descript_def Let_def)
qed

lemma touch_live:
  assumes "touch ch s t" "ring_ok (chan s ch)" "ch < length (dma_chan s)" "\<not> bad_id s ch"
  shows "ring_ok (chan t ch)" "ch < length (dma_chan t)" "\<not> bad_id t ch"
  using assms touch_bad_id [OF assms(1), of ch] touch_length [OF assms(1)] by (auto simp: touch_def)

subsection \<open>Adding descriptors\<close>

lemma touch_accu: "ch < length (dma_chan s) \<Longrightarrow> touch ch s (upd_chan (\<lambda>c. c\<lparr>accu_size := f c\<rparr>) ch s)"
  by (intro touch_upd_chan) (auto simp: ring_ok_def)

lemma touch_residue: "ch < length (dma_chan s) \<Longrightarrow> touch ch s (upd_chan (\<lambda>c. c\<lparr>residue_des0cnt := f c\<rparr>) ch s)"
  by (intro touch_upd_chan) (auto simp: ring_ok_def)

lemma map_opt_ex:
  "\<exists>t r. X = Some (t, r) \<and> P t \<Longrightarrow> \<exists>t b. map_option (\<lambda>(s, _). (s, a)) X = Some (t, b) \<and> P t"
  by auto

lemma put_descript_ex:
  assumes "ring_ok (chan s ch)" "ch < length (dma_chan s)" "\<not> bad_id s ch"
  shows "\<exists>t a. put_descript ch cfg residue xfer ptr attr s = Some (t, a) \<and> touch ch s t"
proof -
  define s1 where "s1 = (if accu_size (chan s ch) \<ge> ChunkSize cfg then upd_chan (\<lambda>c. c\<lparr>accu_size := xfer\<rparr>) ch s else s)"
  have t1: "touch ch s s1" using touch_accu [OF assms(2), of "\<lambda>_. xfer"] by (simp add: s1_def)
  note live = touch_live [OF t1 assms]
  have c0: "\<exists>t r. create_fmt0_descript ch cfg a s1 = Some (t, r) \<and> touch ch s t" if "des0cnt (chan s1 ch) < max_des0cnt (chan s1 ch) - 1" for a
    using that create_fmt0_ex [OF live(1,2) _ live(3), of cfg a] ring_ok_cnt [OF live(1)] touch_trans [OF t1] by auto
  have c1: "\<exists>t r. create_fmt1_descript ch cfg a s1 = Some (t, r) \<and> touch ch s t" for a
    using create_fmt1_ex [OF live, of cfg a] touch_trans [OF t1] by auto
  show ?thesis
  proof (cases "des0cnt (chan s1 ch) < max_des0cnt (chan s1 ch) - 1")
    case True
    then show ?thesis
      unfolding put_descript_def Let_def s1_def [symmetric] if_P [OF True] by (intro map_opt_ex c0)
  next
    case False
    show ?thesis
      unfolding put_descript_def Let_def s1_def [symmetric] if_not_P [OF False] by (intro map_opt_ex c1)
  qed
qed

lemma add_turn_ex:
  assumes "ring_ok (chan s ch)" "ch < length (dma_chan s)" "\<not> bad_id s ch"
  shows "\<exists>t a r p. add_turn ch cfg sz s attr residue ptr idx = Some (t, a, r, p) \<and> touch ch s t"
proof -
  obtain s1 where s1: "(if residue = sz then map_option fst (clear_last_descript ch cfg s) else Some s) = Some s1" "touch ch s s1"
    using clear_last_ex [OF assms, of cfg] by (cases "residue = sz") auto
  define xfer where "xfer = (if residue > SIZE_32KB then SIZE_32KB else residue)"
  define s2 where "s2 = upd_chan (\<lambda>c. c\<lparr>accu_size := u32 (accu_size c + xfer)\<rparr>) ch s1"
  have t2: "touch ch s s2"
    using touch_trans [OF s1(2) touch_accu] touch_length [OF s1(2)] assms(2) by (simp add: s2_def)
  obtain t a where "put_descript ch cfg (if residue > SIZE_32KB then residue - SIZE_32KB else 0) xfer (u32 (ptr + xfer * idx)) attr s2 = Some (t, a)"
    "touch ch s2 t" using put_descript_ex [OF touch_live [OF t2 assms]] by metis
  moreover from this(2) t2 have "touch ch s t" by (blast intro: touch_trans)
  ultimately show ?thesis by (auto simp: add_turn_def Let_def s1(1) xfer_def s2_def)
qed

lemma add_loop_ex:
  assumes "ring_ok (chan s ch)" "ch < length (dma_chan s)" "\<not> bad_id s ch"
  shows "\<exists>t n. add_loop ch cfg sz s attr residue ptr idx = Some (t, n) \<and> touch ch s t \<and> idx \<le> n"
  using assms
proof (induction ch cfg sz s attr residue ptr idx rule: add_loop.induct)
  case (1 ch cfg sz s attr residue ptr idx)
  show ?case
  proof (cases "residue > 0")
    case True
    obtain t a r p where turn: "add_turn ch cfg sz s attr residue ptr idx = Some (t, a, r, p)" "touch ch s t"
      using add_turn_ex [OF 1(2-4)] by blast
    obtain u n where "add_loop ch cfg sz t a r p (idx + 1) = Some (u, n)" "touch ch t u" "idx + 1 \<le> n"
      using 1(1) [OF True turn(1) refl refl refl] touch_live [OF turn(2) 1(2-4)] by blast
    moreover from this(2) turn(2) have "touch ch s u" by (blast intro: touch_trans)
    ultimately show ?thesis using True turn(1) by (auto simp: add_loop.simps [of ch cfg sz s attr residue ptr idx])
  next
    case False
    then show ?thesis by (simp add: add_loop.simps)
  qed
qed

lemma live_ring: "dma_ok s \<Longrightarrow> \<not> bad_id s ch \<Longrightarrow> ring_ok (chan s ch) \<and> ch < length (dma_chan s)"
  by (auto simp: dma_ok_def dma_shape_def bad_id_def chan_ok_def)

lemma add_descript_ex:
  assumes "dma_ok s"
  shows "\<exists>t n. add_descript attr ch cfg ptr sz s = Some (t, n) \<and> touch ch s t"
  using add_loop_ex [of s ch cfg sz attr sz ptr 0] live_ring [OF assms, of ch]
  by (auto simp: add_descript_def Let_def)

section \<open>The engine's answers\<close>

text \<open>The engine answers a request for an update: the bit is cleared at some time, or the timer
  goes on.\<close>

definition answers :: "memreg_answer \<Rightarrow> bool" where
  "answers h \<longleftrightarrow> (\<exists>(v, t) \<in> set (ans_polls h). v AND DMA_UP_MEMREG_EN = 0 \<or> u32 (t - ans_now h) > 15)"

lemma memreg_wait_returns:
  "\<exists>(v, t) \<in> set polls. v AND DMA_UP_MEMREG_EN = 0 \<or> u32 (t - now) > 15 \<Longrightarrow> \<exists>v. memreg_wait now polls = Some v"
  by (induction now polls rule: memreg_wait.induct) auto

text \<open>
  What the engine reports of a channel with bytes left is the descriptor under work. Both words that
  \<^verbatim>\<open>revise_descript\<close> stores at that position are inside of the ring.
\<close>

definition pos_in_ring :: "dma_info_s \<Rightarrow> dma_mem_reg_group_s \<Rightarrow> bool" where
  "pos_in_ring c reg \<longleftrightarrow>
     DMA_IF0RBR_CH reg AND DMA_DES_REQCNT_MASK = 0 \<or> u32 (DMA_IF0CPR_CH reg - des0_phy_addr c) < 4 * 255"

text \<open>The position that a call reads is outside of the ring of its channel.\<close>

definition bad_pos :: "memreg_answer \<Rightarrow> nat \<Rightarrow> dma_state \<Rightarrow> bool" where
  "bad_pos h ch s \<longleftrightarrow> \<not> bad_id s ch \<and>
     (case wmt_get_dma_pos_info h ch s of None \<Rightarrow> False | Some (_, reg) \<Rightarrow> \<not> pos_in_ring (chan s ch) reg)"

lemma update_memreg_ex:
  "answers h \<Longrightarrow> \<exists>t. update_memreg h ch s = Some t \<and> touch c s t \<and> dma_chan t = dma_chan s
     \<and> (mem_reg_group t = mem_reg_group s \<or> mem_reg_group t = (mem_reg_group s)[ch := ans_group h])"
  using memreg_wait_returns [of "ans_polls h" "ans_now h"] touch_upd_memregI touch_set_ccr
  by (auto simp: update_memreg_def answers_def dma_simps) (auto simp: upd_memreg_def set_ccr_def)

lemma pos_info_ex:
  assumes "answers h"
  shows "\<exists>t reg. wmt_get_dma_pos_info h ch s = Some (t, reg) \<and> touch ch s t \<and> dma_chan t = dma_chan s"
  using update_memreg_ex [OF assms, of ch s ch] by (auto simp: wmt_get_dma_pos_info_def)

lemma and_mask_ge0: "0 \<le> (x :: int) AND DMA_DES_REQCNT_MASK"
  by (simp add: DMA_DES_REQCNT_MASK_def)

lemma revise_ex:
  assumes "dma_ok s" "answers h" "\<not> bad_id s ch \<longrightarrow> pos_in_ring (chan s ch) reg"
  shows "\<exists>t r. revise_descript h ch cfg reg s = Some (t, r) \<and> touch ch s t"
proof (cases "bad_id s ch \<or> device_no (chan s ch) \<noteq> DeviceReqType cfg")
  case False
  obtain s1 where s1: "update_memreg h ch s = Some s1" "touch ch s s1" "dma_chan s1 = dma_chan s"
    using update_memreg_ex [OF assms(2)] by metis
  show ?thesis
  proof (cases "DMA_IF0RBR_CH reg AND DMA_DES_REQCNT_MASK > 0")
    case True
    define off where "off = u32 (DMA_IF0CPR_CH reg - des0_phy_addr (chan s1 ch)) div 4"
    have "chan s1 ch = chan s ch" using s1(3) by (simp add: chan_def)
    then have "u32 (DMA_IF0CPR_CH reg - des0_phy_addr (chan s1 ch)) < 1020"
      using True False assms(3) by (auto simp: pos_in_ring_def)
    then have off: "0 \<le> off" "off < 255" by (simp_all add: off_def pos_imp_zdiv_nonneg_iff)
    obtain t u where "upd_word ch off (\<lambda>w. (w AND NOT DMA_DES_REQCNT_MASK) OR (DMA_IF0RBR_CH reg AND DMA_DES_REQCNT_MASK)) s1 = Some t"
      "upd_word ch (off + 1) (\<lambda>_. DMA_IF0DAR_CH reg) t = Some u" "touch ch s1 u"
      using upd_word2_ex [OF _ _ off, of s1 ch] touch_live [OF s1(2)] live_ring [OF assms(1), of ch] False by metis
    moreover from this(3) s1(2) have "touch ch s u" by (blast intro: touch_trans)
    ultimately show ?thesis using False True s1(1) by (auto simp: revise_descript_def Let_def off_def)
  next
    case f2: False
    with False s1 show ?thesis by (auto simp: revise_descript_def Let_def)
  qed
qed (auto simp: revise_descript_def)

lemma upd_word_None: "des_0 (chan s ch) = Some ws \<Longrightarrow> length ws \<le> nat off \<Longrightarrow> upd_word ch off f s = None"
  by (simp add: upd_word_def)

text \<open>Nothing tests the position: one outside of the ring is written to.\<close>

lemma revise_None:
  assumes "dma_ok s" "answers h" "\<not> bad_id s ch" "device_no (chan s ch) = DeviceReqType cfg" "\<not> pos_in_ring (chan s ch) reg"
  shows "revise_descript h ch cfg reg s = None"
proof -
  obtain s1 where s1: "update_memreg h ch s = Some s1" "dma_chan s1 = dma_chan s"
    using update_memreg_ex [OF assms(2)] by metis
  define off where "off = u32 (DMA_IF0CPR_CH reg - des0_phy_addr (chan s1 ch)) div 4"
  have c: "chan s1 ch = chan s ch" using s1(2) by (simp add: chan_def)
  have "0 \<le> DMA_IF0RBR_CH reg AND DMA_DES_REQCNT_MASK" "DMA_IF0RBR_CH reg AND DMA_DES_REQCNT_MASK \<noteq> 0"
    using assms(5) and_mask_ge0 by (auto simp: pos_in_ring_def)
  then have p: "DMA_IF0RBR_CH reg AND DMA_DES_REQCNT_MASK > 0" by linarith
  have o: "255 \<le> off" using assms(5) c by (auto simp: pos_in_ring_def off_def)
  obtain ws where ws: "des_0 (chan s1 ch) = Some ws" "length ws = 256" "ch < length (dma_chan s1)"
    using live_ring [OF assms(1,3)] ring_ok_ex c s1(2) by metis
  let ?f = "\<lambda>w. (w AND NOT DMA_DES_REQCNT_MASK) OR (DMA_IF0RBR_CH reg AND DMA_DES_REQCNT_MASK)"
  have "upd_word ch off ?f s1 = None" if "off \<noteq> 255" using ws o that by (intro upd_word_None) auto
  moreover have "upd_word ch (off + 1) g t = None" if "off = 255" "upd_word ch off ?f s1 = Some t" for g t
  proof -
    have "t = upd_chan (\<lambda>c. c\<lparr>des_0 := Some (ws[nat off := ?f (ws ! nat off)])\<rparr>) ch s1"
      using that ws upd_word_Some [OF ws(1), of off ?f] by simp
    then show ?thesis using ws that(1) by (intro upd_word_None [where ws = "ws[nat off := ?f (ws ! nat off)]"]) (simp_all add: dma_simps)
  qed
  ultimately have "upd_word ch off ?f s1 \<bind> (\<lambda>s2. upd_word ch (off + 1) (\<lambda>_. DMA_IF0DAR_CH reg) s2) = None"
    by (cases "upd_word ch off ?f s1"; cases "off = 255") auto
  then show ?thesis using assms(3,4) p s1(1)
    by (auto simp: revise_descript_def Let_def off_def [symmetric] split: bind_splits)
qed

end
