(* ===== verification/WmtDmaSys.thy ===== *)
theory WmtDmaSys
  imports WmtDmaInv
begin

text \<open>
  The DMA driver as a transition system: the calls of its clients, the interrupts, and the engine,
  which may change registers and the contents of the rings at any time.
\<close>

section \<open>Steps\<close>

datatype dma_op =
    Request "int list \<times> int" string nat "nat option"
  | Setup nat dma_device_cfg_s
  | Start des_attribute nat int int
  | Wake des_attribute nat int int
  | Clear nat
  | Reset nat
  | Free nat
  | Stop memreg_answer nat
  | Resume memreg_answer memreg_answer nat
  | Pos memreg_answer nat
  | PosInfo memreg_answer nat
  | Dump memreg_answer nat
  | Busy nat
  | Irq memreg_answer memreg_answer memreg_answer nat

fun dma_exec :: "dma_op \<Rightarrow> dma_state \<Rightarrow> dma_state option" where
  "dma_exec (Request a name device cb) s = map_option fst (wmt_request_dma (Some a) None name device cb s)"
| "dma_exec (Setup ch cfg) s = map_option fst (wmt_setup_dma ch cfg s)"
| "dma_exec (Start attr ch ptr sz) s = map_option fst (wmt_start_dma attr ch ptr sz s)"
| "dma_exec (Wake attr ch ptr sz) s = map_option fst (wmt_wake_dma attr ch ptr sz s)"
| "dma_exec (Clear ch) s = wmt_clear_dma ch s"
| "dma_exec (Reset ch) s = wmt_reset_dma ch s"
| "dma_exec (Free ch) s = wmt_free_dma ch s"
| "dma_exec (Stop h ch) s = wmt_stop_dma h ch s"
| "dma_exec (Resume h1 h2 ch) s = wmt_resume_dma h1 h2 ch s"
| "dma_exec (Pos h ch) s = map_option fst (wmt_get_dma_pos h ch s)"
| "dma_exec (PosInfo h ch) s = map_option fst (wmt_get_dma_pos_info h ch s)"
| "dma_exec (Dump h ch) s = wmt_dump_dma_regs h ch s"
| "dma_exec (Busy ch) s = Some (fst (wmt_dma_busy ch s))"
| "dma_exec (Irq h1 h2 h3 irq) s = map_option fst (dma_irq_handler h1 h2 h3 irq s)"

text \<open>
  What the operations rely on: a ring was allocated and the device is one of the table; the channel
  of a call that does not test it is one of the sixteen; the engine answers.
\<close>

fun op_ok :: "dma_op \<Rightarrow> bool" where
  "op_ok (Request a name device cb) \<longleftrightarrow> length (fst a) = 256 \<and> device \<in> set dma_devices"
| "op_ok (Start attr ch ptr sz) \<longleftrightarrow> ch < MAX_DMA_CHANNELS"
| "op_ok (Wake attr ch ptr sz) \<longleftrightarrow> ch < MAX_DMA_CHANNELS"
| "op_ok (Clear ch) \<longleftrightarrow> ch < MAX_DMA_CHANNELS"
| "op_ok (Stop h ch) \<longleftrightarrow> answers h"
| "op_ok (Resume h1 h2 ch) \<longleftrightarrow> ch < MAX_DMA_CHANNELS \<and> answers h1 \<and> answers h2"
| "op_ok (Pos h ch) \<longleftrightarrow> answers h"
| "op_ok (PosInfo h ch) \<longleftrightarrow> answers h"
| "op_ok (Dump h ch) \<longleftrightarrow> answers h \<and> ch < MAX_DMA_CHANNELS"
| "op_ok (Irq h1 h2 h3 irq) \<longleftrightarrow> answers h1 \<and> answers h2 \<and> answers h3"
| "op_ok _ \<longleftrightarrow> True"

text \<open>
  The operations that trust a position read from the engine: \<^verbatim>\<open>wmt_resume_dma\<close>, and the interrupt
  handler when the engine reports no status or an error. \<open>stray s op\<close>: the position that the
  operation reads and hands to \<^verbatim>\<open>revise_descript\<close> is outside of the ring. \<open>halted\<close> is the start of
  \<^verbatim>\<open>wmt_resume_dma\<close>, which takes an active channel out of its run.
\<close>

definition halted :: "nat \<Rightarrow> dma_state \<Rightarrow> dma_state" where
  "halted ch s = (if ccr s ch AND DMA_ACTIVE \<noteq> 0
     then let t = set_ccr ch (ccr s ch AND NOT SYSTEM_DMA_REQ_EN) s in set_ccr ch (ccr t ch AND NOT SYSTEM_DMA_RUN) t else s)"

definition irq_stray :: "memreg_answer \<Rightarrow> memreg_answer \<Rightarrow> nat \<Rightarrow> dma_state \<Rightarrow> bool" where
  "irq_stray h1 h2 ch s \<longleftrightarrow>
     (let st = ccr s ch AND DMA_EVT_ID_MASK; s1 = write_isr (push_bit ch 1) s in
      if st = DMA_EVT_NO_STATUS then bad_pos h1 ch s1
      else st \<noteq> DMA_EVT_SUCCESS \<and> (case wmt_dump_dma_regs h1 ch s1 of None \<Rightarrow> False | Some s2 \<Rightarrow> bad_pos h2 ch (halted ch s2)))"

fun stray :: "dma_state \<Rightarrow> dma_op \<Rightarrow> bool" where
  "stray s (Resume h1 h2 ch) \<longleftrightarrow> bad_pos h1 ch (halted ch s)"
| "stray s (Irq h1 h2 h3 irq) \<longleftrightarrow>
     (case find (\<lambda>ch. irq = dma_irq_no ! ch) [0..<MAX_DMA_CHANNELS] of None \<Rightarrow> False | Some ch \<Rightarrow> irq_stray h1 h2 ch s)"
| "stray s _ \<longleftrightarrow> False"

text \<open>The engine leaves the driver's variables alone.\<close>

definition engine :: "dma_state \<Rightarrow> dma_state \<Rightarrow> bool" where
  "engine s t \<longleftrightarrow> same_regs s t \<and> (\<forall>ch < MAX_DMA_CHANNELS. \<exists>d.
      (case (des_0 (chan s ch), d) of (Some ws, Some vs) \<Rightarrow> length vs = length ws | (None, None) \<Rightarrow> True | _ \<Rightarrow> False)
      \<and> chan t ch = (chan s ch)\<lparr>des_0 := d\<rparr>)"

text \<open>The state before the driver is set up: static variables are zero, the registers are arbitrary.\<close>

definition zero_chan :: dma_info_s where
  "zero_chan = \<lparr>device_id = None, callback = None, device_no = 0, device_cfg = cfg_entry 0 0 0 0 0, in_use = 0,
     des0cnt = 0, des1cnt = 0, max_des0cnt = 0, max_des1cnt = 0, residue_des0cnt = 0, residue_des1cnt = 0,
     des_0 = None, des_1 = None, des0_phy_addr = 0, des1_phy_addr = 0, accu_size = 0, descript_size = 0\<rparr>"

definition boot_state :: "dma_state \<Rightarrow> bool" where
  "boot_state s \<longleftrightarrow> dma_chan s = replicate MAX_DMA_CHANNELS zero_chan \<and> cfg_table s = dma_device_cfg_table
     \<and> length (DMA_CCR_CH s) = MAX_DMA_CHANNELS \<and> length (mem_reg_group s) = MAX_DMA_CHANNELS \<and> coherent s = []"

inductive dma_reach :: "dma_state \<Rightarrow> bool" where
  Init: "boot_state s0 \<Longrightarrow> wmt_dma_init p s0 = Some (p', s, 0) \<Longrightarrow> dma_reach s"
| Op: "dma_reach s \<Longrightarrow> op_ok op \<Longrightarrow> dma_exec op s = Some t \<Longrightarrow> dma_reach t"
| Engine: "dma_reach s \<Longrightarrow> engine s t \<Longrightarrow> dma_reach t"
| Sleep: "dma_reach s \<Longrightarrow> dma_resume p s = Some (p', t) \<Longrightarrow> dma_reach t"

section \<open>Every operation keeps the invariant and returns\<close>

definition keeps :: "dma_state \<Rightarrow> dma_state option \<Rightarrow> bool" where
  "keeps s r \<longleftrightarrow> (\<exists>t. r = Some t \<and> dma_ok t)"

lemma keepsI: "dma_ok s \<Longrightarrow> \<exists>t. r = Some t \<and> touch ch s t \<Longrightarrow> keeps s r"
  using dma_ok_touch by (auto simp: keeps_def)

lemma channel_length: "dma_ok s \<Longrightarrow> ch < MAX_DMA_CHANNELS \<Longrightarrow> ch < length (dma_chan s)"
  by (simp add: dma_ok_lengths MAX_DMA_CHANNELS_def)

lemma start_touch:
  assumes "dma_ok s" "ch < MAX_DMA_CHANNELS"
  shows "\<exists>t r. wmt_start_dma attr ch ptr sz s = Some (t, r) \<and> touch ch s t"
proof -
  obtain s1 n where a: "add_descript attr ch (device_cfg (chan s ch)) ptr sz s = Some (s1, n)" "touch ch s s1"
    using add_descript_ex [OF assms(1)] by blast
  define s2 where "s2 = upd_chan (\<lambda>c. c\<lparr>residue_des0cnt := s32 (residue_des0cnt c + n)\<rparr>) ch s1"
  define s3 where "s3 = (if residue_des0cnt (chan s2 ch) > max_des0cnt (chan s2 ch) - 1
      then upd_chan (\<lambda>c. c\<lparr>residue_des0cnt := max_des0cnt c - 1\<rparr>) ch s2 else s2)"
  have l1: "ch < length (dma_chan s1)" using channel_length [OF assms] touch_length [OF a(2)] by simp
  have t2: "touch ch s s2" unfolding s2_def by (rule touch_trans [OF a(2) touch_residue [OF l1]])
  have l2: "ch < length (dma_chan s2)" using l1 by (simp add: s2_def dma_simps)
  have t3: "touch ch s s3" using touch_trans [OF t2 touch_residue [OF l2]] t2 by (simp add: s3_def)
  show ?thesis using a t3 assms(2)
    by (auto simp: wmt_start_dma_def Let_def s2_def [symmetric] s3_def [symmetric] intro!: touch_intros)
qed

lemma wake_touch:
  assumes "dma_ok s" "ch < MAX_DMA_CHANNELS"
  shows "\<exists>t r. wmt_wake_dma attr ch ptr sz s = Some (t, r) \<and> touch ch s t"
proof -
  obtain s1 n where a: "add_descript attr ch (device_cfg (chan s ch)) ptr sz s = Some (s1, n)" "touch ch s s1"
    using add_descript_ex [OF assms(1)] by blast
  have "touch ch s (upd_chan (\<lambda>c. c\<lparr>residue_des0cnt := s32 (residue_des0cnt c + n)\<rparr>) ch s1)"
    using channel_length [OF assms] touch_length [OF a(2)] by (intro touch_trans [OF a(2) touch_residue]) simp
  then show ?thesis using a assms(2) by (auto simp: wmt_wake_dma_def Let_def intro!: touch_intros)
qed

lemma clear_touch:
  assumes "dma_ok s" "ch < MAX_DMA_CHANNELS"
  shows "\<exists>t. wmt_clear_dma ch s = Some t \<and> touch ch s t \<and> des0_phy_addr (chan t ch) = des0_phy_addr (chan s ch)"
proof -
  define t where "t = write_isr (push_bit ch 1) (set_ccr ch (ccr (set_ccr ch (ccr s ch AND NOT SYSTEM_DMA_REQ_EN) s) ch AND NOT SYSTEM_DMA_RUN)
      (set_ccr ch (ccr s ch AND NOT SYSTEM_DMA_REQ_EN) s))"
  have t: "touch ch s t" unfolding t_def by (intro touch_intros)
  have "touch ch s (upd_chan (\<lambda>c. c\<lparr>des0cnt := 0, des1cnt := 0, accu_size := 0, residue_des0cnt := 0\<rparr>) ch t)"
    using channel_length [OF assms] touch_length [OF t]
    by (intro touch_trans [OF t touch_upd_chan]) (auto simp: ring_ok_def RING_def)
  then show ?thesis using assms(2) by (auto simp: wmt_clear_dma_def Let_def t_def touch_def)
qed

lemma stop_touch: "answers h \<Longrightarrow> \<exists>t. wmt_stop_dma h ch s = Some t \<and> touch ch s t"
proof -
  assume "answers h"
  then obtain t where "update_memreg h ch (set_ccr ch (ccr s ch AND NOT SYSTEM_DMA_REQ_EN) s) = Some t"
    "touch ch (set_ccr ch (ccr s ch AND NOT SYSTEM_DMA_REQ_EN) s) t" using update_memreg_ex by metis
  moreover from this(2) have "touch ch s t" by (rule touch_trans [OF touch_set_ccr])
  ultimately show ?thesis by (auto simp: wmt_stop_dma_def intro!: touch_intros)
qed

text \<open>The position is read and trusted: the call goes on exactly when it is in the ring.\<close>

lemma live_device: "dma_ok s \<Longrightarrow> \<not> bad_id s ch \<Longrightarrow> device_no (chan s ch) = DeviceReqType (device_cfg (chan s ch))"
  by (auto simp: dma_ok_def bad_id_def chan_ok_def)

lemma pos_revise_touch:
  assumes "dma_ok s" "answers h1" "answers h2"
  shows "\<exists>t reg. wmt_get_dma_pos_info h1 ch s = Some (t, reg)
     \<and> (if bad_pos h1 ch s then revise_descript h2 ch (device_cfg (chan t ch)) reg t = None
        else \<exists>u r. revise_descript h2 ch (device_cfg (chan t ch)) reg t = Some (u, r) \<and> touch ch s u)"
proof -
  obtain t reg where t: "wmt_get_dma_pos_info h1 ch s = Some (t, reg)" "touch ch s t" "dma_chan t = dma_chan s"
    using pos_info_ex [OF assms(2)] by metis
  have ok: "dma_ok t" using dma_ok_touch [OF assms(1) t(2)] .
  have c: "chan t ch = chan s ch" "bad_id t ch = bad_id s ch" using t(3) by (simp_all add: chan_def bad_id_def)
  have b: "bad_pos h1 ch s \<longleftrightarrow> \<not> bad_id t ch \<and> \<not> pos_in_ring (chan t ch) reg" using t(1) c by (simp add: bad_pos_def)
  have "revise_descript h2 ch (device_cfg (chan t ch)) reg t = None" if "bad_pos h1 ch s"
    using that b revise_None [OF ok assms(3)] live_device [OF ok] by blast
  moreover have "\<exists>u r. revise_descript h2 ch (device_cfg (chan t ch)) reg t = Some (u, r) \<and> touch ch s u" if "\<not> bad_pos h1 ch s"
    using that b revise_ex [OF ok assms(3), of ch reg] touch_trans [OF t(2)] by metis
  ultimately show ?thesis using t(1) by auto
qed

text \<open>\<open>outcome ch s r b\<close>: the call with result \<open>r\<close> fails exactly when \<open>b\<close>, and else touches channel \<open>ch\<close> only.\<close>

definition outcome :: "nat \<Rightarrow> dma_state \<Rightarrow> dma_state option \<Rightarrow> bool \<Rightarrow> bool" where
  "outcome ch s r b \<longleftrightarrow> (case r of None \<Rightarrow> b | Some t \<Rightarrow> \<not> b \<and> touch ch s t)"

lemma halted_fields: "touch ch s (halted ch s)" "bad_id (halted ch s) c = bad_id s c"
  by (auto simp: halted_def Let_def dma_simps bad_id_def intro!: touch_intros)

lemma resume_outcome:
  assumes "dma_ok s" "ch < MAX_DMA_CHANNELS" "answers h1" "answers h2"
  shows "outcome ch s (wmt_resume_dma h1 h2 ch s) (bad_pos h1 ch (halted ch s))"
proof -
  let ?s = "halted ch s"
  have r: "wmt_resume_dma h1 h2 ch s = (if bad_id ?s ch then Some ?s else do {
      (s2, reg) \<leftarrow> wmt_get_dma_pos_info h1 ch ?s;
      (s3, _) \<leftarrow> revise_descript h2 ch (device_cfg (chan s2 ch)) reg s2;
      Some (set_ccr ch (ccr s3 ch OR (SYSTEM_DMA_RUN OR SYSTEM_DMA_REQ_EN)) s3)})"
    using assms(2) by (simp add: wmt_resume_dma_def halted_def Let_def)
  obtain t reg where t: "wmt_get_dma_pos_info h1 ch ?s = Some (t, reg)"
    "if bad_pos h1 ch ?s then revise_descript h2 ch (device_cfg (chan t ch)) reg t = None
     else \<exists>u r. revise_descript h2 ch (device_cfg (chan t ch)) reg t = Some (u, r) \<and> touch ch ?s u"
    using pos_revise_touch [OF dma_ok_touch [OF assms(1) halted_fields(1)] assms(3,4)] by blast
  show ?thesis
  proof (cases "bad_id ?s ch \<or> bad_pos h1 ch ?s")
    case True
    then show ?thesis using r t halted_fields(1) [of ch s] by (auto simp: outcome_def bad_pos_def)
  next
    case False
    then obtain u v where u: "revise_descript h2 ch (device_cfg (chan t ch)) reg t = Some (u, v)" "touch ch ?s u" using t(2) by auto
    have "touch ch s u" using halted_fields(1) u(2) by (rule touch_trans)
    then show ?thesis using False r t(1) u(1) by (auto simp: outcome_def intro!: touch_intros)
  qed
qed

lemma irq_done_touch: "ch < length (dma_chan s) \<Longrightarrow> touch ch s (fst (irq_done ch s))"
  by (simp add: irq_done_def Let_def touch_residue)

lemma irq_outcome:
  assumes ok: "dma_ok s" and h: "answers h1" "answers h2" "answers h3"
    and ch: "find (\<lambda>ch. irq = dma_irq_no ! ch) [0..<MAX_DMA_CHANNELS] = Some ch"
  shows "outcome ch s (map_option fst (dma_irq_handler h1 h2 h3 irq s)) (irq_stray h1 h2 ch s)"
proof -
  have c: "ch < MAX_DMA_CHANNELS" using ch by (auto simp: find_Some_iff)
  define s1 where "s1 = write_isr (push_bit ch 1) s"
  have s1: "touch ch s s1" "dma_ok s1" using dma_ok_touch [OF ok touch_write_isr] by (auto simp: s1_def)
  have fin: "touch ch s (fst (irq_done ch v))" if "touch ch s1 v" for v
  proof -
    have "touch ch s v" using s1(1) that by (rule touch_trans)
    moreover have "ch < length (dma_chan v)" using channel_length [OF ok c] touch_length [OF \<open>touch ch s v\<close>] by simp
    ultimately show ?thesis using irq_done_touch touch_trans by blast
  qed
  obtain t reg where a: "wmt_get_dma_pos_info h1 ch s1 = Some (t, reg)"
    "if bad_pos h1 ch s1 then revise_descript h2 ch (device_cfg (chan t ch)) reg t = None
     else \<exists>u r. revise_descript h2 ch (device_cfg (chan t ch)) reg t = Some (u, r) \<and> touch ch s1 u"
    using pos_revise_touch [OF s1(2) h(1,2)] by blast
  obtain s2 where d: "wmt_dump_dma_regs h1 ch s1 = Some s2" "touch ch s1 s2"
    using update_memreg_ex [OF h(1), of ch s1 ch] c by (auto simp: wmt_dump_dma_regs_def)
  have e: "outcome ch s2 (wmt_resume_dma h2 h3 ch s2) (bad_pos h2 ch (halted ch s2))"
    using resume_outcome [OF dma_ok_touch [OF s1(2) d(2)] c h(2,3)] .
  have s2: "touch ch s s2" using s1(1) d(2) by (rule touch_trans)
  let ?st = "ccr s ch AND DMA_EVT_ID_MASK"
  have r: "dma_irq_handler h1 h2 h3 irq s =
      (if ?st = DMA_EVT_NO_STATUS then revise_descript h2 ch (device_cfg (chan t ch)) reg t \<bind> (\<lambda>(s3, _). Some (irq_done ch s3))
       else if ?st \<noteq> DMA_EVT_SUCCESS then wmt_resume_dma h2 h3 ch s2 \<bind> (\<lambda>s3. Some (s3, None)) else Some (irq_done ch s1))"
    unfolding dma_irq_handler_def ch option.case Let_def s1_def [symmetric] by (simp add: a(1) d(1))
  have "outcome ch s (map_option fst (revise_descript h2 ch (device_cfg (chan t ch)) reg t \<bind> (\<lambda>(s3, _). Some (irq_done ch s3)))) (bad_pos h1 ch s1)"
    using a(2) fin by (auto simp: outcome_def split: if_splits)
  moreover have "outcome ch s (map_option fst (wmt_resume_dma h2 h3 ch s2 \<bind> (\<lambda>s3. Some (s3, None)))) (bad_pos h2 ch (halted ch s2))"
    using e touch_trans [OF s2] by (auto simp: outcome_def split: option.splits)
  moreover have "outcome ch s (Some (fst (irq_done ch s1))) False" using fin [OF touch_refl] by (simp add: outcome_def)
  ultimately show ?thesis unfolding r irq_stray_def Let_def s1_def [symmetric] d(1) by auto
qed

section \<open>Requesting and freeing a channel\<close>

lemma free_channel_Some: "free_channel s = Some ch \<Longrightarrow> 0 < ch \<and> ch < MAX_DMA_CHANNELS \<and> in_use (chan s ch) = 0
    \<and> (\<forall>c. 0 < c \<and> c < ch \<longrightarrow> in_use (chan s c) \<noteq> 0)"
proof -
  assume "free_channel s = Some ch"
  then obtain i where i: "i < length [1..<MAX_DMA_CHANNELS]" "in_use (chan s ([1..<MAX_DMA_CHANNELS] ! i)) = 0"
    "ch = [1..<MAX_DMA_CHANNELS] ! i" "\<forall>j < i. in_use (chan s ([1..<MAX_DMA_CHANNELS] ! j)) \<noteq> 0"
    by (auto simp: free_channel_def find_Some_iff)
  then have c: "ch = i + 1" by simp
  have "in_use (chan s c) \<noteq> 0" if "0 < c" "c < ch" for c
    using i(4)[rule_format, of "c - 1"] i(1) that c by simp
  with i c show ?thesis by auto
qed

lemma free_channel_None: "free_channel s = None \<longleftrightarrow> (\<forall>ch. 0 < ch \<and> ch < MAX_DMA_CHANNELS \<longrightarrow> in_use (chan s ch) \<noteq> 0)"
  by (auto simp: free_channel_def find_None_iff)

text \<open>The new descriptor of a channel that was requested, and the rest of the state.\<close>

definition new_chan :: "int list \<times> int \<Rightarrow> string \<Rightarrow> nat \<Rightarrow> nat option \<Rightarrow> dma_device_cfg_s \<Rightarrow> dma_info_s \<Rightarrow> dma_info_s" where
  "new_chan a name device cb cfg c = c\<lparr>device_id := Some name, device_no := device, callback := cb, in_use := 1,
     des0cnt := 0, des1cnt := 0, accu_size := 0, residue_des0cnt := 0, residue_des1cnt := 0,
     descript_size := MAX_DESCRIPT_SIZE, des_0 := Some (fst a), des0_phy_addr := snd a, max_des0cnt := RING,
     device_cfg := cfg\<rparr>"

lemma table_type:
  assumes "dma_ok s" "device \<in> set dma_devices"
  shows "device < length (cfg_table s)" "DeviceReqType (cfg_table s ! device) = device" "device \<noteq> MEMORY_DMA_REQ" "device \<noteq> DEVICE_RESERVED"
proof -
  have l: "length (cfg_table s) = 34" using assms(1) by (rule dma_ok_lengths)
  show d: "device < length (cfg_table s)" "device \<noteq> MEMORY_DMA_REQ" "device \<noteq> DEVICE_RESERVED"
    using assms(2) l by (auto simp: dma_devices_def MEMORY_DMA_REQ_def DEVICE_RESERVED_def)
  have "DeviceReqType (cfg_table s ! device) = map DeviceReqType (cfg_table s) ! device" using d by simp
  also have "\<dots> = map DeviceReqType dma_device_cfg_table ! device" using assms(1) by (simp add: dma_ok_def dma_shape_def)
  also have "\<dots> = device"
    using assms(2) by (auto simp: dma_devices_def dma_device_cfg_table_def cfg_entry_def DEVICE_RESERVED_def MEMORY_DMA_REQ_def)
  finally show "DeviceReqType (cfg_table s ! device) = device" .
qed

lemma request_effect:
  assumes "dma_ok s" "device \<in> set dma_devices" "free_channel s = Some ch"
  shows "\<exists>t. wmt_request_dma (Some a) b name device cb s = Some (t, Some ch, 0)
     \<and> same_regs (s\<lparr>request_chans := request_chans s OR push_bit ch 1, coherent := snd a # coherent s\<rparr>) t
     \<and> (\<forall>c < MAX_DMA_CHANNELS. chan t c = (if c = ch then new_chan a name device cb (cfg_table s ! device) (chan s ch) else chan s c))"
proof -
  have ch: "ch < length (dma_chan s)" using free_channel_Some [OF assms(3)] channel_length [OF assms(1)] by blast
  obtain ws h where a: "a = (ws, h)" by (cases a)
  have max: "(MAX_DESCRIPT_SIZE - DMA_DES1_SIZE) div DMA_DES0_SIZE + 1 = RING"
    by (simp add: MAX_DESCRIPT_SIZE_def DMA_DES1_SIZE_def DMA_DES0_SIZE_def RING_def)
  have lr: "chan (t\<lparr>request_chans := x\<rparr>) c = chan t c" "chan (t\<lparr>coherent := y\<rparr>) c = chan t c" for t x y c by (simp_all add: chan_def)
  show ?thesis using ch table_type [OF assms(1,2)]
    by (auto simp: wmt_request_dma_def assms(3) Let_def a alloc_ledger_def alloc_handle_def dma_simps lr max
        same_regs_def new_chan_def)
qed

lemma request_ok:
  assumes "dma_ok s" "device \<in> set dma_devices" "free_channel s = Some ch" "length (fst a) = 256"
    and t: "same_regs (s\<lparr>request_chans := request_chans s OR push_bit ch 1, coherent := snd a # coherent s\<rparr>) t"
      "\<forall>c < MAX_DMA_CHANNELS. chan t c = (if c = ch then new_chan a name device cb (cfg_table s ! device) (chan s ch) else chan s c)"
  shows "dma_ok t"
proof -
  note ch = free_channel_Some [OF assms(3)]
  have u: "used t = insert ch (used s)" "ch \<notin> used s" using ch t(2) by (auto simp: used_def new_chan_def split: if_splits)
  have "image_mset (\<lambda>c. des0_phy_addr (chan t c)) (mset_set (used s)) = image_mset (\<lambda>c. des0_phy_addr (chan s c)) (mset_set (used s))"
    using t(2) u by (intro image_mset_cong) (auto simp: used_def split: if_splits)
  then have m: "mset (coherent t) = image_mset (\<lambda>c. des0_phy_addr (chan t c)) (mset_set (used t))"
    using assms(1) t ch u by (simp add: dma_ok_def same_regs_def new_chan_def)
  have b: "bit (request_chans t) c \<longleftrightarrow> c \<in> used t" if "c < MAX_DMA_CHANNELS" for c
    using that t(1) assms(1) u(1) by (auto simp: same_regs_def bit_or_iff bit_exp_iff dma_ok_def)
  have c: "chan_ok (chan t c)" if "c < MAX_DMA_CHANNELS" for c
  proof (cases "c = ch")
    case True
    then show ?thesis using that t(2) assms(2,4) table_type [OF assms(1,2)]
      by (auto simp: chan_ok_def new_chan_def ring_ok_def RING_def)
  next
    case False
    with that t(2) assms(1) show ?thesis by (simp add: dma_ok_def)
  qed
  have "dma_shape t" using assms(1) t(1) by (simp add: dma_ok_def dma_shape_def same_regs_def)
  moreover have "in_use (chan t 0) = 0" using ch t(2) assms(1) by (simp add: dma_ok_def)
  ultimately show ?thesis using m b c by (simp add: dma_ok_def)
qed

lemma request_keeps:
  assumes "dma_ok s" "device \<in> set dma_devices" "length (fst a) = 256"
  shows "keeps s (map_option fst (wmt_request_dma (Some a) b name device cb s))"
proof (cases "free_channel s")
  case None
  with assms show ?thesis by (simp add: wmt_request_dma_def keeps_def)
next
  case (Some ch)
  obtain t where "wmt_request_dma (Some a) b name device cb s = Some (t, Some ch, 0)"
    "same_regs (s\<lparr>request_chans := request_chans s OR push_bit ch 1, coherent := snd a # coherent s\<rparr>) t"
    "\<forall>c < MAX_DMA_CHANNELS. chan t c = (if c = ch then new_chan a name device cb (cfg_table s ! device) (chan s ch) else chan s c)"
    using request_effect [OF assms(1,2) Some] by blast
  with request_ok [OF assms(1,2) Some assms(3)] show ?thesis by (auto simp: keeps_def)
qed

text \<open>A channel in use is freed with its ring.\<close>

lemma free_effect:
  assumes "dma_ok s" "ch \<in> used s"
  shows "\<exists>t. wmt_free_dma ch s = Some t
     \<and> same_regs (s\<lparr>request_chans := request_chans s AND NOT (push_bit ch 1), coherent := remove1 (des0_phy_addr (chan s ch)) (coherent s)\<rparr>) t
     \<and> in_use (chan t ch) = 0 \<and> device_no (chan t ch) = DEVICE_RESERVED \<and> (\<forall>c. c \<noteq> ch \<longrightarrow> chan t c = chan s c)"
proof -
  have ch: "ch < MAX_DMA_CHANNELS" "in_use (chan s ch) \<noteq> 0" using assms(2) by (auto simp: used_def)
  have dev: "device_no (chan s ch) \<in> set dma_devices" using assms(1) ch by (auto simp: dma_ok_def chan_ok_def split: if_splits)
  obtain s1 where s1: "wmt_clear_dma ch s = Some s1" "touch ch s s1" using clear_touch [OF assms(1) ch(1)] by blast
  define s2 where "s2 = s1\<lparr>request_chans := request_chans s1 AND NOT (push_bit ch 1)\<rparr>"
  have c2: "chan s2 c = chan s1 c" "coherent s2 = coherent s1" for c by (simp_all add: s2_def chan_def)
  define f where "f = (\<lambda>c :: dma_info_s. c\<lparr>device_no := DEVICE_RESERVED, device_id := None, des0cnt := 0, des1cnt := 0,
                 accu_size := 0, residue_des0cnt := 0, max_des0cnt := 0, max_des1cnt := 0, in_use := 0,
                 des_0 := None, des_1 := (if device_no c = MEMORY_DMA_REQ then None else des_1 c)\<rparr>)"
  define s3 where "s3 = s2\<lparr>coherent := remove1 (des0_phy_addr (chan s2 ch)) (coherent s2)\<rparr>"
  have "des0_phy_addr (chan s ch) \<in># mset (coherent s)"
    using assms by (auto simp: dma_ok_def)
  then have mem: "des0_phy_addr (chan s2 ch) \<in> set (coherent s2)" using s1(2) c2 by (simp add: touch_def same_regs_def)
  have c3: "chan s3 c = chan s1 c" "dma_chan s3 = dma_chan s1" for c by (simp_all add: s3_def s2_def chan_def)
  have nm: "device_no (chan s3 ch) \<noteq> MEMORY_DMA_REQ" "device_no (chan s ch) \<noteq> DEVICE_RESERVED"
    using table_type [OF assms(1) dev] s1(2) c3 by (auto simp: touch_def)
  have fr: "dma_free_coherent (des0_phy_addr (chan s2 ch)) s2 = Some s3" using mem by (simp add: dma_free_coherent_def s3_def)
  have "wmt_free_dma ch s = Some (upd_chan f ch s3)"
    using ch nm by (simp del: push_bit_of_1 add: wmt_free_dma_def s1(1) Let_def s2_def [symmetric] fr f_def)
  moreover have "ch < length (dma_chan s3)" using c3 channel_length [OF assms(1) ch(1)] touch_length [OF s1(2)] by simp
  moreover have "same_regs (s\<lparr>request_chans := request_chans s AND NOT (push_bit ch 1), coherent := remove1 (des0_phy_addr (chan s ch)) (coherent s)\<rparr>) (upd_chan f ch s3)"
    using s1(2) c2 by (simp add: same_regs_def dma_simps s3_def touch_def) (simp add: s2_def)
  ultimately show ?thesis using s1(2) c3 by (auto simp: dma_simps f_def touch_def)
qed

lemma free_keeps:
  assumes "dma_ok s"
  shows "keeps s (wmt_free_dma ch s)"
proof (cases "ch \<in> used s")
  case False
  with assms show ?thesis by (auto simp: wmt_free_dma_def used_def keeps_def)
next
  case True
  obtain t where f: "wmt_free_dma ch s = Some t"
    "same_regs (s\<lparr>request_chans := request_chans s AND NOT (push_bit ch 1), coherent := remove1 (des0_phy_addr (chan s ch)) (coherent s)\<rparr>) t"
    "in_use (chan t ch) = 0" "device_no (chan t ch) = DEVICE_RESERVED" "\<forall>c. c \<noteq> ch \<longrightarrow> chan t c = chan s c"
    using free_effect [OF assms True] by blast
  have u: "used t = used s - {ch}" using f(3,5) by (auto simp: used_def)
  have "image_mset (\<lambda>c. des0_phy_addr (chan t c)) (mset_set (used s - {ch})) = image_mset (\<lambda>c. des0_phy_addr (chan s c)) (mset_set (used s - {ch}))"
    using f(5) by (intro image_mset_cong) auto
  moreover have "mset_set (used s) = add_mset ch (mset_set (used s - {ch}))" using True by (simp add: mset_set.remove)
  ultimately have m: "mset (coherent t) = image_mset (\<lambda>c. des0_phy_addr (chan t c)) (mset_set (used t))"
    using assms f(2) u by (simp add: dma_ok_def same_regs_def)
  have b: "bit (request_chans t) c \<longleftrightarrow> c \<in> used t" if "c < MAX_DMA_CHANNELS" for c
    using that f(2) assms u by (auto simp: same_regs_def bit_and_iff bit_not_iff bit_exp_iff dma_ok_def)
  have c: "chan_ok (chan t c)" if "c < MAX_DMA_CHANNELS" for c
    using that f(3-5) assms by (cases "c = ch") (auto simp: chan_ok_def dma_ok_def)
  have "dma_shape t" using assms f(2) by (simp add: dma_ok_def dma_shape_def same_regs_def)
  moreover have "in_use (chan t 0) = 0" using f(3,5) assms by (cases "ch = 0") (auto simp: dma_ok_def)
  ultimately show ?thesis using m b c f(1) by (simp add: dma_ok_def keeps_def)
qed

section \<open>The remaining steps\<close>

lemma setup_keeps:
  assumes "dma_ok s"
  shows "keeps s (map_option fst (wmt_setup_dma ch cfg s))"
proof (cases "bad_id s ch \<or> device_no (chan s ch) \<noteq> DeviceReqType cfg")
  case True
  with assms show ?thesis by (auto simp: wmt_setup_dma_def keeps_def)
next
  case False
  then have ch: "ch < MAX_DMA_CHANNELS" "in_use (chan s ch) \<noteq> 0" by (auto simp: bad_id_def)
  have dev: "device_no (chan s ch) \<in> set dma_devices" using assms ch by (auto simp: dma_ok_def chan_ok_def split: if_splits)
  note tab = table_type [OF assms dev]
  define s1 where "s1 = s\<lparr>cfg_table := (cfg_table s)[device_no (chan s ch) := cfg]\<rparr>"
  define s2 where "s2 = upd_chan (\<lambda>c. c\<lparr>device_cfg := cfg_table s1 ! device_no (chan s ch)\<rparr>) ch s1"
  have c1: "chan s1 c = chan s c" "dma_chan s1 = dma_chan s" for c by (simp_all add: s1_def chan_def)
  have same: "map DeviceReqType ((cfg_table s)[device_no (chan s ch) := cfg]) = map DeviceReqType (cfg_table s)"
    using tab(2) False by (simp add: map_update) (metis list_update_id map_update)
  have "dma_ok s2"
  proof (rule dma_ok_upd [OF assms])
    show "same_regs s s2" using same by (simp add: same_regs_def s2_def dma_simps) (simp add: s1_def)
    show "in_use (chan s2 c) = in_use (chan s c) \<and> des0_phy_addr (chan s2 c) = des0_phy_addr (chan s c)
          \<and> (chan_ok (chan s c) \<longrightarrow> chan_ok (chan s2 c))" for c
      using c1 channel_length [OF assms ch(1)] False tab(1)
      by (auto simp: s2_def dma_simps chan_ok_def ring_ok_def) (auto simp: s1_def)
  qed
  moreover have "upd_chan (device_cfg_update (\<lambda>_. cfg)) ch (s\<lparr>cfg_table := (cfg_table s)[DeviceReqType cfg := cfg]\<rparr>) = s2"
    using False tab(1) by (simp add: s2_def s1_def)
  then have "\<exists>t. wmt_setup_dma ch cfg s = Some (t, 0) \<and> touch ch s2 t"
    using False tab(1,3) by (auto simp: wmt_setup_dma_def Let_def intro!: touch_intros)
  ultimately show ?thesis using dma_ok_touch by (auto simp: keeps_def)
qed

lemma engine_ok: "dma_ok s \<Longrightarrow> engine s t \<Longrightarrow> dma_ok t"
proof (erule dma_ok_upd)
  assume e: "engine s t"
  show "same_regs s t" using e by (simp add: engine_def)
  fix c :: nat assume "c < 16"
  then obtain d where d: "chan t c = (chan s c)\<lparr>des_0 := d\<rparr>"
    "case (des_0 (chan s c), d) of (Some ws, Some vs) \<Rightarrow> length vs = length ws | (None, None) \<Rightarrow> True | _ \<Rightarrow> False"
    using e by (auto simp: engine_def MAX_DMA_CHANNELS_def)
  then show "in_use (chan t c) = in_use (chan s c) \<and> des0_phy_addr (chan t c) = des0_phy_addr (chan s c)
      \<and> (chan_ok (chan s c) \<longrightarrow> chan_ok (chan t c))"
    by (auto simp: chan_ok_def ring_ok_def split: option.splits)
qed

lemma exec_keeps:
  assumes "dma_ok s" "op_ok op" "\<not> stray s op"
  shows "keeps s (dma_exec op s)"
proof (cases op)
  case (Pos h ch)
  then obtain t where "update_memreg h ch s = Some t" "touch ch s t" using assms update_memreg_ex by (metis op_ok.simps(7))
  with Pos assms(1) dma_ok_touch show ?thesis by (auto simp: keeps_def wmt_get_dma_pos_def)
next
  case (PosInfo h ch)
  then obtain t where "update_memreg h ch s = Some t" "touch ch s t" using assms update_memreg_ex by (metis op_ok.simps(8))
  with PosInfo assms(1) dma_ok_touch show ?thesis by (auto simp: keeps_def wmt_get_dma_pos_info_def)
next
  case (Dump h ch)
  then obtain t where "update_memreg h ch s = Some t" "touch ch s t" using assms update_memreg_ex by (metis op_ok.simps(9))
  with Dump assms dma_ok_touch show ?thesis by (auto simp: keeps_def wmt_dump_dma_regs_def)
next
  case (Busy ch)
  with assms(1) dma_ok_touch [OF assms(1) touch_write_isr] show ?thesis by (auto simp: keeps_def wmt_dma_busy_def)
next
  case (Irq h1 h2 h3 irq)
  show ?thesis
  proof (cases "find (\<lambda>ch. irq = dma_irq_no ! ch) [0..<MAX_DMA_CHANNELS]")
    case None
    with Irq assms(1) show ?thesis by (simp add: keeps_def dma_irq_handler_def)
  next
    case (Some ch)
    with Irq irq_outcome [OF assms(1) _ _ _ Some, of h1 h2 h3] assms(2,3) dma_ok_touch [OF assms(1)] show ?thesis
      by (auto simp: keeps_def outcome_def split: option.splits)
  qed
next
  case (Start attr ch ptr sz)
  then obtain t r where "wmt_start_dma attr ch ptr sz s = Some (t, r)" "touch ch s t" using start_touch assms by (metis op_ok.simps(2))
  with Start dma_ok_touch [OF assms(1)] show ?thesis by (auto simp: keeps_def)
next
  case (Wake attr ch ptr sz)
  then obtain t r where "wmt_wake_dma attr ch ptr sz s = Some (t, r)" "touch ch s t" using wake_touch assms by (metis op_ok.simps(3))
  with Wake dma_ok_touch [OF assms(1)] show ?thesis by (auto simp: keeps_def)
next
  case (Clear ch)
  then show ?thesis using keepsI [OF assms(1)] clear_touch [OF assms(1)] assms(2) by auto metis
next
  case (Reset ch)
  then show ?thesis using keepsI [OF assms(1)] clear_touch [OF assms(1), of ch] assms(1)
    by (cases "ch < MAX_DMA_CHANNELS") (auto simp: wmt_reset_dma_def keeps_def dest: dma_ok_touch)
next
  case (Stop h ch)
  then show ?thesis using keepsI [OF assms(1) stop_touch] assms(2) by simp
next
  case (Resume h1 h2 ch)
  with resume_outcome [OF assms(1), of ch h1 h2] assms(2,3) dma_ok_touch [OF assms(1)] show ?thesis
    by (auto simp: keeps_def outcome_def split: option.splits)
qed (use assms request_keeps setup_keeps free_keeps in auto)

lemma exec_stray:
  assumes "dma_ok s" "op_ok op" "stray s op"
  shows "dma_exec op s = None"
proof (cases op)
  case (Resume h1 h2 ch)
  with resume_outcome [OF assms(1), of ch h1 h2] assms(2,3) show ?thesis by (auto simp: outcome_def split: option.splits)
next
  case (Irq h1 h2 h3 irq)
  with assms(3) obtain ch where f: "find (\<lambda>ch. irq = dma_irq_no ! ch) [0..<MAX_DMA_CHANNELS] = Some ch" "irq_stray h1 h2 ch s"
    by (auto split: option.splits)
  with Irq irq_outcome [OF assms(1) _ _ _ f(1), of h1 h2 h3] assms(2) show ?thesis by (auto simp: outcome_def split: option.splits)
qed (use assms(3) in auto)

lemma dma_ok_idle:
  assumes "dma_shape s" "\<And>ch. ch < MAX_DMA_CHANNELS \<Longrightarrow> in_use (chan s ch) = 0 \<and> device_no (chan s ch) = DEVICE_RESERVED"
    "request_chans s = 0" "coherent s = []"
  shows "dma_ok s"
proof -
  have "used s = {}" using assms(2) by (auto simp: used_def)
  with assms show ?thesis by (simp add: dma_ok_def chan_ok_def) (simp add: MAX_DMA_CHANNELS_def)
qed

lemma init_ok: "boot_state s0 \<Longrightarrow> wmt_dma_init p s0 = Some (p', s, r) \<Longrightarrow> dma_ok s"
  by (rule dma_ok_idle) (auto simp: wmt_dma_init_def Let_def boot_state_def dma_shape_def chan_def zero_chan_def
      write_isr_def MAX_DMA_CHANNELS_def split: option.splits if_splits)

lemma sleep_ok: "dma_ok s \<Longrightarrow> dma_resume p s = Some (p', t) \<Longrightarrow> dma_ok t"
  by (erule dma_ok_upd) (auto simp: dma_resume_def Let_def same_regs_def write_isr_def chan_def split: option.splits)

lemma dma_reach_ok: "dma_reach s \<Longrightarrow> dma_ok s"
proof (induction rule: dma_reach.induct)
  case (Op s op t)
  with exec_keeps [of s op] exec_stray [of s op] show ?case by (cases "stray s op") (auto simp: keeps_def)
qed (auto intro: init_ok engine_ok sleep_ok)

end
