(* ===== verification/WmtDmaQueue.thy ===== *)
theory WmtDmaQueue
  imports WmtDmaSys
begin

text \<open>
  What the engine finds in a ring: the descriptors that were submitted, in their order. The ring
  with its wrap-around and its mark of the end refines a queue of buffers.
\<close>

section \<open>The ring as the engine reads it\<close>

text \<open>
  A descriptor has a word with the number of bytes in its lower half, the end mark in bit 31 and
  the long format in bit 30, the address of the data, and, in the long format, the address of the
  next descriptor. \<open>follow base ws n k\<close> reads up to \<open>n\<close> descriptors from slot \<open>k\<close> on and stops after
  the end mark.
\<close>

definition desc_buf :: "int list \<Rightarrow> nat \<Rightarrow> int \<times> int" where
  "desc_buf ws k = (ws ! (2 * k + 1), ws ! (2 * k) AND DMA_DES_REQCNT_MASK)"

definition is_end :: "int list \<Rightarrow> nat \<Rightarrow> bool" where
  "is_end ws k \<longleftrightarrow> bit (ws ! (2 * k)) 31"

definition next_slot :: "int \<Rightarrow> int list \<Rightarrow> nat \<Rightarrow> nat" where
  "next_slot base ws k = (if bit (ws ! (2 * k)) 30 then nat ((ws ! (2 * k + 2) - base) div 8) else k + 1)"

fun follow :: "int \<Rightarrow> int list \<Rightarrow> nat \<Rightarrow> nat \<Rightarrow> (int \<times> int) list" where
  "follow base ws 0 k = []"
| "follow base ws (Suc n) k = desc_buf ws k # (if is_end ws k then [] else follow base ws n (next_slot base ws k))"

text \<open>The slot of the \<open>j\<close>-th of the last \<open>m\<close> descriptors when \<open>d\<close> is the next slot.\<close>

definition slot_of :: "nat \<Rightarrow> nat \<Rightarrow> nat \<Rightarrow> nat" where
  "slot_of d m j = (d + 127 - m + j) mod 127"

text \<open>Slot \<open>k\<close> has the descriptor of buffer \<open>b\<close>, linked to the next slot, marked as the end or not.\<close>

definition slot_holds :: "int \<Rightarrow> int list \<Rightarrow> nat \<Rightarrow> int \<times> int \<Rightarrow> bool \<Rightarrow> bool" where
  "slot_holds base ws k b e \<longleftrightarrow> desc_buf ws k = b \<and> (is_end ws k \<longleftrightarrow> e)
     \<and> (bit (ws ! (2 * k)) 30 \<longleftrightarrow> k = 126) \<and> (k = 126 \<longrightarrow> ws ! 254 = base)"

text \<open>The last descriptors of the ring are the queue \<open>q\<close>, with the end mark on the last.\<close>

definition ring_holds :: "int \<Rightarrow> int list \<Rightarrow> nat \<Rightarrow> (int \<times> int) list \<Rightarrow> bool" where
  "ring_holds base ws d q \<longleftrightarrow> length ws = 256 \<and> d < 127 \<and> length q \<le> 127 \<and>
     (\<forall>j < length q. slot_holds base ws (slot_of d (length q) j) (q ! j) (j = length q - 1))"

text \<open>The oldest descriptor of the queue, where the engine goes on.\<close>

definition head_slot :: "nat \<Rightarrow> (int \<times> int) list \<Rightarrow> nat" where
  "head_slot d q = slot_of d (length q) 0"

lemma slot_of_less [simp]: "slot_of d m j < 127"
  by (simp add: slot_of_def)

lemma slot_of_Suc: "slot_of d m (Suc j) = (if slot_of d m j = 126 then 0 else slot_of d m j + 1)"
  by (simp add: slot_of_def mod_Suc)

lemma slot_of_put: "d < 127 \<Longrightarrow> m < 127 \<Longrightarrow> slot_of ((d + 1) mod 127) (Suc m) j = slot_of d m j"
  by (cases "d = 126") (auto simp: slot_of_def add.commute mod_if)

lemma next_slot_ring:
  assumes "ring_holds base ws d q" "j < length q"
  shows "next_slot base ws (slot_of d (length q) j) = slot_of d (length q) (Suc j)"
  using assms by (auto simp: ring_holds_def slot_holds_def next_slot_def slot_of_Suc)

lemma follow_suffix:
  assumes "ring_holds base ws d q" "j < length q" "length q - j \<le> n"
  shows "follow base ws n (slot_of d (length q) j) = drop j q"
  using assms(2,3)
proof (induction n arbitrary: j)
  case (Suc n)
  have e: "desc_buf ws (slot_of d (length q) j) = q ! j" "is_end ws (slot_of d (length q) j) \<longleftrightarrow> j = length q - 1"
    using assms(1) Suc.prems(1) by (auto simp: ring_holds_def slot_holds_def)
  show ?case
  proof (cases "j = length q - 1")
    case True
    with e Suc.prems(1) show ?thesis by (simp add: Cons_nth_drop_Suc [symmetric])
  next
    case False
    then have "follow base ws n (slot_of d (length q) (Suc j)) = drop (Suc j) q" using Suc by (intro Suc.IH) auto
    with e False Suc.prems(1) next_slot_ring [OF assms(1) Suc.prems(1)] show ?thesis by (simp add: Cons_nth_drop_Suc)
  qed
qed simp

lemma follow_ring:
  "ring_holds base ws d q \<Longrightarrow> q \<noteq> [] \<Longrightarrow> length q \<le> n \<Longrightarrow> follow base ws n (head_slot d q) = q"
  using follow_suffix [of base ws d q 0 n] by (simp add: head_slot_def)

text \<open>When the oldest is done the rest is still the queue.\<close>

lemma ring_holds_tl:
  assumes "ring_holds base ws d q" "q \<noteq> []"
  shows "ring_holds base ws d (tl q)"
proof -
  have s: "slot_of d (length (tl q)) j = slot_of d (length q) (Suc j)" if "j < length (tl q)" for j
    using assms that by (auto simp: slot_of_def ring_holds_def intro!: arg_cong [of _ _ "\<lambda>x. x mod 127"])
  have "slot_holds base ws (slot_of d (length q) (Suc j)) (q ! Suc j) (Suc j = length q - 1)" if "j < length (tl q)" for j
    using assms(1) that by (auto simp: ring_holds_def)
  moreover have "(Suc j = length q - 1) = (j = length (tl q) - 1)" if "j < length (tl q)" for j using that by auto
  ultimately show ?thesis using assms s by (auto simp: ring_holds_def nth_tl)
qed

section \<open>Submitting one descriptor\<close>

text \<open>What a submission does to the words.\<close>

definition last_slot :: "nat \<Rightarrow> nat" where
  "last_slot d = (if d = 0 then 126 else d - 1)"

definition ring_put :: "int \<Rightarrow> int \<Rightarrow> int \<Rightarrow> nat \<Rightarrow> int list \<Rightarrow> int list" where
  "ring_put base w addr d ws =
     (let ws1 = ws[2 * last_slot d := ws ! (2 * last_slot d) AND NOT DMA_DES_END];
          ws2 = ws1[2 * d := w, 2 * d + 1 := addr]
      in if d = 126 then ws2[254 := base] else ws2)"

definition good_word :: "nat \<Rightarrow> int \<Rightarrow> int \<Rightarrow> bool" where
  "good_word d sz w \<longleftrightarrow> w AND DMA_DES_REQCNT_MASK = sz \<and> bit w 31 \<and> (bit w 30 \<longleftrightarrow> d = 126)"

lemma ring_put_nth:
  assumes "length ws = 256" "d < 127" "k < 127" "k \<noteq> d"
  shows "ring_put base w addr d ws ! (2 * k) = (if k = last_slot d then ws ! (2 * k) AND NOT DMA_DES_END else ws ! (2 * k))"
    "ring_put base w addr d ws ! (2 * k + 1) = ws ! (2 * k + 1)"
  using assms by (auto simp: ring_put_def Let_def last_slot_def nth_list_update) presburger+

lemma ring_put_new:
  assumes "length ws = 256" "d < 127"
  shows "ring_put base w addr d ws ! (2 * d) = w" "ring_put base w addr d ws ! (2 * d + 1) = addr"
    "d = 126 \<Longrightarrow> ring_put base w addr d ws ! 254 = base"
    "d \<noteq> 126 \<Longrightarrow> ring_put base w addr d ws ! 254 = ws ! 254"
    "length (ring_put base w addr d ws) = 256"
  using assms by (auto simp: ring_put_def Let_def last_slot_def nth_list_update)

lemma end_bit: "bit (w AND NOT DMA_DES_END) n \<longleftrightarrow> bit (w :: int) n \<and> n \<noteq> 31"
proof -
  have e: "DMA_DES_END = 2 ^ 31" by (simp add: DMA_DES_END_def)
  have "bit DMA_DES_END n \<longleftrightarrow> n = 31" unfolding e bit_exp_iff by simp
  then show ?thesis by (simp add: bit_and_iff bit_not_iff)
qed

lemma mask_end: "(w AND NOT DMA_DES_END) AND DMA_DES_REQCNT_MASK = (w :: int) AND DMA_DES_REQCNT_MASK"
proof -
  have "DMA_DES_END AND DMA_DES_REQCNT_MASK = 0" by (simp add: DMA_DES_END_def DMA_DES_REQCNT_MASK_def)
  then have "NOT DMA_DES_END AND DMA_DES_REQCNT_MASK = DMA_DES_REQCNT_MASK"
    by (simp add: DMA_DES_END_def DMA_DES_REQCNT_MASK_def)
  then show ?thesis by (simp add: and.assoc)
qed

lemma ring_put_holds:
  assumes "ring_holds base ws d q" "length q < 127" "good_word d sz w"
  shows "ring_holds base (ring_put base w addr d ws) ((d + 1) mod 127) (q @ [(addr, sz)])"
proof -
  let ?v = "ring_put base w addr d ws"
  have l: "length ws = 256" "d < 127" using assms(1) by (auto simp: ring_holds_def)
  note s = slot_of_put [OF l(2) assms(2)]
  have new: "slot_of d (length q) (length q) = d" using assms(2) l by (simp add: slot_of_def)
  have old: "slot_of d (length q) j \<noteq> d" "slot_of d (length q) j = last_slot d \<longleftrightarrow> j = length q - 1" if "j < length q" for j
    using that assms(2) l by (auto simp: slot_of_def last_slot_def mod_if)
  have "slot_holds base ?v (slot_of ((d + 1) mod 127) (length (q @ [(addr, sz)])) j) ((q @ [(addr, sz)]) ! j) (j = length (q @ [(addr, sz)]) - 1)"
    if "j < length (q @ [(addr, sz)])" for j
  proof (cases "j = length q")
    case True
    then show ?thesis using s [of j] new ring_put_new [OF l] assms(3) by (auto simp: slot_holds_def desc_buf_def is_end_def good_word_def)
  next
    case False
    then have j: "j < length q" using that by simp
    let ?k = "slot_of d (length q) j"
    have q: "desc_buf ws ?k = q ! j" "is_end ws ?k \<longleftrightarrow> j = length q - 1" "bit (ws ! (2 * ?k)) 30 \<longleftrightarrow> ?k = 126" "?k = 126 \<longrightarrow> ws ! 254 = base"
      using assms(1) j by (auto simp: ring_holds_def slot_holds_def)
    have n: "?v ! (2 * ?k) = (if j = length q - 1 then ws ! (2 * ?k) AND NOT DMA_DES_END else ws ! (2 * ?k))"
      "?v ! (2 * ?k + 1) = ws ! (2 * ?k + 1)" using ring_put_nth [OF l, of ?k] old [OF j] by auto
    have "desc_buf ?v ?k = q ! j" using q(1) n by (cases "j = length q - 1") (auto simp: desc_buf_def mask_end)
    moreover have "\<not> is_end ?v ?k" using q(2) n by (auto simp: is_end_def end_bit)
    moreover have "bit (?v ! (2 * ?k)) 30 \<longleftrightarrow> ?k = 126" using q(3) n by (auto simp: end_bit)
    moreover have "?k = 126 \<longrightarrow> ?v ! 254 = base" using q(4) ring_put_new(3,4) [OF l] by blast
    ultimately show ?thesis using s [of j] j by (simp add: slot_holds_def nth_append)
  qed
  then show ?thesis using ring_put_new(5) [OF l] assms(2) unfolding ring_holds_def by auto
qed

section \<open>One call of \<open>wmt_start_dma\<close>\<close>

lemma mask16: "(x :: int) AND DMA_DES_REQCNT_MASK = take_bit 16 x"
  by (simp add: DMA_DES_REQCNT_MASK_def take_bit_eq_mask mask_eq_exp_minus_1)

lemma flags_or_size:
  assumes "0 \<le> sz" "sz < 65536" "take_bit 16 C = (0 :: int)"
  shows "(C OR sz) AND DMA_DES_REQCNT_MASK = sz" "16 \<le> n \<Longrightarrow> bit (C OR sz) n \<longleftrightarrow> bit C n"
proof -
  have t: "take_bit 16 sz = sz" using assms(1,2) by (simp add: take_bit_int_eq_self)
  then show "(C OR sz) AND DMA_DES_REQCNT_MASK = sz" using assms(3) by (simp add: mask16 take_bit_or)
  have "bit sz n \<longleftrightarrow> n < 16 \<and> bit sz n" using bit_take_bit_iff [of 16 sz n] t by simp
  then show "16 \<le> n \<Longrightarrow> bit (C OR sz) n \<longleftrightarrow> bit C n" by (auto simp: bit_or_iff)
qed

definition des_flags :: "bool \<Rightarrow> bool \<Rightarrow> int" where
  "des_flags i f = (let r = (if i then DMA_INTEN_DES else 0) OR DMA_DES_END in if f then r OR DMA_FORMAT_DES1 else r)"

lemma des_flags_bits: "take_bit 16 (des_flags i f) = 0" "bit (des_flags i f) 31" "bit (des_flags i f) 30 \<longleftrightarrow> f"
  by (cases i; cases f; simp add: des_flags_def DMA_INTEN_DES_def DMA_DES_END_def DMA_FORMAT_DES1_def bit_iff_odd take_bit_eq_mod)+

lemma good_word_flags: "0 \<le> sz \<Longrightarrow> sz < 65536 \<Longrightarrow> good_word d sz (des_flags i (d = 126) OR sz)"
  using flags_or_size [of sz "des_flags i (d = 126)"] des_flags_bits [of i "d = 126"] by (simp add: good_word_def)

text \<open>A channel in use whose ring has the words \<open>ws\<close> and whose next slot is \<open>d\<close>.\<close>

definition at_slot :: "dma_state \<Rightarrow> nat \<Rightarrow> int list \<Rightarrow> nat \<Rightarrow> bool" where
  "at_slot s ch ws d \<longleftrightarrow> ch < length (dma_chan s) \<and> \<not> bad_id s ch \<and> des_0 (chan s ch) = Some ws \<and> length ws = 256
     \<and> des0cnt (chan s ch) = int d \<and> d < 127 \<and> max_des0cnt (chan s ch) = RING"

lemma at_slot_max: "at_slot s ch ws d \<Longrightarrow> \<not> ch \<ge> MAX_DMA_CHANNELS"
  by (auto simp: at_slot_def bad_id_def)

lemma upd_chan_id_eq: "f (chan s ch) = g (chan s ch) \<Longrightarrow> upd_chan f ch s = upd_chan g ch s"
  by (simp add: upd_chan_def chan_def)

lemma upd_chan_comp: "ch < length (dma_chan s) \<Longrightarrow> upd_chan f ch (upd_chan g ch s) = upd_chan (\<lambda>c. f (g c)) ch s"
  by (simp add: upd_chan_def)

lemma clear_last_eval:
  assumes "at_slot s ch ws d" "device_no (chan s ch) = DeviceReqType cfg"
  shows "clear_last_descript ch cfg s =
     Some (upd_chan (\<lambda>c. c\<lparr>des_0 := Some (ws[2 * last_slot d := ws ! (2 * last_slot d) AND NOT DMA_DES_END])\<rparr>) ch s, 0)"
proof -
  have o: "(if des0cnt (chan s ch) - 1 \<ge> 0 then des_offset (des0cnt (chan s ch) - 1)
            else des_offset (max_des0cnt (chan s ch) - 1)) = 2 * int (last_slot d)"
    using assms(1) by (cases "d = 0") (auto simp: at_slot_def last_slot_def des_offset_eq RING_def)
  have l: "2 * last_slot d < length ws" using assms(1) by (auto simp: at_slot_def last_slot_def)
  have "upd_word ch (2 * int (last_slot d)) (\<lambda>w. w AND NOT DMA_DES_END) s =
     Some (upd_chan (\<lambda>c. c\<lparr>des_0 := Some (ws[2 * last_slot d := ws ! (2 * last_slot d) AND NOT DMA_DES_END])\<rparr>) ch s)"
    using assms(1) l upd_word_Some [of s ch ws "int (2 * last_slot d)"] by (simp add: at_slot_def nat_mult_distrib)
  then show ?thesis using assms at_slot_max [OF assms(1)] unfolding clear_last_descript_def Let_def o
    by (simp add: at_slot_def)
qed

lemma upd_word2_eval:
  assumes "ch < length (dma_chan s)" "des_0 (chan s ch) = Some ws" "length ws = 256" "k < 255"
  shows "upd_word ch (int k) (\<lambda>_. x) s \<bind> upd_word ch (int k + 1) (\<lambda>_. y) =
     Some (upd_chan (\<lambda>c. c\<lparr>des_0 := Some (ws[k := x, k + 1 := y])\<rparr>) ch s)"
proof -
  have n: "nat (int k + 1) = Suc k" by simp
  show ?thesis using assms by (simp add: upd_word_def dma_simps upd_chan_comp n)
qed

lemma create0_eval:
  assumes "at_slot s ch ws d" "device_no (chan s ch) = DeviceReqType cfg" "d < 126" "end_descript attr = 1" "des_size attr < SIZE_64KB"
  shows "create_fmt0_descript ch cfg attr s = Some (upd_chan (\<lambda>c. c\<lparr>des_0 := Some (ws[2 * d :=
       des_flags (interrupt_en attr = 1) False OR des_size attr, 2 * d + 1 := data_addr attr]), des0cnt := int d + 1\<rparr>) ch s, 0)"
proof -
  have o: "des_offset (des0cnt (chan s ch)) = int (2 * d)" using assms(1) by (simp add: at_slot_def des_offset_eq RING_def)
  let ?w = "des_flags (interrupt_en attr = 1) False OR des_size attr"
  have f: "((if interrupt_en attr = 1 then DMA_INTEN_DES else 0) OR DMA_DES_END) OR des_size attr = ?w" by (simp add: des_flags_def)
  define ws' where "ws' = ws[2 * d := ?w, 2 * d + 1 := data_addr attr]"
  have u: "upd_word ch (int (2 * d)) (\<lambda>_. ?w) s \<bind> upd_word ch (int (2 * d) + 1) (\<lambda>_. data_addr attr) = Some (upd_chan (\<lambda>c. c\<lparr>des_0 := Some ws'\<rparr>) ch s)"
    unfolding ws'_def using assms(1,3) by (intro upd_word2_eval) (auto simp: at_slot_def)
  then obtain t where t: "upd_word ch (int (2 * d)) (\<lambda>_. ?w) s = Some t" "upd_word ch (int (2 * d) + 1) (\<lambda>_. data_addr attr) t = Some (upd_chan (\<lambda>c. c\<lparr>des_0 := Some ws'\<rparr>) ch s)"
    by (cases "upd_word ch (int (2 * d)) (\<lambda>_. ?w) s") auto
  have "upd_chan (\<lambda>c. c\<lparr>des0cnt := des0cnt c + 1\<rparr>) ch (upd_chan (\<lambda>c. c\<lparr>des_0 := Some ws'\<rparr>) ch s)
      = upd_chan (\<lambda>c. c\<lparr>des_0 := Some ws', des0cnt := int d + 1\<rparr>) ch s"
    using assms(1) by (simp add: at_slot_def upd_chan_comp) (rule upd_chan_id_eq, simp)
  then show ?thesis using assms at_slot_max [OF assms(1)] t
    unfolding create_fmt0_descript_def Let_def o by (simp add: at_slot_def f ws'_def)
qed

lemma create1_eval:
  assumes "at_slot s ch ws 126" "device_no (chan s ch) = DeviceReqType cfg" "end_descript attr = 1" "fmt attr = 1" "des_size attr < SIZE_64KB"
  shows "create_fmt1_descript ch cfg attr s = Some (upd_chan (\<lambda>c. c\<lparr>des_0 := Some (ws[252 :=
       des_flags (interrupt_en attr = 1) True OR des_size attr, 253 := data_addr attr, 254 := branch_addr attr]), des0cnt := 0\<rparr>) ch s, 0)"
proof -
  have o: "des_offset (max_des0cnt (chan s ch) - 1) = 252" using assms(1) by (simp add: at_slot_def des_offset_def RING_def DMA_DES0_SIZE_def u32_def)
  let ?w = "des_flags (interrupt_en attr = 1) True OR des_size attr"
  have f: "(((if interrupt_en attr = 1 then DMA_INTEN_DES else 0) OR DMA_DES_END) OR DMA_FORMAT_DES1) OR des_size attr = ?w" by (simp add: des_flags_def)
  define ws' where "ws' = ws[252 := ?w, 253 := data_addr attr]"
  have u: "upd_word ch 252 (\<lambda>_. ?w) s \<bind> upd_word ch 253 (\<lambda>_. data_addr attr) = Some (upd_chan (\<lambda>c. c\<lparr>des_0 := Some ws'\<rparr>) ch s)"
    unfolding ws'_def using assms(1) upd_word2_eval [of ch s ws 252 ?w "data_addr attr"] by (auto simp: at_slot_def)
  then obtain t where t: "upd_word ch 252 (\<lambda>_. ?w) s = Some t" "upd_word ch 253 (\<lambda>_. data_addr attr) t = Some (upd_chan (\<lambda>c. c\<lparr>des_0 := Some ws'\<rparr>) ch s)"
    by (cases "upd_word ch 252 (\<lambda>_. ?w) s") auto
  have l: "ch < length (dma_chan s)" "length ws' = 256" using assms(1) by (auto simp: at_slot_def ws'_def)
  have "upd_word ch 254 (\<lambda>_. branch_addr attr) (upd_chan (\<lambda>c. c\<lparr>des_0 := Some ws'\<rparr>) ch s)
      = Some (upd_chan (\<lambda>c. c\<lparr>des_0 := Some (ws'[254 := branch_addr attr])\<rparr>) ch s)"
    using l by (simp add: upd_word_def dma_simps upd_chan_comp)
  moreover have "upd_chan (\<lambda>c. c\<lparr>des0cnt := 0\<rparr>) ch (upd_chan (\<lambda>c. c\<lparr>des_0 := Some (ws'[254 := branch_addr attr])\<rparr>) ch s)
      = upd_chan (\<lambda>c. c\<lparr>des_0 := Some (ws'[254 := branch_addr attr]), des0cnt := 0\<rparr>) ch s"
    using l by (simp add: upd_chan_comp)
  ultimately show ?thesis using assms at_slot_max [OF assms(1)] t
    unfolding create_fmt1_descript_def Let_def o by (simp add: at_slot_def f ws'_def)
qed

text \<open>What the fields of the channel are after a descriptor was put.\<close>

definition put_upd :: "int list \<Rightarrow> nat \<Rightarrow> int \<Rightarrow> dma_info_s \<Rightarrow> dma_info_s" where
  "put_upd ws d acc c = c\<lparr>des_0 := Some ws, des0cnt := int ((d + 1) mod 127), accu_size := acc\<rparr>"

lemma upd_put: "upd_chan (put_upd ws d acc) ch s =
    upd_chan (\<lambda>c. c\<lparr>accu_size := acc, des_0 := Some ws, des0cnt := int ((d + 1) mod 127)\<rparr>) ch s"
  by (rule upd_chan_id_eq) (simp add: put_upd_def)

definition slot_put :: "int \<Rightarrow> int \<Rightarrow> int \<Rightarrow> nat \<Rightarrow> int list \<Rightarrow> int list" where
  "slot_put base w addr d ws = (if d = 126 then ws[252 := w, 253 := addr, 254 := base] else ws[2 * d := w, 2 * d + 1 := addr])"

lemma ring_put_slot: "ring_put base w addr d ws = slot_put base w addr d (ws[2 * last_slot d := ws ! (2 * last_slot d) AND NOT DMA_DES_END])"
  by (simp add: ring_put_def slot_put_def Let_def)

lemma at_slot_upd:
  "at_slot s ch ws d \<Longrightarrow> (\<And>c. in_use (f c) = in_use c \<and> max_des0cnt (f c) = max_des0cnt c) \<Longrightarrow>
   des_0 (f (chan s ch)) = Some vs \<Longrightarrow> length vs = 256 \<Longrightarrow> des0cnt (f (chan s ch)) = int e \<Longrightarrow> e < 127 \<Longrightarrow>
   at_slot (upd_chan f ch s) ch vs e"
  by (auto simp: at_slot_def dma_simps bad_id_def)

lemma put_descript_eval:
  assumes "at_slot s ch ws d" "device_no (chan s ch) = DeviceReqType cfg" "residue \<le> SIZE_32KB" "xfer \<le> SIZE_32KB"
  shows "\<exists>i acc a. put_descript ch cfg residue xfer ptr attr s =
       Some (upd_chan (put_upd (slot_put (des0_phy_addr (chan s ch)) (des_flags i (d = 126) OR xfer) ptr d ws) d acc) ch s, a)
     \<and> (interrupt_en a = 1 \<longleftrightarrow> i)"
proof -
  define acc where "acc = (if accu_size (chan s ch) \<ge> ChunkSize cfg then xfer else accu_size (chan s ch))"
  define s1 where "s1 = (if accu_size (chan s ch) \<ge> ChunkSize cfg then upd_chan (\<lambda>c. c\<lparr>accu_size := xfer\<rparr>) ch s else s)"
  define attr3 where "attr3 = (if accu_size (chan s ch) \<ge> ChunkSize cfg then attr\<lparr>end_descript := 1, interrupt_en := 1\<rparr> else attr\<lparr>end_descript := 1\<rparr>)
      \<lparr>data_addr := ptr, des_size := xfer\<rparr>"
  have ch: "ch < length (dma_chan s)" using assms(1) by (simp add: at_slot_def)
  have s1: "s1 = upd_chan (\<lambda>c. c\<lparr>accu_size := acc\<rparr>) ch s"
    using ch by (auto simp: s1_def acc_def upd_chan_def chan_def)
  have at: "at_slot s1 ch ws d" unfolding s1 using assms(1) by (intro at_slot_upd) (auto simp: at_slot_def)
  have dev: "device_no (chan s1 ch) = DeviceReqType cfg" "des0_phy_addr (chan s1 ch) = des0_phy_addr (chan s ch)"
    using assms(2) ch by (simp_all add: s1 dma_simps)
  have a3: "end_descript attr3 = 1" "des_size attr3 < SIZE_64KB" "data_addr attr3 = ptr" "des_size attr3 = xfer"
    using assms(4) by (auto simp: attr3_def SIZE_32KB_def SIZE_64KB_def)
  have put: "put_descript ch cfg residue xfer ptr attr s =
      (if des0cnt (chan s1 ch) < max_des0cnt (chan s1 ch) - 1
       then map_option (\<lambda>(s2, _). (s2, attr3\<lparr>fmt := 0\<rparr>)) (create_fmt0_descript ch cfg (attr3\<lparr>fmt := 0\<rparr>) s1)
       else map_option (\<lambda>(s2, _). (s2, attr3\<lparr>branch_addr := des0_phy_addr (chan s1 ch), fmt := 1\<rparr>))
              (create_fmt1_descript ch cfg (attr3\<lparr>branch_addr := des0_phy_addr (chan s1 ch), fmt := 1\<rparr>) s1))"
    unfolding put_descript_def Let_def using assms(3) by (simp add: attr3_def s1_def)
  show ?thesis
  proof (cases "d = 126")
    case True
    let ?a = "attr3\<lparr>branch_addr := des0_phy_addr (chan s1 ch), fmt := 1\<rparr>"
    have c: "create_fmt1_descript ch cfg ?a s1 = Some (upd_chan (\<lambda>c. c\<lparr>des_0 := Some (ws[252 :=
       des_flags (interrupt_en ?a = 1) True OR xfer, 253 := ptr, 254 := des0_phy_addr (chan s ch)]), des0cnt := 0\<rparr>) ch s1, 0)"
      using create1_eval [OF at [unfolded True] dev(1), of ?a] a3 dev(2) by simp
    have "\<not> des0cnt (chan s1 ch) < max_des0cnt (chan s1 ch) - 1" using at True by (simp add: at_slot_def RING_def)
    with put c have "put_descript ch cfg residue xfer ptr attr s = Some (upd_chan (put_upd (slot_put (des0_phy_addr (chan s ch))
        (des_flags (interrupt_en ?a = 1) (d = 126) OR xfer) ptr d ws) d acc) ch s, ?a)"
      using ch True by (simp add: s1 upd_chan_comp slot_put_def upd_put)
    then show ?thesis by blast
  next
    case False
    let ?a = "attr3\<lparr>fmt := 0\<rparr>"
    have d: "d < 126" using False at by (simp add: at_slot_def)
    have c: "create_fmt0_descript ch cfg ?a s1 = Some (upd_chan (\<lambda>c. c\<lparr>des_0 := Some (ws[2 * d :=
       des_flags (interrupt_en ?a = 1) False OR xfer, 2 * d + 1 := ptr]), des0cnt := int d + 1\<rparr>) ch s1, 0)"
      using create0_eval [OF at dev(1) d, of ?a] a3 by simp
    have "des0cnt (chan s1 ch) < max_des0cnt (chan s1 ch) - 1" using at d by (simp add: at_slot_def RING_def)
    with put c have "put_descript ch cfg residue xfer ptr attr s = Some (upd_chan (put_upd (slot_put (des0_phy_addr (chan s ch))
        (des_flags (interrupt_en ?a = 1) (d = 126) OR xfer) ptr d ws) d acc) ch s, ?a)"
      using ch d by (simp add: s1 upd_chan_comp slot_put_def upd_put add.commute)
    then show ?thesis by blast
  qed
qed

text \<open>The first turn of the loop, for at most two descriptors.\<close>

lemma first_turn_eval:
  assumes "at_slot s ch ws d" "device_no (chan s ch) = DeviceReqType cfg" "0 < sz" "sz \<le> 2 * SIZE_32KB"
  shows "\<exists>i acc a. add_turn ch cfg sz s attr sz ptr 0 = Some (upd_chan (put_upd (ring_put (des0_phy_addr (chan s ch))
       (des_flags i (d = 126) OR min sz SIZE_32KB) (u32 ptr) d ws) d acc) ch s, a, max 0 (sz - SIZE_32KB), u32 ptr)"
proof -
  define vs where "vs = ws[2 * last_slot d := ws ! (2 * last_slot d) AND NOT DMA_DES_END]"
  define s2 where "s2 = upd_chan (\<lambda>c. c\<lparr>accu_size := u32 (accu_size c + min sz SIZE_32KB)\<rparr>) ch (upd_chan (\<lambda>c. c\<lparr>des_0 := Some vs\<rparr>) ch s)"
  have ch: "ch < length (dma_chan s)" using assms(1) by (simp add: at_slot_def)
  have s2: "s2 = upd_chan (\<lambda>c. c\<lparr>des_0 := Some vs, accu_size := u32 (accu_size c + min sz SIZE_32KB)\<rparr>) ch s"
    using ch by (simp add: s2_def upd_chan_comp)
  have at: "at_slot s2 ch vs d" unfolding s2 using assms(1) by (intro at_slot_upd) (auto simp: at_slot_def vs_def)
  have dev: "device_no (chan s2 ch) = DeviceReqType cfg" "des0_phy_addr (chan s2 ch) = des0_phy_addr (chan s ch)"
    using assms(2) ch by (simp_all add: s2 dma_simps)
  have x: "(if sz > SIZE_32KB then SIZE_32KB else sz) = min sz SIZE_32KB"
    "(if sz > SIZE_32KB then sz - SIZE_32KB else 0) = max 0 (sz - SIZE_32KB)" by auto
  have b: "max 0 (sz - SIZE_32KB) \<le> SIZE_32KB" "min sz SIZE_32KB \<le> SIZE_32KB" using assms(4) by (auto simp: SIZE_32KB_def)
  obtain i acc a where "put_descript ch cfg (max 0 (sz - SIZE_32KB)) (min sz SIZE_32KB) (u32 ptr) attr s2 =
       Some (upd_chan (put_upd (slot_put (des0_phy_addr (chan s ch)) (des_flags i (d = 126) OR min sz SIZE_32KB) (u32 ptr) d vs) d acc) ch s2, a)"
    using put_descript_eval [OF at dev(1) b, of "u32 ptr" attr] dev(2) by auto
  moreover have "upd_chan (put_upd v d acc) ch s2 = upd_chan (put_upd v d acc) ch s" for v acc
    using ch by (simp add: s2 upd_chan_comp upd_put)
  ultimately have "add_turn ch cfg sz s attr sz ptr 0 = Some (upd_chan (put_upd (slot_put (des0_phy_addr (chan s ch))
       (des_flags i (d = 126) OR min sz SIZE_32KB) (u32 ptr) d vs) d acc) ch s, a, max 0 (sz - SIZE_32KB), u32 ptr)"
    unfolding add_turn_def Let_def x clear_last_eval [OF assms(1,2), folded vs_def] by (simp add: s2_def)
  then show ?thesis by (auto simp: ring_put_slot vs_def)
qed

text \<open>
  \<open>started\<close>: what a call of \<^verbatim>\<open>wmt_start_dma\<close> that stored the ring \<open>vs\<close> and \<open>n\<close> descriptors up to slot
  \<open>e\<close> leaves of the channel.
\<close>

definition started :: "nat \<Rightarrow> dma_state \<Rightarrow> dma_state \<Rightarrow> int list \<Rightarrow> nat \<Rightarrow> int \<Rightarrow> bool" where
  "started ch s t vs e n \<longleftrightarrow> touch ch s t \<and> at_slot t ch vs e
     \<and> residue_des0cnt (chan t ch) = min (s32 (residue_des0cnt (chan s ch) + n)) (RING - 1)"

lemma start_after_add:
  assumes "ch < MAX_DMA_CHANNELS" "sz \<noteq> 0" "add_descript attr ch (device_cfg (chan s ch)) ptr sz s = Some (s1, n)" "0 \<le> n"
    "touch ch s s1" "at_slot s1 ch vs e" "residue_des0cnt (chan s1 ch) = residue_des0cnt (chan s ch)"
  shows "\<exists>t. wmt_start_dma attr ch ptr sz s = Some (t, 0) \<and> started ch s t vs e n"
proof -
  define s2 where "s2 = upd_chan (\<lambda>c. c\<lparr>residue_des0cnt := s32 (residue_des0cnt c + n)\<rparr>) ch s1"
  define s3 where "s3 = (if residue_des0cnt (chan s2 ch) > max_des0cnt (chan s2 ch) - 1
      then upd_chan (\<lambda>c. c\<lparr>residue_des0cnt := max_des0cnt c - 1\<rparr>) ch s2 else s2)"
  have l1: "ch < length (dma_chan s1)" using assms(6) by (simp add: at_slot_def)
  then have l2: "ch < length (dma_chan s2)" by (simp add: s2_def dma_simps)
  have t2: "touch ch s s2" unfolding s2_def by (rule touch_trans [OF assms(5) touch_residue [OF l1]])
  have t3: "touch ch s s3" using touch_trans [OF t2 touch_residue [OF l2]] t2 by (simp add: s3_def)
  have a2: "at_slot s2 ch vs e" unfolding s2_def using assms(6) by (intro at_slot_upd) (auto simp: at_slot_def)
  have "at_slot (upd_chan (\<lambda>c. c\<lparr>residue_des0cnt := max_des0cnt c - 1\<rparr>) ch s2) ch vs e"
    using a2 by (intro at_slot_upd) (auto simp: at_slot_def)
  with a2 have a3: "at_slot s3 ch vs e" by (simp add: s3_def)
  have r: "residue_des0cnt (chan s3 ch) = min (s32 (residue_des0cnt (chan s ch) + n)) (RING - 1)"
    using l1 l2 a2 assms(7) by (auto simp: s3_def s2_def dma_simps at_slot_def)
  have reg: "at_slot (set_ccr ch v u) ch vs e" "at_slot (upd_memreg f ch u) ch vs e" if "at_slot u ch vs e" for v u f
    using that by (simp_all add: at_slot_def bad_id_def dma_simps)
  show ?thesis using assms(1-4) a3 r t3
    by (auto simp: wmt_start_dma_def Let_def s2_def [symmetric] s3_def [symmetric] started_def dma_simps
        intro!: touch_intros reg)
qed

lemma put_upd_fields:
  assumes "at_slot s ch ws d" "length vs = 256"
  shows "at_slot (upd_chan (put_upd vs d acc) ch s) ch vs ((d + 1) mod 127)" "touch ch s (upd_chan (put_upd vs d acc) ch s)"
    "residue_des0cnt (chan (upd_chan (put_upd vs d acc) ch s) ch) = residue_des0cnt (chan s ch)"
    "device_no (chan (upd_chan (put_upd vs d acc) ch s) ch) = device_no (chan s ch)"
    "des0_phy_addr (chan (upd_chan (put_upd vs d acc) ch s) ch) = des0_phy_addr (chan s ch)"
proof -
  show "at_slot (upd_chan (put_upd vs d acc) ch s) ch vs ((d + 1) mod 127)"
    using assms by (intro at_slot_upd) (auto simp: put_upd_def)
  show "touch ch s (upd_chan (put_upd vs d acc) ch s)"
    using assms by (intro touch_upd_chan) (auto simp: put_upd_def at_slot_def ring_ok_def RING_def)
qed (use assms in \<open>simp_all add: put_upd_def at_slot_def dma_simps\<close>)

lemma room_one: "0 \<le> r \<Longrightarrow> r < RING \<Longrightarrow> s32 (RING - r) = RING - r" "0 \<le> r \<Longrightarrow> r < RING \<Longrightarrow> s32 (r + 1) = r + 1"
  by (simp_all add: s32_id RING_def)

text \<open>A transfer of up to 32 kilobytes is one descriptor.\<close>

lemma start_one:
  assumes "at_slot s ch ws d" "device_no (chan s ch) = DeviceReqType (device_cfg (chan s ch))"
    "0 \<le> residue_des0cnt (chan s ch)" "residue_des0cnt (chan s ch) < RING" "0 < sz" "sz \<le> SIZE_32KB"
  shows "\<exists>t w. wmt_start_dma attr ch ptr sz s = Some (t, 0) \<and> good_word d sz w
     \<and> started ch s t (ring_put (des0_phy_addr (chan s ch)) w (u32 ptr) d ws) ((d + 1) mod 127) 1"
proof -
  let ?cfg = "device_cfg (chan s ch)"
  have ch: "ch < MAX_DMA_CHANNELS" "\<not> bad_id s ch" "length ws = 256" "d < 127" "max_des0cnt (chan s ch) = RING"
    using assms(1) by (auto simp: at_slot_def bad_id_def)
  obtain i acc a where turn: "add_turn ch ?cfg sz s attr sz ptr 0 = Some (upd_chan (put_upd (ring_put (des0_phy_addr (chan s ch))
       (des_flags i (d = 126) OR sz) (u32 ptr) d ws) d acc) ch s, a, 0, u32 ptr)"
    using first_turn_eval [OF assms(1,2,5), of attr ptr] assms(6) by (auto simp: min_def max_def SIZE_32KB_def split: if_splits)
  define w where "w = des_flags i (d = 126) OR sz"
  let ?vs = "ring_put (des0_phy_addr (chan s ch)) w (u32 ptr) d ws"
  let ?s1 = "upd_chan (put_upd ?vs d acc) ch s"
  have "add_loop ch ?cfg sz s attr sz ptr 0 = Some (?s1, 1)"
    using assms(5) turn by (simp add: add_loop.simps w_def)
  moreover have "sz div SIZE_32KB + (if sz mod SIZE_32KB \<noteq> 0 then 1 else 0) = 1"
    using assms(5,6) by (cases "sz = SIZE_32KB") (auto simp: SIZE_32KB_def)
  ultimately have ad: "add_descript attr ch ?cfg ptr sz s = Some (?s1, 1)"
    using ch assms(2-4) room_one(1) [OF assms(3,4)] by (simp add: add_descript_def)
  have len: "length ?vs = 256" by (rule ring_put_new(5) [OF ch(3,4)])
  obtain t where "wmt_start_dma attr ch ptr sz s = Some (t, 0)" "started ch s t ?vs ((d + 1) mod 127) 1"
    using start_after_add [OF ch(1) _ ad _ put_upd_fields(2) [OF assms(1) len] put_upd_fields(1) [OF assms(1) len]
        put_upd_fields(3) [OF assms(1) len]] assms(5) by auto
  moreover have "good_word d sz w" using good_word_flags [of sz d i] assms(5,6) by (simp add: w_def SIZE_32KB_def)
  ultimately show ?thesis by blast
qed

section \<open>The queue of a channel\<close>

text \<open>The driver's count agrees with the number of descriptors that the engine has not finished.\<close>

definition queue_rel :: "nat \<Rightarrow> dma_state \<Rightarrow> (int \<times> int) list \<Rightarrow> bool" where
  "queue_rel ch s q \<longleftrightarrow> dma_ok s \<and> residue_des0cnt (chan s ch) = int (length q) \<and> length q < 127
     \<and> (\<exists>ws d. at_slot s ch ws d \<and> ring_holds (des0_phy_addr (chan s ch)) ws d q)"

lemma live_type: "dma_ok s \<Longrightarrow> \<not> bad_id s ch \<Longrightarrow> device_no (chan s ch) = DeviceReqType (device_cfg (chan s ch))"
  by (auto simp: dma_ok_def bad_id_def chan_ok_def)

lemma submit_refines:
  assumes "queue_rel ch s q" "length q < 126" "0 < sz" "sz \<le> SIZE_32KB" "0 \<le> ptr" "ptr < 2 ^ 32"
  shows "\<exists>t. wmt_start_dma attr ch ptr sz s = Some (t, 0) \<and> queue_rel ch t (q @ [(ptr, sz)])
     \<and> des0_phy_addr (chan t ch) = des0_phy_addr (chan s ch) \<and> nat (des0cnt (chan t ch)) = (nat (des0cnt (chan s ch)) + 1) mod 127"
proof -
  obtain ws d where at: "at_slot s ch ws d" "ring_holds (des0_phy_addr (chan s ch)) ws d q" and ok: "dma_ok s"
    and res: "residue_des0cnt (chan s ch) = int (length q)" using assms(1) by (auto simp: queue_rel_def)
  have ty: "device_no (chan s ch) = DeviceReqType (device_cfg (chan s ch))" using live_type [OF ok] at(1) by (simp add: at_slot_def)
  obtain t w where t: "wmt_start_dma attr ch ptr sz s = Some (t, 0)" "good_word d sz w"
     "started ch s t (ring_put (des0_phy_addr (chan s ch)) w (u32 ptr) d ws) ((d + 1) mod 127) 1"
    using start_one [OF at(1) ty _ _ assms(3,4), of attr ptr] res assms(2) by (auto simp: RING_def)
  have p: "u32 ptr = ptr" using assms(5,6) by (simp add: u32_id)
  have tt: "touch ch s t" "des0_phy_addr (chan t ch) = des0_phy_addr (chan s ch)" using t(3) by (auto simp: started_def touch_def)
  have r: "residue_des0cnt (chan t ch) = int (length q) + 1"
    using t(3) res assms(2) room_one(2) [of "int (length q)"] by (simp add: started_def RING_def)
  have h: "ring_holds (des0_phy_addr (chan t ch)) (ring_put (des0_phy_addr (chan s ch)) w ptr d ws) ((d + 1) mod 127) (q @ [(ptr, sz)])"
    using ring_put_holds [OF at(2) _ t(2)] assms(2) tt(2) by simp
  then have "queue_rel ch t (q @ [(ptr, sz)])"
    using dma_ok_touch [OF ok tt(1)] r assms(2) t(3) h p unfolding queue_rel_def started_def by auto
  moreover have "nat (des0cnt (chan t ch)) = (nat (des0cnt (chan s ch)) + 1) mod 127"
    using t(3) at(1) by (simp add: started_def at_slot_def)
  ultimately show ?thesis using t(1) tt(2) by blast
qed

lemma at_slot_cong: "dma_chan t = dma_chan s \<Longrightarrow> at_slot t ch ws d = at_slot s ch ws d"
  by (simp add: at_slot_def bad_id_def chan_def)

lemma irq_channel: "ch < MAX_DMA_CHANNELS \<Longrightarrow> find (\<lambda>c. dma_irq_no ! ch = dma_irq_no ! c) [0..<MAX_DMA_CHANNELS] = Some ch"
proof -
  assume "ch < MAX_DMA_CHANNELS"
  then have "ch \<in> set [0..<16]" by (simp add: MAX_DMA_CHANNELS_def)
  moreover have "\<forall>ch \<in> set [0..<16]. find (\<lambda>c. dma_irq_no ! ch = dma_irq_no ! c) [0..<16] = Some ch"
    by (simp add: dma_irq_no_def upt_rec)
  ultimately show ?thesis by (simp add: MAX_DMA_CHANNELS_def)
qed

text \<open>The engine reports success: the oldest buffer is done and the client is called.\<close>

lemma done_refines:
  assumes "queue_rel ch s q" "q \<noteq> []" "v AND DMA_EVT_ID_MASK = DMA_EVT_SUCCESS" "0 \<le> v" "v < 2 ^ 32"
  shows "\<exists>t. dma_irq_handler h1 h2 h3 (dma_irq_no ! ch) (set_ccr ch v s) = Some (t, callback (chan s ch)) \<and> queue_rel ch t (tl q)
     \<and> des0_phy_addr (chan t ch) = des0_phy_addr (chan s ch) \<and> des0cnt (chan t ch) = des0cnt (chan s ch) \<and> ccr t ch = v"
proof -
  obtain ws d where at: "at_slot s ch ws d" "ring_holds (des0_phy_addr (chan s ch)) ws d q" and ok: "dma_ok s"
    and res: "residue_des0cnt (chan s ch) = int (length q)" using assms(1) by (auto simp: queue_rel_def)
  have ch: "ch < MAX_DMA_CHANNELS" "ch < length (dma_chan s)" using at(1) by (auto simp: at_slot_def bad_id_def)
  have c: "ccr (set_ccr ch v s) ch = v" using ch dma_ok_lengths(2) [OF ok] assms(4,5) by (simp add: ccr_def set_ccr_def MAX_DMA_CHANNELS_def u32_id)
  define s1 where "s1 = write_isr (push_bit ch 1) (set_ccr ch v s)"
  have "dma_irq_handler h1 h2 h3 (dma_irq_no ! ch) (set_ccr ch v s) = Some (irq_done ch s1)"
    unfolding dma_irq_handler_def irq_channel [OF ch(1)] option.case Let_def s1_def
    using assms(3) c by (simp add: DMA_EVT_SUCCESS_def DMA_EVT_NO_STATUS_def)
  moreover have s1: "dma_chan s1 = dma_chan s" "chan s1 c = chan s c" "touch ch s s1" for c by (auto simp: s1_def dma_simps intro!: touch_intros)
  moreover define t where "t = upd_chan (\<lambda>c. c\<lparr>residue_des0cnt := residue_des0cnt c - 1\<rparr>) ch s1"
  moreover have "irq_done ch s1 = (t, callback (chan s ch))"
    using res assms(2) s1 ch by (simp add: irq_done_def t_def dma_simps)
  moreover have "touch ch s t" unfolding t_def using ch s1 by (intro touch_trans [OF s1(3) touch_residue]) simp
  moreover have "at_slot t ch ws d" unfolding t_def using at(1) at_slot_cong [OF s1(1)]
    by (intro at_slot_upd) (auto simp: at_slot_def s1)
  moreover have "residue_des0cnt (chan t ch) = int (length (tl q))" "des0_phy_addr (chan t ch) = des0_phy_addr (chan s ch)"
    using res assms(2) ch s1 by (auto simp: t_def dma_simps of_nat_diff Suc_leI)
  moreover have "length (tl q) < 127" using assms(1) by (auto simp: queue_rel_def)
  moreover have "des0cnt (chan t ch) = des0cnt (chan s ch)" "ccr t ch = v" using ch s1 c by (simp_all add: t_def dma_simps) (simp add: s1_def dma_simps)
  ultimately show ?thesis using ring_holds_tl [OF at(2) assms(2)] dma_ok_touch [OF ok] unfolding queue_rel_def by auto
qed

section \<open>Where the engine starts\<close>

text \<open>Building descriptors leaves the control and memory registers alone.\<close>

definition same_hw :: "dma_state \<Rightarrow> dma_state \<Rightarrow> bool" where
  "same_hw s t \<longleftrightarrow> DMA_CCR_CH t = DMA_CCR_CH s \<and> mem_reg_group t = mem_reg_group s"

lemma same_hw_refl [simp]: "same_hw s s"
  by (simp add: same_hw_def)

lemma same_hw_upd_chan [simp]: "same_hw s (upd_chan f ch t) = same_hw s t" "same_hw (upd_chan f ch s) t = same_hw s t"
  by (simp_all add: same_hw_def dma_simps)

lemma same_hw_trans: "same_hw s t \<Longrightarrow> same_hw t u \<Longrightarrow> same_hw s u"
  by (simp add: same_hw_def)

lemma upd_word_hw: "upd_word ch off f s = Some t \<Longrightarrow> same_hw s t"
  by (auto simp: upd_word_def split: option.splits if_splits)

lemma create_fmt0_hw: "create_fmt0_descript ch cfg a s = Some (t, r) \<Longrightarrow> same_hw s t"
  by (auto simp: create_fmt0_descript_def Let_def split: if_split_asm bind_splits dest!: upd_word_hw elim: same_hw_trans)

lemma create_fmt1_hw: "create_fmt1_descript ch cfg a s = Some (t, r) \<Longrightarrow> same_hw s t"
  by (auto simp: create_fmt1_descript_def Let_def split: if_split_asm bind_splits dest!: upd_word_hw elim!: same_hw_trans)

lemma clear_last_hw: "clear_last_descript ch cfg s = Some (t, r) \<Longrightarrow> same_hw s t"
  by (auto simp: clear_last_descript_def Let_def split: if_split_asm bind_splits dest!: upd_word_hw)

lemma put_descript_hw: "put_descript ch cfg residue xfer ptr attr s = Some (t, a) \<Longrightarrow> same_hw s t"
  by (auto simp: put_descript_def Let_def split: if_split_asm dest!: create_fmt0_hw create_fmt1_hw)

lemma add_turn_hw: "add_turn ch cfg sz s attr residue ptr idx = Some (t, a, r, p) \<Longrightarrow> same_hw s t"
  by (auto simp: add_turn_def Let_def split: if_split_asm bind_splits dest!: clear_last_hw put_descript_hw elim: same_hw_trans)

lemma add_loop_hw: "add_loop ch cfg sz s attr residue ptr idx = Some (t, n) \<Longrightarrow> same_hw s t"
proof (induction ch cfg sz s attr residue ptr idx rule: add_loop.induct)
  case (1 ch cfg sz s attr residue ptr idx)
  show ?case
  proof (cases "residue > 0")
    case True
    with 1(2) obtain s' a r p where turn: "add_turn ch cfg sz s attr residue ptr idx = Some (s', a, r, p)"
      "add_loop ch cfg sz s' a r p (idx + 1) = Some (t, n)"
      by (subst (asm) add_loop.simps) (auto split: option.splits)
    from 1(1) [OF True turn(1) refl refl refl turn(2)] add_turn_hw [OF turn(1)] show ?thesis by (rule same_hw_trans [rotated])
  next
    case False
    with 1(2) show ?thesis by (subst (asm) add_loop.simps) simp
  qed
qed

lemma add_descript_hw: "add_descript attr ch cfg ptr sz s = Some (t, n) \<Longrightarrow> same_hw s t"
  by (auto simp: add_descript_def Let_def split: if_split_asm dest: add_loop_hw)

definition running :: "dma_state \<Rightarrow> nat \<Rightarrow> bool" where
  "running s ch \<longleftrightarrow> ccr s ch AND SYSTEM_DMA_RUN \<noteq> 0"

lemma and_run: "(x :: int) AND SYSTEM_DMA_RUN \<noteq> 0 \<longleftrightarrow> bit x 7"
proof -
  have "SYSTEM_DMA_RUN = 2 ^ 7" by (simp add: SYSTEM_DMA_RUN_def)
  then show ?thesis using and_exp_eq_0_iff_not_bit [of x 7] by simp
qed

lemma running_bit: "running s ch \<longleftrightarrow> bit (ccr s ch) 7"
  by (simp add: running_def and_run)

lemma bit_set_ccr: "ch < length (DMA_CCR_CH s) \<Longrightarrow> n < 32 \<Longrightarrow> (bit (ccr (set_ccr ch v s) ch) n \<longleftrightarrow> bit v n)"
proof -
  have "u32 v = take_bit 32 v" by (simp add: u32_def take_bit_eq_mod)
  then show "ch < length (DMA_CCR_CH s) \<Longrightarrow> n < 32 \<Longrightarrow> (bit (ccr (set_ccr ch v s) ch) n \<longleftrightarrow> bit v n)" by (simp add: ccr_def set_ccr_def bit_take_bit_iff)
qed

text \<open>
  A submission leaves the channel running. One to a channel that was not running starts the engine
  at the first slot of the ring.
\<close>

lemma start_run:
  assumes "dma_ok s" "ch < MAX_DMA_CHANNELS" "wmt_start_dma attr ch ptr sz s = Some (t, 0)"
  shows "running t ch" "\<not> running s ch \<Longrightarrow> DMA_IF0CPR_CH (mem_reg_group t ! ch) = des0_phy_addr (chan s ch)"
proof -
  obtain s1 n where a: "add_descript attr ch (device_cfg (chan s ch)) ptr sz s = Some (s1, n)" "touch ch s s1"
    using add_descript_ex [OF assms(1)] by blast
  have hw: "DMA_CCR_CH s1 = DMA_CCR_CH s" "mem_reg_group s1 = mem_reg_group s" using add_descript_hw [OF a(1)] by (simp_all add: same_hw_def)
  define s2 where "s2 = upd_chan (\<lambda>c. c\<lparr>residue_des0cnt := s32 (residue_des0cnt c + n)\<rparr>) ch s1"
  define s3 where "s3 = (if residue_des0cnt (chan s2 ch) > max_des0cnt (chan s2 ch) - 1
      then upd_chan (\<lambda>c. c\<lparr>residue_des0cnt := max_des0cnt c - 1\<rparr>) ch s2 else s2)"
  have l: "ch < length (DMA_CCR_CH s)" "ch < length (mem_reg_group s)" "ch < length (dma_chan s1)"
    using assms(2) dma_ok_lengths [OF assms(1)] touch_length [OF a(2)] by (simp_all add: MAX_DMA_CHANNELS_def)
  have s3: "DMA_CCR_CH s3 = DMA_CCR_CH s" "mem_reg_group s3 = mem_reg_group s" "ccr s3 ch = ccr s ch"
      "des0_phy_addr (chan s3 ch) = des0_phy_addr (chan s ch)"
    using hw l(3) a(2) by (auto simp: s3_def s2_def dma_simps ccr_def touch_def)
  define s4 where "s4 = upd_memreg (\<lambda>g. g\<lparr>DMA_IF0CPR_CH := des0_phy_addr (chan s3 ch)\<rparr>) ch s3"
  define s5 where "s5 = (if DeviceReqType (device_cfg (chan s4 ch)) = MEMORY_DMA_REQ
        then upd_memreg (\<lambda>g. g\<lparr>DMA_IF1CPR_CH := des0_phy_addr (chan s4 ch)\<rparr>) ch s4 else s4)"
  have t: "t = (if running s ch then set_ccr ch (ccr s ch OR DMA_WAKE) s3
      else set_ccr ch (ccr s5 ch OR (SYSTEM_DMA_RUN OR SYSTEM_DMA_REQ_EN)) s5)"
    using assms(2,3) a(1) s3(3)
    by (auto simp: wmt_start_dma_def Let_def s2_def [symmetric] s3_def [symmetric] s4_def [symmetric] s5_def [symmetric] running_def
        split: if_split_asm)
  have s5: "DMA_CCR_CH s5 = DMA_CCR_CH s" by (simp add: s5_def s4_def dma_simps s3(1))
  have r: "bit SYSTEM_DMA_RUN 7" by (simp add: SYSTEM_DMA_RUN_def)
  show "running t ch" using t l(1) s3(1) s5 r by (auto simp: running_bit bit_set_ccr bit_or_iff split: if_splits)
  have "DMA_IF0CPR_CH (mem_reg_group s5 ! ch) = des0_phy_addr (chan s3 ch)"
    using l(2) s3(2) by (simp add: s5_def s4_def upd_memreg_def)
  with t s3(4) show "\<not> running s ch \<Longrightarrow> DMA_IF0CPR_CH (mem_reg_group t ! ch) = des0_phy_addr (chan s ch)" by (simp add: dma_simps)
qed

lemma clear_refines:
  assumes "dma_ok s" "at_slot s ch ws d"
  shows "\<exists>t. wmt_clear_dma ch s = Some t \<and> queue_rel ch t [] \<and> des0_phy_addr (chan t ch) = des0_phy_addr (chan s ch)
     \<and> des0cnt (chan t ch) = 0 \<and> \<not> running t ch"
proof -
  have ch: "ch < MAX_DMA_CHANNELS" "ch < length (DMA_CCR_CH s)" "ch < length (dma_chan s)"
    using assms(2) dma_ok_lengths [OF assms(1)] by (auto simp: at_slot_def bad_id_def MAX_DMA_CHANNELS_def)
  obtain t where t: "wmt_clear_dma ch s = Some t" "touch ch s t" using clear_touch [OF assms(1) ch(1)] by blast
  define s1 where "s1 = set_ccr ch (ccr s ch AND NOT SYSTEM_DMA_REQ_EN) s"
  define s3 where "s3 = write_isr (push_bit ch 1) (set_ccr ch (ccr s1 ch AND NOT SYSTEM_DMA_RUN) s1)"
  have t_eq: "t = upd_chan (\<lambda>c. c\<lparr>des0cnt := 0, des1cnt := 0, accu_size := 0, residue_des0cnt := 0\<rparr>) ch s3"
    using t(1) ch(1) by (simp add: wmt_clear_dma_def Let_def s1_def s3_def)
  have c3: "dma_chan s3 = dma_chan s" "chan s3 ch = chan s ch" by (simp_all add: s3_def s1_def dma_simps)
  have at: "at_slot t ch ws 0" unfolding t_eq using assms(2) at_slot_cong [OF c3(1)] c3 by (intro at_slot_upd) (auto simp: at_slot_def)
  have f: "residue_des0cnt (chan t ch) = 0" "des0cnt (chan t ch) = 0" using ch(3) c3 by (simp_all add: t_eq dma_simps)
  have r: "bit SYSTEM_DMA_RUN 7" by (simp add: SYSTEM_DMA_RUN_def)
  have "ccr t ch = ccr (set_ccr ch (ccr s1 ch AND NOT SYSTEM_DMA_RUN) s1) ch" "ch < length (DMA_CCR_CH s1)"
    using ch(2) by (simp_all add: t_eq s3_def s1_def dma_simps)
  then have "\<not> running t ch" using r by (simp add: running_bit bit_set_ccr bit_and_iff bit_not_iff)
  moreover have "ring_holds b ws 0 []" for b using at by (simp add: ring_holds_def at_slot_def)
  ultimately show ?thesis using t dma_ok_touch [OF assms(1) t(2)] at f unfolding queue_rel_def touch_def by auto
qed

end
