(* ===== verification/WmtDmaProps.thy ===== *)
theory WmtDmaProps
  imports WmtDmaQueue
begin

text \<open>
  What the clients of the DMA driver can rely on, and where the driver goes wrong: transfers of more
  than one descriptor, a full ring, and copies from memory to memory.
\<close>

section \<open>Sequences of submissions and completions\<close>

text \<open>
  \<open>Submit\<close> is a call of \<^verbatim>\<open>wmt_start_dma\<close>; \<open>Done\<close> is the interrupt after the engine has set the
  control register to \<open>v\<close>; \<open>Discard\<close> is a call of \<^verbatim>\<open>wmt_clear_dma\<close>. The engine is at a slot of the
  ring. A submission to a channel that is not running starts it at the slot that the driver stored
  in the command pointer register; with every descriptor that it finishes it moves on to the next
  one. \<open>play\<close> keeps the state of the driver, the slot of the engine and the buffers that it has
  finished.
\<close>

datatype dma_event = Submit des_attribute int int | Done memreg_answer memreg_answer memreg_answer int | Discard

type_synonym played = "dma_state \<times> nat \<times> (int \<times> int) list"

definition start_slot :: "dma_state \<Rightarrow> nat \<Rightarrow> nat" where
  "start_slot s ch = nat ((DMA_IF0CPR_CH (mem_reg_group s ! ch) - des0_phy_addr (chan s ch)) div 8)"

fun play_event :: "nat \<Rightarrow> dma_event \<Rightarrow> played \<Rightarrow> played option" where
  "play_event ch (Submit attr ptr sz) (s, k, ds) =
     (case wmt_start_dma attr ch ptr sz s of
        Some (t, r) \<Rightarrow> if r = 0 then Some (t, if running s ch then k else start_slot t ch, ds) else None
      | None \<Rightarrow> None)"
| "play_event ch (Done h1 h2 h3 v) (s, k, ds) =
     (case dma_irq_handler h1 h2 h3 (dma_irq_no ! ch) (set_ccr ch v s) of
        Some (t, _) \<Rightarrow> map_option (\<lambda>ws. (t, next_slot (des0_phy_addr (chan s ch)) ws k, ds @ [desc_buf ws k])) (des_0 (chan s ch))
      | None \<Rightarrow> None)"
| "play_event ch Discard (s, k, ds) = map_option (\<lambda>t. (t, k, ds)) (wmt_clear_dma ch s)"

fun play :: "nat \<Rightarrow> dma_event list \<Rightarrow> played \<Rightarrow> played option" where
  "play ch [] st = Some st"
| "play ch (e # es) st = play_event ch e st \<bind> play ch es"

text \<open>
  \<open>queue_after\<close> is the specification: a queue of buffers of at most 32 kilobytes, with room for 126,
  and the list of those that are done. The engine takes them from the front and stays in its run.
\<close>

fun queue_event :: "dma_event \<Rightarrow> (int \<times> int) list \<times> (int \<times> int) list \<Rightarrow> ((int \<times> int) list \<times> (int \<times> int) list) option" where
  "queue_event (Submit attr ptr sz) (q, ds) =
     (if length q < 126 \<and> 0 < sz \<and> sz \<le> SIZE_32KB \<and> 0 \<le> ptr \<and> ptr < 2 ^ 32 then Some (q @ [(ptr, sz)], ds) else None)"
| "queue_event (Done h1 h2 h3 v) (q, ds) =
     (if q \<noteq> [] \<and> v AND DMA_EVT_ID_MASK = DMA_EVT_SUCCESS \<and> v AND SYSTEM_DMA_RUN \<noteq> 0 \<and> 0 \<le> v \<and> v < 2 ^ 32
      then Some (tl q, ds @ [hd q]) else None)"
| "queue_event Discard (q, ds) = Some ([], ds)"

fun queue_after :: "dma_event list \<Rightarrow> (int \<times> int) list \<times> (int \<times> int) list \<Rightarrow> ((int \<times> int) list \<times> (int \<times> int) list) option" where
  "queue_after [] qd = Some qd"
| "queue_after (e # es) qd = queue_event e qd \<bind> queue_after es"

text \<open>The engine of a running channel is at the oldest outstanding descriptor; one that does not run
  has none and the next one goes to the first slot.\<close>

definition engine_rel :: "nat \<Rightarrow> dma_state \<Rightarrow> nat \<Rightarrow> (int \<times> int) list \<Rightarrow> bool" where
  "engine_rel ch s k q \<longleftrightarrow> queue_rel ch s q
     \<and> (if running s ch then k = head_slot (nat (des0cnt (chan s ch))) q else q = [] \<and> des0cnt (chan s ch) = 0)"

lemma queue_rel_at:
  assumes "queue_rel ch s q"
  obtains ws where "at_slot s ch ws (nat (des0cnt (chan s ch)))" "ring_holds (des0_phy_addr (chan s ch)) ws (nat (des0cnt (chan s ch))) q"
    "dma_ok s" "ch < MAX_DMA_CHANNELS" "length q < 127"
  using assms by (auto simp: queue_rel_def at_slot_def bad_id_def)

lemma head_slot_put: "d < 127 \<Longrightarrow> length q < 127 \<Longrightarrow> head_slot ((d + 1) mod 127) (q @ [b]) = head_slot d q"
  using slot_of_put [of d "length q" 0] by (simp add: head_slot_def)

lemma slot_of_tl: "q \<noteq> [] \<Longrightarrow> length q < 127 \<Longrightarrow> slot_of d (length (tl q)) j = slot_of d (length q) (Suc j)"
  by (cases q) (auto simp: slot_of_def intro!: arg_cong [of _ _ "\<lambda>x. x mod 127"])

lemma event_refines:
  assumes "engine_rel ch s k q" "queue_event e (q, ds) = Some (q', ds')"
  shows "\<exists>t k'. play_event ch e (s, k, ds) = Some (t, k', ds') \<and> engine_rel ch t k' q' \<and> des0_phy_addr (chan t ch) = des0_phy_addr (chan s ch)"
proof -
  let ?d = "nat (des0cnt (chan s ch))"
  have rel: "queue_rel ch s q" using assms(1) by (simp add: engine_rel_def)
  then obtain ws where ws: "at_slot s ch ws ?d" "ring_holds (des0_phy_addr (chan s ch)) ws ?d q" "dma_ok s" "ch < MAX_DMA_CHANNELS" "length q < 127"
    by (rule queue_rel_at)
  have d: "?d < 127" using ws(1) by (simp add: at_slot_def)
  show ?thesis
  proof (cases e)
    case (Submit attr ptr sz)
    with assms(2) have b: "length q < 126" "0 < sz" "sz \<le> SIZE_32KB" "0 \<le> ptr" "ptr < 2 ^ 32" "q' = q @ [(ptr, sz)]" "ds' = ds"
      by (auto split: if_splits)
    obtain t where t: "wmt_start_dma attr ch ptr sz s = Some (t, 0)" "queue_rel ch t (q @ [(ptr, sz)])"
        "des0_phy_addr (chan t ch) = des0_phy_addr (chan s ch)" "nat (des0cnt (chan t ch)) = (?d + 1) mod 127"
      using submit_refines [OF rel b(1-5)] by blast
    note run = start_run [OF ws(3,4) t(1)]
    have "start_slot t ch = 0" if "\<not> running s ch" using run(2) [OF that] t(3) by (simp add: start_slot_def)
    then have "(if running s ch then k else start_slot t ch) = head_slot ((?d + 1) mod 127) (q @ [(ptr, sz)])"
      using assms(1) head_slot_put [OF d ws(5)] by (auto simp: engine_rel_def) (simp add: head_slot_def slot_of_def)
    with t run(1) b(6,7) Submit show ?thesis by (simp add: engine_rel_def)
  next
    case (Done h1 h2 h3 v)
    with assms(2) have b: "q \<noteq> []" "v AND DMA_EVT_ID_MASK = DMA_EVT_SUCCESS" "v AND SYSTEM_DMA_RUN \<noteq> 0" "0 \<le> v" "v < 2 ^ 32"
        "q' = tl q" "ds' = ds @ [hd q]" by (auto split: if_splits)
    obtain t where t: "dma_irq_handler h1 h2 h3 (dma_irq_no ! ch) (set_ccr ch v s) = Some (t, callback (chan s ch))" "queue_rel ch t (tl q)"
        "des0_phy_addr (chan t ch) = des0_phy_addr (chan s ch)" "des0cnt (chan t ch) = des0cnt (chan s ch)" "ccr t ch = v"
      using done_refines [OF rel b(1,2,4,5)] by blast
    have k: "k = slot_of ?d (length q) 0" using assms(1) b(1) by (auto simp: engine_rel_def head_slot_def split: if_splits)
    have "next_slot (des0_phy_addr (chan s ch)) ws k = head_slot ?d (tl q)"
      using next_slot_ring [OF ws(2), of 0] b(1) slot_of_tl [of q ?d 0] ws(5) by (simp add: k head_slot_def)
    moreover have "desc_buf ws k = hd q" using ws(2) b(1) by (auto simp: k ring_holds_def slot_holds_def hd_conv_nth)
    moreover have "des_0 (chan s ch) = Some ws" using ws(1) by (simp add: at_slot_def)
    ultimately show ?thesis using t b(3,6,7) Done by (simp add: engine_rel_def running_def)
  next
    case Discard
    then show ?thesis using assms(2) clear_refines [OF ws(3,1)] by (auto simp: engine_rel_def)
  qed
qed

lemma play_refines:
  "engine_rel ch s k q \<Longrightarrow> queue_after es (q, ds) = Some (q', ds') \<Longrightarrow>
     \<exists>t k'. play ch es (s, k, ds) = Some (t, k', ds') \<and> engine_rel ch t k' q' \<and> des0_phy_addr (chan t ch) = des0_phy_addr (chan s ch)"
proof (induction es arbitrary: s k q ds)
  case (Cons e es)
  then obtain q1 ds1 where e: "queue_event e (q, ds) = Some (q1, ds1)" "queue_after es (q1, ds1) = Some (q', ds')"
    by (auto split: bind_splits)
  obtain t1 k1 where t1: "play_event ch e (s, k, ds) = Some (t1, k1, ds1)" "engine_rel ch t1 k1 q1" "des0_phy_addr (chan t1 ch) = des0_phy_addr (chan s ch)"
    using event_refines [OF Cons.prems(1) e(1)] by blast
  from Cons.IH [OF t1(2) e(2)] t1(1,3) show ?case by auto
qed simp

lemma restart_slot:
  assumes "dma_ok t" "ch < MAX_DMA_CHANNELS" "v AND SYSTEM_DMA_RUN = 0" "wmt_start_dma attr ch ptr sz (set_ccr ch v t) = Some (u, 0)"
  shows "start_slot u ch = 0"
proof -
  let ?s = "set_ccr ch v t"
  have ok: "dma_ok ?s" using dma_ok_touch [OF assms(1) touch_set_ccr] .
  have "\<not> running ?s ch" using assms(2,3) dma_ok_lengths(2) [OF assms(1)] and_run [of v]
    by (simp add: running_bit bit_set_ccr MAX_DMA_CHANNELS_def)
  then have "DMA_IF0CPR_CH (mem_reg_group u ! ch) = des0_phy_addr (chan ?s ch)" using start_run(2) [OF ok assms(2,4)] by simp
  moreover have "des0_phy_addr (chan u ch) = des0_phy_addr (chan ?s ch)"
    using start_touch [OF ok assms(2), of attr ptr sz] assms(4) by (auto simp: touch_def)
  ultimately show ?thesis by (simp add: start_slot_def)
qed

text \<open>The bits of the control register that a request may set do not have the one of the run.\<close>

lemma request_stopped:
  assumes "dma_ok s" "device \<in> set dma_devices" "wmt_request_dma a b name device cb s = Some (t, Some ch, 0)"
  shows "ch < MAX_DMA_CHANNELS \<Longrightarrow> \<not> running t ch"
proof -
  assume ch: "ch < MAX_DMA_CHANNELS"
  have l: "ch < length (DMA_CCR_CH s)" using ch dma_ok_lengths(2) [OF assms(1)] by (simp add: MAX_DMA_CHANNELS_def)
  have al: "DMA_CCR_CH (alloc_ledger a u) = DMA_CCR_CH u" "cfg_table (alloc_ledger a u) = cfg_table u" for u
    by (cases a; auto simp: alloc_ledger_def)+
  have m: "\<not> bit DMA_USER_SET_MASK 7" by (simp add: DMA_USER_SET_MASK_def bit_iff_odd)
  have p: "\<not> bit (push_bit DMA_REQ_ID_SHIFT (int device)) 7" by (simp add: bit_push_bit_iff DMA_REQ_ID_SHIFT_def)
  show "\<not> running t ch" using assms(3) table_type(3) [OF assms(1,2)] l m p
    by (auto simp: wmt_request_dma_def Let_def dma_simps al running_bit bit_set_ccr bit_or_iff bit_and_iff
        split: option.splits if_split_asm)
qed

lemma request_empty_queue:
  assumes "dma_ok s" "device \<in> set dma_devices" "length ws = 256" "wmt_request_dma (Some (ws, base)) b name device cb s = Some (t, Some ch, 0)"
  shows "queue_rel ch t [] \<and> des0_phy_addr (chan t ch) = base \<and> des0cnt (chan t ch) = 0 \<and> \<not> running t ch"
proof -
  have f: "free_channel s = Some ch"
  proof (cases "free_channel s")
    case (Some c)
    then show ?thesis using request_effect [OF assms(1,2) Some, of "(ws, base)" b name cb] assms(4) by auto
  qed (use assms(4) in \<open>simp add: wmt_request_dma_def\<close>)
  have e: "same_regs (s\<lparr>request_chans := request_chans s OR push_bit ch 1, coherent := base # coherent s\<rparr>) t"
     "\<forall>c < MAX_DMA_CHANNELS. chan t c = (if c = ch then new_chan (ws, base) name device cb (cfg_table s ! device) (chan s ch) else chan s c)"
    using request_effect [OF assms(1,2) f, of "(ws, base)" b name cb] assms(4) by auto
  have ok: "dma_ok t" using request_ok [OF assms(1,2) f, of "(ws, base)" t name cb] e assms(3) by simp
  have ch: "ch < MAX_DMA_CHANNELS" using free_channel_Some [OF f] by simp
  then have c: "chan t ch = new_chan (ws, base) name device cb (cfg_table s ! device) (chan s ch)" using e(2) by simp
  have "at_slot t ch ws 0" using ch c assms(3) channel_length [OF ok] by (simp add: at_slot_def bad_id_def new_chan_def RING_def)
  moreover have "ring_holds base ws 0 []" using assms(3) by (simp add: ring_holds_def)
  ultimately have "queue_rel ch t []" "des0_phy_addr (chan t ch) = base" "des0cnt (chan t ch) = 0"
    using ok c unfolding queue_rel_def by (auto simp: new_chan_def)
  moreover have "\<not> running t ch" using request_stopped [OF assms(1,2,4)] ch by simp
  ultimately show ?thesis by blast
qed

section \<open>Two descriptors in one call\<close>

lemma second_turn_eval:
  assumes "at_slot s ch ws d" "device_no (chan s ch) = DeviceReqType cfg" "0 < residue" "residue \<le> SIZE_32KB" "residue \<noteq> sz"
  shows "\<exists>i acc a. add_turn ch cfg sz s attr residue ptr 1 = Some (upd_chan (put_upd (slot_put (des0_phy_addr (chan s ch))
       (des_flags i (d = 126) OR residue) (u32 (ptr + residue)) d ws) d acc) ch s, a, 0, u32 (ptr + residue))"
proof -
  define s2 where "s2 = upd_chan (\<lambda>c. c\<lparr>accu_size := u32 (accu_size c + residue)\<rparr>) ch s"
  have ch: "ch < length (dma_chan s)" using assms(1) by (simp add: at_slot_def)
  have at: "at_slot s2 ch ws d" unfolding s2_def using assms(1) by (intro at_slot_upd) (auto simp: at_slot_def)
  have dev: "device_no (chan s2 ch) = DeviceReqType cfg" "des0_phy_addr (chan s2 ch) = des0_phy_addr (chan s ch)"
    using assms(2) ch by (simp_all add: s2_def dma_simps)
  obtain i acc a where "put_descript ch cfg 0 residue (u32 (ptr + residue)) attr s2 =
       Some (upd_chan (put_upd (slot_put (des0_phy_addr (chan s ch)) (des_flags i (d = 126) OR residue) (u32 (ptr + residue)) d ws) d acc) ch s2, a)"
    using put_descript_eval [OF at dev(1), of 0 residue "u32 (ptr + residue)" attr] dev(2) assms(4) by (auto simp: SIZE_32KB_def)
  moreover have "upd_chan (put_upd v d acc) ch s2 = upd_chan (put_upd v d acc) ch s" for v acc
    using ch by (simp add: s2_def upd_chan_comp upd_put)
  ultimately show ?thesis using assms(3-5) unfolding add_turn_def Let_def by (auto simp: s2_def)
qed

lemma start_two:
  assumes "at_slot s ch ws d" "device_no (chan s ch) = DeviceReqType (device_cfg (chan s ch))"
    "0 \<le> residue_des0cnt (chan s ch)" "residue_des0cnt (chan s ch) < RING - 1" "SIZE_32KB < sz" "sz \<le> 2 * SIZE_32KB"
  shows "\<exists>t w1 w2. wmt_start_dma attr ch ptr sz s = Some (t, 0)
     \<and> good_word d SIZE_32KB w1 \<and> good_word ((d + 1) mod 127) (sz - SIZE_32KB) w2
     \<and> started ch s t (slot_put (des0_phy_addr (chan s ch)) w2 (u32 (u32 ptr + (sz - SIZE_32KB))) ((d + 1) mod 127)
         (ring_put (des0_phy_addr (chan s ch)) w1 (u32 ptr) d ws)) (((d + 1) mod 127 + 1) mod 127) 2"
proof -
  let ?cfg = "device_cfg (chan s ch)" and ?base = "des0_phy_addr (chan s ch)" and ?e = "(d + 1) mod 127"
  have ch: "ch < MAX_DMA_CHANNELS" "\<not> bad_id s ch" "length ws = 256" "d < 127" "max_des0cnt (chan s ch) = RING"
    using assms(1) by (auto simp: at_slot_def bad_id_def)
  have sz: "0 < sz" "min sz SIZE_32KB = SIZE_32KB" "max 0 (sz - SIZE_32KB) = sz - SIZE_32KB"
    using assms(5) by (auto simp: SIZE_32KB_def)
  obtain i acc a where t1: "add_turn ch ?cfg sz s attr sz ptr 0 = Some (upd_chan (put_upd (ring_put ?base
       (des_flags i (d = 126) OR SIZE_32KB) (u32 ptr) d ws) d acc) ch s, a, sz - SIZE_32KB, u32 ptr)"
    using first_turn_eval [OF assms(1,2) sz(1) assms(6), of attr ptr] unfolding sz by blast
  define w1 where "w1 = des_flags i (d = 126) OR SIZE_32KB"
  define vs where "vs = ring_put ?base w1 (u32 ptr) d ws"
  define s1 where "s1 = upd_chan (put_upd vs d acc) ch s"
  have len: "length vs = 256" unfolding vs_def by (rule ring_put_new(5) [OF ch(3,4)])
  note f1 = put_upd_fields [OF assms(1) len, of acc, folded s1_def]
  obtain j acc' a' where t2: "add_turn ch ?cfg sz s1 a (sz - SIZE_32KB) (u32 ptr) 1 = Some (upd_chan (put_upd (slot_put ?base
       (des_flags j (?e = 126) OR (sz - SIZE_32KB)) (u32 (u32 ptr + (sz - SIZE_32KB))) ?e vs) ?e acc') ch s1, a', 0, u32 (u32 ptr + (sz - SIZE_32KB)))"
    using second_turn_eval [OF f1(1), of ?cfg "sz - SIZE_32KB" sz a "u32 ptr"] f1(4,5) assms(2,5,6) by (auto simp: SIZE_32KB_def)
  define w2 where "w2 = des_flags j (?e = 126) OR (sz - SIZE_32KB)"
  define us where "us = slot_put ?base w2 (u32 (u32 ptr + (sz - SIZE_32KB))) ?e vs"
  define s2 where "s2 = upd_chan (put_upd us ?e acc') ch s1"
  have len2: "length us = 256" using len by (simp add: us_def slot_put_def)
  note f2 = put_upd_fields [OF f1(1) len2, of acc', folded s2_def]
  have "add_loop ch ?cfg sz s attr sz ptr 0 = Some (s2, 2)"
    using sz(1) assms(5) t1 t2 by (simp add: add_loop.simps w1_def w2_def vs_def us_def s1_def s2_def)
  moreover have "sz div SIZE_32KB + (if sz mod SIZE_32KB \<noteq> 0 then 1 else 0) = 2"
    using assms(5,6) by (cases "sz = 2 * SIZE_32KB") (auto simp: SIZE_32KB_def)
  ultimately have ad: "add_descript attr ch ?cfg ptr sz s = Some (s2, 2)"
    using ch assms(2-4) room_one(1) [of "residue_des0cnt (chan s ch)"] by (simp add: add_descript_def)
  have "touch ch s s2" using f1(2) f2(2) by (rule touch_trans)
  then obtain t where "wmt_start_dma attr ch ptr sz s = Some (t, 0)" "started ch s t us ((?e + 1) mod 127) 2"
    using start_after_add [OF ch(1) _ ad _ _ f2(1)] f1(3) f2(3) sz(1) by auto
  moreover have "good_word d SIZE_32KB w1" "good_word ?e (sz - SIZE_32KB) w2"
    using good_word_flags [of SIZE_32KB d i] good_word_flags [of "sz - SIZE_32KB" ?e j] assms(5,6) by (simp_all add: w1_def w2_def SIZE_32KB_def)
  ultimately show ?thesis unfolding us_def vs_def by blast
qed

section \<open>A concrete start\<close>

definition demo_boot :: dma_state where
  "demo_boot = \<lparr>dma_chan = replicate 16 zero_chan, request_chans = 0, cfg_table = dma_device_cfg_table, DMA_GCR = 0,
     DMA_MRPR = 0, DMA_IER = 0, DMA_ISR = 0, DMA_TMR = 0, DMA_CCR_CH = replicate 16 0,
     mem_reg_group = replicate 16 \<lparr>DMA_IF0RBR_CH = 0, DMA_IF0DAR_CH = 0, DMA_IF0BAR_CH = 0, DMA_IF0CPR_CH = 0,
       DMA_IF1RBR_CH = 0, DMA_IF1DAR_CH = 0, DMA_IF1BAR_CH = 0, DMA_IF1CPR_CH = 0\<rparr>, coherent = []\<rparr>"

definition demo_pmc :: pmc where
  "demo_pmc = \<lparr>regs = (\<lambda>_. 0), status = [], dev_en_count = (\<lambda>_. 0), wlog = []\<rparr>"

definition demo_attr :: des_attribute where
  "demo_attr = \<lparr>end_descript = 0, interrupt_en = 0, des_size = 0, fmt = 0, data_addr = 0, branch_addr = 0\<rparr>"

definition demo_answer :: memreg_answer where
  "demo_answer = \<lparr>ans_now = 0, ans_polls = [(0, 0)], ans_group = mem_reg_group demo_boot ! 0, ans_junk = mem_reg_group demo_boot ! 0\<rparr>"

definition demo_lost :: memreg_answer where
  "demo_lost = demo_answer\<lparr>ans_group := (ans_group demo_answer)\<lparr>DMA_IF0RBR_CH := 16, DMA_IF0CPR_CH := 0x4000\<rparr>\<rparr>"

lemma demo_start: "\<exists>s. dma_reach s \<and> dma_ok s \<and> free_channel s = Some 1"
proof -
  have "\<exists>p' s. wmt_dma_init demo_pmc demo_boot = Some (p', s, 0) \<and> in_use (chan s 1) = 0"
    by (simp add: wmt_dma_init_def auto_pll_divisor_def enable_dev_clk_def demo_pmc_def demo_boot_def readl_def Let_def chan_def
        DMA_CTRL_CFG_BASE_ADDR_def DMA_MEM_REG_OFFSET_def write_isr_def)
  then obtain p' s where i: "wmt_dma_init demo_pmc demo_boot = Some (p', s, 0)" "in_use (chan s 1) = 0" by blast
  have "boot_state demo_boot" by (simp add: boot_state_def demo_boot_def MAX_DMA_CHANNELS_def)
  from dma_reach.Init [OF this i(1)] have r: "dma_reach s" .
  have "free_channel s = Some 1" using i(2) by (simp add: free_channel_def MAX_DMA_CHANNELS_def upt_rec)
  with r dma_reach_ok [OF r] show ?thesis by blast
qed

lemma demo_request:
  "\<exists>s t. dma_ok s \<and> wmt_request_dma (Some (replicate 256 0, 0x3000)) None ''i2s'' 22 None s = Some (t, Some 1, 0)"
proof -
  obtain s where s: "dma_ok s" "free_channel s = Some 1" using demo_start by blast
  with request_effect [OF s(1) _ s(2), of 22 "(replicate 256 0, 0x3000)" None "''i2s''" None] show ?thesis
    by (fastforce simp: dma_devices_def)
qed

text \<open>A position outside of the ring: the interrupt of channel 1 in its run, without a status.\<close>

lemma engine_set_ccr: "engine t (set_ccr ch v t)"
proof -
  have "\<exists>d. (case (des_0 (chan t c), d) of (Some ws, Some vs) \<Rightarrow> length vs = length ws | (None, None) \<Rightarrow> True | _ \<Rightarrow> False)
      \<and> chan (set_ccr ch v t) c = (chan t c)\<lparr>des_0 := d\<rparr>" for c
    by (rule exI [of _ "des_0 (chan t c)"]) (simp add: dma_simps split: option.splits)
  then show ?thesis by (simp add: engine_def same_regs_def dma_simps)
qed

lemma demo_stray:
  assumes "dma_ok s" "free_channel s = Some 1" "dma_exec (Request (replicate 256 0, 0x3000) ''i2s'' 22 None) s = Some t" "dma_ok t"
  shows "stray (set_ccr 1 0x80 t) (Irq demo_lost demo_lost demo_lost 27)"
proof -
  have c: "chan t 1 = new_chan (replicate 256 0, 0x3000) ''i2s'' 22 None (cfg_table s ! 22) (chan s 1)"
    using request_effect [OF assms(1) _ assms(2), of 22 "(replicate 256 0, 0x3000)" None "''i2s''" None] assms(3)
    by (auto simp: dma_devices_def MAX_DMA_CHANNELS_def)
  define u where "u = write_isr (push_bit 1 1) (set_ccr 1 0x80 t)"
  have l: "length (DMA_CCR_CH t) = 16" "length (mem_reg_group t) = 16" using dma_ok_lengths [OF assms(4)] by simp_all
  have v: "ccr (set_ccr 1 0x80 t) 1 = 0x80" using l by (simp add: ccr_def set_ccr_def u32_def)
  have u: "ccr u 1 = 0x80" "\<not> bad_id u 1" "des0_phy_addr (chan u 1) = 0x3000" "mem_reg_group u = mem_reg_group t"
    using v c by (simp_all add: u_def dma_simps bad_id_def new_chan_def MAX_DMA_CHANNELS_def)
  have "memreg_wait (ans_now demo_lost) (ans_polls demo_lost) = Some 0" by (simp add: demo_lost_def demo_answer_def)
  then have "update_memreg demo_lost 1 u = Some (upd_memreg (\<lambda>_. ans_group demo_lost) 1 (set_ccr 1 0 u))"
    using u(1) by (simp add: update_memreg_def SYSTEM_DMA_RUN_def)
  then have p: "\<exists>w. wmt_get_dma_pos_info demo_lost 1 u = Some (w, ans_group demo_lost)"
    using u(2,4) l(2) by (simp add: wmt_get_dma_pos_info_def upd_memreg_def set_ccr_def)
  have "\<not> pos_in_ring (chan u 1) (ans_group demo_lost)"
    using u(3) by (simp add: pos_in_ring_def demo_lost_def DMA_DES_REQCNT_MASK_def u32_def)
  with p u(2) have "bad_pos demo_lost 1 u" by (auto simp: bad_pos_def)
  then have "irq_stray demo_lost demo_lost 1 (set_ccr 1 0x80 t)"
    unfolding irq_stray_def Let_def u_def [symmetric] v by (simp add: DMA_EVT_ID_MASK_def DMA_EVT_NO_STATUS_def)
  moreover have "find (\<lambda>ch. 27 = dma_irq_no ! ch) [0..<MAX_DMA_CHANNELS] = Some 1"
    using irq_channel [of 1] by (simp add: MAX_DMA_CHANNELS_def dma_irq_no_def)
  ultimately show ?thesis by simp
qed

section \<open>Theorems\<close>







text \<open>
  C38. A transfer of more than 32 kilobytes and up to 64 is cut into two descriptors. The second one
  starts at the address plus the number of bytes that are left, not at the address plus 32
  kilobytes, so that part of the buffer is transferred twice and its end not at all unless the size
  is exactly 64 kilobytes; and already the first one carries the end mark.
\<close>

theorem dma_second_chunk_misplaced:
  assumes "queue_rel ch s q" "length q < 126" "SIZE_32KB < sz" "sz \<le> 2 * SIZE_32KB" "0 \<le> ptr" "ptr + sz < 2 ^ 32"
  shows "\<exists>t ws. wmt_start_dma attr ch ptr sz s = Some (t, 0) \<and> des_0 (chan t ch) = Some ws
     \<and> (let d = nat (des0cnt (chan s ch)) in
          desc_buf ws d = (ptr, SIZE_32KB) \<and> is_end ws d
          \<and> desc_buf ws ((d + 1) mod 127) = (ptr + (sz - SIZE_32KB), sz - SIZE_32KB))"
proof -
  obtain ws d where at: "at_slot s ch ws d" and ok: "dma_ok s"
    and res: "residue_des0cnt (chan s ch) = int (length q)" using assms(1) by (auto simp: queue_rel_def)
  have ty: "device_no (chan s ch) = DeviceReqType (device_cfg (chan s ch))" using live_type [OF ok] at by (simp add: at_slot_def)
  have l: "length ws = 256" "d < 127" "nat (des0cnt (chan s ch)) = d" using at by (auto simp: at_slot_def)
  let ?base = "des0_phy_addr (chan s ch)" and ?e = "(d + 1) mod 127"
  obtain t w1 w2 where t: "wmt_start_dma attr ch ptr sz s = Some (t, 0)"
     "good_word d SIZE_32KB w1" "good_word ?e (sz - SIZE_32KB) w2"
     "started ch s t (slot_put ?base w2 (u32 (u32 ptr + (sz - SIZE_32KB))) ?e (ring_put ?base w1 (u32 ptr) d ws)) ((?e + 1) mod 127) 2"
    using start_two [OF at ty _ _ assms(3,4), of attr ptr] res assms(2) by (auto simp: RING_def)
  have p: "u32 ptr = ptr" "u32 (ptr + (sz - SIZE_32KB)) = ptr + (sz - SIZE_32KB)"
    using assms(3,5,6) by (auto simp: SIZE_32KB_def u32_id)
  let ?v = "ring_put ?base w1 ptr d ws"
  define us where "us = slot_put ?base w2 (ptr + (sz - SIZE_32KB)) ?e ?v"
  note n = ring_put_new [OF l(1,2), of ?base w1 ptr]
  have "2 * d \<noteq> 2 * ?e" "2 * d + 1 \<noteq> 2 * ?e" "2 * d \<noteq> 2 * ?e + 1" "?e \<noteq> d" "?e < 127" using l(2) by (auto simp: mod_if)
  then have "us ! (2 * d) = w1" "us ! (2 * d + 1) = ptr" "us ! (2 * ?e) = w2" "us ! (2 * ?e + 1) = ptr + (sz - SIZE_32KB)"
    using n l(2) by (auto simp: us_def slot_put_def nth_list_update)
  then have "desc_buf us d = (ptr, SIZE_32KB)" "is_end us d" "desc_buf us ?e = (ptr + (sz - SIZE_32KB), sz - SIZE_32KB)"
    using t(2,3) by (auto simp: desc_buf_def is_end_def good_word_def)
  moreover have "des_0 (chan t ch) = Some us" using t(4) by (simp add: started_def at_slot_def p us_def)
  ultimately show ?thesis using t(1) l(3) by (auto simp: Let_def)
qed

theorem dma_second_chunk_misplaced_witness:
  "\<exists>s t ws. queue_rel 1 s [] \<and> wmt_start_dma demo_attr 1 0x100000 40000 s = Some (t, 0) \<and> des_0 (chan t 1) = Some ws
     \<and> desc_buf ws ((nat (des0cnt (chan s 1)) + 1) mod 127) = (0x100000 + 7232, 7232)"
proof -
  obtain s s1 where s: "dma_ok s" "wmt_request_dma (Some (replicate 256 0, 0x3000)) None ''i2s'' 22 None s = Some (s1, Some 1, 0)"
    using demo_request by blast
  have r: "queue_rel 1 s1 []" using request_empty_queue [OF s(1) _ _ s(2)] by (simp add: dma_devices_def)
  from dma_second_chunk_misplaced [OF r, of 40000 "0x100000" demo_attr] r show ?thesis by (fastforce simp: SIZE_32KB_def Let_def)
qed

lemma start_keeps_channel:
  "started ch s t vs e n \<Longrightarrow> dma_ok s \<Longrightarrow> dma_ok t \<and> at_slot t ch vs e \<and> des0_phy_addr (chan t ch) = des0_phy_addr (chan s ch)"
  unfolding started_def using dma_ok_touch [of s ch t] by (auto simp: touch_def)

text \<open>
  C39. With 126 descriptors outstanding the driver, which cuts its count off at 126, accepts any
  further submission: the second one overwrites the descriptor of the oldest buffer, which the
  engine has not finished.
\<close>

theorem dma_ring_overruns:
  assumes "queue_rel ch s q" "length q = 126" "0 < sz1" "sz1 \<le> SIZE_32KB" "0 < sz2" "sz2 \<le> SIZE_32KB" "0 \<le> ptr2" "ptr2 < 2 ^ 32"
  shows "\<exists>t u ws. wmt_start_dma attr ch ptr1 sz1 s = Some (t, 0) \<and> wmt_start_dma attr ch ptr2 sz2 t = Some (u, 0)
     \<and> des_0 (chan u ch) = Some ws \<and> desc_buf ws (head_slot (nat (des0cnt (chan s ch))) q) = (ptr2, sz2)
     \<and> residue_des0cnt (chan u ch) = 126"
proof -
  obtain ws d where at: "at_slot s ch ws d" and ok: "dma_ok s"
    and res: "residue_des0cnt (chan s ch) = 126" using assms(1,2) by (auto simp: queue_rel_def)
  let ?base = "des0_phy_addr (chan s ch)" and ?e = "(d + 1) mod 127"
  have l: "length ws = 256" "d < 127" "nat (des0cnt (chan s ch)) = d" using at by (auto simp: at_slot_def)
  have ty: "device_no (chan v ch) = DeviceReqType (device_cfg (chan v ch))" if "dma_ok v" "at_slot v ch vs e" for v vs e
    using live_type [OF that(1)] that(2) by (simp add: at_slot_def)
  obtain t w1 where t: "wmt_start_dma attr ch ptr1 sz1 s = Some (t, 0)" "started ch s t (ring_put ?base w1 (u32 ptr1) d ws) ?e 1"
    using start_one [OF at ty [OF ok at] _ _ assms(3,4), of attr ptr1] res by (auto simp: RING_def)
  let ?v = "ring_put ?base w1 (u32 ptr1) d ws"
  have kt: "dma_ok t" "at_slot t ch ?v ?e" "des0_phy_addr (chan t ch) = ?base" using start_keeps_channel [OF t(2) ok] by auto
  have rt: "residue_des0cnt (chan t ch) = 126" using t(2) res by (simp add: started_def s32_def RING_def)
  obtain u w2 where u: "wmt_start_dma attr ch ptr2 sz2 t = Some (u, 0)" "good_word ?e sz2 w2"
    "started ch t u (ring_put ?base w2 (u32 ptr2) ?e ?v) ((?e + 1) mod 127) 1"
    using start_one [OF kt(2) ty [OF kt(1,2)] _ _ assms(5,6), of attr ptr2] rt kt(3) by (auto simp: RING_def)
  have e: "?e < 127" by simp
  have "head_slot (nat (des0cnt (chan s ch))) q = ?e" using assms(2) l by (simp add: head_slot_def slot_of_def)
  moreover have "desc_buf (ring_put ?base w2 (u32 ptr2) ?e ?v) ?e = (ptr2, sz2)"
    using ring_put_new(1,2) [OF ring_put_new(5) [OF l(1,2)] e] u(2) assms(7,8) by (simp add: desc_buf_def good_word_def u32_id)
  moreover have "residue_des0cnt (chan u ch) = 126" using u(3) rt by (simp add: started_def s32_def RING_def)
  ultimately show ?thesis using t(1) u(1,3) by (auto simp: started_def at_slot_def)
qed

lemma queue_after_many:
  "length q + n \<le> 126 \<Longrightarrow> queue_after (replicate n (Submit demo_attr 0x10000 64)) (q, ds) = Some (q @ replicate n (0x10000, 64), ds)"
  by (induction n arbitrary: q) (auto simp: SIZE_32KB_def)

theorem dma_ring_overruns_witness:
  "\<exists>s t u ws q. queue_rel 1 s q \<and> length q = 126 \<and> wmt_start_dma demo_attr 1 0x20000 64 s = Some (t, 0)
     \<and> wmt_start_dma demo_attr 1 0x30000 64 t = Some (u, 0) \<and> des_0 (chan u 1) = Some ws
     \<and> desc_buf ws (head_slot (nat (des0cnt (chan s 1))) q) = (0x30000, 64)"
proof -
  obtain s s1 where s: "dma_ok s" "wmt_request_dma (Some (replicate 256 0, 0x3000)) None ''i2s'' 22 None s = Some (s1, Some 1, 0)"
    using demo_request by blast
  have r: "engine_rel 1 s1 0 []" using request_empty_queue [OF s(1) _ _ s(2)] by (simp add: dma_devices_def engine_rel_def)
  have "queue_after (replicate 126 (Submit demo_attr 0x10000 64)) ([], []) = Some (replicate 126 (0x10000, 64), [])"
    using queue_after_many [of "[]" 126] by simp
  from play_refines [OF r this] obtain t where t: "queue_rel 1 t (replicate 126 (0x10000, 64))" by (auto simp: engine_rel_def)
  from dma_ring_overruns [OF t, of 64 64 "0x30000" demo_attr "0x20000"] t show ?thesis by (fastforce simp: SIZE_32KB_def)
qed

end
