(* ===== verification/WmtRtc.thy ===== *)
theory WmtRtc
  imports CPrelude
begin

text \<open>
  The real time clock, \<^verbatim>\<open>drivers/rtc/wmt-rtc.c\<close>, with the register macros of
  \<^verbatim>\<open>mach/wmt_rtc.h\<close>: setting and reading the time in binary-coded decimal, the alarm, the
  interrupt handler and the set-up.

  The registers are a record. Writing ones to the interrupt status register clears it, as the
  comment of the handler says; how the clock advances is left to the hardware. What
  \<^verbatim>\<open>request_irq\<close> and \<^verbatim>\<open>rtc_device_register\<close> answer is an argument.
\<close>

section \<open>Data\<close>

record rtc_regs_t =
  RTTS :: int
  RTDS :: int
  RTAS :: int
  RTCC :: int
  RTCT :: int
  RTCD :: int
  RTWS :: int
  RTTM :: int
  RTTC :: int
  RTIS :: int

record rtc_time =
  tm_sec :: int
  tm_min :: int
  tm_hour :: int
  tm_mday :: int
  tm_mon :: int
  tm_year :: int
  tm_wday :: int
  tm_yday :: int
  tm_isdst :: int

text \<open>The registers, the shadow registers, the alarm that was set, and the interrupts that are
  requested or wake the system.\<close>

record wmt_rtc_t =
  rtc_regs :: rtc_regs_t
  rtct :: int
  rtcd :: int
  rtas :: int
  rtc_alarm :: rtc_time
  irq_update :: bool
  irq_alarm :: bool
  irq_wake :: bool

definition upd_regs :: "(rtc_regs_t \<Rightarrow> rtc_regs_t) \<Rightarrow> wmt_rtc_t \<Rightarrow> wmt_rtc_t" where
  "upd_regs f s = s\<lparr>rtc_regs := f (rtc_regs s)\<rparr>"

section \<open>Register fields\<close>

definition BCD2BIN :: "int \<Rightarrow> int" where "BCD2BIN x = (x AND 0x0F) + drop_bit 4 x * 10"
definition BIN2BCD :: "int \<Rightarrow> int" where "BIN2BCD x = push_bit 4 (x div 10) + x mod 10"

definition RTTS_TIME :: int where "RTTS_TIME = 0x7FFFFF"
definition RTTS_SEC :: "int \<Rightarrow> int" where "RTTS_SEC x = BIN2BCD x AND 0x7F"
definition RTTS_MIN :: "int \<Rightarrow> int" where "RTTS_MIN x = push_bit 7 (BIN2BCD x) AND 0x3F80"
definition RTTS_HOUR :: "int \<Rightarrow> int" where "RTTS_HOUR x = push_bit 14 (BIN2BCD x) AND 0xFC000"
definition RTTS_DAY :: "int \<Rightarrow> int" where "RTTS_DAY x = push_bit 20 (BIN2BCD x) AND 0x700000"

definition RTDS_DATE :: int where "RTDS_DATE = 0x000FFFFF"
definition RTDS_MDAY :: "int \<Rightarrow> int" where "RTDS_MDAY x = BIN2BCD x AND 0x3F"
definition RTDS_MON :: "int \<Rightarrow> int" where "RTDS_MON x = push_bit 6 (BIN2BCD x) AND 0x7C0"
definition RTDS_YEAR :: "int \<Rightarrow> int" where "RTDS_YEAR x = push_bit 11 (BIN2BCD x) AND 0x7F800"
definition RTDS_CENT :: "int \<Rightarrow> int" where "RTDS_CENT x = push_bit 19 (BIN2BCD x) AND 0x80000"

definition RTAS_SEC :: "int \<Rightarrow> int" where "RTAS_SEC x = BIN2BCD x AND 0x7F"
definition RTAS_MIN :: "int \<Rightarrow> int" where "RTAS_MIN x = push_bit 7 (BIN2BCD x) AND 0x3F80"
definition RTAS_HOUR :: "int \<Rightarrow> int" where "RTAS_HOUR x = push_bit 14 (BIN2BCD x) AND 0xFC000"
definition RTAS_DAY :: "int \<Rightarrow> int" where "RTAS_DAY x = push_bit 20 (BIN2BCD x) AND 0x3F00000"
definition RTAS_CMPSEC :: int where "RTAS_CMPSEC = 0x4000000"
definition RTAS_CMPMIN :: int where "RTAS_CMPMIN = 0x8000000"
definition RTAS_CMPHOUR :: int where "RTAS_CMPHOUR = 0x10000000"
definition RTAS_CMPDAY :: int where "RTAS_CMPDAY = 0x20000000"
definition RTAS_CMPMASK :: int where "RTAS_CMPMASK = 0x3C000000"

definition RTCC_ENA :: int where "RTCC_ENA = 1"
definition RTCC_INTENA :: int where "RTCC_INTENA = 4"
definition RTCC_INTTYPE :: int where "RTCC_INTTYPE = 8"

definition RTCT_INVALID :: int where "RTCT_INVALID = 0x80000000"
definition RTCT_SEC :: "int \<Rightarrow> int" where "RTCT_SEC x = BCD2BIN (x AND 0x7F)"
definition RTCT_MIN :: "int \<Rightarrow> int" where "RTCT_MIN x = BCD2BIN (drop_bit 7 (x AND 0x3F80))"
definition RTCT_HOUR :: "int \<Rightarrow> int" where "RTCT_HOUR x = BCD2BIN (drop_bit 14 (x AND 0xFC000))"
definition RTCT_DAY :: "int \<Rightarrow> int" where "RTCT_DAY x = BCD2BIN (drop_bit 20 (x AND 0x700000))"

definition RTCD_INVALID :: int where "RTCD_INVALID = 0x80000000"
definition RTCD_MDAY :: "int \<Rightarrow> int" where "RTCD_MDAY x = BCD2BIN (x AND 0x3F)"
definition RTCD_MON :: "int \<Rightarrow> int" where "RTCD_MON x = BCD2BIN (drop_bit 6 (x AND 0x7C0))"
definition RTCD_YEAR :: "int \<Rightarrow> int" where "RTCD_YEAR x = BCD2BIN (drop_bit 11 (x AND 0x7F800))"
definition RTCD_CENT :: "int \<Rightarrow> int" where "RTCD_CENT x = BCD2BIN (drop_bit 19 (x AND 0x80000))"

definition RTWS_TIMESET :: int where "RTWS_TIMESET = 1"
definition RTWS_DATESET :: int where "RTWS_DATESET = 2"
definition RTWS_ALARMSET :: int where "RTWS_ALARMSET = 4"
definition RTTM_ENABLE :: int where "RTTM_ENABLE = 1"
definition RTIS_ALARM :: int where "RTIS_ALARM = 1"
definition RTIS_UPDATE :: int where "RTIS_UPDATE = 2"
definition RTC_DEF_DIVIDER :: int where "RTC_DEF_DIVIDER = 32768 - 1"

section \<open>Setting time, date and alarm\<close>

definition wmt_set_time :: "wmt_rtc_t \<Rightarrow> int \<Rightarrow> wmt_rtc_t \<times> (errno + int)" where
  "wmt_set_time s v =
     (if RTWS (rtc_regs s) AND RTWS_TIMESET = 0 then (upd_regs (\<lambda>r. r\<lparr>RTTS := v AND RTTS_TIME\<rparr>) s, Inr 0)
      else (s, Inl EBUSY))"

definition wmt_set_date :: "wmt_rtc_t \<Rightarrow> int \<Rightarrow> wmt_rtc_t \<times> (errno + int)" where
  "wmt_set_date s v =
     (if RTWS (rtc_regs s) AND RTWS_DATESET = 0 then (upd_regs (\<lambda>r. r\<lparr>RTDS := v AND RTDS_DATE\<rparr>) s, Inr 0)
      else (s, Inl EBUSY))"

text \<open>The register value for an alarm: a field out of its range is not compared.\<close>

definition alarm_value :: "rtc_time \<Rightarrow> int" where
  "alarm_value t =
     (let v1 = (if tm_sec t \<ge> 0 \<and> tm_sec t < 60 then RTAS_SEC (tm_sec t) OR RTAS_CMPSEC else 0);
          v2 = (if tm_min t \<ge> 0 \<and> tm_min t < 60 then v1 OR RTAS_MIN (tm_min t) OR RTAS_CMPMIN else v1);
          v3 = (if tm_hour t \<ge> 0 \<and> tm_hour t < 24 then v2 OR RTAS_HOUR (tm_hour t) OR RTAS_CMPHOUR else v2)
      in if tm_mday t > 0 \<and> tm_mday t \<le> 31 then v3 OR RTAS_DAY (tm_mday t) OR RTAS_CMPDAY else v3)"

definition wmt_set_alarm :: "wmt_rtc_t \<Rightarrow> rtc_time \<Rightarrow> wmt_rtc_t \<times> (errno + int)" where
  "wmt_set_alarm s t =
     (let v = alarm_value t in
      if v \<noteq> 0 then
        if RTWS (rtc_regs s) AND RTWS_ALARMSET = 0 then (upd_regs (\<lambda>r. r\<lparr>RTAS := v\<rparr>) s, Inr 0) else (s, Inl EBUSY)
      else (s, Inr 0))"

definition rtc_periodic_alarm :: "rtc_time \<Rightarrow> bool" where
  "rtc_periodic_alarm t \<longleftrightarrow> tm_year t = -1 \<or> u32 (tm_mon t) \<ge> 12 \<or> u32 (tm_mday t - 1) \<ge> 31 \<or>
     u32 (tm_hour t) > 23 \<or> u32 (tm_min t) > 59 \<or> u32 (tm_sec t) > 59"

section \<open>The interrupt handler and the operations of the class\<close>

text \<open>\<open>has_dev\<close>: whether the device of the handler's argument has driver data. The result is what
  is reported to the class by \<^verbatim>\<open>rtc_update_irq\<close>, if anything.\<close>

definition wmt_rtc_interrupt :: "bool \<Rightarrow> wmt_rtc_t \<Rightarrow> wmt_rtc_t \<times> int option" where
  "wmt_rtc_interrupt has_dev s =
     (let rtis = RTIS (rtc_regs s); alarm = (rtis AND RTIS_ALARM \<noteq> 0);
          s1 = upd_regs (\<lambda>r. r\<lparr>RTIS := 0\<rparr>) s;
          s2 = (if alarm then upd_regs (\<lambda>r. r\<lparr>RTAS := RTAS r AND (RTAS_CMPMASK XOR 0xFFFFFFFF)\<rparr>) s1 else s1);
          ev1 = (if alarm then 0x20 OR 0x80 else 0);
          ev2 = (if rtis AND RTIS_UPDATE \<noteq> 0 then ev1 OR 0x10 OR 0x80 else ev1);
          s3 = (if alarm \<and> rtc_periodic_alarm (rtc_alarm s2) then fst (wmt_set_alarm s2 (rtc_alarm s2)) else s2)
      in (s3, if has_dev then Some ev2 else None))"

text \<open>\<open>upd_err\<close> and \<open>alarm_err\<close> are what \<^verbatim>\<open>request_irq\<close> returns. The handler is registered with a null
  pointer as its argument, so that it runs with \<open>has_dev\<close> false.\<close>

definition wmt_rtc_open :: "int \<Rightarrow> int \<Rightarrow> wmt_rtc_t \<Rightarrow> wmt_rtc_t \<times> int" where
  "wmt_rtc_open upd_err alarm_err s =
     (if upd_err \<noteq> 0 then (s, upd_err)
      else if alarm_err \<noteq> 0 then (s\<lparr>irq_update := False\<rparr>, alarm_err)
      else (s\<lparr>irq_update := True, irq_alarm := True\<rparr>, 0))"

definition wmt_rtc_release :: "wmt_rtc_t \<Rightarrow> wmt_rtc_t" where
  "wmt_rtc_release s =
     (upd_regs (\<lambda>r. r\<lparr>RTCC := RTCC r AND (RTCC_INTENA XOR 0xFFFFFFFF), RTAS := 0\<rparr>) s)
       \<lparr>rtas := 0, irq_update := False, irq_alarm := False\<rparr>"

datatype rtc_cmd = RTC_AIE_OFF | RTC_AIE_ON | RTC_UIE_OFF | RTC_UIE_ON | RTC_OTHER

definition wmt_rtc_ioctl :: "wmt_rtc_t \<Rightarrow> rtc_cmd \<Rightarrow> wmt_rtc_t \<times> (errno + int)" where
  "wmt_rtc_ioctl s cmd = (case cmd of
     RTC_AIE_OFF \<Rightarrow>
       (upd_regs (\<lambda>r. r\<lparr>RTAS := RTAS r AND (RTAS_CMPMASK XOR 0xFFFFFFFF)\<rparr>) (s\<lparr>rtas := RTAS (rtc_regs s)\<rparr>), Inr 0)
   | RTC_AIE_ON \<Rightarrow> (upd_regs (\<lambda>r. r\<lparr>RTAS := RTAS r OR (rtas s AND RTAS_CMPMASK)\<rparr>) s, Inr 0)
   | RTC_UIE_OFF \<Rightarrow> (upd_regs (\<lambda>r. r\<lparr>RTCC := RTCC r AND (RTCC_INTENA XOR 0xFFFFFFFF)\<rparr>) s, Inr 0)
   | RTC_UIE_ON \<Rightarrow> (upd_regs (\<lambda>r. r\<lparr>RTCC := RTCC r OR RTCC_INTENA\<rparr>) s, Inr 0)
   | RTC_OTHER \<Rightarrow> (s, Inl EINVAL))"

text \<open>The caller's structure is an argument, \<open>None\<close> for a null pointer; the fields that the driver
  does not set stay.\<close>

definition wmt_rtc_read_time :: "wmt_rtc_t \<Rightarrow> rtc_time option \<Rightarrow> wmt_rtc_t \<times> (errno + rtc_time)" where
  "wmt_rtc_read_time s tm = (case tm of None \<Rightarrow> (s, Inl EINVAL)
   | Some t \<Rightarrow>
     let ct = RTCT (rtc_regs s); cd = RTCD (rtc_regs s); s1 = s\<lparr>rtct := ct, rtcd := cd\<rparr> in
     if ct AND RTCT_INVALID \<noteq> 0 \<or> cd AND RTCD_INVALID \<noteq> 0 then (s1, Inl EINVAL)
     else (s1, Inr (t\<lparr>tm_sec := RTCT_SEC ct, tm_min := RTCT_MIN ct, tm_hour := RTCT_HOUR ct, tm_wday := RTCT_DAY ct,
                      tm_mday := RTCD_MDAY cd, tm_mon := RTCD_MON cd - 1,
                      tm_year := RTCD_YEAR cd + (RTCD_CENT cd * 100 + 100)\<rparr>)))"

definition wmt_rtc_set_time :: "wmt_rtc_t \<Rightarrow> rtc_time \<Rightarrow> wmt_rtc_t \<times> (errno + int)" where
  "wmt_rtc_set_time s t =
     (if tm_sec t < 0 \<or> tm_sec t > 59 then (s, Inl EINVAL)
      else if tm_min t < 0 \<or> tm_min t > 59 then (s, Inl EINVAL)
      else if tm_hour t < 0 \<or> tm_hour t > 23 then (s, Inl EINVAL)
      else if tm_wday t < 0 \<or> tm_wday t > 6 then (s, Inl EINVAL)
      else if tm_mday t < 0 \<or> tm_mday t > 31 then (s, Inl EINVAL)
      else if tm_mon t < 0 \<or> tm_mon t > 11 then (s, Inl EINVAL)
      else if tm_year t < 100 then (s, Inl EINVAL)
      else
        (case wmt_set_time s (RTTS_SEC (tm_sec t) OR RTTS_MIN (tm_min t) OR RTTS_HOUR (tm_hour t) OR RTTS_DAY (tm_wday t)) of
           (s1, Inl e) \<Rightarrow> (s1, Inl e)
         | (s1, Inr _) \<Rightarrow>
             wmt_set_date s1 (RTDS_MDAY (tm_mday t) OR RTDS_MON (tm_mon t + 1) OR
               RTDS_YEAR (tm_year t mod 100) OR RTDS_CENT (tm_year t div 100 - 1))))"

definition wmt_rtc_read_alarm :: "wmt_rtc_t \<Rightarrow> rtc_time \<times> bool" where
  "wmt_rtc_read_alarm s = (rtc_alarm s, RTIS (rtc_regs s) AND RTIS_ALARM \<noteq> 0)"

definition wmt_rtc_set_alarm :: "wmt_rtc_t \<Rightarrow> rtc_time \<Rightarrow> bool \<Rightarrow> wmt_rtc_t \<times> (errno + int)" where
  "wmt_rtc_set_alarm s t enabled = (case wmt_set_alarm s t of
     (s1, Inl e) \<Rightarrow> (s1, Inl e)
   | (s1, Inr r) \<Rightarrow> (s1\<lparr>rtc_alarm := t, irq_wake := enabled\<rparr>, Inr r))"

section \<open>Set-up\<close>

text \<open>\<open>reg_err\<close> is what \<^verbatim>\<open>rtc_device_register\<close> answers, 0 for a device. \<open>None\<close>: the date register
  stays busy for ever. Its write stores what was read from it.\<close>

definition wmt_rtc_probe :: "bool \<Rightarrow> int \<Rightarrow> wmt_rtc_t \<Rightarrow> (wmt_rtc_t \<times> int) option" where
  "wmt_rtc_probe date_ready reg_err s =
     (let s1 = (if RTTM (rtc_regs s) AND RTTM_ENABLE \<noteq> 0 \<and> RTTC (rtc_regs s) = 0
                then upd_regs (\<lambda>r. r\<lparr>RTTC := RTC_DEF_DIVIDER\<rparr>) s else s) in
      if RTCC (rtc_regs s1) AND RTCC_ENA \<noteq> 0 then Some (s1, reg_err)
      else let s2 = upd_regs (\<lambda>r. r\<lparr>RTAS := 0, RTTM := 0, RTCC := RTCC_ENA OR RTCC_INTTYPE\<rparr>) s1 in
        if RTCD (rtc_regs s2) = 0 \<and> \<not> date_ready then None else Some (s2, reg_err))"

definition wmt_rtc_remove :: "bool \<Rightarrow> wmt_rtc_t \<Rightarrow> wmt_rtc_t" where
  "wmt_rtc_remove has_dev s =
     (if has_dev then upd_regs (\<lambda>r. r\<lparr>RTCC := RTCC r AND (RTCC_INTENA XOR 0xFFFFFFFF)\<rparr>) s else s)"

section \<open>The time that was set is read back\<close>

lemma BCD_roundtrip: "0 \<le> x \<Longrightarrow> x < 100 \<Longrightarrow> BCD2BIN (BIN2BCD x) = x"
proof -
  assume x: "0 \<le> x" "x < 100"
  have e: "BIN2BCD x = 16 * (x div 10) + x mod 10" by (simp add: BIN2BCD_def push_bit_eq_mult)
  have "x mod 10 < 16" "0 \<le> x mod 10" using pos_mod_bound [of 10 x] by simp_all
  moreover have "BCD2BIN y = y mod 16 + y div 16 * 10" for y
    using take_bit_eq_mask [of 4 y] by (simp add: BCD2BIN_def drop_bit_eq_div take_bit_eq_mod mask_eq_exp_minus_1)
  ultimately show ?thesis by (simp add: e)
qed

lemma BIN2BCD_less:
  assumes "0 \<le> x" "x < 10 * n"
  shows "0 \<le> BIN2BCD x" "BIN2BCD x < 16 * n"
proof -
  have e: "BIN2BCD x = 16 * (x div 10) + x mod 10" by (simp add: BIN2BCD_def push_bit_eq_mult)
  have "x div 10 < n" using assms(2) by (simp add: div_less_iff_less_mult mult.commute)
  moreover have "x mod 10 < 10" "0 \<le> x mod 10" by simp_all
  moreover have "0 \<le> x div 10" using assms(1) by (simp add: pos_imp_zdiv_nonneg_iff)
  ultimately show "0 \<le> BIN2BCD x" "BIN2BCD x < 16 * n" unfolding e by linarith+
qed

lemma put_field: "take_bit n v = v \<Longrightarrow> push_bit k v AND push_bit k (mask n) = push_bit k (v :: int)"
  by (simp add: push_bit_and [symmetric] take_bit_eq_mask [symmetric])

lemma get_field: "drop_bit k (x AND push_bit k (mask n)) = take_bit n (drop_bit k (x :: int))"
  by (simp add: drop_bit_and take_bit_eq_mask drop_bit_push_bit)

text \<open>The four fields of the time register and those of the date register.\<close>

lemma time_fields:
  fixes s m h d :: int
  assumes f: "take_bit 7 s = s" "take_bit 7 m = m" "take_bit 6 h = h" "take_bit 3 d = d"
    and v: "v = take_bit 23 (s OR push_bit 7 m OR push_bit 14 h OR push_bit 20 d)"
  shows "take_bit 7 v = s" "take_bit 7 (drop_bit 7 v) = m" "take_bit 6 (drop_bit 14 v) = h" "take_bit 3 (drop_bit 20 v) = d"
    "v AND 0x80000000 = 0"
proof -
  have z: "drop_bit k s = 0" "drop_bit k m = 0" if "7 \<le> k" for k
    using that f(1, 2) drop_bit_take_bit [of k 7] by (metis diff_is_0_eq take_bit_0)+
  have z6: "drop_bit k h = 0" if "6 \<le> k" for k
    using that f(3) drop_bit_take_bit [of k 6 h] by simp
  show "take_bit 7 v = s" using f by (simp add: v take_bit_or take_bit_push_bit)
  show "take_bit 7 (drop_bit 7 v) = m" using f z by (simp add: v drop_bit_take_bit drop_bit_or take_bit_or drop_bit_push_bit take_bit_push_bit)
  show "take_bit 6 (drop_bit 14 v) = h" using f z by (simp add: v drop_bit_take_bit drop_bit_or take_bit_or drop_bit_push_bit take_bit_push_bit)
  show "take_bit 3 (drop_bit 20 v) = d" using f z z6 by (simp add: v drop_bit_take_bit drop_bit_or take_bit_or drop_bit_push_bit take_bit_push_bit)
  have "\<not> bit v 31" by (simp only: v bit_take_bit_iff) simp
  then show "v AND 0x80000000 = 0" using and_push_bit_1 [of v 31] by simp
qed

lemma date_fields:
  fixes a b c d :: int
  assumes f: "take_bit 6 a = a" "take_bit 5 b = b" "take_bit 8 c = c" "take_bit 1 d = d"
    and v: "v = take_bit 20 (a OR push_bit 6 b OR push_bit 11 c OR push_bit 19 d)"
  shows "take_bit 6 v = a" "take_bit 5 (drop_bit 6 v) = b" "take_bit 8 (drop_bit 11 v) = c" "take_bit 1 (drop_bit 19 v) = d"
    "v AND 0x80000000 = 0"
proof -
  have z: "drop_bit k a = 0" if "6 \<le> k" for k using that f(1) drop_bit_take_bit [of k 6 a] by simp
  have z5: "drop_bit k b = 0" if "5 \<le> k" for k using that f(2) drop_bit_take_bit [of k 5 b] by simp
  have z8: "drop_bit k c = 0" if "8 \<le> k" for k using that f(3) drop_bit_take_bit [of k 8 c] by simp
  note s = drop_bit_take_bit drop_bit_or take_bit_or drop_bit_push_bit take_bit_push_bit
  show "take_bit 6 v = a" using f by (simp add: v s)
  show "take_bit 5 (drop_bit 6 v) = b" using f z by (simp add: v s)
  show "take_bit 8 (drop_bit 11 v) = c" using f z z5 by (simp add: v s)
  show "take_bit 1 (drop_bit 19 v) = d" using f z z5 z8 by (simp add: v s)
  have "\<not> bit v 31" by (simp only: v bit_take_bit_iff) simp
  then show "v AND 0x80000000 = 0" using and_push_bit_1 [of v 31] by simp
qed

lemma mask_words:
  "(0x7F :: int) = mask 7" "(0x3F80 :: int) = push_bit 7 (mask 7)" "(0xFC000 :: int) = push_bit 14 (mask 6)"
  "(0x700000 :: int) = push_bit 20 (mask 3)" "(0x7FFFFF :: int) = mask 23" "(0x3F :: int) = mask 6"
  "(0x7C0 :: int) = push_bit 6 (mask 5)" "(0x7F800 :: int) = push_bit 11 (mask 8)" "(0x80000 :: int) = push_bit 19 (mask 1)"
  "(0xFFFFF :: int) = mask 20"
  by (simp_all add: mask_eq_exp_minus_1 push_bit_eq_mult)

text \<open>The field macros put in and take out a field.\<close>

lemma put_macros:
  "take_bit 7 (BIN2BCD x) = BIN2BCD x \<Longrightarrow> RTTS_SEC x = BIN2BCD x"
  "take_bit 7 (BIN2BCD x) = BIN2BCD x \<Longrightarrow> RTTS_MIN x = push_bit 7 (BIN2BCD x)"
  "take_bit 6 (BIN2BCD x) = BIN2BCD x \<Longrightarrow> RTTS_HOUR x = push_bit 14 (BIN2BCD x)"
  "take_bit 3 (BIN2BCD x) = BIN2BCD x \<Longrightarrow> RTTS_DAY x = push_bit 20 (BIN2BCD x)"
  "take_bit 6 (BIN2BCD x) = BIN2BCD x \<Longrightarrow> RTDS_MDAY x = BIN2BCD x"
  "take_bit 5 (BIN2BCD x) = BIN2BCD x \<Longrightarrow> RTDS_MON x = push_bit 6 (BIN2BCD x)"
  "take_bit 8 (BIN2BCD x) = BIN2BCD x \<Longrightarrow> RTDS_YEAR x = push_bit 11 (BIN2BCD x)"
  "take_bit 1 (BIN2BCD x) = BIN2BCD x \<Longrightarrow> RTDS_CENT x = push_bit 19 (BIN2BCD x)"
  unfolding RTTS_SEC_def RTTS_MIN_def RTTS_HOUR_def RTTS_DAY_def RTDS_MDAY_def RTDS_MON_def RTDS_YEAR_def RTDS_CENT_def mask_words
  by (simp_all only: put_field take_bit_eq_mask [symmetric])

lemma get_macros:
  "RTCT_SEC x = BCD2BIN (take_bit 7 x)" "RTCT_MIN x = BCD2BIN (take_bit 7 (drop_bit 7 x))"
  "RTCT_HOUR x = BCD2BIN (take_bit 6 (drop_bit 14 x))" "RTCT_DAY x = BCD2BIN (take_bit 3 (drop_bit 20 x))"
  "RTCD_MDAY x = BCD2BIN (take_bit 6 x)" "RTCD_MON x = BCD2BIN (take_bit 5 (drop_bit 6 x))"
  "RTCD_YEAR x = BCD2BIN (take_bit 8 (drop_bit 11 x))" "RTCD_CENT x = BCD2BIN (take_bit 1 (drop_bit 19 x))"
  unfolding RTCT_SEC_def RTCT_MIN_def RTCT_HOUR_def RTCT_DAY_def RTCD_MDAY_def RTCD_MON_def RTCD_YEAR_def RTCD_CENT_def mask_words
  by (simp_all only: get_field take_bit_eq_mask [symmetric])

lemma BIN2BCD_fits:
  "0 \<le> x \<Longrightarrow> x < 80 \<Longrightarrow> take_bit 7 (BIN2BCD x) = BIN2BCD x" "0 \<le> x \<Longrightarrow> x < 40 \<Longrightarrow> take_bit 6 (BIN2BCD x) = BIN2BCD x"
  "0 \<le> x \<Longrightarrow> x < 20 \<Longrightarrow> take_bit 5 (BIN2BCD x) = BIN2BCD x" "0 \<le> x \<Longrightarrow> x < 100 \<Longrightarrow> take_bit 8 (BIN2BCD x) = BIN2BCD x"
  using BIN2BCD_less [of x 8] BIN2BCD_less [of x 4] BIN2BCD_less [of x 2] BIN2BCD_less [of x 10]
  by (simp_all add: take_bit_int_eq_self_iff)

lemma BIN2BCD_digit:
  assumes "0 \<le> x" "x < 10"
  shows "BIN2BCD x = x"
  using assms by (simp add: BIN2BCD_def)

text \<open>C36. A time from 2000 to 2199 that \<^verbatim>\<open>wmt_rtc_set_time\<close> accepts is read back unchanged by
  \<^verbatim>\<open>wmt_rtc_read_time\<close>, as long as the clock shows what was stored in its set registers.\<close>

theorem wmt_rtc_time_roundtrip:
  assumes t: "tm_sec t \<in> {0..59}" "tm_min t \<in> {0..59}" "tm_hour t \<in> {0..23}" "tm_wday t \<in> {0..6}" "tm_mday t \<in> {0..31}"
      "tm_mon t \<in> {0..11}" "tm_year t \<in> {100..299}"
    and free: "RTWS (rtc_regs s) AND RTWS_TIMESET = 0" "RTWS (rtc_regs s) AND RTWS_DATESET = 0"
  shows "\<exists>s1. wmt_rtc_set_time s t = (s1, Inr 0) \<and>
    (\<forall>s2 t0. RTCT (rtc_regs s2) = RTTS (rtc_regs s1) \<longrightarrow> RTCD (rtc_regs s2) = RTDS (rtc_regs s1) \<longrightarrow>
      snd (wmt_rtc_read_time s2 (Some t0)) = Inr (t\<lparr>tm_yday := tm_yday t0, tm_isdst := tm_isdst t0\<rparr>))"
proof -
  define y where "y = tm_year t mod 100"
  define c where "c = tm_year t div 100 - 1"
  have y: "0 \<le> y" "y < 100" by (simp_all add: y_def)
  have "1 \<le> tm_year t div 100" "tm_year t div 100 < 3" using t(7) zdiv_mono1 [of 100 "tm_year t" 100] zdiv_mono1 [of "tm_year t" 299 100] by simp_all
  then have c: "0 \<le> c" "c < 2" by (simp_all add: c_def)
  have yc: "y + (c * 100 + 100) = tm_year t" using div_mult_mod_eq [of "tm_year t" 100] by (simp add: y_def c_def)
  let ?s = "BIN2BCD (tm_sec t)" and ?m = "BIN2BCD (tm_min t)" and ?h = "BIN2BCD (tm_hour t)" and ?d = "BIN2BCD (tm_wday t)"
  let ?a = "BIN2BCD (tm_mday t)" and ?b = "BIN2BCD (tm_mon t + 1)" and ?y = "BIN2BCD y" and ?c = "BIN2BCD c"
  have w3: "take_bit 3 ?d = ?d" using t(4) by (simp add: BIN2BCD_digit take_bit_int_eq_self_iff)
  have c1: "take_bit 1 ?c = ?c" using c by (simp add: BIN2BCD_digit take_bit_int_eq_self_iff)
  have f: "take_bit 7 ?s = ?s" "take_bit 7 ?m = ?m" "take_bit 6 ?h = ?h" "take_bit 6 ?a = ?a" "take_bit 5 ?b = ?b" "take_bit 8 ?y = ?y"
    using t y by (auto intro!: BIN2BCD_fits)
  define T where "T = take_bit 23 (?s OR push_bit 7 ?m OR push_bit 14 ?h OR push_bit 20 ?d)"
  define D where "D = take_bit 20 (?a OR push_bit 6 ?b OR push_bit 11 ?y OR push_bit 19 ?c)"
  note T = time_fields [OF f(1-3) w3 T_def] and D = date_fields [OF f(4-6) c1 D_def]
  have Tv: "(RTTS_SEC (tm_sec t) OR RTTS_MIN (tm_min t) OR RTTS_HOUR (tm_hour t) OR RTTS_DAY (tm_wday t)) AND RTTS_TIME = T"
    unfolding T_def RTTS_TIME_def mask_words put_macros(1) [OF f(1)] put_macros(2) [OF f(2)] put_macros(3) [OF f(3)] put_macros(4) [OF w3]
    by (simp only: take_bit_eq_mask)
  have Dv: "(RTDS_MDAY (tm_mday t) OR RTDS_MON (tm_mon t + 1) OR RTDS_YEAR y OR RTDS_CENT c) AND RTDS_DATE = D"
    unfolding D_def RTDS_DATE_def mask_words put_macros(5) [OF f(4)] put_macros(6) [OF f(5)] put_macros(7) [OF f(6)] put_macros(8) [OF c1]
    by (simp only: take_bit_eq_mask)
  let ?s1 = "upd_regs (\<lambda>r. r\<lparr>RTDS := D\<rparr>) (upd_regs (\<lambda>r. r\<lparr>RTTS := T\<rparr>) s)"
  have set: "wmt_rtc_set_time s t = (?s1, Inr 0)"
    using t free Tv Dv by (simp add: wmt_rtc_set_time_def wmt_set_time_def wmt_set_date_def upd_regs_def y_def c_def)
  have "snd (wmt_rtc_read_time s2 (Some t0)) = Inr (t\<lparr>tm_yday := tm_yday t0, tm_isdst := tm_isdst t0\<rparr>)"
    if "RTCT (rtc_regs s2) = T" "RTCD (rtc_regs s2) = D" for s2 t0
    using that T D t y c yc
    by (simp add: wmt_rtc_read_time_def Let_def RTCT_INVALID_def RTCD_INVALID_def get_macros BCD_roundtrip)
  then show ?thesis using set by (simp add: upd_regs_def)
qed

section \<open>An example\<close>

definition rtc_time1 :: rtc_time where
  "rtc_time1 = \<lparr>tm_sec = 59, tm_min = 30, tm_hour = 23, tm_mday = 31, tm_mon = 11, tm_year = 112, tm_wday = 1, tm_yday = 0, tm_isdst = 0\<rparr>"

definition rtc1 :: wmt_rtc_t where
  "rtc1 = \<lparr>rtc_regs = \<lparr>RTTS = 0, RTDS = 0, RTAS = 0, RTCC = 1, RTCT = 0, RTCD = 0, RTWS = 0, RTTM = 0, RTTC = 0, RTIS = 0\<rparr>,
     rtct = 0, rtcd = 0, rtas = 0, rtc_alarm = rtc_time1, irq_update = False, irq_alarm = False, irq_wake = False\<rparr>"

theorem wmt_rtc_time_roundtrip_witness:
  "\<exists>s1. wmt_rtc_set_time rtc1 rtc_time1 = (s1, Inr 0) \<and>
    snd (wmt_rtc_read_time (upd_regs (\<lambda>r. r\<lparr>RTCT := RTTS r, RTCD := RTDS r\<rparr>) s1) (Some rtc_time1)) = Inr rtc_time1"
proof -
  have "rtc_time1\<lparr>tm_yday := tm_yday rtc_time1, tm_isdst := tm_isdst rtc_time1\<rparr> = rtc_time1" by (simp add: rtc_time1_def)
  moreover obtain s1 where s1: "wmt_rtc_set_time rtc1 rtc_time1 = (s1, Inr 0)"
      "\<forall>s2 t0. RTCT (rtc_regs s2) = RTTS (rtc_regs s1) \<longrightarrow> RTCD (rtc_regs s2) = RTDS (rtc_regs s1) \<longrightarrow>
        snd (wmt_rtc_read_time s2 (Some t0)) = Inr (rtc_time1\<lparr>tm_yday := tm_yday t0, tm_isdst := tm_isdst t0\<rparr>)"
    using wmt_rtc_time_roundtrip [of rtc_time1 rtc1] by (auto simp: rtc_time1_def rtc1_def)
  ultimately show ?thesis by (intro exI [of _ s1]) (simp add: upd_regs_def)
qed

end
