(* ===== verification/Spec2Isabelle.thy ===== *)
theory Spec2Isabelle
  imports WmtPll WmtPower MbProbe MbPrdtProps WmtEnvWit MtdThms MtdProps WmtDmaProps WmtRtc
begin

text \<open>
  Verification of platform code of the Linux 3.0.8 kernel for the WonderMedia WM8850. All paths
  are below \<^verbatim>\<open>src/ANDROID_3.0.8\<close>; the configuration is that of \<^verbatim>\<open>Android_defconfig\<close>.

  \<^bold>\<open>The parts and how they interact.\<close>
  \<^item> The clock driver (\<^verbatim>\<open>arch/arm/mach-wmt/wmt_clk.c\<close>) gates the clocks of the devices by a use
    count and searches divisors and PLL settings for a frequency.
  \<^item> The memory block driver (\<^verbatim>\<open>drivers/video/wmt/memblock.c\<close>) hands out physically contiguous
    memory of reserved areas to kernel clients and, through a character device, to tasks. It also
    describes user memory to DMA engines by tables of physical addresses.
  \<^item> The U-Boot environment (\<^verbatim>\<open>drivers/mtd/wmt_env.c\<close>) keeps named values in two copies in flash.
    It calls the methods of two MTD devices; before these are up it uses the flash controller directly.
  \<^item> The MTD core (\<^verbatim>\<open>drivers/mtd/mtdcore.c\<close>) keeps the numbered table of MTD devices with their use
    counts. The SPI flash driver (\<^verbatim>\<open>drivers/mtd/devices/wmt_sf.c\<close>) registers its chip there,
    divided into partitions (\<^verbatim>\<open>drivers/mtd/mtdpart.c\<close>), and the environment looks two of them up by
    name.
  \<^item> The DMA controller driver (\<^verbatim>\<open>arch/arm/mach-wmt/dma.c\<close>) gives channels to other drivers and
    keeps for each a ring of descriptors that the engine follows. It switches its clock on through
    the clock driver.
  \<^item> The real time clock (\<^verbatim>\<open>drivers/rtc/wmt-rtc.c\<close>) stands alone.

  \<^bold>\<open>Conventions.\<close> \<open>CPrelude\<close> has the C integers: values are mathematical integers and every cast or
  wrap-around that matters is written out as \<open>u8\<close>, \<open>u32\<close>, \<open>u64\<close> or \<open>s32\<close>. State is a record that
  operations take and return. What hardware, the slab allocator, \<^verbatim>\<open>ioremap\<close> or user memory answers
  is an argument, or a field of a record of answers; nothing is assumed of it unless a theorem says
  so. An error is a value. The result \<open>None\<close> is an access through a null or dangling pointer, one
  outside of an array, or a loop that does not end; theorems that an operation returns state that
  the result is \<open>Some\<close>.

  \<^bold>\<open>Clock driver.\<close> \<open>WmtDev\<close>: the device identifiers and \<^verbatim>\<open>calc_pll_num\<close>. \<open>WmtClk\<close>: the registers
  as record \<open>pmc\<close> and every function that \<^verbatim>\<open>auto_pll_divisor\<close> and \<^verbatim>\<open>manu_pll_divisor\<close> reach; the
  locale \<open>refcounted_gate\<close> (a gate with a use count) with its interpretation. \<open>WmtDivisor\<close>: the
  frequency that \<^verbatim>\<open>set_divisor\<close> chooses is the highest not above the target, and \<^verbatim>\<open>get_freq\<close> reads it
  back. \<open>WmtPll\<close>: the nested search loops with their early exits against the set of all settings.
  \<open>WmtPower\<close>: the power switch of the graphics processor.
  Waiting for a status register is bounded by a number of reads after which it answers; the
  theorems state that bound as \<open>ready\<close>.

  \<^bold>\<open>Memory blocks.\<close> \<open>MemBlock\<close>: areas, blocks and users (\<^verbatim>\<open>mba_host\<close>, \<^verbatim>\<open>mb_struct\<close>,
  \<^verbatim>\<open>mb_user\<close>) and the functions on them. \<open>MbDev\<close>: \<^verbatim>\<open>mb_open\<close>, \<^verbatim>\<open>mb_release\<close>, \<^verbatim>\<open>mb_ioctl\<close>,
  \<^verbatim>\<open>mb_mmap\<close>, \<^verbatim>\<open>mb_probe\<close>. \<open>MbZone\<close>, \<open>MbInv\<close>, \<open>MbAlloc\<close>, \<open>MbFree\<close>, \<open>MbOps\<close>: the geometry of
  an area, the invariant \<open>host_ok\<close> and that every operation keeps it. \<open>MbSpec\<close>, \<open>MbView\<close>,
  \<open>MbClient\<close>: the abstract state, a map from addresses to size and use count, and what the
  operations are on it. \<open>MbPool\<close>: the contract with kernel clients as locale \<open>block_pool\<close>, its
  interpretation. \<open>MbProps\<close>, \<open>MbUserProps\<close>: what clients rely on. \<open>MbRelease\<close>, \<open>MbIoctl\<close>,
  \<open>MbTasks\<close>, \<open>MbSys\<close>, \<open>MbDevProps\<close>: the device as a step relation over opened files, with its
  invariant \<open>sys_ok\<close>. \<open>MbFaults\<close>, \<open>MbProbe\<close>: what goes wrong, and the set-up. The rescans of
  \<^verbatim>\<open>mb_release\<close> are a partial function that is proved to return. \<open>MbPrdt\<close>: \<^verbatim>\<open>user_to_prdt\<close> with its
  three methods; \<open>MbPrdtProps\<close>: the entries of the table are the physical addresses of the bytes, in
  their order. Its walk over the page tables is a partial function, too, and is proved to return for
  memory that is mapped.

  \<^bold>\<open>Flash and environment.\<close> \<open>WmtSf\<close>: the flash controller and its chip, a list of bytes;
  erasing sets a sector to all ones, storing clears bits, and the k-th read of a status register is
  an arbitrary function of k.
  \<open>WmtEnv\<close>: checksum and strings; \<open>WmtEnvFlash\<close>: loading, writing back
  and the exported \<^verbatim>\<open>wmt_getsyspara\<close> and \<^verbatim>\<open>wmt_setsyspara\<close>. \<open>WmtEnvCrc\<close>: the table-driven checksum is
  CRC-32. \<open>WmtEnvSpec\<close>, \<open>WmtEnvEdit\<close>: the loops over the bytes as operations on a list of
  definitions. \<open>WmtSfProps\<close>: what the driver does to the bytes, whatever the status registers
  answer. \<open>WmtEnvCopies\<close>: the checksum field. \<open>WmtEnvReload\<close>, \<open>WmtEnvUpdate\<close>: the two copies
  through the locale \<open>env_devices\<close>, which states what the environment relies on of its devices. \<open>WmtEnvSf\<close>: its
  interpretation on the two partitions of the SPI flash. \<open>WmtEnvProps\<close>, \<open>WmtEnvWit\<close>: values survive
  a power cycle, an interrupted update loses neither copy, and what goes wrong. \<open>MtdThms\<close>: the
  flash driver by itself. Polling has the bound of the source, \<open>POLL_MAX\<close> reads.

  \<^bold>\<open>MTD devices.\<close> \<open>MtdPart\<close>: MTD devices as records of methods over the state of the flash, the
  methods of a partition and \<^verbatim>\<open>allocate_partition\<close>; \<open>MtdGeom\<close>: where a partition lies and what its
  methods pass on. \<open>MtdCore\<close>: the table of devices, the notifiers, the list of partitions and the
  parsers as record \<open>mtd_core\<close>, with registration, removal, lookup and references; devices are
  objects of a store, so that a table, a list and a client can hold the same one. \<open>MtdCoreInv\<close>: the
  invariant \<open>core_ok\<close>. \<open>MtdCoreSys\<close>: what each operation returns, that it keeps the invariant, and
  that a device in use stays. \<open>MtdTable\<close>: all operations as one step function, and the contract with
  users of the table as locale \<open>device_table\<close> with its interpretation. \<open>WmtSfDev\<close>: probe and removal
  of the SPI flash driver; \<open>WmtSfParts\<close>: the table after the built-in partitions are registered.
  \<open>MtdProps\<close>: the properties, the last one that the lookups of the environment find the devices on
  which the theorems about it rest. The attempts of the id allocator are a list of answers; the loop
  over bad blocks is a partial function that is proved to return.

  \<^bold>\<open>DMA controller.\<close> \<open>WmtDma\<close>: the channels, their rings and the registers as record \<open>dma_state\<close>, every
  exported operation, the interrupt handler, start and resume. \<open>WmtDmaInv\<close>: the invariant \<open>dma_ok\<close>
  and what an operation on one channel leaves alone. \<open>WmtDmaSys\<close>: the driver as a step relation
  with its clients, interrupts and an engine that changes its registers at will; every operation
  returns and keeps the invariant. \<open>WmtDmaQueue\<close>: the ring as a queue of buffers, which submission
  and completion refine. \<open>WmtDmaProps\<close>: what clients rely on, and where the driver goes wrong.

  \<^bold>\<open>Real time clock.\<close> \<open>WmtRtc\<close>: the register fields, time, alarm, interrupt and set-up; a time that was
  set is read back.

  \<^bold>\<open>Not modelled.\<close> Concurrency inside an operation: the drivers serialise their operations by
  locks, and the models are the operations in sequence. Text for \<^verbatim>\<open>/proc\<close> and the kernel log. In
  \<^verbatim>\<open>dma.c\<close> the exit function, which a built-in driver does not run. In the MTD layer the attributes in
  sysfs, the statistics of corrected reads, the character and block devices on top, and the NAND
  drivers below. The generic kernel and the other drivers of the platform are outside of the
  development.
\<close>

end
